(* ===== verification/Prelude.thy ===== *)
theory Prelude
  imports Complex_Main "HOL-Library.Sublist"
begin

text \<open>
  What every component of the model shares: the parts of the Go language and of its
  standard library that the repository uses, as executable functions, and the generic
  lemmas about them.

  \<^item> Integers: Go's \<open>int\<close> and \<open>int64\<close> are \<open>int\<close> with the wrap-around of \<open>wrap64\<close>
    written out wherever the code computes with them.
  \<^item> Strings are byte sequences, as in Go: one \<open>char\<close> is one byte, so a non-ASCII rune is
    its two to four bytes of UTF-8. \<open>strings.TrimSpace\<close> and \<open>strings.Fields\<close> know the
    Unicode white space by its UTF-8 encodings.
  \<^item> Instants (\<open>time.Time\<close>) are nanoseconds since the zero \<open>Time\<close>, so \<open>IsZero\<close> is
    \<open>t = 0\<close>; a \<open>time.Duration\<close> is a number of nanoseconds in 64 bits.
\<close>

named_theorems go_lib \<open>definitions of the Go library functions, to evaluate them\<close>

section \<open>Generic facts about lists\<close>

text \<open>A separator that occurs in neither left part splits a concatenation in one way.\<close>

lemma split_at_separator:
  "xs @ q # ys = xs' @ q # ys' \<Longrightarrow> q \<notin> set xs \<Longrightarrow> q \<notin> set xs' \<Longrightarrow> xs = xs' \<and> ys = ys'"
proof (induction xs arbitrary: xs')
  case Nil
  then show ?case by (cases xs') auto
next
  case (Cons x xs)
  then show ?case by (cases xs') auto
qed

lemma list_all2_elem2: "list_all2 P xs ys \<Longrightarrow> y \<in> set ys \<Longrightarrow> \<exists>x. x \<in> set xs \<and> P x y"
  by (metis in_set_conv_nth list_all2_conv_all_nth)

lemma sort_eq_Nil [simp]: "sort xs = [] \<longleftrightarrow> xs = []"
  by (metis length_0_conv length_sort)

section \<open>64-bit integers\<close>

definition wrap64 :: "int \<Rightarrow> int" where
  "wrap64 x = (x + 2 ^ 63) mod 2 ^ 64 - 2 ^ 63"

definition int64_range :: "int \<Rightarrow> bool" where
  "int64_range x \<longleftrightarrow> - (2 ^ 63) \<le> x \<and> x < 2 ^ 63"

lemma wrap64_range [simp]: "int64_range (wrap64 x)"
  by (simp add: wrap64_def int64_range_def)

lemma wrap64_id: "int64_range x \<Longrightarrow> wrap64 x = x"
  by (simp add: wrap64_def int64_range_def)

text \<open>Go's integer division truncates towards zero; the divisor is not zero.\<close>

definition go_div :: "int \<Rightarrow> int \<Rightarrow> int" where
  "go_div a b = sgn a * sgn b * (\<bar>a\<bar> div \<bar>b\<bar>)"

lemma go_div_nonneg: "0 \<le> a \<Longrightarrow> 0 < b \<Longrightarrow> go_div a b = a div b"
  by (cases "a = 0") (simp_all add: go_div_def)

text \<open>
  \<open>int64(f)\<close> of a finite \<open>float64\<close> truncates towards zero. Out of range the result depends on
  the platform; this is amd64's.
\<close>

definition f64_to_int64 :: "rat \<Rightarrow> int" where
  "f64_to_int64 q =
     (let t = (if 0 \<le> q then \<lfloor>q\<rfloor> else \<lceil>q\<rceil>) in if int64_range t then t else - (2 ^ 63))"

text \<open>\<open>big.Int.BitLen\<close>.\<close>

fun bit_len :: "nat \<Rightarrow> nat" where
  "bit_len n = (if n = 0 then 0 else Suc (bit_len (n div 2)))"

declare bit_len.simps [simp del]

lemma bit_len_ge: "2 ^ k \<le> n \<longleftrightarrow> k < bit_len n"
proof (induction n arbitrary: k rule: bit_len.induct)
  case (1 n)
  show ?case
  proof (cases k)
    case 0
    then show ?thesis by (subst bit_len.simps) simp
  next
    case (Suc j)
    have "2 ^ Suc j \<le> n \<longleftrightarrow> 2 ^ j \<le> n div 2" by (simp add: less_eq_div_iff_mult_less_eq mult.commute)
    with 1 Suc show ?thesis by (subst bit_len.simps) (cases "n = 0"; auto)
  qed
qed

text \<open>What a call does that can fail or panic.\<close>

datatype 'a outcome = Returns 'a | Fails string | Panics

section \<open>Time\<close>

type_synonym time = int
type_synonym duration = int

definition millisecond :: duration where "millisecond = 1000000"
definition second :: duration where "second = 1000000000"
definition minute :: duration where "minute = 60 * second"
definition zero_time :: time where "zero_time = 0"

text \<open>\<open>Time.Sub\<close> saturates at the bounds of \<open>Duration\<close>.\<close>

definition time_sub :: "time \<Rightarrow> time \<Rightarrow> duration" where
  "time_sub t u = max (- (2 ^ 63)) (min (2 ^ 63 - 1) (t - u))"

lemma time_sub_le: "d < 2 ^ 63 - 1 \<Longrightarrow> - (2 ^ 63) \<le> d \<Longrightarrow> (time_sub t u \<le> d) = (t - u \<le> d)"
  by (auto simp: time_sub_def)

lemma time_sub_less: "d < 2 ^ 63 - 1 \<Longrightarrow> - (2 ^ 63) < d \<Longrightarrow> (time_sub t u < d) = (t - u < d)"
  by (auto simp: time_sub_def)

section \<open>Strings\<close>

definition byte :: "char \<Rightarrow> nat" where
  "byte c = of_char c"

text \<open>The UTF-8 encodings of the code points of \<open>unicode.IsSpace\<close>.\<close>

definition ws_runes :: "string list" where
  "ws_runes =
     [[CHR 0x09], [CHR 0x0A], [CHR 0x0B], [CHR 0x0C], [CHR 0x0D], [CHR 0x20],
      [CHR 0xC2, CHR 0x85], [CHR 0xC2, CHR 0xA0], [CHR 0xE1, CHR 0x9A, CHR 0x80],
      [CHR 0xE2, CHR 0x80, CHR 0x80], [CHR 0xE2, CHR 0x80, CHR 0x81],
      [CHR 0xE2, CHR 0x80, CHR 0x82], [CHR 0xE2, CHR 0x80, CHR 0x83],
      [CHR 0xE2, CHR 0x80, CHR 0x84], [CHR 0xE2, CHR 0x80, CHR 0x85],
      [CHR 0xE2, CHR 0x80, CHR 0x86], [CHR 0xE2, CHR 0x80, CHR 0x87],
      [CHR 0xE2, CHR 0x80, CHR 0x88], [CHR 0xE2, CHR 0x80, CHR 0x89],
      [CHR 0xE2, CHR 0x80, CHR 0x8A], [CHR 0xE2, CHR 0x80, CHR 0xA8],
      [CHR 0xE2, CHR 0x80, CHR 0xA9], [CHR 0xE2, CHR 0x80, CHR 0xAF],
      [CHR 0xE2, CHR 0x81, CHR 0x9F], [CHR 0xE3, CHR 0x80, CHR 0x80]]"

text \<open>How many bytes the white space at the head of a string takes, 0 if there is none.\<close>

definition ws_width :: "string \<Rightarrow> nat" where
  "ws_width s = (case find (\<lambda>w. prefix w s) ws_runes of None \<Rightarrow> 0 | Some w \<Rightarrow> length w)"

definition ws_width_end :: "string \<Rightarrow> nat" where
  "ws_width_end s = (case find (\<lambda>w. suffix w s) ws_runes of None \<Rightarrow> 0 | Some w \<Rightarrow> length w)"

lemma ws_runes_nonempty: "w \<in> set ws_runes \<Longrightarrow> w \<noteq> []"
  by (auto simp: ws_runes_def)

lemma ws_width_le: "ws_width s \<le> length s"
  by (auto simp: ws_width_def find_Some_iff prefix_def split: option.splits)

lemma ws_width_end_le: "ws_width_end s \<le> length s"
  by (auto simp: ws_width_end_def find_Some_iff suffix_def split: option.splits)

lemma ws_width_Nil [simp]: "ws_width [] = 0" "ws_width_end [] = 0"
  using ws_width_le [of "[]"] ws_width_end_le [of "[]"] by simp_all

function trim_left :: "string \<Rightarrow> string" where
  "trim_left s = (if ws_width s = 0 then s else trim_left (drop (ws_width s) s))"
  by pat_completeness auto
termination
proof (relation "measure length")
  fix s assume "ws_width s \<noteq> 0"
  with ws_width_le [of s] show "(drop (ws_width s) s, s) \<in> measure length"
    by auto
qed simp

function trim_right :: "string \<Rightarrow> string" where
  "trim_right s =
     (if ws_width_end s = 0 then s else trim_right (take (length s - ws_width_end s) s))"
  by pat_completeness auto
termination
proof (relation "measure length")
  fix s assume "ws_width_end s \<noteq> 0"
  with ws_width_end_le [of s] show "(take (length s - ws_width_end s) s, s) \<in> measure length"
    by auto
qed simp

declare trim_left.simps [simp del] trim_right.simps [simp del]

definition trim_space :: "string \<Rightarrow> string" where
  "trim_space s = trim_right (trim_left s)"

lemma trim_space_Nil [simp]: "trim_space [] = []"
  by (simp add: trim_space_def trim_left.simps trim_right.simps)

text \<open>No white space starts or ends with a printable ASCII byte.\<close>

definition graphic :: "char \<Rightarrow> bool" where
  "graphic c \<longleftrightarrow> 33 \<le> byte c \<and> byte c \<le> 126"

lemma ws_runes_ends: "w \<in> set ws_runes \<Longrightarrow> \<not> graphic (hd w) \<and> \<not> graphic (last w)"
  by (auto simp: ws_runes_def graphic_def byte_def)

lemma ws_width_graphic [simp]: "graphic c \<Longrightarrow> ws_width (c # s) = 0"
proof -
  assume "graphic c"
  then have "\<not> prefix w (c # s)" if "w \<in> set ws_runes" for w
    using ws_runes_ends [OF that] ws_runes_nonempty [OF that] by (cases w) auto
  then have "find (\<lambda>w. prefix w (c # s)) ws_runes = None"
    by (simp add: find_None_iff)
  then show ?thesis by (simp add: ws_width_def)
qed

lemma ws_width_end_graphic: "s \<noteq> [] \<Longrightarrow> graphic (last s) \<Longrightarrow> ws_width_end s = 0"
proof -
  assume "s \<noteq> []" "graphic (last s)"
  then have "\<not> suffix w s" if "w \<in> set ws_runes" for w
    using ws_runes_ends [OF that] ws_runes_nonempty [OF that] by (auto simp: suffix_def)
  then have "find (\<lambda>w. suffix w s) ws_runes = None"
    by (simp add: find_None_iff)
  then show ?thesis by (simp add: ws_width_end_def)
qed

lemma ws_width_space [simp]: "ws_width (CHR '' '' # s) = 1"
  by (simp add: ws_width_def ws_runes_def)

lemma trim_space_graphic [simp]:
  "graphic c \<Longrightarrow> graphic (last (c # s)) \<Longrightarrow> trim_space (c # s) = c # s"
  by (simp add: trim_space_def trim_left.simps [of "c # s"] trim_right.simps [of "c # s"]
      ws_width_end_graphic)

text \<open>\<open>strings.TrimPrefix\<close> and \<open>strings.CutPrefix\<close>.\<close>

definition trim_prefix :: "string \<Rightarrow> string \<Rightarrow> string" where
  "trim_prefix s p = (if prefix p s then drop (length p) s else s)"

definition cut_prefix :: "string \<Rightarrow> string \<Rightarrow> string option" where
  "cut_prefix s p = (if prefix p s then Some (drop (length p) s) else None)"

lemma cut_prefix_Some: "cut_prefix s p = Some r \<longleftrightarrow> s = p @ r"
  by (auto simp: cut_prefix_def prefix_def)

lemma trim_prefix_same: "p \<noteq> [] \<Longrightarrow> trim_prefix s p = s \<longleftrightarrow> \<not> prefix p s"
  by (auto simp: trim_prefix_def prefix_def)

text \<open>\<open>strings.Fields\<close>: the maximal runs without white space.\<close>

function str_fields_from :: "string \<Rightarrow> string \<Rightarrow> string list" where
  "str_fields_from cur s =
     (if s = [] then (if cur = [] then [] else [rev cur])
      else if ws_width s = 0 then str_fields_from (hd s # cur) (tl s)
      else (if cur = [] then [] else [rev cur]) @ str_fields_from [] (drop (ws_width s) s))"
  by pat_completeness auto
termination
  by (relation "measure (\<lambda>(cur, s). length s)") auto

declare str_fields_from.simps [simp del]

definition str_fields :: "string \<Rightarrow> string list" where
  "str_fields s = str_fields_from [] s"

text \<open>\<open>strings.Split\<close> by one byte: never empty.\<close>

fun str_split :: "char \<Rightarrow> string \<Rightarrow> string list" where
  "str_split d [] = [[]]"
| "str_split d (c # cs) =
     (if c = d then [] # str_split d cs
      else (case str_split d cs of [] \<Rightarrow> [[c]] | p # ps \<Rightarrow> (c # p) # ps))"

lemma str_split_nonempty [simp]: "str_split d s \<noteq> []"
  by (induction s) (auto split: list.splits)

text \<open>\<open>strings.Contains\<close>.\<close>

definition str_contains :: "string \<Rightarrow> string \<Rightarrow> bool" where
  "str_contains s sub \<longleftrightarrow> list_ex (prefix sub) (suffixes s)"

text \<open>The ASCII letters and digits; \<open>strings.ToUpper\<close> and \<open>ToLower\<close> of one byte of ASCII.\<close>

definition is_lower :: "char \<Rightarrow> bool" where "is_lower c \<longleftrightarrow> 97 \<le> byte c \<and> byte c \<le> 122"
definition is_upper :: "char \<Rightarrow> bool" where "is_upper c \<longleftrightarrow> 65 \<le> byte c \<and> byte c \<le> 90"
definition is_digit :: "char \<Rightarrow> bool" where "is_digit c \<longleftrightarrow> 48 \<le> byte c \<and> byte c \<le> 57"

definition upper :: "char \<Rightarrow> char" where
  "upper c = (if is_lower c then char_of (byte c - 32) else c)"

definition lower :: "char \<Rightarrow> char" where
  "lower c = (if is_upper c then char_of (byte c + 32) else c)"

text \<open>\<open>strings.Join\<close>.\<close>

fun join :: "string \<Rightarrow> string list \<Rightarrow> string" where
  "join sep [] = []"
| "join sep [x] = x"
| "join sep (x # y # zs) = x @ sep @ join sep (y # zs)"

lemma str_fields_from_nonempty: "f \<in> set (str_fields_from cur s) \<Longrightarrow> f \<noteq> []"
  by (induction cur s rule: str_fields_from.induct)
    (subst (asm) (3) str_fields_from.simps, auto split: if_splits)

lemma str_fields_nonempty: "f \<in> set (str_fields s) \<Longrightarrow> f \<noteq> []"
  by (simp add: str_fields_def str_fields_from_nonempty)

lemmas go_string_defs [go_lib] =
  trim_prefix_def cut_prefix_def str_fields_def str_fields_from.simps graphic_def byte_def

end
