(* ===== verification/Jwt.thy ===== *)
theory Jwt
  imports Prelude
begin

text \<open>
  The interface to \<open>github.com/golang-jwt/jwt/v5\<close>, which is not part of the repository. The
  library is a record of functions that every definition using it takes as an argument; what
  the repository relies on is \<open>jwt_contract\<close>, stated over three functions of the token
  string: its header, its decoded payload, and which public keys verify its signature.

  A header carries the signing method the library resolved from \<open>alg\<close> (\<open>t.Method\<close>) and the
  raw header fields (\<open>t.Header\<close>); \<open>jwt.MapClaims\<close> is a map of JSON values. JSON numbers are
  rationals: they are finite \<open>float64\<close> values.
\<close>

section \<open>JSON values, headers and keys\<close>

datatype json =
    JNull
  | JBool bool
  | JNum rat
  | JStr string
  | JArr "json list"
  | JObj "(string \<times> json) list"

type_synonym map_claims = "string \<rightharpoonup> json"

text \<open>\<open>s, _ := m[k].(string)\<close>: the empty string when the value is missing or not a string.\<close>

definition str_claim :: "map_claims \<Rightarrow> string \<Rightarrow> string" where
  "str_claim c k = (case c k of Some (JStr s) \<Rightarrow> s | _ \<Rightarrow> [])"

lemma str_claim_nonempty: "str_claim c k = s \<Longrightarrow> s \<noteq> [] \<Longrightarrow> c k = Some (JStr s)"
  by (auto simp: str_claim_def split: option.splits json.splits)

record rsa_public_key =
  rsa_n :: nat
  rsa_e :: int

record jwt_header =
  method_alg :: string
  method_is_rsa :: bool
  header_fields :: map_claims

datatype keyfunc_error =
    MethodNotAccepted
  | SignatureInvalid
  | NoKid
  | UnknownKid string

type_synonym keyfunc = "jwt_header \<Rightarrow> keyfunc_error + rsa_public_key"

section \<open>Parser options and the library\<close>

record parser_opts =
  valid_methods :: "string list"
  strict_decoding :: bool
  want_issuer :: "string option"
  exp_required :: bool
  verify_issued_at :: bool
  po_leeway :: duration
  po_now :: time

text \<open>The claims struct of a service token, as \<open>encoding/json\<close> fills it.\<close>

record service_claims =
  sc_issuer :: string
  sc_subject :: string
  sc_audience :: string
  sc_scope :: string
  sc_token_use :: string
  sc_tenant_scope :: string
  sc_namespace :: string
  sc_issued_at :: "time option"
  sc_not_before :: "time option"
  sc_expires_at :: "time option"
  sc_id :: string

text \<open>
  The library's entry points: \<open>ParseWithClaims\<close> into the service claims, into a
  \<open>jwt.MapClaims\<close> and into a claims struct of a receiver's own (type \<open>'c\<close>), and
  \<open>ParseUnverified\<close>. \<open>None\<close> is any parse or validation error.
\<close>

record 'c jwt_lib =
  parse_service :: "parser_opts \<Rightarrow> keyfunc \<Rightarrow> string \<Rightarrow> (jwt_header \<times> service_claims) option"
  parse_map :: "parser_opts \<Rightarrow> keyfunc \<Rightarrow> string \<Rightarrow> map_claims option"
  parse_struct :: "parser_opts \<Rightarrow> keyfunc \<Rightarrow> string \<Rightarrow> 'c option"
  parse_unverified :: "string \<Rightarrow> map_claims option"

section \<open>What the library promises\<close>

text \<open>\<open>time.Unix(s, 0)\<close>: the seconds since the zero \<open>Time\<close> are 64 bits wide.\<close>

definition unix_time :: "int \<Rightarrow> time" where
  "unix_time s = wrap64 (s + 62135596800) * second"

definition exp_valid :: "parser_opts \<Rightarrow> time option \<Rightarrow> bool" where
  "exp_valid po e = (case e of None \<Rightarrow> \<not> exp_required po | Some t \<Rightarrow> po_now po < t + po_leeway po)"

definition nbf_valid :: "parser_opts \<Rightarrow> time option \<Rightarrow> bool" where
  "nbf_valid po b = (case b of None \<Rightarrow> True | Some t \<Rightarrow> t - po_leeway po \<le> po_now po)"

definition iat_valid :: "parser_opts \<Rightarrow> time option \<Rightarrow> bool" where
  "iat_valid po i \<longleftrightarrow>
     verify_issued_at po \<longrightarrow> (case i of None \<Rightarrow> True | Some t \<Rightarrow> t - po_leeway po \<le> po_now po)"

definition issuer_valid :: "parser_opts \<Rightarrow> string \<Rightarrow> bool" where
  "issuer_valid po iss = (case want_issuer po of None \<Rightarrow> True | Some w \<Rightarrow> iss = w)"

text \<open>A date claim of a \<open>MapClaims\<close>: absent (or 0), a number of seconds, or an error.\<close>

definition date_claim :: "map_claims \<Rightarrow> string \<Rightarrow> time option option" where
  "date_claim c k =
     (case c k of
        None \<Rightarrow> Some None
      | Some (JNum q) \<Rightarrow> if q = 0 then Some None else Some (Some (unix_time (f64_to_int64 (of_int \<lfloor>q\<rfloor>))))
      | Some _ \<Rightarrow> None)"

text \<open>The claims of a map: \<open>iat\<close> is looked at only with \<open>WithIssuedAt\<close>.\<close>

definition map_valid :: "parser_opts \<Rightarrow> map_claims \<Rightarrow> bool" where
  "map_valid po c =
     (case (date_claim c ''exp'', date_claim c ''nbf'') of
        (Some e, Some b) \<Rightarrow>
          exp_valid po e \<and> nbf_valid po b \<and> issuer_valid po (str_claim c ''iss'') \<and>
          (verify_issued_at po \<longrightarrow>
             (case date_claim c ''iat'' of Some i \<Rightarrow> iat_valid po i | None \<Rightarrow> False))
      | _ \<Rightarrow> False)"

definition service_valid :: "parser_opts \<Rightarrow> service_claims \<Rightarrow> bool" where
  "service_valid po c \<longleftrightarrow>
     exp_valid po (sc_expires_at c) \<and> nbf_valid po (sc_not_before c) \<and>
     iat_valid po (sc_issued_at c) \<and> issuer_valid po (sc_issuer c)"

text \<open>
  \<open>signature_ok hd verifies po kf tok\<close>: the method is accepted, the key function gives a key, and
  that key verifies the signature of the token.
\<close>

definition signature_ok ::
  "(string \<Rightarrow> jwt_header) \<Rightarrow> (rsa_public_key \<Rightarrow> string \<Rightarrow> bool) \<Rightarrow> parser_opts \<Rightarrow> keyfunc \<Rightarrow>
   string \<Rightarrow> bool" where
  "signature_ok hd_of verifies po kf tok \<longleftrightarrow>
     method_alg (hd_of tok) \<in> set (valid_methods po) \<and>
     (case kf (hd_of tok) of Inl _ \<Rightarrow> False | Inr k \<Rightarrow> verifies k tok)"

text \<open>
  The contract of the library, for one token string: \<open>hd_of\<close> is its header, \<open>payload\<close> its
  claims as a map, \<open>svc_of\<close> its claims decoded into the service struct and \<open>verifies k\<close> whether
  the key \<open>k\<close> verifies its signature. A decoding error is \<open>None\<close>: \<open>payload\<close> is what the lenient
  base64 decoding gives and \<open>svc_of\<close> what the strict one gives, and each entry point is described
  in the mode in which the repository calls it (\<open>WithStrictDecoding\<close> for service tokens only).
  Nothing is said of \<open>parse_struct\<close> but that it checks the signature and that its payload decodes.
\<close>

definition jwt_contract ::
  "'c jwt_lib \<Rightarrow> (string \<Rightarrow> jwt_header) \<Rightarrow> (string \<Rightarrow> map_claims option) \<Rightarrow>
   (string \<Rightarrow> service_claims option) \<Rightarrow> (rsa_public_key \<Rightarrow> string \<Rightarrow> bool) \<Rightarrow> bool" where
  "jwt_contract L hd_of payload svc_of verifies \<longleftrightarrow>
     (\<forall>po kf tok. strict_decoding po \<longrightarrow>
        parse_service L po kf tok =
          (case svc_of tok of
             None \<Rightarrow> None
           | Some c \<Rightarrow>
               if signature_ok hd_of verifies po kf tok \<and> service_valid po c
               then Some (hd_of tok, c) else None)) \<and>
     (\<forall>po kf tok. \<not> strict_decoding po \<longrightarrow>
        parse_map L po kf tok =
          (case payload tok of
             None \<Rightarrow> None
           | Some c \<Rightarrow>
               if signature_ok hd_of verifies po kf tok \<and> map_valid po c then Some c else None)) \<and>
     (\<forall>po kf tok x.
        parse_struct L po kf tok = Some x \<longrightarrow>
          signature_ok hd_of verifies po kf tok \<and> payload tok \<noteq> None) \<and>
     (\<forall>tok. parse_unverified L tok = payload tok)"

lemma contract_service:
  "jwt_contract L hd_of payload svc_of verifies \<Longrightarrow> strict_decoding po \<Longrightarrow>
   parse_service L po kf tok = Some (h, c) \<longleftrightarrow>
     svc_of tok = Some c \<and> h = hd_of tok \<and> signature_ok hd_of verifies po kf tok \<and> service_valid po c"
  by (auto simp: jwt_contract_def split: option.splits if_splits)

lemma contract_map:
  "jwt_contract L hd_of payload svc_of verifies \<Longrightarrow> \<not> strict_decoding po \<Longrightarrow>
   parse_map L po kf tok = Some c \<longleftrightarrow>
     payload tok = Some c \<and> signature_ok hd_of verifies po kf tok \<and> map_valid po c"
  by (auto simp: jwt_contract_def split: option.splits if_splits)

lemma contract_struct:
  "jwt_contract L hd_of payload svc_of verifies \<Longrightarrow> parse_struct L po kf tok = Some x \<Longrightarrow>
   signature_ok hd_of verifies po kf tok"
  by (auto simp: jwt_contract_def)

lemma contract_unverified:
  "jwt_contract L hd_of payload svc_of verifies \<Longrightarrow> parse_unverified L tok = payload tok"
  by (auto simp: jwt_contract_def)

text \<open>
  A library that meets the contract, built from the three functions: it shows that the
  contract can hold, and the witnesses of the theorems that assume it evaluate it.
\<close>

definition reference_lib ::
  "(string \<Rightarrow> jwt_header) \<Rightarrow> (string \<Rightarrow> map_claims option) \<Rightarrow> (string \<Rightarrow> service_claims option) \<Rightarrow>
   (rsa_public_key \<Rightarrow> string \<Rightarrow> bool) \<Rightarrow> unit jwt_lib" where
  "reference_lib hd_of payload svc_of verifies =
     \<lparr> parse_service = (\<lambda>po kf tok.
          (case svc_of tok of
             None \<Rightarrow> None
           | Some c \<Rightarrow>
               if signature_ok hd_of verifies po kf tok \<and> service_valid po c
               then Some (hd_of tok, c) else None)),
       parse_map = (\<lambda>po kf tok.
          (case payload tok of
             None \<Rightarrow> None
           | Some c \<Rightarrow>
               if signature_ok hd_of verifies po kf tok \<and> map_valid po c then Some c else None)),
       parse_struct = (\<lambda>po kf tok.
          if signature_ok hd_of verifies po kf tok \<and> payload tok \<noteq> None then Some () else None),
       parse_unverified = payload \<rparr>"

lemma reference_lib_contract:
  "jwt_contract (reference_lib hd_of payload svc_of verifies) hd_of payload svc_of verifies"
  by (auto simp: jwt_contract_def reference_lib_def)

end
