(* ===== verification/Encoding.thy ===== *)
theory Encoding
  imports Prelude "HOL-Library.Word"
begin

text \<open>
  The encodings of the Go standard library that the key identifier (\<open>jwtkeyring.KID\<close>) and
  the generated event identifiers go through: big-endian bytes of an integer
  (\<open>big.Int.Bytes\<close>), \<open>encoding/hex\<close>, \<open>base64.RawURLEncoding\<close> and \<open>sha256.Sum256\<close>.
  All of them compute.
\<close>

unbundle bit_operations_syntax

section \<open>Bytes, hex, base64\<close>

text \<open>\<open>big.Int.Bytes\<close>: the absolute value in big-endian order, without leading zeros.\<close>

fun nat_bytes :: "nat \<Rightarrow> string" where
  "nat_bytes n = (if n = 0 then [] else nat_bytes (n div 256) @ [char_of (n mod 256)])"

declare nat_bytes.simps [simp del]

fun bytes_nat :: "string \<Rightarrow> nat" where
  "bytes_nat [] = 0"
| "bytes_nat (c # cs) = byte c * 256 ^ length cs + bytes_nat cs"

definition hex_alphabet :: string where
  "hex_alphabet = ''0123456789abcdef''"

definition hex_digit :: "nat \<Rightarrow> char" where
  "hex_digit n = hex_alphabet ! n"

definition hex_encode :: "string \<Rightarrow> string" where
  "hex_encode s = concat (map (\<lambda>c. [hex_digit (byte c div 16), hex_digit (byte c mod 16)]) s)"

definition b64_digit :: "nat \<Rightarrow> char" where
  "b64_digit n = ''ABCDEFGHIJKLMNOPQRSTUVWXYZabcdefghijklmnopqrstuvwxyz0123456789-_'' ! n"

fun b64_raw_url :: "string \<Rightarrow> string" where
  "b64_raw_url [] = []"
| "b64_raw_url [a] = [b64_digit (byte a div 4), b64_digit (byte a mod 4 * 16)]"
| "b64_raw_url [a, b] =
     [b64_digit (byte a div 4), b64_digit (byte a mod 4 * 16 + byte b div 16),
      b64_digit (byte b mod 16 * 4)]"
| "b64_raw_url (a # b # c # s) =
     [b64_digit (byte a div 4), b64_digit (byte a mod 4 * 16 + byte b div 16),
      b64_digit (byte b mod 16 * 4 + byte c div 64), b64_digit (byte c mod 64)]
     @ b64_raw_url s"

section \<open>SHA-256\<close>

type_synonym w32 = "32 word"

text \<open>The round constants and the initial state of FIPS 180-4, in decimal.\<close>

definition sha_k :: "w32 list" where
  "sha_k =
     [1116352408, 1899447441, 3049323471, 3921009573, 961987163, 1508970993, 2453635748,
      2870763221, 3624381080, 310598401, 607225278, 1426881987, 1925078388, 2162078206,
      2614888103, 3248222580, 3835390401, 4022224774, 264347078, 604807628, 770255983,
      1249150122, 1555081692, 1996064986, 2554220882, 2821834349, 2952996808, 3210313671,
      3336571891, 3584528711, 113926993, 338241895, 666307205, 773529912, 1294757372,
      1396182291, 1695183700, 1986661051, 2177026350, 2456956037, 2730485921, 2820302411,
      3259730800, 3345764771, 3516065817, 3600352804, 4094571909, 275423344, 430227734,
      506948616, 659060556, 883997877, 958139571, 1322822218, 1537002063, 1747873779,
      1955562222, 2024104815, 2227730452, 2361852424, 2428436474, 2756734187, 3204031479,
      3329325298]"

definition sha_init :: "w32 list" where
  "sha_init =
     [1779033703, 3144134277, 1013904242, 2773480762, 1359893119, 2600822924, 528734635,
      1541459225]"

text \<open>Padding to blocks of 64 bytes: \<open>0x80\<close>, zeros, the bit length in eight bytes.\<close>

definition sha_pad :: "string \<Rightarrow> nat list" where
  "sha_pad s =
     (let n = length s; z = (55 + 64 - n mod 64) mod 64
      in map byte s @ [128] @ replicate z 0
         @ map (\<lambda>i. (8 * n) div 256 ^ (7 - i) mod 256) [0..<8])"

fun sha_words :: "nat list \<Rightarrow> w32 list" where
  "sha_words (a # b # c # d # s) =
     of_nat (((a * 256 + b) * 256 + c) * 256 + d) # sha_words s"
| "sha_words _ = []"

text \<open>\<open>bits.RotateLeft32(x, -n)\<close>.\<close>

definition rotr :: "nat \<Rightarrow> w32 \<Rightarrow> w32" where
  "rotr n x = drop_bit n x OR push_bit (32 - n) x"

definition small_sigma0 :: "w32 \<Rightarrow> w32" where
  "small_sigma0 x = rotr 7 x XOR rotr 18 x XOR drop_bit 3 x"

definition small_sigma1 :: "w32 \<Rightarrow> w32" where
  "small_sigma1 x = rotr 17 x XOR rotr 19 x XOR drop_bit 10 x"

definition big_sigma0 :: "w32 \<Rightarrow> w32" where
  "big_sigma0 x = rotr 2 x XOR rotr 13 x XOR rotr 22 x"

definition big_sigma1 :: "w32 \<Rightarrow> w32" where
  "big_sigma1 x = rotr 6 x XOR rotr 11 x XOR rotr 25 x"

primrec sha_schedule :: "nat \<Rightarrow> w32 list \<Rightarrow> w32 list" where
  "sha_schedule 0 w = w"
| "sha_schedule (Suc k) w =
     (let t = length w
      in sha_schedule k
           (w @ [small_sigma1 (w ! (t - 2)) + w ! (t - 7) + small_sigma0 (w ! (t - 15))
                 + w ! (t - 16)]))"

fun sha_round :: "w32 list \<Rightarrow> w32 \<times> w32 \<Rightarrow> w32 list" where
  "sha_round [a, b, c, d, e, f, g, h] (k, w) =
     (let t1 = h + big_sigma1 e + ((e AND f) XOR (NOT e AND g)) + k + w;
          t2 = big_sigma0 a + ((a AND b) XOR (a AND c) XOR (b AND c))
      in [t1 + t2, a, b, c, d + t1, e, f, g])"
| "sha_round s _ = s"

definition sha_block :: "w32 list \<Rightarrow> w32 list \<Rightarrow> w32 list" where
  "sha_block hs block =
     map2 (+) hs (foldl sha_round hs (zip sha_k (sha_schedule 48 block)))"

function sha_blocks :: "w32 list \<Rightarrow> w32 list \<Rightarrow> w32 list" where
  "sha_blocks hs ws =
     (if ws = [] then hs else sha_blocks (sha_block hs (take 16 ws)) (drop 16 ws))"
  by pat_completeness auto
termination
  by (relation "measure (\<lambda>(hs, ws). length ws)") auto

declare sha_blocks.simps [simp del]

definition word_bytes :: "w32 \<Rightarrow> string" where
  "word_bytes w = map (\<lambda>i. char_of (unat w div 256 ^ (3 - i) mod 256)) [0..<4]"

definition sha256 :: "string \<Rightarrow> string" where
  "sha256 s = concat (map word_bytes (sha_blocks sha_init (sha_words (sha_pad s))))"

section \<open>Facts about the encodings\<close>

lemma byte_less [simp]: "byte c < 256"
  unfolding byte_def by simp

lemma byte_eq_iff: "byte a = byte b \<longleftrightarrow> a = b"
  by (simp add: byte_def)

lemma byte_char_of [simp]: "n < 256 \<Longrightarrow> byte (char_of n) = n"
  by (simp add: byte_def)

lemma char_of_byte [simp]: "char_of (byte c) = c"
  by (simp add: byte_def)

lemma bytes_nat_append: "bytes_nat (s @ t) = bytes_nat s * 256 ^ length t + bytes_nat t"
  by (induction s) (simp_all add: algebra_simps power_add)

lemma bytes_nat_nat_bytes: "bytes_nat (nat_bytes n) = n"
proof (induction n rule: nat_bytes.induct)
  case (1 n)
  then show ?case
    by (subst nat_bytes.simps) (simp add: bytes_nat_append byte_def)
qed

lemma nat_bytes_inj: "nat_bytes m = nat_bytes n \<Longrightarrow> m = n"
  by (metis bytes_nat_nat_bytes)

lemma nat_bytes_no_leading_zero: "nat_bytes n = c # cs \<Longrightarrow> byte c \<noteq> 0"
proof (induction n arbitrary: c cs rule: nat_bytes.induct)
  case (1 n)
  show ?case
  proof (cases "n < 256")
    case True
    with "1.prems" show ?thesis
      by (subst (asm) nat_bytes.simps) (auto simp: nat_bytes.simps split: if_splits)
  next
    case False
    then obtain d ds where "nat_bytes (n div 256) = d # ds"
      by (cases "nat_bytes (n div 256)")
        (auto simp: nat_bytes.simps [of "n div 256"] split: if_splits)
    with "1" False show ?thesis
      by (subst (asm) (2) nat_bytes.simps) (auto split: if_splits)
  qed
qed

lemma hex_digit_in: "n < 16 \<Longrightarrow> hex_digit n \<in> set hex_alphabet"
  unfolding hex_digit_def by (rule nth_mem) (simp add: hex_alphabet_def)

lemma set_hex_encode: "set (hex_encode s) \<subseteq> set hex_alphabet"
proof -
  have "byte c div 16 < 16" for c by (simp add: less_mult_imp_div_less)
  then show ?thesis by (auto simp: hex_encode_def hex_digit_in)
qed

lemma length_hex_encode [simp]: "length (hex_encode s) = 2 * length s"
  by (induction s) (simp_all add: hex_encode_def)

lemma length_sha_round [simp]: "length hs = 8 \<Longrightarrow> length (sha_round hs kw) = 8"
  by (cases "(hs, kw)" rule: sha_round.cases) (auto simp: Let_def)

lemma length_sha_rounds: "length hs = 8 \<Longrightarrow> length (foldl sha_round hs kws) = 8"
  by (induction kws arbitrary: hs) auto

lemma length_sha_block [simp]: "length hs = 8 \<Longrightarrow> length (sha_block hs b) = 8"
  by (simp add: sha_block_def length_sha_rounds)

lemma length_sha_blocks: "length hs = 8 \<Longrightarrow> length (sha_blocks hs ws) = 8"
proof (induction hs ws rule: sha_blocks.induct)
  case (1 hs ws)
  then show ?case by (subst sha_blocks.simps) auto
qed

lemma length_word_bytes [simp]: "length (word_bytes w) = 4"
  by (simp add: word_bytes_def)

lemma length_sha256 [simp]: "length (sha256 s) = 32"
proof -
  have "length (concat (map word_bytes ws)) = 4 * length ws" for ws
    by (induction ws) simp_all
  then show ?thesis
    by (simp add: sha256_def length_sha_blocks sha_init_def)
qed

text \<open>Base64 without padding is decoded by \<open>b64_decode\<close>, so it loses nothing.\<close>

definition b64_alphabet :: string where
  "b64_alphabet = ''ABCDEFGHIJKLMNOPQRSTUVWXYZabcdefghijklmnopqrstuvwxyz0123456789-_''"

definition b64_index :: "char \<Rightarrow> nat" where
  "b64_index c = length (takeWhile (\<lambda>d. d \<noteq> c) b64_alphabet)"

lemma takeWhile_index: "distinct xs \<Longrightarrow> i < length xs \<Longrightarrow> length (takeWhile (\<lambda>d. d \<noteq> xs ! i) xs) = i"
proof (induction xs arbitrary: i)
  case (Cons x xs)
  then show ?case by (cases i) auto
qed simp

lemma b64_alphabet: "distinct b64_alphabet" "length b64_alphabet = 64" "CHR 0x22 \<notin> set b64_alphabet"
  by (simp_all add: b64_alphabet_def)

lemma b64_digit_nth: "b64_digit i = b64_alphabet ! i"
  by (simp add: b64_digit_def b64_alphabet_def)

lemma b64_index_digit [simp]: "i < 64 \<Longrightarrow> b64_index (b64_digit i) = i"
  by (simp add: b64_index_def b64_digit_nth takeWhile_index b64_alphabet)

lemma b64_digit_not_quote: "i < 64 \<Longrightarrow> b64_digit i \<noteq> CHR 0x22"
  using b64_alphabet(2,3) by (metis b64_digit_nth nth_mem)

fun b64_decode :: "string \<Rightarrow> string" where
  "b64_decode [a, b] = [char_of (b64_index a * 4 + b64_index b div 16)]"
| "b64_decode [a, b, c] =
     [char_of (b64_index a * 4 + b64_index b div 16),
      char_of (b64_index b mod 16 * 16 + b64_index c div 4)]"
| "b64_decode (a # b # c # d # s) =
     [char_of (b64_index a * 4 + b64_index b div 16),
      char_of (b64_index b mod 16 * 16 + b64_index c div 4),
      char_of (b64_index c mod 4 * 64 + b64_index d)] @ b64_decode s"
| "b64_decode _ = []"

lemma b64_parts [simp]:
  assumes "a < (256::nat)"
  shows "a div 4 < 64" "a mod 4 * 16 < 64" "b < 256 \<Longrightarrow> a mod 4 * 16 + b div 16 < 64"
    "a mod 16 * 4 < 64" "b < 256 \<Longrightarrow> a mod 16 * 4 + b div 64 < 64" "a mod 64 < 64"
proof -
  have "a mod 4 < 4" "a mod 16 < 16" by simp_all
  moreover have "b < 256 \<Longrightarrow> b div 16 < 16" "b < 256 \<Longrightarrow> b div 64 < 4" by auto
  ultimately show "a div 4 < 64" "a mod 4 * 16 < 64" "b < 256 \<Longrightarrow> a mod 4 * 16 + b div 16 < 64"
    "a mod 16 * 4 < 64" "b < 256 \<Longrightarrow> a mod 16 * 4 + b div 64 < 64" "a mod 64 < 64"
    using assms by linarith+
qed

lemma b64_joins:
  assumes "b < (256::nat)"
  shows "b div 16 div 16 = 0" "b div 16 mod 16 = b div 16" "b div 64 div 4 = 0"
    "b div 64 mod 4 = b div 64"
  using assms by (auto simp: div_mult2_eq [symmetric])

lemma b64_roundtrip: "b64_decode (b64_raw_url s) = s"
  by (induction s rule: b64_raw_url.induct) (simp_all add: b64_joins)

lemma b64_not_quote: "CHR 0x22 \<notin> set (b64_raw_url s)"
  by (induction s rule: b64_raw_url.induct) (auto dest: b64_digit_not_quote [OF b64_parts(1)] simp: b64_digit_not_quote [symmetric])

end
