(* ===== verification/Keyring.thy ===== *)
theory Keyring
  imports Jwt Encoding "HOL-Library.Char_ord" "HOL-Library.List_Lexorder"
begin

text \<open>
  \<open>infrastructure/jwtkeyring/jwtkeyring.go\<close>: the RSA public keys of the fleet's signer,
  indexed by a key identifier derived from the key itself, and the key function that selects
  one of them by the token's header.

  The file system, \<open>encoding/pem\<close> and \<open>crypto/x509\<close> are the record \<open>key_source\<close>; the
  environment is a function. A panic is a result of its own.
\<close>

section \<open>Key identifiers\<close>

text \<open>
  The loop of \<open>exponentBytes\<close> over a 4-byte buffer, filled from the end: \<open>i\<close> is the next
  free index plus one, and storing at index -1 is the panic \<open>None\<close>.
\<close>

fun exponent_loop :: "nat \<Rightarrow> int \<Rightarrow> string \<Rightarrow> string option" where
  "exponent_loop i v acc =
     (if v \<le> 0 then Some acc
      else (case i of
              0 \<Rightarrow> None
            | Suc j \<Rightarrow> exponent_loop j (v div 256) (char_of (nat (v mod 256)) # acc)))"

declare exponent_loop.simps [simp del]

definition exponent_bytes :: "int \<Rightarrow> string option" where
  "exponent_bytes v = exponent_loop 4 v []"

text \<open>The canonical JSON of the RFC 7638 thumbprint.\<close>

definition thumbprint_json :: "string \<Rightarrow> string \<Rightarrow> string" where
  "thumbprint_json e n =
     ''{'' @ [CHR 0x22] @ ''e'' @ [CHR 0x22] @ '':'' @ [CHR 0x22] @ e @ [CHR 0x22] @ '',''
     @ [CHR 0x22] @ ''kty'' @ [CHR 0x22] @ '':'' @ [CHR 0x22] @ ''RSA'' @ [CHR 0x22] @ '',''
     @ [CHR 0x22] @ ''n'' @ [CHR 0x22] @ '':'' @ [CHR 0x22] @ n @ [CHR 0x22] @ ''}''"

definition keyring_kid_prefix :: string where "keyring_kid_prefix = ''acc''"
definition keyring_kid_hex_length :: nat where "keyring_kid_hex_length = 12"
definition min_keyring_rsa_bits :: nat where "min_keyring_rsa_bits = 2048"

definition canonical_json :: "rsa_public_key \<Rightarrow> string option" where
  "canonical_json pub =
     map_option (\<lambda>e. thumbprint_json (b64_raw_url e) (b64_raw_url (nat_bytes (rsa_n pub))))
       (exponent_bytes (rsa_e pub))"

definition KID :: "rsa_public_key \<Rightarrow> string option" where
  "KID pub =
     (case canonical_json pub of
        None \<Rightarrow> None
      | Some j \<Rightarrow>
          Some (keyring_kid_prefix @ ''-''
                @ take keyring_kid_hex_length (hex_encode (sha256 j))))"

section \<open>Reading a key file\<close>

datatype parsed_key = ParsedRSA rsa_public_key | ParsedOther

record pem_block =
  pem_type :: string
  pem_bytes :: string

record key_source =
  fs_glob :: "string \<Rightarrow> string list option"
  fs_exists :: "string \<Rightarrow> bool"
  fs_read :: "string \<Rightarrow> string option"
  pem_decode :: "string \<Rightarrow> pem_block option \<times> string"
  parse_pkix :: "string \<Rightarrow> parsed_key option"

datatype pem_error =
    NotPem
  | MoreThanOneBlock
  | WrongBlock string
  | PkixError
  | NotRSA
  | TooFewBits nat

definition parse_rsa_public_pem :: "key_source \<Rightarrow> string \<Rightarrow> pem_error + rsa_public_key" where
  "parse_rsa_public_pem ks raw =
     (case pem_decode ks raw of
        (None, _) \<Rightarrow> Inl NotPem
      | (Some block, rest) \<Rightarrow>
          if trim_space rest \<noteq> [] then Inl MoreThanOneBlock
          else if pem_type block \<noteq> ''PUBLIC KEY'' then Inl (WrongBlock (pem_type block))
          else (case parse_pkix ks (pem_bytes block) of
                  None \<Rightarrow> Inl PkixError
                | Some ParsedOther \<Rightarrow> Inl NotRSA
                | Some (ParsedRSA pub) \<Rightarrow>
                    if bit_len (rsa_n pub) < min_keyring_rsa_bits
                    then Inl (TooFewBits (bit_len (rsa_n pub))) else Inr pub))"

text \<open>\<open>filepath.Base\<close>.\<close>

definition filepath_base :: "string \<Rightarrow> string" where
  "filepath_base p =
     (if p = [] then ''.''
      else let q = rev (dropWhile (\<lambda>c. c = CHR ''/'') (rev p))
           in if q = [] then ''/''
              else rev (takeWhile (\<lambda>c. c \<noteq> CHR ''/'') (rev q)))"

section \<open>Load, lookup, resolution\<close>

datatype keyring_error =
    EmptyDirectory
  | GlobFailed
  | StatFailed
  | NoPemFiles
  | ReadFailed
  | BadPem string pem_error
  | DuplicateKid string string string
  | MissingInRelease
  | ExponentPanic

text \<open>
  A keyring is the association list of its keys, in the order they were read. Loading
  keeps, for each kid, the file it came from (\<open>origin\<close>).
\<close>

type_synonym keyring = "(string \<times> rsa_public_key) list"

fun load_files ::
  "key_source \<Rightarrow> string list \<Rightarrow> keyring \<Rightarrow> (string \<times> string) list \<Rightarrow> keyring_error + keyring" where
  "load_files ks [] ring origin = Inr ring"
| "load_files ks (p # ps) ring origin =
     (case fs_read ks p of
        None \<Rightarrow> Inl ReadFailed
      | Some raw \<Rightarrow>
          (case parse_rsa_public_pem ks raw of
             Inl e \<Rightarrow> Inl (BadPem (filepath_base p) e)
           | Inr pub \<Rightarrow>
               (case KID pub of
                  None \<Rightarrow> Inl ExponentPanic
                | Some kid \<Rightarrow>
                    (case map_of origin kid of
                       Some prev \<Rightarrow> Inl (DuplicateKid kid prev (filepath_base p))
                     | None \<Rightarrow>
                         load_files ks ps (ring @ [(kid, pub)])
                           (origin @ [(kid, filepath_base p)])))))"

definition load :: "key_source \<Rightarrow> string \<Rightarrow> keyring_error + keyring" where
  "load ks dir =
     (if trim_space dir = [] then Inl EmptyDirectory
      else (case fs_glob ks dir of
              None \<Rightarrow> Inl GlobFailed
            | Some paths \<Rightarrow>
                if \<not> fs_exists ks dir then Inl StatFailed
                else if paths = [] then Inl NoPemFiles
                else load_files ks (sort paths) [] []))"

text \<open>A nil \<open>*Keyring\<close> is \<open>None\<close>: it has no key.\<close>

definition public_key_for :: "keyring option \<Rightarrow> string \<Rightarrow> rsa_public_key option" where
  "public_key_for ring kid = (case ring of None \<Rightarrow> None | Some r \<Rightarrow> map_of r kid)"

definition KIDs :: "keyring option \<Rightarrow> string list" where
  "KIDs ring = (case ring of None \<Rightarrow> [] | Some r \<Rightarrow> sort (map fst r))"

definition keyring_dir :: "(string \<Rightarrow> string) \<Rightarrow> string \<Rightarrow> string" where
  "keyring_dir getenv configured =
     (let dir = trim_space configured
      in if dir \<noteq> [] then dir else trim_space (getenv ''JWT_PUBLIC_KEY_DIR''))"

definition resolve ::
  "key_source \<Rightarrow> (string \<Rightarrow> string) \<Rightarrow> string \<Rightarrow> bool \<Rightarrow> keyring_error + keyring option" where
  "resolve ks getenv configured release =
     (let dir = keyring_dir getenv configured
      in if dir = [] then (if release then Inl MissingInRelease else Inr None)
         else (case load ks dir of Inl e \<Rightarrow> Inl e | Inr r \<Rightarrow> Inr (Some r)))"

section \<open>The key function\<close>

definition RS256 :: string where "RS256 = ''RS256''"

definition accepted_methods :: "string list" where
  "accepted_methods = [RS256]"

definition rs256_keyfunc :: "keyring option \<Rightarrow> keyfunc" where
  "rs256_keyfunc ring t =
     (if method_alg t \<noteq> RS256 then Inl MethodNotAccepted
      else if \<not> method_is_rsa t then Inl SignatureInvalid
      else let kid = str_claim (header_fields t) ''kid''
           in if kid = [] then Inl NoKid
              else (case public_key_for ring kid of
                      None \<Rightarrow> Inl (UnknownKid kid)
                    | Some pub \<Rightarrow> Inr pub))"

text \<open>\<open>Keyfunc\<close> and \<open>ParseDual\<close> keep a secret parameter and ignore it.\<close>

definition dual_keyfunc :: "string \<Rightarrow> keyring option \<Rightarrow> keyfunc" where
  "dual_keyfunc secret ring = rs256_keyfunc ring"

definition parse_dual ::
  "'c jwt_lib \<Rightarrow> time \<Rightarrow> string \<Rightarrow> string \<Rightarrow> keyring option \<Rightarrow> bool \<Rightarrow> map_claims option" where
  "parse_dual L now tok secret ring require_exp =
     parse_map L
       \<lparr> valid_methods = accepted_methods, strict_decoding = False, want_issuer = None,
         exp_required = require_exp, verify_issued_at = False, po_leeway = 0, po_now = now \<rparr>
       (rs256_keyfunc ring) tok"

section \<open>Facts about key identifiers\<close>

lemma exponent_loop_eq:
  "exponent_loop i v acc =
     (if v \<le> 0 then Some acc
      else if v < 256 ^ i then Some (nat_bytes (nat v) @ acc) else None)"
proof (induction i arbitrary: v acc)
  case 0
  then show ?case by (subst exponent_loop.simps) simp
next
  case (Suc i)
  show ?case
  proof (cases "v \<le> 0")
    case True
    then show ?thesis by (subst exponent_loop.simps) simp
  next
    case False
    have small: "v div 256 \<le> 0 \<longleftrightarrow> v < 256" by linarith
    have big: "v div 256 < 256 ^ i \<longleftrightarrow> v < 256 ^ Suc i"
    proof -
      have "v div 256 < P \<longleftrightarrow> v < 256 * P" for P :: int by linarith
      then show ?thesis by simp
    qed
    have le: "(256::int) \<le> 256 ^ Suc i" by simp
    have bytes: "nat_bytes (nat v) = nat_bytes (nat (v div 256)) @ [char_of (nat (v mod 256))]"
      using False by (subst nat_bytes.simps) (simp add: nat_div_distrib nat_mod_distrib)
    have zero: "v < 256 \<Longrightarrow> nat_bytes (nat (v div 256)) = []"
      using False by (subst nat_bytes.simps) simp
    show ?thesis
      using False small big le bytes zero
      by (subst exponent_loop.simps) (auto simp: Suc.IH)
  qed
qed

lemma exponent_bytes_eq:
  "exponent_bytes v =
     (if v \<le> 0 then Some [] else if v < 2 ^ 32 then Some (nat_bytes (nat v)) else None)"
  by (simp add: exponent_bytes_def exponent_loop_eq)

lemma thumbprint_inj:
  assumes eq: "thumbprint_json e n = thumbprint_json e' n'"
    and "CHR 0x22 \<notin> set e" "CHR 0x22 \<notin> set e'" "CHR 0x22 \<notin> set n" "CHR 0x22 \<notin> set n'"
  shows "e = e' \<and> n = n'"
proof -
  from eq have "e = e'" and "n @ CHR 0x22 # ''}'' = n' @ CHR 0x22 # ''}''"
    using assms(2,3) by (auto simp: thumbprint_json_def dest!: split_at_separator)
  then show ?thesis
    using split_at_separator [of n _ _ n'] assms(4,5) by blast
qed

lemma canonical_json_eq_None: "canonical_json pub = None \<longleftrightarrow> 2 ^ 32 \<le> rsa_e pub"
  by (auto simp: canonical_json_def exponent_bytes_eq)

text \<open>C36: The JSON that the key identifier hashes determines the key: two different RSA public
  keys with positive exponents never have the same canonical form, so keys share a kid only
  through a collision of the truncated hash.\<close>

theorem canonical_json_injective:
  assumes "0 < rsa_e p" "0 < rsa_e q" "p \<noteq> q" "canonical_json p = Some j"
  shows "canonical_json q \<noteq> Some j"
proof
  assume "canonical_json q = Some j"
  with assms(1,2,4) obtain
    "b64_raw_url (nat_bytes (nat (rsa_e p))) = b64_raw_url (nat_bytes (nat (rsa_e q)))"
    "b64_raw_url (nat_bytes (rsa_n p)) = b64_raw_url (nat_bytes (rsa_n q))"
    by (auto simp: canonical_json_def exponent_bytes_eq b64_not_quote split: if_splits
        dest!: thumbprint_inj [OF sym])
  then have "nat (rsa_e p) = nat (rsa_e q)" "rsa_n p = rsa_n q"
    by (metis b64_roundtrip nat_bytes_inj)+
  with assms(1-3) show False by (cases p; cases q) simp
qed

theorem canonical_json_injective_witness:
  "canonical_json \<lparr>rsa_n = 77, rsa_e = 65537\<rparr>
   \<noteq> Some (thumbprint_json (b64_raw_url (nat_bytes 3)) (b64_raw_url (nat_bytes 77)))"
  by (rule canonical_json_injective [of "\<lparr>rsa_n = 77, rsa_e = 3\<rparr>"])
    (simp_all add: canonical_json_def exponent_bytes_eq)

lemma length_KID: "KID pub = Some kid \<Longrightarrow> length kid = 16"
  by (auto simp: KID_def keyring_kid_prefix_def keyring_kid_hex_length_def split: option.splits)

text \<open>A key identifier is \<open>acc-\<close> and twelve hexadecimal digits, and deriving it panics
  (an index out of range in \<open>exponentBytes\<close>) exactly for the exponents that do not fit in four
  bytes.\<close>

theorem KID_shape:
  "case KID pub of
     None \<Rightarrow> 2 ^ 32 \<le> rsa_e pub
   | Some kid \<Rightarrow>
       rsa_e pub < 2 ^ 32 \<and> length kid = 16 \<and> take 4 kid = ''acc-'' \<and>
       set (drop 4 kid) \<subseteq> set hex_alphabet"
proof (cases "KID pub")
  case None
  then show ?thesis
    by (auto simp: KID_def canonical_json_eq_None split: option.splits)
next
  case (Some kid)
  then obtain j where j: "canonical_json pub = Some j"
    and kid: "kid = ''acc-'' @ take 12 (hex_encode (sha256 j))"
    by (auto simp: KID_def keyring_kid_prefix_def keyring_kid_hex_length_def split: option.splits)
  have "set (drop 4 kid) \<subseteq> set hex_alphabet"
    unfolding kid using set_hex_encode by (auto dest!: in_set_takeD)
  moreover have "rsa_e pub < 2 ^ 32"
    using j canonical_json_eq_None [of pub] by force
  ultimately show ?thesis
    using Some kid by (simp add: length_KID)
qed

section \<open>What a loaded keyring is\<close>

text \<open>A file that gives a key: readable, one PKIX block with an RSA key of enough bits.\<close>

definition key_file :: "key_source \<Rightarrow> string \<Rightarrow> string \<times> rsa_public_key \<Rightarrow> bool" where
  "key_file ks p entry \<longleftrightarrow>
     (case fs_read ks p of None \<Rightarrow> False | Some raw \<Rightarrow> parse_rsa_public_pem ks raw = Inr (snd entry)) \<and>
     KID (snd entry) = Some (fst entry)"

lemma key_file_fun: "key_file ks p e \<Longrightarrow> key_file ks p e' \<Longrightarrow> e = e'"
  by (cases e; cases e') (auto simp: key_file_def split: option.splits)

lemma parse_rsa_public_pem_bits:
  "parse_rsa_public_pem ks raw = Inr pub \<Longrightarrow> min_keyring_rsa_bits \<le> bit_len (rsa_n pub)"
  by (auto simp: parse_rsa_public_pem_def not_less
      split: prod.splits option.splits if_splits parsed_key.splits)

lemma key_file_bits: "key_file ks p (kid, pub) \<Longrightarrow> min_keyring_rsa_bits \<le> bit_len (rsa_n pub)"
  by (auto simp: key_file_def split: option.splits dest: parse_rsa_public_pem_bits)

lemma load_files_iff:
  "distinct (map fst origin) \<Longrightarrow>
   load_files ks ps ring origin = Inr r \<longleftrightarrow>
     (\<exists>new. r = ring @ new \<and> list_all2 (key_file ks) ps new \<and>
            distinct (map fst new) \<and> fst ` set origin \<inter> fst ` set new = {})"
proof (induction ps arbitrary: ring origin)
  case Nil
  then show ?case by auto
next
  case (Cons p ps)
  show ?case
  proof (cases "\<exists>e. key_file ks p e \<and> fst e \<notin> fst ` set origin")
    case True
    then obtain kid pub where e: "key_file ks p (kid, pub)" and new: "kid \<notin> fst ` set origin"
      by auto
    then have step: "load_files ks (p # ps) ring origin =
        load_files ks ps (ring @ [(kid, pub)]) (origin @ [(kid, filepath_base p)])"
      using map_of_eq_None_iff [of origin kid] by (auto simp: key_file_def split: option.splits)
    have dist: "distinct (map fst (origin @ [(kid, filepath_base p)]))"
      using Cons.prems new by auto
    show ?thesis
      unfolding step Cons.IH [OF dist]
      using e new by (auto simp: list_all2_Cons1 dest: key_file_fun)
  next
    case False
    then have "load_files ks (p # ps) ring origin \<noteq> Inr r"
      by (auto simp: key_file_def map_of_eq_None_iff split: option.splits sum.splits)
    moreover have "\<not> (list_all2 (key_file ks) (p # ps) new \<and> fst ` set origin \<inter> fst ` set new = {})"
      for new
    proof (cases new)
      case (Cons e zs)
      then have "key_file ks p e \<Longrightarrow> fst e \<in> fst ` set origin"
        using False by blast
      with Cons show ?thesis by auto
    qed simp
    ultimately show ?thesis by blast
  qed
qed

lemma load_Inr:
  "load ks dir = Inr ring \<longleftrightarrow>
     trim_space dir \<noteq> [] \<and> fs_exists ks dir \<and>
     (\<exists>paths. fs_glob ks dir = Some paths \<and> paths \<noteq> [] \<and>
        list_all2 (key_file ks) (sort paths) ring \<and> distinct (map fst ring))"
  by (auto simp: load_def load_files_iff split: option.splits)

text \<open>A directory loads exactly when it exists, holds at least one \<open>.pem\<close> file, and every
  one of its files is a single RSA public key of at least 2048 bits, no two with the same kid;
  the keyring is then the files' keys under the kids derived from them, in sorted file order.\<close>

theorem load_iff:
  "load ks dir = Inr ring \<longleftrightarrow>
     trim_space dir \<noteq> [] \<and> fs_exists ks dir \<and>
     (\<exists>paths. fs_glob ks dir = Some paths \<and> paths \<noteq> [] \<and>
        list_all2 (key_file ks) (sort paths) ring \<and> distinct (map fst ring))"
  by (rule load_Inr)

lemma load_entry:
  assumes "load ks dir = Inr ring" "public_key_for (Some ring) kid = Some pub"
  shows "KID pub = Some kid \<and> min_keyring_rsa_bits \<le> bit_len (rsa_n pub) \<and>
    (\<exists>paths. fs_glob ks dir = Some paths \<and> (\<exists>p. p \<in> set paths \<and> key_file ks p (kid, pub)))"
proof -
  from assms(2) have mem: "(kid, pub) \<in> set ring"
    by (auto simp: public_key_for_def dest: map_of_SomeD)
  from assms(1) obtain paths where paths: "fs_glob ks dir = Some paths"
    and files: "list_all2 (key_file ks) (sort paths) ring"
    by (auto simp: load_Inr)
  from files mem obtain p where "p \<in> set (sort paths)" and kf: "key_file ks p (kid, pub)"
    using list_all2_elem2 by metis
  then show ?thesis
    using paths key_file_bits [OF kf] by (auto simp: key_file_def)
qed

text \<open>A key that a keyring loaded from a directory gives for a kid is a key of that
  directory, has at least 2048 bits, and its own derived identifier is that kid: no
  configuration can bind a key to another identifier.\<close>

theorem loaded_key_matches_kid:
  assumes "resolve ks getenv configured release = Inr ring" "public_key_for ring kid = Some pub"
  shows "KID pub = Some kid \<and> min_keyring_rsa_bits \<le> bit_len (rsa_n pub) \<and>
    (\<exists>paths. fs_glob ks (keyring_dir getenv configured) = Some paths \<and>
       (\<exists>p. p \<in> set paths \<and> key_file ks p (kid, pub)))"
  using assms load_entry
  by (fastforce simp: resolve_def Let_def public_key_for_def split: if_splits sum.splits option.splits)

text \<open>A directory with one valid key, for the witnesses here and in the verifiers.\<close>

definition sample_key :: rsa_public_key where
  "sample_key = \<lparr>rsa_n = 2 ^ 2047, rsa_e = 65537\<rparr>"

definition sample_kid :: string where
  "sample_kid = the (KID sample_key)"

definition sample_source :: key_source where
  "sample_source =
     \<lparr> fs_glob = (\<lambda>_. Some [''iam.pem'']), fs_exists = (\<lambda>_. True), fs_read = (\<lambda>_. Some ''pem''),
       pem_decode = (\<lambda>_. (Some \<lparr>pem_type = ''PUBLIC KEY'', pem_bytes = ''der''\<rparr>, [])),
       parse_pkix = (\<lambda>_. Some (ParsedRSA sample_key)) \<rparr>"

lemma sample_key_kid: "KID sample_key = Some sample_kid"
proof -
  have "KID sample_key \<noteq> None"
    by (simp add: KID_def canonical_json_eq_None sample_key_def split: option.splits)
  then show ?thesis by (auto simp: sample_kid_def)
qed

lemma sample_key_bits: "min_keyring_rsa_bits \<le> bit_len (rsa_n sample_key)"
  using bit_len_ge [of 2047 "2 ^ 2047"]
  unfolding min_keyring_rsa_bits_def sample_key_def by (simp del: power_numeral)

lemma sample_load: "load sample_source ''/keys'' = Inr [(sample_kid, sample_key)]"
proof -
  have dir: "trim_space ''/keys'' \<noteq> []" by (simp add: go_lib)
  show ?thesis
    using sample_key_kid sample_key_bits dir
    by (simp add: load_def sample_source_def parse_rsa_public_pem_def not_less)
qed

lemma sample_kid_nonempty [simp]: "sample_kid \<noteq> []"
  using length_KID [OF sample_key_kid] by auto

theorem loaded_key_matches_kid_witness:
  "KID sample_key = Some sample_kid \<and> min_keyring_rsa_bits \<le> bit_len (rsa_n sample_key)"
proof -
  have "resolve sample_source (\<lambda>_. ''/keys'') [] True = Inr (Some [(sample_kid, sample_key)])"
    by (simp add: resolve_def keyring_dir_def sample_load go_lib)
  from loaded_key_matches_kid [OF this, of sample_kid sample_key] show ?thesis
    by (simp add: public_key_for_def)
qed

text \<open>In release mode a service that starts has a keyring with at least one key, and a
  configured directory is never replaced by an absent keyring, in any mode.\<close>

theorem resolve_fail_closed:
  "case resolve ks getenv configured release of
     Inl _ \<Rightarrow> True
   | Inr None \<Rightarrow> \<not> release \<and> keyring_dir getenv configured = []
   | Inr (Some ring) \<Rightarrow> ring \<noteq> [] \<and> load ks (keyring_dir getenv configured) = Inr ring"
proof (cases "load ks (keyring_dir getenv configured)")
  case Inl
  then show ?thesis by (auto simp: resolve_def Let_def)
next
  case (Inr ring)
  then have "ring \<noteq> []"
    by (auto simp: load_Inr dest: list_all2_lengthD)
  with Inr show ?thesis by (auto simp: resolve_def Let_def)
qed

section \<open>The key function as an interface\<close>

text \<open>
  What every verifier needs of its key function: a key it returns is one of the trusted keys,
  named by the token's own kid, and only for the RSA method \<open>meth\<close>. The library's signature check
  with such a key function proves that a trusted key signed the token.
\<close>

locale trusted_keyfunc =
  fixes kf :: keyfunc and trusted :: "string \<Rightarrow> rsa_public_key option" and meth :: string
  assumes kf_trusted:
    "kf h = Inr k \<Longrightarrow>
       method_alg h = meth \<and> method_is_rsa h \<and>
       trusted (str_claim (header_fields h) ''kid'') = Some k"
begin

lemma signed_trusted:
  assumes "signature_ok hd_of verifies po kf tok"
  obtains k where "verifies k tok" "method_alg (hd_of tok) = meth" "method_is_rsa (hd_of tok)"
    "trusted (str_claim (header_fields (hd_of tok)) ''kid'') = Some k"
  using assms kf_trusted by (auto simp: signature_ok_def split: sum.splits)

lemma unsigned_rejected:
  "trusted (str_claim (header_fields (hd_of tok)) ''kid'') = None \<Longrightarrow>
   \<not> signature_ok hd_of verifies po kf tok"
  using signed_trusted by force

end

lemma rs256_keyfunc_Inr:
  "rs256_keyfunc ring h = Inr k \<longleftrightarrow>
     method_alg h = RS256 \<and> method_is_rsa h \<and> str_claim (header_fields h) ''kid'' \<noteq> [] \<and>
     public_key_for ring (str_claim (header_fields h) ''kid'') = Some k"
  by (auto simp: rs256_keyfunc_def Let_def split: option.splits)

interpretation rs256: trusted_keyfunc "rs256_keyfunc ring" "public_key_for ring" RS256
  for ring :: "keyring option"
  by unfold_locales (simp add: rs256_keyfunc_Inr)

lemma signature_ok_rs256:
  "signature_ok hd_of verifies po (rs256_keyfunc ring) tok \<longleftrightarrow>
     RS256 \<in> set (valid_methods po) \<and> method_alg (hd_of tok) = RS256 \<and>
     method_is_rsa (hd_of tok) \<and> str_claim (header_fields (hd_of tok)) ''kid'' \<noteq> [] \<and>
     (\<exists>k. public_key_for ring (str_claim (header_fields (hd_of tok)) ''kid'') = Some k \<and>
          verifies k tok)"
  by (auto simp: signature_ok_def rs256_keyfunc_Inr split: sum.splits)
    (metis rs256_keyfunc_Inr sum.distinct(1))+

text \<open>The key function selects by the token's header alone: it gives a key exactly for an RSA
  token with \<open>alg\<close> RS256 and a non-empty string \<open>kid\<close> that names an active key, and then that
  key. Every other algorithm, a missing or unknown kid and an absent keyring are rejected.\<close>

theorem rs256_keyfunc_selects:
  "rs256_keyfunc ring h = Inr k \<longleftrightarrow>
     method_alg h = ''RS256'' \<and> method_is_rsa h \<and>
     (\<exists>keys kid. ring = Some keys \<and> header_fields h ''kid'' = Some (JStr kid) \<and> kid \<noteq> [] \<and>
        map_of keys kid = Some k)"
  by (auto simp: rs256_keyfunc_Inr RS256_def public_key_for_def str_claim_def
      split: option.splits json.splits)

text \<open>\<open>ParseDual\<close> accepts a token only if an active key of the keyring, the one its kid
  names, verifies its RS256 signature; the shared secret passed to it plays no part.\<close>

theorem parse_dual_signed:
  assumes "jwt_contract L hd_of payload svc_of verifies"
    and "parse_dual L now tok secret ring require_exp = Some c"
  shows "payload tok = Some c \<and> method_alg (hd_of tok) = RS256 \<and>
    (\<exists>k. public_key_for ring (str_claim (header_fields (hd_of tok)) ''kid'') = Some k \<and>
         verifies k tok) \<and>
    (\<forall>other. parse_dual L now tok other ring require_exp = Some c)"
proof -
  obtain po where "payload tok = Some c" "signature_ok hd_of verifies po (rs256_keyfunc ring) tok"
    using assms(2) by (auto simp: parse_dual_def contract_map [OF assms(1)])
  moreover from this(2) obtain k where "verifies k tok" "method_alg (hd_of tok) = RS256"
    "public_key_for ring (str_claim (header_fields (hd_of tok)) ''kid'') = Some k"
    by (rule rs256.signed_trusted)
  ultimately show ?thesis using assms(2) by (auto simp: parse_dual_def)
qed

text \<open>A token for the witnesses: signed with the sample key, RS256, \<open>typ\<close> as given.\<close>

definition sample_header :: "string \<Rightarrow> jwt_header" where
  "sample_header typ =
     \<lparr> method_alg = RS256, method_is_rsa = True,
       header_fields = [''kid'' \<mapsto> JStr sample_kid, ''typ'' \<mapsto> JStr typ] \<rparr>"

definition sample_ring :: "keyring option" where
  "sample_ring = Some [(sample_kid, sample_key)]"

lemma sample_keyfunc [simp]:
  "rs256_keyfunc sample_ring (sample_header typ) = Inr sample_key"
  by (simp add: rs256_keyfunc_def sample_header_def sample_ring_def public_key_for_def
      str_claim_def)

theorem parse_dual_signed_witness:
  "\<exists>c. parse_dual (reference_lib (\<lambda>_. sample_header ''JWT'') (\<lambda>_. Some [''sub'' \<mapsto> JStr ''u''])
          (\<lambda>_. None) (\<lambda>k tok. k = sample_key)) 0 ''tok'' ''secret'' sample_ring False = Some c \<and>
       c ''sub'' = Some (JStr ''u'')"
proof -
  let ?L = "reference_lib (\<lambda>_. sample_header ''JWT'') (\<lambda>_. Some [''sub'' \<mapsto> JStr ''u''])
     (\<lambda>_. None) (\<lambda>k tok. k = sample_key)"
  have accepted: "parse_dual ?L 0 ''tok'' ''secret'' sample_ring False = Some [''sub'' \<mapsto> JStr ''u'']"
    by (simp add: parse_dual_def reference_lib_def signature_ok_def accepted_methods_def map_valid_def
        date_claim_def exp_valid_def nbf_valid_def iat_valid_def issuer_valid_def)
      (simp add: sample_header_def)
  from parse_dual_signed [OF reference_lib_contract this] accepted show ?thesis by auto
qed

end
