(* ===== verification/Service_Token.thy ===== *)
theory Service_Token
  imports Keyring
begin

text \<open>
  \<open>infrastructure/s2stoken/s2stoken.go\<close>: the service-to-service token. The claims struct is
  \<open>service_claims\<close> of theory Jwt; here are the contract constants, the receiver's
  configuration and its validation, the verified principal, and \<open>Verify\<close> with every one of
  its checks in the code's order.

  Errors are values: \<open>ErrUnauthenticated\<close> (401) or \<open>ErrForbidden\<close> (403) with the reason the
  code formats into its text. The nil dereference that \<open>claims.ExpiresAt.Sub\<close> would be is a
  result of its own.
\<close>

section \<open>Contract constants\<close>

definition Issuer :: string where "Issuer = ''iam-service/s2s''"
definition UserIssuer :: string where "UserIssuer = ''iam-service''"
definition TokenUse :: string where "TokenUse = ''service''"
definition TokenType :: string where "TokenType = ''s2s+jwt''"
definition AssertionAudience :: string where "AssertionAudience = ''iam-service/s2s/token''"
definition TenantScopeUser :: string where "TenantScopeUser = ''user''"
definition TenantScopeSystem :: string where "TenantScopeSystem = ''system''"
definition TTL :: duration where "TTL = 300 * second"
definition Leeway :: duration where "Leeway = 30 * second"

section \<open>Errors\<close>

datatype config_error =
    NoKeyring
  | NoAudience
  | NoNamespace
  | AudienceIsAssertion
  | NoRequiredScopes

datatype s2s_reason =
    ConfigInvalid config_error
  | ParseFailed
  | BadType string
  | BadTokenUse string
  | MissingIssuedAt
  | LifetimeTooLong
  | WrongAudience string string
  | MissingSubject
  | MissingID
  | UnknownTenantScope string
  | ForeignNamespace string string
  | MissingScope string
  \<comment> \<open>user tokens\<close>
  | TokenUsePresent
  | BadUserIssuer
  | MissingKeyring
  | InvalidUserToken
  | UserTokenExpired
  \<comment> \<open>the receiver\<close>
  | MissingServiceToken
  | DenySubUnparseable
  | DeniedSubject
  | UnrecognizedTenantScope
  | TenantInGlobalOperation
  | SystemOperationWithoutTenant
  | TenantNotUUID
  | SystemTokenOnUserRoute
  | UserTokenOnSystemRoute
  | SystemScopeOnUserToken
  | MissingBearer
  | ForeignUserNamespace
  | UserWithoutTenant
  | TenantMismatch
  \<comment> \<open>a sentinel error the adapters use without a text\<close>
  | NoText

datatype s2s_error =
    ErrUnauthenticated s2s_reason
  | ErrForbidden s2s_reason
  | NilExpiryPanic

fun status_code :: "s2s_error option \<Rightarrow> int" where
  "status_code None = 200"
| "status_code (Some (ErrForbidden _)) = 403"
| "status_code (Some _) = 401"

section \<open>Configuration and principal\<close>

record s2s_config =
  cfg_keyring :: "keyring option"
  cfg_audience :: string
  cfg_namespace :: string
  required_scopes :: "string list"
  any_scope :: bool
  cfg_now :: "time option"

definition validate_config :: "s2s_config \<Rightarrow> config_error option" where
  "validate_config cfg =
     (if cfg_keyring cfg = None then Some NoKeyring
      else if trim_space (cfg_audience cfg) = [] then Some NoAudience
      else if trim_space (cfg_namespace cfg) = [] then Some NoNamespace
      else if cfg_audience cfg = AssertionAudience then Some AudienceIsAssertion
      else if required_scopes cfg = [] \<and> \<not> any_scope cfg then Some NoRequiredScopes
      else None)"

record principal =
  pr_subject :: string
  pr_audience :: string
  pr_scopes :: "string list"
  pr_tenant_scope :: string
  pr_namespace :: string
  pr_id :: string
  pr_kid :: string
  pr_expires_at :: time

definition scopes :: "service_claims \<Rightarrow> string list" where
  "scopes c = str_fields (sc_scope c)"

fun has_scope_in :: "string list \<Rightarrow> string \<Rightarrow> bool" where
  "has_scope_in [] scope = False"
| "has_scope_in (s # ss) scope = (if s = scope then True else has_scope_in ss scope)"

definition has_scope :: "principal \<Rightarrow> string \<Rightarrow> bool" where
  "has_scope p scope = has_scope_in (pr_scopes p) scope"

definition is_system :: "principal \<Rightarrow> bool" where
  "is_system p \<longleftrightarrow> pr_tenant_scope p = TenantScopeSystem"

section \<open>Verify\<close>

definition verify_clock :: "time \<Rightarrow> s2s_config \<Rightarrow> time" where
  "verify_clock now cfg = (case cfg_now cfg of None \<Rightarrow> now | Some t \<Rightarrow> t)"

definition verify_opts :: "time \<Rightarrow> s2s_config \<Rightarrow> parser_opts" where
  "verify_opts now cfg =
     \<lparr> valid_methods = [''RS256''], strict_decoding = True, want_issuer = Some Issuer,
       exp_required = True, verify_issued_at = True, po_leeway = Leeway,
       po_now = verify_clock now cfg \<rparr>"

text \<open>The loop over the required scopes: the first one the token lacks.\<close>

fun missing_scope :: "principal \<Rightarrow> string list \<Rightarrow> string option" where
  "missing_scope p [] = None"
| "missing_scope p (s # ss) = (if has_scope p s then missing_scope p ss else Some s)"

definition principal_of :: "jwt_header \<Rightarrow> service_claims \<Rightarrow> time \<Rightarrow> principal" where
  "principal_of h c expiry =
     \<lparr> pr_subject = sc_subject c, pr_audience = sc_audience c, pr_scopes = scopes c,
       pr_tenant_scope = sc_tenant_scope c, pr_namespace = sc_namespace c, pr_id = sc_id c,
       pr_kid = str_claim (header_fields h) ''kid'', pr_expires_at = expiry \<rparr>"

definition verify ::
  "'c jwt_lib \<Rightarrow> time \<Rightarrow> string \<Rightarrow> s2s_config \<Rightarrow> s2s_error + principal" where
  "verify L now tok cfg =
     (case validate_config cfg of
        Some e \<Rightarrow> Inl (ErrUnauthenticated (ConfigInvalid e))
      | None \<Rightarrow>
     (case parse_service L (verify_opts now cfg) (rs256_keyfunc (cfg_keyring cfg)) tok of
        None \<Rightarrow> Inl (ErrUnauthenticated ParseFailed)
      | Some (h, c) \<Rightarrow>
     if str_claim (header_fields h) ''typ'' \<noteq> TokenType
     then Inl (ErrUnauthenticated (BadType (str_claim (header_fields h) ''typ'')))
     else if sc_token_use c \<noteq> TokenUse
     then Inl (ErrUnauthenticated (BadTokenUse (sc_token_use c)))
     else (case sc_issued_at c of
        None \<Rightarrow> Inl (ErrUnauthenticated MissingIssuedAt)
      | Some iat \<Rightarrow>
     (case sc_expires_at c of
        None \<Rightarrow> Inl NilExpiryPanic
      | Some expiry \<Rightarrow>
     if time_sub expiry iat > TTL then Inl (ErrUnauthenticated LifetimeTooLong)
     else if sc_audience c \<noteq> cfg_audience cfg
     then Inl (ErrUnauthenticated (WrongAudience (sc_audience c) (cfg_audience cfg)))
     else if trim_space (sc_subject c) = [] then Inl (ErrUnauthenticated MissingSubject)
     else if trim_space (sc_id c) = [] then Inl (ErrUnauthenticated MissingID)
     else if sc_tenant_scope c \<noteq> TenantScopeUser \<and> sc_tenant_scope c \<noteq> TenantScopeSystem
     then Inl (ErrUnauthenticated (UnknownTenantScope (sc_tenant_scope c)))
     else if sc_namespace c \<noteq> cfg_namespace cfg
     then Inl (ErrForbidden (ForeignNamespace (sc_namespace c) (cfg_namespace cfg)))
     else let p = principal_of h c expiry
          in (case missing_scope p (required_scopes cfg) of
                Some s \<Rightarrow> Inl (ErrForbidden (MissingScope s))
              | None \<Rightarrow> Inr p)))))"

section \<open>Facts\<close>

lemma has_scope_in_set [simp]: "has_scope_in ss s \<longleftrightarrow> s \<in> set ss"
  by (induction ss) auto

lemma missing_scope_None: "missing_scope p ss = None \<longleftrightarrow> set ss \<subseteq> set (pr_scopes p)"
  by (induction ss) (auto simp: has_scope_def)

lemma missing_scope_Some:
  "missing_scope p ss = Some s \<Longrightarrow> s \<in> set ss \<and> s \<notin> set (pr_scopes p)"
  by (induction ss) (auto simp: has_scope_def split: if_splits)

lemma pr_scopes_principal_of [simp]: "pr_scopes (principal_of h c e) = scopes c"
  by (simp add: principal_of_def)

lemma durations: "TTL = 300000000000" "Leeway = 30000000000"
  by (simp_all add: TTL_def Leeway_def second_def)

lemma lifetime_le: "time_sub e i > TTL \<longleftrightarrow> e - i > TTL"
  using time_sub_le [of TTL e i] by (auto simp: durations)

text \<open>
  The contract of a service token, independent of the order in which the code checks it.
  A token authenticates to a receiver when an active key signed it under the service
  contract (\<open>iss\<close>, \<open>typ\<close>, \<open>token_use\<close>), it is fresh, it is addressed to this receiver and it
  names its emitter; it is authorized when it also has the receiver's namespace and every
  required scope.
\<close>

definition token_signed ::
  "(string \<Rightarrow> jwt_header) \<Rightarrow> (rsa_public_key \<Rightarrow> string \<Rightarrow> bool) \<Rightarrow> keyring option \<Rightarrow> string \<Rightarrow> bool"
  where
  "token_signed hd_of verifies ring tok \<longleftrightarrow>
     method_alg (hd_of tok) = RS256 \<and> method_is_rsa (hd_of tok) \<and>
     str_claim (header_fields (hd_of tok)) ''kid'' \<noteq> [] \<and>
     (\<exists>k. public_key_for ring (str_claim (header_fields (hd_of tok)) ''kid'') = Some k \<and>
          verifies k tok)"

definition token_fresh :: "time \<Rightarrow> service_claims \<Rightarrow> bool" where
  "token_fresh now c \<longleftrightarrow>
     (\<exists>iat expiry. sc_issued_at c = Some iat \<and> sc_expires_at c = Some expiry \<and>
        iat \<le> now + Leeway \<and> now < expiry + Leeway \<and> expiry \<le> iat + TTL) \<and>
     (case sc_not_before c of None \<Rightarrow> True | Some b \<Rightarrow> b \<le> now + Leeway)"

definition token_contract :: "jwt_header \<Rightarrow> service_claims \<Rightarrow> bool" where
  "token_contract h c \<longleftrightarrow>
     sc_issuer c = Issuer \<and> str_claim (header_fields h) ''typ'' = TokenType \<and>
     sc_token_use c = TokenUse \<and> sc_tenant_scope c \<in> {TenantScopeUser, TenantScopeSystem} \<and>
     trim_space (sc_subject c) \<noteq> [] \<and> trim_space (sc_id c) \<noteq> []"

definition authenticates ::
  "(string \<Rightarrow> jwt_header) \<Rightarrow> (rsa_public_key \<Rightarrow> string \<Rightarrow> bool) \<Rightarrow> time \<Rightarrow> s2s_config \<Rightarrow> string \<Rightarrow>
   service_claims \<Rightarrow> bool" where
  "authenticates hd_of verifies now cfg tok c \<longleftrightarrow>
     validate_config cfg = None \<and> token_signed hd_of verifies (cfg_keyring cfg) tok \<and>
     token_contract (hd_of tok) c \<and> token_fresh (verify_clock now cfg) c \<and>
     sc_audience c = cfg_audience cfg"

definition authorized :: "s2s_config \<Rightarrow> service_claims \<Rightarrow> bool" where
  "authorized cfg c \<longleftrightarrow>
     sc_namespace c = cfg_namespace cfg \<and> set (required_scopes cfg) \<subseteq> set (scopes c)"

lemma service_parse_iff:
  assumes "jwt_contract L hd_of payload svc_of verifies"
  shows "parse_service L (verify_opts now cfg) (rs256_keyfunc ring) tok = Some (h, c) \<longleftrightarrow>
    svc_of tok = Some c \<and> h = hd_of tok \<and> token_signed hd_of verifies ring tok \<and>
    sc_issuer c = Issuer \<and>
    (case sc_expires_at c of None \<Rightarrow> False | Some e \<Rightarrow> verify_clock now cfg < e + Leeway) \<and>
    (case sc_issued_at c of None \<Rightarrow> True | Some i \<Rightarrow> i \<le> verify_clock now cfg + Leeway) \<and>
    (case sc_not_before c of None \<Rightarrow> True | Some b \<Rightarrow> b \<le> verify_clock now cfg + Leeway)"
proof -
  have strict: "strict_decoding (verify_opts now cfg)" by (simp add: verify_opts_def)
  show ?thesis
    unfolding contract_service [OF assms strict] signature_ok_rs256 service_valid_def token_signed_def
    by (auto simp: verify_opts_def RS256_def exp_valid_def iat_valid_def nbf_valid_def
      issuer_valid_def split: option.splits)
qed

lemma verify_cases:
  assumes "jwt_contract L hd_of payload svc_of verifies"
  shows "case verify L now tok cfg of
      Inr p \<Rightarrow> (\<exists>c expiry. svc_of tok = Some c \<and> sc_expires_at c = Some expiry \<and>
                 authenticates hd_of verifies now cfg tok c \<and> authorized cfg c \<and>
                 p = principal_of (hd_of tok) c expiry)
    | Inl (ErrForbidden _) \<Rightarrow>
        (\<exists>c. svc_of tok = Some c \<and> authenticates hd_of verifies now cfg tok c \<and> \<not> authorized cfg c)
    | Inl (ErrUnauthenticated _) \<Rightarrow>
        \<not> (\<exists>c. svc_of tok = Some c \<and> authenticates hd_of verifies now cfg tok c)
    | Inl NilExpiryPanic \<Rightarrow> False"
proof (cases "validate_config cfg")
  case (Some e)
  then show ?thesis by (simp add: verify_def authenticates_def)
next
  case valid: None
  show ?thesis
  proof (cases "parse_service L (verify_opts now cfg) (rs256_keyfunc (cfg_keyring cfg)) tok")
    case None
    have "\<not> (svc_of tok = Some c \<and> authenticates hd_of verifies now cfg tok c)" for c
      using None service_parse_iff [OF assms, of now cfg "cfg_keyring cfg" tok "hd_of tok" c]
      by (auto simp: authenticates_def token_contract_def token_fresh_def)
    with valid None show ?thesis by (simp add: verify_def)
  next
    case (Some hc)
    then obtain h c where hc: "hc = (h, c)" by (cases hc)
    note parsed = Some [unfolded hc service_parse_iff [OF assms]]
    then obtain expiry where expiry: "sc_expires_at c = Some expiry" by (auto split: option.splits)
    show ?thesis
      using valid Some hc parsed expiry
      by (auto simp: verify_def authenticates_def authorized_def token_contract_def
          token_fresh_def lifetime_le missing_scope_None Let_def
          split: option.splits dest!: missing_scope_Some)
  qed
qed

section \<open>What Verify decides\<close>

text \<open>C1: \<open>Verify\<close> accepts exactly the service tokens that authenticate to this receiver and
  are authorized by it (the abstract contract above, free of the order of the checks), under a
  valid configuration, and its principal carries that token's claims and kid.\<close>

theorem verify_accepts_iff:
  assumes "jwt_contract L hd_of payload svc_of verifies"
  shows "verify L now tok cfg = Inr p \<longleftrightarrow>
    (\<exists>c expiry. svc_of tok = Some c \<and> sc_expires_at c = Some expiry \<and>
       authenticates hd_of verifies now cfg tok c \<and> authorized cfg c \<and>
       p = principal_of (hd_of tok) c expiry)"
  using verify_cases [OF assms, where now = now and tok = tok and cfg = cfg]
  by (auto split: sum.splits s2s_error.splits)

text \<open>C30: The status of a rejected service token separates the two questions: 403 exactly when
  the token authenticates to this receiver but lacks its namespace or a required scope, 401
  in every other case; and \<open>Verify\<close> never dereferences a missing expiry.\<close>

theorem verify_error_status:
  assumes "jwt_contract L hd_of payload svc_of verifies"
    and "verify L now tok cfg = Inl e"
  shows "e \<noteq> NilExpiryPanic \<and>
    (status_code (Some e) = 403 \<longleftrightarrow>
       (\<exists>c. svc_of tok = Some c \<and> authenticates hd_of verifies now cfg tok c \<and>
            \<not> authorized cfg c)) \<and>
    (status_code (Some e) = 401 \<longleftrightarrow>
       (\<forall>c. svc_of tok \<noteq> Some c \<or> \<not> authenticates hd_of verifies now cfg tok c))"
  using verify_cases [OF assms(1), where now = now and tok = tok and cfg = cfg] assms(2)
  by (cases e) auto

text \<open>A service token is worth at most its lifetime plus the clock tolerance on both sides:
  two instants at which a receiver accepts the same token are less than 360 seconds apart, so a
  leaked token is useless after that, whatever expiry its emitter asked for.\<close>

theorem acceptance_window:
  assumes "jwt_contract L hd_of payload svc_of verifies"
    and "verify L t tok cfg = Inr p" "verify L u tok cfg' = Inr q"
  shows "verify_clock u cfg' - verify_clock t cfg < 360 * second"
proof -
  obtain c where "token_fresh (verify_clock t cfg) c" "token_fresh (verify_clock u cfg') c"
    using assms(2,3) verify_cases [OF assms(1), where now = t and tok = tok and cfg = cfg]
      verify_cases [OF assms(1), where now = u and tok = tok and cfg = cfg']
    by (auto simp: authenticates_def)
  then show ?thesis by (auto simp: token_fresh_def durations second_def)
qed

text \<open>A service accepts no token at all under an invalid configuration: without a keyring,
  its own name, a namespace, or a declared scope for the route (unless \<open>AnyScope\<close> is set
  explicitly), \<open>Verify\<close> answers 401 to every token.\<close>

theorem invalid_config_rejects_all:
  assumes "cfg_keyring cfg = None \<or> trim_space (cfg_audience cfg) = [] \<or>
    trim_space (cfg_namespace cfg) = [] \<or> cfg_audience cfg = AssertionAudience \<or>
    (required_scopes cfg = [] \<and> any_scope cfg = False)"
  shows "\<exists>e. verify L now tok cfg = Inl (ErrUnauthenticated (ConfigInvalid e))"
  using assms by (auto simp: verify_def validate_config_def)

section \<open>Witnesses\<close>

definition sample_now :: time where
  "sample_now = 63900000000 * second"

definition sample_claims :: "string \<Rightarrow> service_claims" where
  "sample_claims tenant_scope =
     \<lparr> sc_issuer = Issuer, sc_subject = ''sales'', sc_audience = ''stock'',
       sc_scope = ''stock:read stock:write'', sc_token_use = TokenUse,
       sc_tenant_scope = tenant_scope, sc_namespace = ''mc'', sc_issued_at = Some sample_now,
       sc_not_before = None, sc_expires_at = Some (sample_now + TTL), sc_id = ''j1'' \<rparr>"

definition sample_cfg :: "string list \<Rightarrow> s2s_config" where
  "sample_cfg ss =
     \<lparr> cfg_keyring = sample_ring, cfg_audience = ''stock'', cfg_namespace = ''mc'',
       required_scopes = ss, any_scope = False, cfg_now = None \<rparr>"

definition sample_lib :: "string \<Rightarrow> unit jwt_lib" where
  "sample_lib tenant_scope =
     reference_lib (\<lambda>_. sample_header TokenType) (\<lambda>_. Some Map.empty)
       (\<lambda>_. Some (sample_claims tenant_scope)) (\<lambda>k tok. k = sample_key)"

lemma sample_scopes: "scopes (sample_claims ts) = [''stock:read'', ''stock:write'']"
  by (simp add: scopes_def sample_claims_def go_lib)

lemma sample_signed:
  "token_signed (\<lambda>_. sample_header typ) (\<lambda>k tok. k = sample_key) sample_ring tok"
  by (simp add: token_signed_def sample_header_def sample_ring_def public_key_for_def str_claim_def)

lemma sample_valid_config: "ss \<noteq> [] \<Longrightarrow> validate_config (sample_cfg ss) = None"
  by (simp add: validate_config_def sample_cfg_def sample_ring_def AssertionAudience_def go_lib)

lemma sample_authenticates:
  assumes "ts = TenantScopeUser \<or> ts = TenantScopeSystem" "0 \<le> d" "d < 330 * second" "ss \<noteq> []"
  shows "authenticates (\<lambda>_. sample_header TokenType) (\<lambda>k tok. k = sample_key)
    (sample_now + d) (sample_cfg ss) tok (sample_claims ts)"
proof -
  have contract: "token_contract (sample_header TokenType) (sample_claims ts)"
    using assms(1)
    by (auto simp: token_contract_def sample_claims_def sample_header_def str_claim_def go_lib)
  have "token_fresh (sample_now + d) (sample_claims ts)"
    using assms(2,3) by (simp add: token_fresh_def sample_claims_def durations second_def)
  then show ?thesis
    using contract assms(4)
    by (simp add: authenticates_def sample_valid_config sample_signed verify_clock_def)
      (simp add: sample_cfg_def sample_signed sample_claims_def)
qed

lemma sample_authorized: "authorized (sample_cfg ss) (sample_claims ts) \<longleftrightarrow>
    set ss \<subseteq> {''stock:read'', ''stock:write''}"
  unfolding authorized_def sample_scopes by (simp add: sample_cfg_def sample_claims_def)

definition sample_principal :: "string \<Rightarrow> principal" where
  "sample_principal ts = principal_of (sample_header TokenType) (sample_claims ts) (sample_now + TTL)"

lemma sample_verify:
  assumes "ts = TenantScopeUser \<or> ts = TenantScopeSystem" "0 \<le> d" "d < 330 * second"
    and "ss \<noteq> []" "set ss \<subseteq> {''stock:read'', ''stock:write''}"
  shows "verify (sample_lib ts) (sample_now + d) tok (sample_cfg ss) = Inr (sample_principal ts)"
proof -
  have "svc_of tok = Some c \<Longrightarrow> c = sample_claims ts" if "svc_of = (\<lambda>_. Some (sample_claims ts))"
    for c svc_of using that by auto
  then show ?thesis
    using sample_authenticates [OF assms(1-4)] assms(5)
      verify_cases [OF reference_lib_contract, where now = "sample_now + d" and tok = tok
        and cfg = "sample_cfg ss" and hd_of = "\<lambda>_. sample_header TokenType"
        and svc_of = "\<lambda>_. Some (sample_claims ts)" and verifies = "\<lambda>k tok. k = sample_key"
        and payload = "\<lambda>_. Some Map.empty"]
    by (auto simp: sample_lib_def sample_authorized sample_principal_def
        split: sum.splits s2s_error.splits) (simp_all add: sample_claims_def)
qed

theorem verify_accepts_iff_witness:
  "(\<exists>c. authenticates (\<lambda>_. sample_header TokenType) (\<lambda>k tok. k = sample_key) sample_now
      (sample_cfg [''stock:read'']) ''tok'' c \<and> authorized (sample_cfg [''stock:read'']) c) \<and>
   (\<forall>p. verify (sample_lib TenantScopeUser) sample_now ''tok'' (sample_cfg [''stock:admin'']) \<noteq> Inr p)"
proof
  have "verify (sample_lib TenantScopeUser) sample_now ''tok'' (sample_cfg [''stock:read''])
      = Inr (sample_principal TenantScopeUser)"
    using sample_verify [of TenantScopeUser 0] by (simp add: second_def)
  then show "\<exists>c. authenticates (\<lambda>_. sample_header TokenType) (\<lambda>k tok. k = sample_key) sample_now
      (sample_cfg [''stock:read'']) ''tok'' c \<and> authorized (sample_cfg [''stock:read'']) c"
    unfolding sample_lib_def verify_accepts_iff [OF reference_lib_contract] by blast
  show "\<forall>p. verify (sample_lib TenantScopeUser) sample_now ''tok'' (sample_cfg [''stock:admin'']) \<noteq> Inr p"
    unfolding sample_lib_def verify_accepts_iff [OF reference_lib_contract]
    by (auto simp: sample_authorized)
qed

theorem verify_error_status_witness:
  "\<exists>e. verify (sample_lib TenantScopeUser) sample_now ''tok'' (sample_cfg [''stock:admin'']) = Inl e \<and>
       status_code (Some e) = 403"
proof -
  have auth: "authenticates (\<lambda>_. sample_header TokenType) (\<lambda>k tok. k = sample_key) sample_now
      (sample_cfg [''stock:admin'']) ''tok'' (sample_claims TenantScopeUser)"
    using sample_authenticates [of TenantScopeUser 0] by (simp add: second_def)
  have "verify (sample_lib TenantScopeUser) sample_now ''tok'' (sample_cfg [''stock:admin''])
      \<noteq> Inr p" for p
    using verify_cases [OF reference_lib_contract, where now = sample_now and tok = "''tok''"
        and cfg = "sample_cfg [''stock:admin'']" and hd_of = "\<lambda>_. sample_header TokenType"
        and svc_of = "\<lambda>_. Some (sample_claims TenantScopeUser)"
        and verifies = "\<lambda>k tok. k = sample_key" and payload = "\<lambda>_. Some Map.empty"]
    by (auto simp: sample_lib_def sample_authorized)
  then obtain e where e: "verify (sample_lib TenantScopeUser) sample_now ''tok''
      (sample_cfg [''stock:admin'']) = Inl e"
    by (cases "verify (sample_lib TenantScopeUser) sample_now ''tok'' (sample_cfg [''stock:admin''])") auto
  with verify_error_status [OF reference_lib_contract, of "\<lambda>_. sample_header TokenType"
      "\<lambda>_. Some Map.empty" "\<lambda>_. Some (sample_claims TenantScopeUser)" "\<lambda>k tok. k = sample_key"
      sample_now "''tok''" "sample_cfg [''stock:admin'']" e] auth
  show ?thesis by (auto simp: sample_lib_def sample_authorized)
qed

theorem acceptance_window_witness:
  "verify (sample_lib TenantScopeUser) (sample_now + 329 * second) ''tok'' (sample_cfg [''stock:read''])
     = Inr (sample_principal TenantScopeUser) \<and>
   verify_clock (sample_now + 329 * second) (sample_cfg [''stock:read''])
     - verify_clock sample_now (sample_cfg [''stock:read'']) < 360 * second"
proof
  have v: "verify (sample_lib TenantScopeUser) (sample_now + d) ''tok'' (sample_cfg [''stock:read''])
     = Inr (sample_principal TenantScopeUser)" if "0 \<le> d" "d < 330 * second" for d
    using that by (intro sample_verify) auto
  from v [of "329 * second"] show late:
    "verify (sample_lib TenantScopeUser) (sample_now + 329 * second) ''tok'' (sample_cfg [''stock:read''])
     = Inr (sample_principal TenantScopeUser)"
    by (simp add: second_def)
  from v [of 0] have "verify (sample_lib TenantScopeUser) sample_now ''tok'' (sample_cfg [''stock:read''])
     = Inr (sample_principal TenantScopeUser)"
    by (simp add: second_def)
  from acceptance_window [OF reference_lib_contract this [unfolded sample_lib_def]
      late [unfolded sample_lib_def]]
  show "verify_clock (sample_now + 329 * second) (sample_cfg [''stock:read''])
     - verify_clock sample_now (sample_cfg [''stock:read'']) < 360 * second" .
qed

theorem invalid_config_rejects_all_witness:
  "\<exists>e. verify (sample_lib TenantScopeUser) sample_now ''tok'' (sample_cfg [])
     = Inl (ErrUnauthenticated (ConfigInvalid e))"
  by (rule invalid_config_rejects_all) (simp add: sample_cfg_def)

end
