(* ===== verification/User_Token.thy ===== *)
theory User_Token
  imports Service_Token
begin

text \<open>
  \<open>infrastructure/s2stoken/user.go\<close>: the contract of user tokens, their single verifier
  \<open>ParseUser\<close>, the reading of a header that must not be ambiguous, and the redaction of
  credentials in logged headers.

  A set of headers is a map from keys to value lists, Go's \<open>map[string][]string\<close>.
\<close>

definition HeaderServiceToken :: string where "HeaderServiceToken = ''X-Service-Token''"
definition HeaderTenantID :: string where "HeaderTenantID = ''X-Tenant-ID''"

section \<open>User tokens\<close>

definition check_user_claims :: "map_claims \<Rightarrow> s2s_error option" where
  "check_user_claims c =
     (if (case c ''token_use'' of
            None \<Rightarrow> False
          | Some (JStr s) \<Rightarrow> s \<noteq> []
          | Some _ \<Rightarrow> True)
      then Some (ErrUnauthenticated TokenUsePresent)
      else if str_claim c ''iss'' \<noteq> UserIssuer then Some (ErrUnauthenticated BadUserIssuer)
      else None)"

text \<open>
  The caller passes a \<open>jwt.MapClaims\<close> or a claims struct of its own (type \<open>'c\<close>); what comes
  back is that target, filled. The contract is checked on the payload in either case. The parser and the
  check of the payload each read the clock, microseconds apart; \<open>now\<close> is that reading.
\<close>

datatype claims_target = MapTarget | StructTarget

datatype 'c user_claims = MapFilled map_claims | StructFilled 'c

definition user_opts :: "time \<Rightarrow> parser_opts" where
  "user_opts now =
     \<lparr> valid_methods = [RS256], strict_decoding = False, want_issuer = None, exp_required = True,
       verify_issued_at = False, po_leeway = Leeway, po_now = now \<rparr>"

lemma user_opts_lenient [simp]: "\<not> strict_decoding (user_opts now)"
  by (simp add: user_opts_def)

definition payload_unexpired :: "time \<Rightarrow> map_claims \<Rightarrow> bool" where
  "payload_unexpired now c =
     (case c ''exp'' of
        Some (JNum q) \<Rightarrow> now < unix_time (f64_to_int64 q) + Leeway
      | _ \<Rightarrow> False)"

definition check_payload :: "time \<Rightarrow> map_claims \<Rightarrow> s2s_error option" where
  "check_payload now c =
     (if \<not> payload_unexpired now c then Some (ErrUnauthenticated UserTokenExpired)
      else check_user_claims c)"

definition parse_user ::
  "'c jwt_lib \<Rightarrow> time \<Rightarrow> string \<Rightarrow> claims_target \<Rightarrow> keyring option \<Rightarrow> s2s_error + 'c user_claims"
  where
  "parse_user L now tok target ring =
     (if ring = None then Inl (ErrUnauthenticated MissingKeyring)
      else (case target of
        MapTarget \<Rightarrow>
          (case parse_map L (user_opts now) (rs256_keyfunc ring) tok of
             None \<Rightarrow> Inl (ErrUnauthenticated InvalidUserToken)
           | Some mc \<Rightarrow>
               (case check_payload now mc of Some e \<Rightarrow> Inl e | None \<Rightarrow> Inr (MapFilled mc)))
      | StructTarget \<Rightarrow>
          (case parse_struct L (user_opts now) (rs256_keyfunc ring) tok of
             None \<Rightarrow> Inl (ErrUnauthenticated InvalidUserToken)
           | Some x \<Rightarrow>
               (case parse_unverified L tok of
                  None \<Rightarrow> Inl (ErrUnauthenticated InvalidUserToken)
                | Some mc \<Rightarrow>
                    (case check_payload now mc of Some e \<Rightarrow> Inl e | None \<Rightarrow> Inr (StructFilled x))))))"

section \<open>Headers\<close>

type_synonym headers = "string \<rightharpoonup> string list"


text \<open>
  \<open>textproto.CanonicalMIMEHeaderKey\<close>: the first letter and every letter after a hyphen in
  upper case, the others in lower case; a key with a byte that no header field name has is
  left as it is.
\<close>

definition header_byte :: "char \<Rightarrow> bool" where
  "header_byte c \<longleftrightarrow>
     is_lower c \<or> is_upper c \<or> is_digit c \<or> c \<in> set ''!#$%&*+-.^_`|~'' \<or> c = CHR 0x27"

fun canonical_from :: "bool \<Rightarrow> string \<Rightarrow> string" where
  "canonical_from up [] = []"
| "canonical_from up (c # cs) =
     (if up then upper c else lower c) # canonical_from (c = CHR ''-'') cs"

definition canonical_key :: "string \<Rightarrow> string" where
  "canonical_key s = (if list_all header_byte s then canonical_from True s else s)"

text \<open>\<open>SingleHeader\<close>: the only value of a header, \<open>Some []\<close> without one; several are ambiguous.\<close>

definition single_header :: "headers \<Rightarrow> string \<Rightarrow> string option" where
  "single_header h name =
     (case h (canonical_key name) of
        None \<Rightarrow> Some []
      | Some [] \<Rightarrow> Some []
      | Some [v] \<Rightarrow> Some v
      | Some _ \<Rightarrow> None)"

definition sensitive_headers :: "string list" where
  "sensitive_headers =
     [''Authorization'', HeaderServiceToken, ''X-Api-Key'', ''Cookie'', ''Proxy-Authorization'']"

definition redacted :: string where "redacted = ''[REDACTED]''"

definition redact_headers :: "headers \<Rightarrow> headers" where
  "redact_headers h =
     (\<lambda>k. case h k of
            None \<Rightarrow> None
          | Some v \<Rightarrow>
              Some (if canonical_key k \<in> set (map canonical_key sensitive_headers)
                    then [redacted] else v))"

section \<open>Facts about header keys\<close>

lemmas case_defs = is_lower_def is_upper_def upper_def lower_def

lemma upper_lower [simp]: "upper (lower c) = upper c" "lower (upper c) = lower c"
  "lower (lower c) = lower c" "upper (upper c) = upper c"
  by (auto simp: case_defs)

lemma byte_hyphen: "byte (CHR ''-'') = 45" by (simp add: byte_def)

lemma hyphen_case [simp]: "lower c = CHR ''-'' \<longleftrightarrow> c = CHR ''-''" "upper c = CHR ''-'' \<longleftrightarrow> c = CHR ''-''"
  unfolding byte_eq_iff [symmetric] byte_hyphen by (auto simp: case_defs)

lemma canonical_from_lower [simp]: "canonical_from b (map lower s) = canonical_from b s"
  by (induction s arbitrary: b) auto

lemma lower_canonical_from [simp]: "map lower (canonical_from b s) = map lower s"
  by (induction s arbitrary: b) auto

lemma header_byte_lower [simp]: "header_byte (lower c) \<longleftrightarrow> header_byte c"
proof (cases "is_upper c")
  case True
  then have "is_lower (lower c)" by (auto simp: case_defs)
  with True show ?thesis by (auto simp: header_byte_def)
next
  case False
  then show ?thesis by (simp add: lower_def)
qed

lemma canonical_key_lower:
  assumes "map lower s = map lower t" "list_all header_byte t"
  shows "canonical_key s = canonical_key t"
proof -
  have "list_all header_byte s \<longleftrightarrow> list_all header_byte (map lower s)"
    by (simp add: list.pred_map comp_def)
  moreover have "list_all header_byte t \<longleftrightarrow> list_all header_byte (map lower t)"
    by (simp add: list.pred_map comp_def)
  moreover have "canonical_from True s = canonical_from True (map lower s)" by simp
  ultimately show ?thesis using assms by (simp add: canonical_key_def)
qed

lemma sensitive_header_bytes: "name \<in> set sensitive_headers \<Longrightarrow> list_all header_byte name"
  by (auto simp: sensitive_headers_def HeaderServiceToken_def header_byte_def case_defs
      is_digit_def byte_def)

text \<open>Redacted headers carry no credential: whatever the upper and lower case of its key, a
  value of \<open>Authorization\<close>, \<open>X-Service-Token\<close>, \<open>X-Api-Key\<close>, \<open>Cookie\<close> or \<open>Proxy-Authorization\<close>
  is replaced by the marker.\<close>

theorem redact_hides_credentials:
  assumes "map lower k = map lower name" "name \<in> set sensitive_headers"
    and "redact_headers h k = Some vs"
  shows "vs = [redacted]"
proof -
  have "canonical_key k = canonical_key name"
    using assms(1,2) canonical_key_lower sensitive_header_bytes by blast
  with assms(2,3) show ?thesis
    by (auto simp: redact_headers_def split: option.splits if_splits)
qed

theorem redact_hides_credentials_witness:
  "redact_headers [''authorIZation'' \<mapsto> [''Bearer secret'']] ''authorIZation'' = Some [redacted]"
proof -
  obtain vs where vs: "redact_headers [''authorIZation'' \<mapsto> [''Bearer secret'']] ''authorIZation'' = Some vs"
    by (auto simp: redact_headers_def)
  from redact_hides_credentials [OF _ _ vs, of "''Authorization''"] vs show ?thesis
    by (simp add: sensitive_headers_def lower_def is_upper_def byte_def char_of_def bit_0)
qed

section \<open>What ParseUser guarantees\<close>

text \<open>A payload that meets the contract of user tokens at \<open>now\<close>.\<close>

definition user_contract :: "time \<Rightarrow> map_claims \<Rightarrow> bool" where
  "user_contract now c \<longleftrightarrow>
     c ''iss'' = Some (JStr UserIssuer) \<and> c ''token_use'' \<in> {None, Some (JStr [])} \<and>
     (\<exists>q. c ''exp'' = Some (JNum q) \<and> now < unix_time (f64_to_int64 q) + Leeway)"

lemma UserIssuer_nonempty [simp]: "UserIssuer \<noteq> []" by (simp add: UserIssuer_def)

lemma str_claim_UserIssuer: "str_claim c k = UserIssuer \<longleftrightarrow> c k = Some (JStr UserIssuer)"
  using str_claim_nonempty [of c k UserIssuer] by (auto simp: str_claim_def)

lemma check_payload_None: "check_payload now c = None \<longleftrightarrow> user_contract now c"
  by (auto simp: check_payload_def payload_unexpired_def check_user_claims_def user_contract_def
      str_claim_UserIssuer split: option.splits json.splits if_splits)

lemma parse_user_cases:
  assumes "jwt_contract L hd_of payload svc_of verifies"
    and "parse_user L now tok target ring = Inr x"
  shows "token_signed hd_of verifies ring tok \<and>
    (\<exists>c. payload tok = Some c \<and> user_contract now c \<and> (target = MapTarget \<longrightarrow> x = MapFilled c))"
proof (cases target)
  case MapTarget
  with assms(2) show ?thesis
    by (auto simp: parse_user_def contract_map [OF assms(1)] check_payload_None token_signed_def
        signature_ok_rs256 split: if_splits option.splits)
next
  case StructTarget
  with assms(2) obtain y c where
    y: "parse_struct L (user_opts now) (rs256_keyfunc ring) tok = Some y" and
    c: "parse_unverified L tok = Some c" "user_contract now c"
    by (auto simp: parse_user_def check_payload_None split: if_splits option.splits)
  from contract_struct [OF assms(1) y] have "token_signed hd_of verifies ring tok"
    by (auto simp: token_signed_def signature_ok_rs256)
  with c StructTarget show ?thesis by (simp add: contract_unverified [OF assms(1)])
qed

text \<open>C21: \<open>ParseUser\<close> enforces the contract of user tokens on the token's payload, whatever the
  claims struct of the receiver declares: a token it accepts is signed with an active key that
  its kid names, issued by iam for users, carries no \<open>token_use\<close>, and its numeric \<open>exp\<close> has not
  passed by more than the clock tolerance.\<close>

theorem parse_user_sound:
  assumes "jwt_contract L hd_of payload svc_of verifies"
    and "parse_user L now tok target ring = Inr x"
  shows "token_signed hd_of verifies ring tok \<and>
    (\<exists>c. payload tok = Some c \<and> user_contract now c)"
  using parse_user_cases [OF assms] by blast

text \<open>
  The claims struct of a service token agrees with the payload. \<open>encoding/json\<close> matches the
  keys of a struct without regard to case, so this says that the payload's keys are spelled
  as the struct's tags.
\<close>

definition decodes_exactly :: "map_claims \<Rightarrow> service_claims \<Rightarrow> bool" where
  "decodes_exactly m c \<longleftrightarrow>
     sc_issuer c = str_claim m ''iss'' \<and> sc_token_use c = str_claim m ''token_use''"

text \<open>No token is both a service token and a user token: a token that \<open>Verify\<close> accepts under
  any configuration is refused by \<open>ParseUser\<close>, for any target, key set and time, provided the
  payload's keys are spelled as in the contract.\<close>

theorem service_and_user_tokens_disjoint:
  assumes "jwt_contract L hd_of payload svc_of verifies"
    and "\<And>m c. payload tok = Some m \<Longrightarrow> svc_of tok = Some c \<Longrightarrow> decodes_exactly m c"
    and "verify L now tok cfg = Inr p"
  shows "\<exists>e. parse_user L now' tok target ring = Inl e \<and> status_code (Some e) = 401"
proof (cases "parse_user L now' tok target ring")
  case (Inl e)
  then have "e \<noteq> ErrForbidden r" for r
    by (auto simp: parse_user_def check_payload_def check_user_claims_def
        split: claims_target.splits option.splits if_splits)
  with Inl show ?thesis by (cases e) auto
next
  case (Inr x)
  from parse_user_cases [OF assms(1) Inr] obtain m where
    m: "payload tok = Some m" "user_contract now' m" by blast
  obtain c where c: "svc_of tok = Some c" "sc_token_use c = TokenUse"
    using verify_cases [OF assms(1), where now = now and tok = tok and cfg = cfg] assms(3)
    by (auto simp: authenticates_def token_contract_def)
  with assms(2) m(1) have "str_claim m ''token_use'' = TokenUse" by (auto simp: decodes_exactly_def)
  with m(2) show ?thesis by (auto simp: user_contract_def str_claim_def TokenUse_def)
qed

section \<open>Witnesses\<close>

definition sample_user :: map_claims where
  "sample_user =
     [''iss'' \<mapsto> JStr UserIssuer, ''exp'' \<mapsto> JNum 1764403500, ''namespace'' \<mapsto> JStr ''mc'',
      ''tenant_id'' \<mapsto> JStr ''t1'', ''user_id'' \<mapsto> JStr ''u1'', ''role'' \<mapsto> JStr ''admin'',
      ''roles'' \<mapsto> JArr [JStr ''admin'', JNum 1, JStr ''staff'']]"

lemma sample_user_parse:
  assumes "m ''exp'' = Some (JNum 1764403500)" "m ''nbf'' = None" "m ''iat'' = None"
  shows "parse_map (reference_lib (\<lambda>_. sample_header ty) (\<lambda>_. Some m) svc (\<lambda>k tok. k = sample_key))
    (user_opts sample_now) (rs256_keyfunc sample_ring) tok = Some m"
  using assms
  by (simp add: reference_lib_def signature_ok_def user_opts_def map_valid_def
      date_claim_def exp_valid_def nbf_valid_def iat_valid_def issuer_valid_def unix_time_def
      f64_to_int64_def int64_range_def wrap64_def sample_now_def durations second_def)
    (simp add: sample_header_def)

lemma sample_user_accepted:
  "parse_user (reference_lib (\<lambda>_. sample_header ty) (\<lambda>_. Some sample_user) svc (\<lambda>k tok. k = sample_key))
     sample_now tok MapTarget sample_ring = Inr (MapFilled sample_user)"
  using sample_user_parse [of sample_user ty svc tok]
  by (simp add: parse_user_def sample_ring_def)
    (simp add: check_payload_def check_user_claims_def payload_unexpired_def sample_user_def
      str_claim_def unix_time_def f64_to_int64_def int64_range_def wrap64_def sample_now_def
      durations second_def)

theorem parse_user_sound_witness:
  "token_signed (\<lambda>_. sample_header ''JWT'') (\<lambda>k tok. k = sample_key) sample_ring ''tok'' \<and>
   user_contract sample_now sample_user"
  using parse_user_sound [OF reference_lib_contract sample_user_accepted [of "''JWT''" "\<lambda>_. None"]]
  by auto

definition sample_payload :: map_claims where
  "sample_payload = [''iss'' \<mapsto> JStr Issuer, ''token_use'' \<mapsto> JStr TokenUse]"

theorem service_and_user_tokens_disjoint_witness:
  "\<exists>e. parse_user (reference_lib (\<lambda>_. sample_header TokenType) (\<lambda>_. Some sample_payload)
           (\<lambda>_. Some (sample_claims TenantScopeUser)) (\<lambda>k tok. k = sample_key))
         sample_now ''tok'' StructTarget sample_ring = Inl e \<and> status_code (Some e) = 401"
proof -
  let ?L = "reference_lib (\<lambda>_. sample_header TokenType) (\<lambda>_. Some sample_payload)
    (\<lambda>_. Some (sample_claims TenantScopeUser)) (\<lambda>k tok. k = sample_key)"
  have "\<exists>p. verify ?L sample_now ''tok'' (sample_cfg [''stock:read'']) = Inr p"
    using verify_cases [OF reference_lib_contract, where now = sample_now and tok = "''tok''"
        and cfg = "sample_cfg [''stock:read'']" and hd_of = "\<lambda>_. sample_header TokenType"
        and svc_of = "\<lambda>_. Some (sample_claims TenantScopeUser)"
        and verifies = "\<lambda>k tok. k = sample_key" and payload = "\<lambda>_. Some sample_payload"]
      sample_authenticates [of TenantScopeUser 0 "[''stock:read'']" "''tok''"]
    by (auto simp: sample_authorized second_def split: sum.splits s2s_error.splits)
  then obtain p where p: "verify ?L sample_now ''tok'' (sample_cfg [''stock:read'']) = Inr p" ..
  show ?thesis
    by (rule service_and_user_tokens_disjoint [OF reference_lib_contract _ p])
      (auto simp: decodes_exactly_def sample_payload_def sample_claims_def str_claim_def)
qed

end
