(* ===== verification/Receiver.thy ===== *)
theory Receiver
  imports User_Token
begin

text \<open>
  \<open>infrastructure/s2stoken/receiver/receiver.go\<close>: the combinator of the receiving side. It
  takes the three transport values and applies, in order, the deny list's own validity, the
  verification of the service token, the deny list, the route's tenant modes and the rule
  of \<open>X-Tenant-ID\<close>.

  Log lines and metric updates are a list of effects beside the result. \<open>uuid.Parse\<close> followed
  by \<open>String\<close> is a parameter: \<open>None\<close> is a parse error.
\<close>

datatype system_tenant_mode = SystemDenied | SystemGlobal | SystemPerTenant

section \<open>The deny list\<close>

record deny_list =
  dl_subs :: "string list"
  dl_invalid :: bool

definition name_byte :: "char \<Rightarrow> bool" where
  "name_byte c \<longleftrightarrow> is_lower c \<or> is_digit c"

text \<open>The regular expression \<open>^[a-z0-9][a-z0-9-]{0,62}$\<close>.\<close>

fun canonical_name :: "string \<Rightarrow> bool" where
  "canonical_name [] = False"
| "canonical_name (c # cs) \<longleftrightarrow>
     name_byte c \<and> list_all (\<lambda>d. name_byte d \<or> d = CHR ''-'') cs \<and> length cs \<le> 62"

text \<open>The loop of \<open>ParseDenySub\<close>: the flag is its error.\<close>

fun deny_loop :: "string list \<Rightarrow> deny_list \<Rightarrow> deny_list \<times> bool" where
  "deny_loop [] d = (d, False)"
| "deny_loop (part # ps) d =
     (let name = trim_space part
      in if \<not> canonical_name name then (d\<lparr>dl_invalid := True\<rparr>, True)
         else deny_loop ps (d\<lparr>dl_subs := List.insert name (dl_subs d)\<rparr>))"

definition parse_deny_sub :: "string \<Rightarrow> deny_list \<times> bool" where
  "parse_deny_sub raw =
     (let d = \<lparr>dl_subs = [], dl_invalid = False\<rparr>
      in if trim_space raw = [] then (d, False) else deny_loop (str_split (CHR '','') raw) d)"

definition denies :: "deny_list \<Rightarrow> string \<Rightarrow> bool" where
  "denies d sub = (if dl_invalid d then True else sub \<in> set (dl_subs d))"

section \<open>Effects\<close>

datatype effect =
    CountDenySubRejection
  | SetDenySubInvalid bool
  | LogDenySubInvalid
  | LogDenySub string string
  | LogMetricError string
  | LogSystemTenant string string string string
  | LogTenantMismatch string string string string string
  | LogLegacyKey string
  | LogAuthRejected int string
  | LogAuthToken string string

datatype register_result = Registered | AlreadyRegistered | RegisterFailed

text \<open>\<open>DenyListFromEnv\<close>; \<open>reg\<close> is what the metrics registry answers for a collector's name.\<close>

definition register_effects :: "(string \<Rightarrow> register_result) \<Rightarrow> string list \<Rightarrow> effect list" where
  "register_effects reg names =
     concat (map (\<lambda>n. if reg n = RegisterFailed then [LogMetricError n] else []) names)"

definition deny_list_from_env ::
  "(string \<Rightarrow> register_result) \<Rightarrow> (string \<Rightarrow> string) \<Rightarrow> deny_list \<times> effect list" where
  "deny_list_from_env reg getenv =
     (let es = register_effects reg [''s2s_deny_sub_invalid'', ''s2s_deny_sub_rejections_total'']
      in case parse_deny_sub (getenv ''S2S_DENY_SUB'') of
           (d, True) \<Rightarrow> (d, es @ [SetDenySubInvalid True, LogDenySubInvalid])
         | (d, False) \<Rightarrow> (d, es @ [SetDenySubInvalid False]))"

section \<open>Configuration and result\<close>

record receiver_config =
  rc_service :: s2s_config
  rc_allow_user :: bool
  rc_system :: system_tenant_mode
  rc_system_only_scopes :: "string list"
  rc_user_namespace :: string
  rc_deny_sub :: deny_list

record receiver_result =
  rr_service :: principal
  rr_tenant_id :: string
  rr_user_claims :: "map_claims option"
  rr_roles :: "string list"

definition result_namespace :: "receiver_result \<Rightarrow> string" where
  "result_namespace r =
     (case rr_user_claims r of
        Some c \<Rightarrow> str_claim c ''namespace''
      | None \<Rightarrow> pr_namespace (rr_service r))"

fun json_strings :: "json list \<Rightarrow> string list" where
  "json_strings [] = []"
| "json_strings (JStr s # js) = s # json_strings js"
| "json_strings (_ # js) = json_strings js"

definition string_slice :: "json option \<Rightarrow> string list" where
  "string_slice v = (case v of Some (JArr js) \<Rightarrow> json_strings js | _ \<Rightarrow> [])"

section \<open>Authenticate\<close>

type_synonym 'a decided = "(s2s_error + 'a) \<times> effect list"

definition verify_user ::
  "'c jwt_lib \<Rightarrow> time \<Rightarrow> string \<Rightarrow> keyring option \<Rightarrow> s2s_error + map_claims" where
  "verify_user L now bearer ring =
     (if ring = None then Inl (ErrUnauthenticated MissingKeyring)
      else (case parse_user L now bearer MapTarget ring of
              Inl e \<Rightarrow> Inl e
            | Inr (MapFilled c) \<Rightarrow> Inr c
            | Inr (StructFilled _) \<Rightarrow> Inr Map.empty))"

definition authenticate_system ::
  "(string \<Rightarrow> string option) \<Rightarrow> receiver_config \<Rightarrow> principal \<Rightarrow> string \<Rightarrow> receiver_result decided" where
  "authenticate_system uuid cfg p tenant_header =
     (case rc_system cfg of
        SystemGlobal \<Rightarrow>
          if tenant_header \<noteq> [] then (Inl (ErrForbidden TenantInGlobalOperation), [])
          else (Inr \<lparr>rr_service = p, rr_tenant_id = [], rr_user_claims = None, rr_roles = []\<rparr>, [])
      | SystemPerTenant \<Rightarrow>
          if tenant_header = [] then (Inl (ErrForbidden SystemOperationWithoutTenant), [])
          else (case uuid tenant_header of
                  None \<Rightarrow> (Inl (ErrForbidden TenantNotUUID), [])
                | Some u \<Rightarrow>
                    if length tenant_header \<noteq> 36 then (Inl (ErrForbidden TenantNotUUID), [])
                    else (Inr \<lparr>rr_service = p, rr_tenant_id = u, rr_user_claims = None, rr_roles = []\<rparr>,
                          [LogSystemTenant (pr_subject p) (pr_audience p) u (pr_id p)]))
      | SystemDenied \<Rightarrow> (Inl (ErrForbidden SystemTokenOnUserRoute), []))"

definition expected_namespace :: "receiver_config \<Rightarrow> string" where
  "expected_namespace cfg =
     (if rc_user_namespace cfg = [] then cfg_namespace (rc_service cfg) else rc_user_namespace cfg)"

definition authenticate_user ::
  "'c jwt_lib \<Rightarrow> time \<Rightarrow> receiver_config \<Rightarrow> principal \<Rightarrow> string \<Rightarrow> string \<Rightarrow> receiver_result decided" where
  "authenticate_user L now cfg p authorization tenant_header =
     (if \<not> rc_allow_user cfg then (Inl (ErrForbidden UserTokenOnSystemRoute), [])
      else if list_ex (has_scope p) (rc_system_only_scopes cfg)
      then (Inl (ErrForbidden SystemScopeOnUserToken), [])
      else (case cut_prefix authorization ''Bearer '' of
        None \<Rightarrow> (Inl (ErrUnauthenticated MissingBearer), [])
      | Some bearer \<Rightarrow>
      if trim_space bearer = [] then (Inl (ErrUnauthenticated MissingBearer), [])
      else (case verify_user L now bearer (cfg_keyring (rc_service cfg)) of
        Inl e \<Rightarrow> (Inl e, [])
      | Inr claims \<Rightarrow>
      if str_claim claims ''namespace'' \<noteq> expected_namespace cfg
      then (Inl (ErrForbidden ForeignUserNamespace), [])
      else let tenant = str_claim claims ''tenant_id'' in
      if tenant = [] then (Inl (ErrForbidden UserWithoutTenant), [])
      else if tenant_header \<noteq> [] \<and> tenant_header \<noteq> tenant
      then (Inl (ErrForbidden TenantMismatch),
            [LogTenantMismatch (pr_subject p) (str_claim claims ''user_id'') tenant tenant_header (pr_id p)])
      else (Inr \<lparr>rr_service = p, rr_tenant_id = tenant, rr_user_claims = Some claims,
                 rr_roles = string_slice (claims ''roles'')\<rparr>, []))))"

definition authenticate ::
  "'c jwt_lib \<Rightarrow> (string \<Rightarrow> string option) \<Rightarrow> time \<Rightarrow> receiver_config \<Rightarrow> string \<Rightarrow> string \<Rightarrow> string \<Rightarrow>
   receiver_result decided" where
  "authenticate L uuid now cfg service_token authorization tenant_header =
     (if trim_space service_token = [] then (Inl (ErrUnauthenticated MissingServiceToken), [])
      else if dl_invalid (rc_deny_sub cfg)
      then (Inl (ErrUnauthenticated DenySubUnparseable), [CountDenySubRejection, LogDenySubInvalid])
      else (case verify L now service_token (rc_service cfg) of
        Inl e \<Rightarrow> (Inl e, [])
      | Inr p \<Rightarrow>
      if denies (rc_deny_sub cfg) (pr_subject p)
      then (Inl (ErrUnauthenticated DeniedSubject),
            [CountDenySubRejection, LogDenySub (pr_subject p) (pr_id p)])
      else if pr_tenant_scope p = TenantScopeSystem then authenticate_system uuid cfg p tenant_header
      else if pr_tenant_scope p = TenantScopeUser
      then authenticate_user L now cfg p authorization tenant_header
      else (Inl (ErrUnauthenticated UnrecognizedTenantScope), [])))"

section \<open>The deny list fails closed\<close>

lemma deny_loop_eq:
  "deny_loop ps d =
     (if list_all (\<lambda>p. canonical_name (trim_space p)) ps
      then (d\<lparr>dl_subs := fold List.insert (map trim_space ps) (dl_subs d)\<rparr>, False)
      else (d\<lparr>dl_subs := fold List.insert
                  (map trim_space (takeWhile (\<lambda>p. canonical_name (trim_space p)) ps)) (dl_subs d),
              dl_invalid := True\<rparr>, True))"
  by (induction ps arbitrary: d) (simp_all add: Let_def)

lemma set_fold_insert [simp]: "set (fold List.insert xs ys) = set xs \<union> set ys"
  by (induction xs arbitrary: ys) auto

text \<open>The names a deny list denies, read off its text.\<close>

definition denied_names :: "string \<Rightarrow> string set" where
  "denied_names raw =
     (if trim_space raw = [] then {} else set (map trim_space (str_split (CHR '','') raw)))"

lemma denies_parse:
  "denies (fst (parse_deny_sub raw)) sub \<longleftrightarrow>
     sub \<in> denied_names raw \<or> (\<exists>n \<in> denied_names raw. \<not> canonical_name n)"
  "snd (parse_deny_sub raw) = dl_invalid (fst (parse_deny_sub raw))"
  "dl_invalid (fst (parse_deny_sub raw)) \<longleftrightarrow> (\<exists>n \<in> denied_names raw. \<not> canonical_name n)"
  by (auto simp: parse_deny_sub_def denies_def denied_names_def deny_loop_eq Let_def list_all_iff)

text \<open>\<open>S2S_DENY_SUB\<close> fails closed: a list whose comma-separated names are all canonical denies
  exactly those names, and one with any other name in it denies every emitter, reports an
  error and sets the gauge.\<close>

theorem deny_list_fails_closed:
  "let (d, es) = deny_list_from_env reg getenv; names = denied_names (getenv ''S2S_DENY_SUB'')
   in (dl_invalid d \<longleftrightarrow> (\<exists>n. n \<in> names \<and> \<not> canonical_name n)) \<and>
      (denies d sub \<longleftrightarrow> dl_invalid d \<or> sub \<in> names) \<and>
      (SetDenySubInvalid True \<in> set es \<longleftrightarrow> dl_invalid d) \<and>
      (SetDenySubInvalid False \<in> set es \<longleftrightarrow> \<not> dl_invalid d)"
proof -
  have reg: "SetDenySubInvalid b \<notin> set (register_effects reg names)" for b names
    by (auto simp: register_effects_def)
  show ?thesis
    using denies_parse [of "getenv ''S2S_DENY_SUB''"]
    by (auto simp: deny_list_from_env_def Let_def reg split: prod.splits bool.splits)
qed

section \<open>What Authenticate accepts\<close>

text \<open>The two ways in: a token of the system on a route marked for it, or a token with its user.\<close>

definition admits_system ::
  "(string \<Rightarrow> string option) \<Rightarrow> receiver_config \<Rightarrow> string \<Rightarrow> string \<Rightarrow> bool" where
  "admits_system uuid cfg tenant_header tenant \<longleftrightarrow>
     rc_system cfg = SystemGlobal \<and> tenant_header = [] \<and> tenant = [] \<or>
     rc_system cfg = SystemPerTenant \<and> length tenant_header = 36 \<and> uuid tenant_header = Some tenant"

definition admits_user ::
  "receiver_config \<Rightarrow> principal \<Rightarrow> string \<Rightarrow> map_claims \<Rightarrow> string \<Rightarrow> bool" where
  "admits_user cfg p tenant_header claims tenant \<longleftrightarrow>
     rc_allow_user cfg \<and> set (rc_system_only_scopes cfg) \<inter> set (pr_scopes p) = {} \<and>
     str_claim claims ''namespace'' = expected_namespace cfg \<and>
     claims ''tenant_id'' = Some (JStr tenant) \<and> tenant \<noteq> [] \<and> tenant_header \<in> {[], tenant}"

definition user_bearer ::
  "'c jwt_lib \<Rightarrow> time \<Rightarrow> keyring option \<Rightarrow> string \<Rightarrow> map_claims \<Rightarrow> bool" where
  "user_bearer L now ring authorization claims \<longleftrightarrow>
     (\<exists>bearer. authorization = ''Bearer '' @ bearer \<and> trim_space bearer \<noteq> [] \<and>
        parse_user L now bearer MapTarget ring = Inr (MapFilled claims))"

lemma parse_user_map:
  "parse_user L now tok MapTarget ring = Inr x \<Longrightarrow> ring \<noteq> None \<and> (\<exists>c. x = MapFilled c)"
  by (auto simp: parse_user_def split: if_splits option.splits)

lemma verify_user_Inr:
  "verify_user L now bearer ring = Inr c \<longleftrightarrow> parse_user L now bearer MapTarget ring = Inr (MapFilled c)"
  by (auto simp: verify_user_def split: sum.splits user_claims.splits dest: parse_user_map)

lemma str_claim_tenant: "t \<noteq> [] \<Longrightarrow> str_claim c k = t \<longleftrightarrow> c k = Some (JStr t)"
  by (auto simp: str_claim_def split: option.splits json.splits)

lemma authenticate_system_Inr:
  "fst (authenticate_system uuid cfg p th) = Inr r \<longleftrightarrow>
     (\<exists>tenant. admits_system uuid cfg th tenant \<and>
        r = \<lparr>rr_service = p, rr_tenant_id = tenant, rr_user_claims = None, rr_roles = []\<rparr>)"
  by (cases "rc_system cfg")
    (auto simp: authenticate_system_def admits_system_def split: option.splits)

lemma authenticate_user_Inr:
  "fst (authenticate_user L now cfg p authorization th) = Inr r \<longleftrightarrow>
     (\<exists>claims tenant. user_bearer L now (cfg_keyring (rc_service cfg)) authorization claims \<and>
        admits_user cfg p th claims tenant \<and>
        r = \<lparr>rr_service = p, rr_tenant_id = tenant, rr_user_claims = Some claims,
             rr_roles = string_slice (claims ''roles'')\<rparr>)" (is "?l \<longleftrightarrow> ?r")
proof
  assume ?l
  then show ?r
    by (auto simp: authenticate_user_def admits_user_def user_bearer_def Let_def cut_prefix_Some
        verify_user_Inr list_ex_iff has_scope_def intro: str_claim_nonempty [OF refl]
        split: if_splits option.splits sum.splits)
next
  assume ?r
  then show ?l
    by (auto simp: authenticate_user_def admits_user_def user_bearer_def Let_def
        cut_prefix_Some verify_user_Inr [symmetric] list_ex_iff has_scope_def str_claim_tenant
        cut_prefix_def str_claim_def)
qed

lemma authenticate_Inr:
  "fst (authenticate L uuid now cfg tok authorization th) = Inr r \<longleftrightarrow>
     trim_space tok \<noteq> [] \<and>
     (\<exists>p. verify L now tok (rc_service cfg) = Inr p \<and> \<not> denies (rc_deny_sub cfg) (pr_subject p) \<and>
        (if pr_tenant_scope p = TenantScopeSystem
         then fst (authenticate_system uuid cfg p th) = Inr r
         else pr_tenant_scope p = TenantScopeUser \<and>
           fst (authenticate_user L now cfg p authorization th) = Inr r))"
  by (auto simp: authenticate_def denies_def split: sum.splits if_splits)

text \<open>C2: \<open>Authenticate\<close> accepts exactly: a non-blank service token that \<open>Verify\<close> accepts, whose
  emitter is not denied, and which is either a system token on a route marked for it, with the
  tenant header that mode asks for and no user, or a user token on a route that allows it, with
  its user's valid Bearer, none of the system-only scopes, the expected user namespace, and an
  \<open>X-Tenant-ID\<close> that is absent or equal to the Bearer's tenant.\<close>

theorem authenticate_accepts_iff:
  "fst (authenticate L uuid now cfg tok authorization th) = Inr r \<longleftrightarrow>
     trim_space tok \<noteq> [] \<and>
     (\<exists>p. verify L now tok (rc_service cfg) = Inr p \<and> \<not> denies (rc_deny_sub cfg) (pr_subject p) \<and>
        ((\<exists>tenant. pr_tenant_scope p = TenantScopeSystem \<and> admits_system uuid cfg th tenant \<and>
            r = \<lparr>rr_service = p, rr_tenant_id = tenant, rr_user_claims = None, rr_roles = []\<rparr>) \<or>
         (\<exists>claims tenant. pr_tenant_scope p = TenantScopeUser \<and>
            user_bearer L now (cfg_keyring (rc_service cfg)) authorization claims \<and>
            admits_user cfg p th claims tenant \<and>
            r = \<lparr>rr_service = p, rr_tenant_id = tenant, rr_user_claims = Some claims,
                 rr_roles = string_slice (claims ''roles'')\<rparr>)))"
  by (auto simp: authenticate_Inr authenticate_system_Inr authenticate_user_Inr
      TenantScopeUser_def TenantScopeSystem_def)

text \<open>C3: Where the tenant and the roles of an accepted request come from. The service token
  authenticates to this receiver and is authorized, and its signed \<open>tenant_scope\<close> decides the case.
  With the scope of a user, tenant and roles are the \<open>tenant_id\<close> and \<open>roles\<close> of the payload of the
  request's Bearer, which an active key signed under the user contract, and \<open>X-Tenant-ID\<close> can only
  repeat that tenant. With the scope of the system there is no user and there are no roles, so a role
  check behind it fails closed; there is no tenant, or, on a route marked for it, the one whose
  UUID the emitter of that signed token names in \<open>X-Tenant-ID\<close>.\<close>

theorem authenticate_two_credentials:
  assumes "jwt_contract L hd_of payload svc_of verifies"
    and "fst (authenticate L uuid now cfg tok authorization th) = Inr r"
  shows "\<exists>c. svc_of tok = Some c \<and> authorized (rc_service cfg) c \<and>
    authenticates hd_of verifies now (rc_service cfg) tok c \<and>
    pr_subject (rr_service r) = sc_subject c \<and> pr_scopes (rr_service r) = scopes c \<and>
    (case rr_user_claims r of
       None \<Rightarrow> sc_tenant_scope c = TenantScopeSystem \<and> rr_roles r = [] \<and>
         (rc_system cfg = SystemGlobal \<and> th = [] \<and> rr_tenant_id r = [] \<or>
          rc_system cfg = SystemPerTenant \<and> length th = 36 \<and> uuid th = Some (rr_tenant_id r))
     | Some m \<Rightarrow> sc_tenant_scope c = TenantScopeUser \<and>
         (\<exists>bearer. authorization = ''Bearer '' @ bearer \<and> payload bearer = Some m \<and>
            token_signed hd_of verifies (cfg_keyring (rc_service cfg)) bearer) \<and>
         user_contract now m \<and> m ''tenant_id'' = Some (JStr (rr_tenant_id r)) \<and>
         rr_roles r = string_slice (m ''roles'') \<and> rr_tenant_id r \<noteq> [] \<and> th \<in> {[], rr_tenant_id r})"
proof -
  from assms(2) obtain p where p: "verify L now tok (rc_service cfg) = Inr p"
    and r: "(\<exists>tenant. pr_tenant_scope p = TenantScopeSystem \<and> admits_system uuid cfg th tenant \<and>
            r = \<lparr>rr_service = p, rr_tenant_id = tenant, rr_user_claims = None, rr_roles = []\<rparr>) \<or>
         (\<exists>claims tenant. pr_tenant_scope p = TenantScopeUser \<and>
            user_bearer L now (cfg_keyring (rc_service cfg)) authorization claims \<and>
            admits_user cfg p th claims tenant \<and>
            r = \<lparr>rr_service = p, rr_tenant_id = tenant, rr_user_claims = Some claims,
                 rr_roles = string_slice (claims ''roles'')\<rparr>)"
    by (auto simp: authenticate_Inr authenticate_system_Inr authenticate_user_Inr split: if_splits)
  obtain c expiry where c: "svc_of tok = Some c" "authorized (rc_service cfg) c"
    "authenticates hd_of verifies now (rc_service cfg) tok c" "p = principal_of (hd_of tok) c expiry"
    using verify_cases [OF assms(1), where now = now and tok = tok and cfg = "rc_service cfg"] p
    by auto
  have "user_bearer L now ring authorization m \<Longrightarrow>
      user_contract now m \<and> (\<exists>bearer. authorization = ''Bearer '' @ bearer \<and>
        payload bearer = Some m \<and> token_signed hd_of verifies ring bearer)" for ring m
    using parse_user_cases [OF assms(1)] by (fastforce simp: user_bearer_def)
  moreover have "pr_tenant_scope p = sc_tenant_scope c" "pr_subject p = sc_subject c" "pr_scopes p = scopes c"
    by (simp_all add: c(4) principal_of_def)
  ultimately show ?thesis
    using c(1-3) r by (intro exI [of _ c]) (auto simp: admits_system_def admits_user_def)
qed

text \<open>The audit trail is exact: a rejection by the deny list is counted exactly when it happens,
  a tenant mismatch is logged exactly when it rejects the request, and every system request
  accepted on behalf of a tenant is logged with its emitter and that tenant, and nothing else
  is logged.\<close>

theorem authenticate_audit:
  "case authenticate L uuid now cfg tok authorization th of (res, es) \<Rightarrow>
     (CountDenySubRejection \<in> set es \<longleftrightarrow>
        res = Inl (ErrUnauthenticated DenySubUnparseable) \<or>
        res = Inl (ErrUnauthenticated DeniedSubject)) \<and>
     ((\<exists>s u t h j. LogTenantMismatch s u t h j \<in> set es) \<longleftrightarrow>
        res = Inl (ErrForbidden TenantMismatch)) \<and>
     (\<forall>s a t j. LogSystemTenant s a t j \<in> set es \<longleftrightarrow>
        rc_system cfg = SystemPerTenant \<and>
        (\<exists>r. res = Inr r \<and> rr_user_claims r = None \<and> rr_tenant_id r = t \<and>
           pr_subject (rr_service r) = s \<and> pr_audience (rr_service r) = a \<and>
           pr_id (rr_service r) = j))"
proof -
  have v: "verify L now tok (rc_service cfg) \<noteq> Inl (ErrUnauthenticated DenySubUnparseable)"
    "verify L now tok (rc_service cfg) \<noteq> Inl (ErrUnauthenticated DeniedSubject)"
    "verify L now tok (rc_service cfg) \<noteq> Inl (ErrForbidden TenantMismatch)"
    by (auto simp: verify_def Let_def split: option.splits if_splits)
  have s: "case authenticate_system uuid cfg p th of (res, es) \<Rightarrow>
      CountDenySubRejection \<notin> set es \<and> (\<forall>s u t h j. LogTenantMismatch s u t h j \<notin> set es) \<and>
      (\<forall>r. res \<noteq> Inl (ErrUnauthenticated r)) \<and> res \<noteq> Inl (ErrForbidden TenantMismatch) \<and>
      (\<forall>s a t j. LogSystemTenant s a t j \<in> set es \<longleftrightarrow>
        rc_system cfg = SystemPerTenant \<and>
        (\<exists>r. res = Inr r \<and> rr_user_claims r = None \<and> rr_tenant_id r = t \<and>
           pr_subject (rr_service r) = s \<and> pr_audience (rr_service r) = a \<and>
           pr_id (rr_service r) = j))" for p
    by (cases "rc_system cfg") (auto simp: authenticate_system_def split: option.splits)
  have pu: "parse_user L now b MapTarget ring = Inl e \<Longrightarrow> e \<noteq> ErrForbidden q \<and>
      e \<noteq> ErrUnauthenticated DenySubUnparseable \<and> e \<noteq> ErrUnauthenticated DeniedSubject" for b ring e q
    by (auto simp: parse_user_def check_payload_def check_user_claims_def
        split: option.splits if_splits)
  have u: "case authenticate_user L now cfg p authorization th of (res, es) \<Rightarrow>
      CountDenySubRejection \<notin> set es \<and> (\<forall>s a t j. LogSystemTenant s a t j \<notin> set es) \<and>
      ((\<exists>s u t h j. LogTenantMismatch s u t h j \<in> set es) \<longleftrightarrow> res = Inl (ErrForbidden TenantMismatch)) \<and>
      res \<noteq> Inl (ErrUnauthenticated DenySubUnparseable) \<and>
      res \<noteq> Inl (ErrUnauthenticated DeniedSubject) \<and> (\<forall>r. res = Inr r \<longrightarrow> rr_user_claims r \<noteq> None)" for p
    by (auto simp: authenticate_user_def verify_user_def Let_def dest: pu
        split: option.splits sum.splits user_claims.splits)
  show ?thesis
    using v by (auto simp: authenticate_def split: sum.splits)
      (use s u in \<open>fastforce split: prod.splits\<close>)+
qed

section \<open>Witnesses\<close>

definition sample_receiver :: receiver_config where
  "sample_receiver =
     \<lparr> rc_service = sample_cfg [''stock:read''], rc_allow_user = True, rc_system = SystemPerTenant,
       rc_system_only_scopes = [''stock:admin''], rc_user_namespace = [],
       rc_deny_sub = fst (parse_deny_sub ''pim,catalog'') \<rparr>"

definition sample_both_lib :: "string \<Rightarrow> unit jwt_lib" where
  "sample_both_lib ts =
     reference_lib (\<lambda>_. sample_header TokenType) (\<lambda>_. Some sample_user)
       (\<lambda>_. Some (sample_claims ts)) (\<lambda>k tok. k = sample_key)"

lemma sample_both_verify:
  assumes "ts = TenantScopeUser \<or> ts = TenantScopeSystem"
  shows "verify (sample_both_lib ts) sample_now tok (sample_cfg [''stock:read''])
     = Inr (sample_principal ts)"
  using sample_authenticates [OF assms, of 0 "[''stock:read'']" tok]
    verify_cases [OF reference_lib_contract, where now = sample_now and tok = tok
      and cfg = "sample_cfg [''stock:read'']" and hd_of = "\<lambda>_. sample_header TokenType"
      and svc_of = "\<lambda>_. Some (sample_claims ts)" and verifies = "\<lambda>k tok. k = sample_key"
      and payload = "\<lambda>_. Some sample_user"]
  by (auto simp: sample_both_lib_def sample_authorized sample_principal_def second_def
      split: sum.splits s2s_error.splits) (simp_all add: sample_claims_def)

lemma sample_both_user:
  "parse_user (sample_both_lib ts) sample_now tok MapTarget sample_ring = Inr (MapFilled sample_user)"
  unfolding sample_both_lib_def by (rule sample_user_accepted)

definition sample_result :: receiver_result where
  "sample_result =
     \<lparr> rr_service = sample_principal TenantScopeUser, rr_tenant_id = ''t1'',
       rr_user_claims = Some sample_user, rr_roles = [''admin'', ''staff''] \<rparr>"

lemma sample_not_denied: "denies (rc_deny_sub sample_receiver) ''sales'' = False"
proof -
  have "parse_deny_sub ''pim,catalog'' = (\<lparr>dl_subs = [''catalog'', ''pim''], dl_invalid = False\<rparr>, False)"
    by (simp add: parse_deny_sub_def deny_loop_eq graphic_def byte_def name_byte_def is_lower_def
        is_digit_def)
  then show ?thesis by (simp add: sample_receiver_def denies_def)
qed

lemma sample_authenticate:
  "fst (authenticate (sample_both_lib TenantScopeUser) uuid sample_now sample_receiver ''svc''
          ''Bearer usr'' ''t1'') = Inr sample_result"
proof -
  have "user_bearer (sample_both_lib TenantScopeUser) sample_now (cfg_keyring (rc_service sample_receiver))
      ''Bearer usr'' sample_user"
    using sample_both_user
    by (auto simp: user_bearer_def sample_receiver_def sample_cfg_def go_lib)
  moreover have "admits_user sample_receiver (sample_principal TenantScopeUser) ''t1'' sample_user ''t1''"
    by (simp add: admits_user_def sample_receiver_def sample_principal_def sample_scopes)
      (simp add: sample_user_def str_claim_def expected_namespace_def sample_cfg_def)
  ultimately have "fst (authenticate_user (sample_both_lib TenantScopeUser) sample_now sample_receiver
      (sample_principal TenantScopeUser) ''Bearer usr'' ''t1'') = Inr sample_result"
    by (auto simp: authenticate_user_Inr sample_result_def string_slice_def sample_user_def)
  moreover have "verify (sample_both_lib TenantScopeUser) sample_now ''svc'' (rc_service sample_receiver)
      = Inr (sample_principal TenantScopeUser)"
    using sample_both_verify by (simp add: sample_receiver_def)
  moreover have "pr_subject (sample_principal TenantScopeUser) = ''sales''"
    "pr_tenant_scope (sample_principal TenantScopeUser) = TenantScopeUser"
    by (simp_all add: sample_principal_def principal_of_def sample_claims_def)
  ultimately show ?thesis
    by (simp add: authenticate_Inr sample_not_denied TenantScopeSystem_def TenantScopeUser_def go_lib)
qed

theorem authenticate_two_credentials_witness:
  "user_contract sample_now sample_user \<and> sample_user ''tenant_id'' = Some (JStr ''t1'') \<and>
   rr_roles sample_result = string_slice (sample_user ''roles'')"
  using authenticate_two_credentials [OF reference_lib_contract
      sample_authenticate [unfolded sample_both_lib_def]]
  by (simp add: sample_result_def)

end
