(* ===== verification/Http.thy ===== *)
theory Http
  imports Receiver
begin

text \<open>
  Requests and the two ways the repository's handlers see them: \<open>net/http\<close> handlers, from
  requests to replies, and gin handlers, which read and update a context.

  Gin is not part of the repository. Of \<open>gin.Context\<close> a handler here uses the request, the
  keys set so far, the response headers, whether the response was aborted and with what body.
  In every handler of the repository the call of \<open>c.Next()\<close> is the last step, so a handler is
  the change it makes before that call, and a chain runs its handlers in order until one aborts.
\<close>

section \<open>Requests\<close>

record request =
  rq_headers :: headers
  rq_path :: string
  rq_full_path :: string
  rq_client_ip :: string

text \<open>\<open>http.Header.Get\<close>: the first value.\<close>

definition header_get :: "request \<Rightarrow> string \<Rightarrow> string" where
  "header_get rq name =
     (case rq_headers rq (canonical_key name) of Some (v # _) \<Rightarrow> v | _ \<Rightarrow> [])"

definition StatusText :: "int \<Rightarrow> string" where
  "StatusText code =
     (if code = 200 then ''OK'' else if code = 401 then ''Unauthorized''
      else if code = 403 then ''Forbidden'' else [])"

section \<open>Handlers of net/http\<close>

record http_request =
  hq_request :: request
  hq_result :: "receiver_result option"

record http_reply =
  re_status :: int
  re_content_type :: string
  re_body :: string
  re_log :: "effect list"

type_synonym http_handler = "http_request \<Rightarrow> http_reply"

section \<open>Handlers of gin\<close>

datatype ctx_value =
    CStr string
  | CStrs "string list"
  | CClaims map_claims
  | CPrincipal principal

datatype gin_event =
    ReceiverEffect effect
  | OnTenantMismatch string string string string
  | OnNamespaceMismatch string string string string
  | OnBackendUnavailable
  | OnLimitExceeded string

record gin_ctx =
  gc_request :: request
  gc_keys :: "string \<rightharpoonup> ctx_value"
  gc_headers :: "string \<rightharpoonup> string"
  gc_abort :: "(int \<times> string) option"
  gc_gzip_writers :: nat
  gc_events :: "gin_event list"

type_synonym gin_handler = "gin_ctx \<Rightarrow> gin_ctx"

definition ctx_set :: "string \<Rightarrow> ctx_value \<Rightarrow> gin_handler" where
  "ctx_set k v c = c\<lparr>gc_keys := (gc_keys c)(k \<mapsto> v)\<rparr>"

definition ctx_abort :: "int \<Rightarrow> string \<Rightarrow> gin_handler" where
  "ctx_abort code body c = c\<lparr>gc_abort := Some (code, body)\<rparr>"

definition ctx_event :: "gin_event \<Rightarrow> gin_handler" where
  "ctx_event e c = c\<lparr>gc_events := gc_events c @ [e]\<rparr>"

definition ctx_effects :: "effect list \<Rightarrow> gin_handler" where
  "ctx_effects es c = c\<lparr>gc_events := gc_events c @ map ReceiverEffect es\<rparr>"

definition ctx_header :: "string \<Rightarrow> string \<Rightarrow> gin_handler" where
  "ctx_header k v c = c\<lparr>gc_headers := (gc_headers c)(k \<mapsto> v)\<rparr>"

definition get_header :: "gin_ctx \<Rightarrow> string \<Rightarrow> string" where
  "get_header c name = header_get (gc_request c) name"

definition get_string :: "gin_ctx \<Rightarrow> string \<Rightarrow> string" where
  "get_string c k = (case gc_keys c k of Some (CStr s) \<Rightarrow> s | _ \<Rightarrow> [])"

fun run_chain :: "gin_handler list \<Rightarrow> gin_handler" where
  "run_chain [] c = c"
| "run_chain (h # hs) c = (let c' = h c in if gc_abort c' = None then run_chain hs c' else c')"

definition fresh_ctx :: "request \<Rightarrow> gin_ctx" where
  "fresh_ctx rq =
     \<lparr> gc_request = rq, gc_keys = Map.empty, gc_headers = Map.empty, gc_abort = None,
       gc_gzip_writers = 0, gc_events = [] \<rparr>"

lemmas ctx_defs = ctx_set_def ctx_abort_def ctx_event_def ctx_effects_def ctx_header_def

lemma run_chain_append:
  "gc_abort c = None \<Longrightarrow>
   run_chain (hs @ hs') c =
     (let c' = run_chain hs c in if gc_abort c' = None then run_chain hs' c' else c')"
  by (induction hs arbitrary: c) (auto simp: Let_def)

lemma run_chain_passed:
  "gc_abort (run_chain (h # hs) c) = None \<longleftrightarrow>
     gc_abort (h c) = None \<and> gc_abort (run_chain hs (h c)) = None"
  by (auto simp: Let_def)

end
