(* ===== verification/Adapters.thy ===== *)
theory Adapters
  imports Http
begin

text \<open>
  The two adapters of the receiver: \<open>infrastructure/s2stoken/s2shttp/s2shttp.go\<close> for
  \<open>net/http\<close> and \<open>infrastructure/middleware/s2sauth/s2sauth.go\<close> for gin. Each is modelled
  as it is written; that they decide alike is a theorem.

  Building a middleware with an invalid configuration panics, which is the result \<open>None\<close>.
\<close>

section \<open>s2shttp\<close>

definition error_body :: "int \<Rightarrow> string" where
  "error_body code =
     ''{'' @ [CHR 0x22] @ ''error'' @ [CHR 0x22] @ '':'' @ [CHR 0x22] @ StatusText code
     @ [CHR 0x22] @ ''}''"

definition write_error :: "effect list \<Rightarrow> s2s_error \<Rightarrow> http_reply" where
  "write_error es e =
     (let code = status_code (Some e)
      in \<lparr> re_status = code, re_content_type = ''application/json'', re_body = error_body code,
           re_log = es \<rparr>)"

definition add_log :: "effect list \<Rightarrow> http_reply \<Rightarrow> http_reply" where
  "add_log es r = r\<lparr>re_log := es @ re_log r\<rparr>"

definition s2shttp_serve ::
  "'c jwt_lib \<Rightarrow> (string \<Rightarrow> string option) \<Rightarrow> time \<Rightarrow> receiver_config \<Rightarrow> http_handler option \<Rightarrow>
   http_handler \<Rightarrow> http_handler" where
  "s2shttp_serve L uuid now cfg legacy_handler next_handler q =
     (let rq = hq_request q; vals = rq_headers rq (canonical_key HeaderServiceToken)
      in case vals of
           None \<Rightarrow>
             (case legacy_handler of
                None \<Rightarrow> write_error [LogLegacyKey (rq_path rq)] (ErrUnauthenticated NoText)
              | Some h \<Rightarrow> add_log [LogLegacyKey (rq_path rq)] (h q))
         | Some vs \<Rightarrow>
             (if length vs \<noteq> 1 then write_error [] (ErrUnauthenticated NoText)
              else let authorization = single_header (rq_headers rq) ''Authorization'';
                       tenant_header = single_header (rq_headers rq) HeaderTenantID
                in case authorization of
                     None \<Rightarrow> write_error [] (ErrUnauthenticated NoText)
                   | Some auth \<Rightarrow>
                (case tenant_header of
                     None \<Rightarrow> write_error [] (ErrForbidden NoText)
                   | Some th \<Rightarrow>
                (case authenticate L uuid now cfg (vs ! 0) auth th of
                   (Inl e, es) \<Rightarrow>
                     write_error (es @ [LogAuthRejected (status_code (Some e)) (rq_path rq)]) e
                 | (Inr res, es) \<Rightarrow> add_log es (next_handler (q\<lparr>hq_result := Some res\<rparr>))))))"

definition s2shttp_middleware ::
  "'c jwt_lib \<Rightarrow> (string \<Rightarrow> string option) \<Rightarrow> time \<Rightarrow> receiver_config \<Rightarrow>
   (http_handler \<Rightarrow> http_handler) option \<Rightarrow> (http_handler \<Rightarrow> http_handler) option" where
  "s2shttp_middleware L uuid now cfg legacy =
     (case validate_config (rc_service cfg) of
        Some _ \<Rightarrow> None
      | None \<Rightarrow>
          Some (\<lambda>next_handler.
            s2shttp_serve L uuid now cfg (map_option (\<lambda>l. l next_handler) legacy) next_handler))"

definition http_from_context :: "http_request \<Rightarrow> receiver_result option" where
  "http_from_context q = hq_result q"

section \<open>s2sauth\<close>

definition ContextPrincipal :: string where "ContextPrincipal = ''s2s_principal''"
definition ContextAuth :: string where "ContextAuth = ''s2s_auth''"

definition s2s_abort :: "s2s_error \<Rightarrow> gin_handler" where
  "s2s_abort e = (let code = status_code (Some e) in ctx_abort code (StatusText code))"

definition set_result :: "receiver_result \<Rightarrow> gin_handler" where
  "set_result res c =
     (let c = ctx_set ContextAuth (CStr ''token'') c;
          c = ctx_set ContextPrincipal (CPrincipal (rr_service res)) c;
          c = (if rr_tenant_id res \<noteq> [] then ctx_set ''tenant_id'' (CStr (rr_tenant_id res)) c else c);
          c = (case rr_user_claims res of
                 None \<Rightarrow> c
               | Some m \<Rightarrow> ctx_set ''roles'' (CStrs (rr_roles res)) (ctx_set ''jwt_claims'' (CClaims m) c));
          ns = result_namespace res
      in if ns \<noteq> [] then ctx_set ''namespace'' (CStr ns) c else c)"

definition s2sauth_handle ::
  "'c jwt_lib \<Rightarrow> (string \<Rightarrow> string option) \<Rightarrow> time \<Rightarrow> receiver_config \<Rightarrow> gin_handler option \<Rightarrow>
   gin_handler" where
  "s2sauth_handle L uuid now cfg legacy c =
     (let h = rq_headers (gc_request c); full = rq_full_path (gc_request c)
      in case h (canonical_key HeaderServiceToken) of
           None \<Rightarrow>
             (let c = ctx_effects [LogLegacyKey full] (ctx_set ContextAuth (CStr ''legacy_key'') c)
              in case legacy of
                   None \<Rightarrow> s2s_abort (ErrUnauthenticated NoText) c
                 | Some l \<Rightarrow> l c)
         | Some vs \<Rightarrow>
             (if length vs \<noteq> 1 then s2s_abort (ErrUnauthenticated NoText) c
              else (case single_header h ''Authorization'' of
                None \<Rightarrow> s2s_abort (ErrUnauthenticated NoText) c
              | Some auth \<Rightarrow>
              (case single_header h HeaderTenantID of
                None \<Rightarrow> s2s_abort (ErrForbidden NoText) c
              | Some th \<Rightarrow>
              (case authenticate L uuid now cfg (vs ! 0) auth th of
                (Inl e, es) \<Rightarrow>
                  s2s_abort e (ctx_effects (es @ [LogAuthRejected (status_code (Some e)) full]) c)
              | (Inr res, es) \<Rightarrow>
                  ctx_effects [LogAuthToken (pr_subject (rr_service res)) full]
                    (set_result res (ctx_effects es c)))))))"

definition s2sauth_middleware ::
  "'c jwt_lib \<Rightarrow> (string \<Rightarrow> string option) \<Rightarrow> time \<Rightarrow> receiver_config \<Rightarrow> gin_handler option \<Rightarrow>
   gin_handler option" where
  "s2sauth_middleware L uuid now cfg legacy =
     (case validate_config (rc_service cfg) of
        Some _ \<Rightarrow> None
      | None \<Rightarrow> Some (s2sauth_handle L uuid now cfg legacy))"

definition principal_from_context :: "gin_ctx \<Rightarrow> principal option" where
  "principal_from_context c =
     (case gc_keys c ContextPrincipal of Some (CPrincipal p) \<Rightarrow> Some p | _ \<Rightarrow> None)"

section \<open>The two adapters decide alike\<close>

text \<open>
  The decision about a request, free of the framework: a malformed set of headers is refused, a
  request without \<open>X-Service-Token\<close> is left to the legacy credential, and the receiver refuses the
  others or hands them on, with its effects.
\<close>

datatype verdict =
    Malformed s2s_error
  | LeftToLegacy
  | Rejected s2s_error "effect list"
  | HandedOn receiver_result "effect list"

definition verdict_of ::
  "'c jwt_lib \<Rightarrow> (string \<Rightarrow> string option) \<Rightarrow> time \<Rightarrow> receiver_config \<Rightarrow> request \<Rightarrow> verdict" where
  "verdict_of L uuid now cfg rq =
     (case rq_headers rq (canonical_key HeaderServiceToken) of
        None \<Rightarrow> LeftToLegacy
      | Some [tok] \<Rightarrow>
          (case (single_header (rq_headers rq) ''Authorization'', single_header (rq_headers rq) HeaderTenantID) of
             (None, _) \<Rightarrow> Malformed (ErrUnauthenticated NoText)
           | (Some auth, None) \<Rightarrow> Malformed (ErrForbidden NoText)
           | (Some auth, Some th) \<Rightarrow>
               (case authenticate L uuid now cfg tok auth th of
                  (Inl e, es) \<Rightarrow> Rejected e es
                | (Inr res, es) \<Rightarrow> HandedOn res es))
      | Some _ \<Rightarrow> Malformed (ErrUnauthenticated NoText))"

text \<open>
  What each framework makes of a verdict, as seen from outside. \<open>refuses_http e es r\<close>: the reply has the
  status and the generic body of \<open>e\<close>, and \<open>es\<close> is logged; \<open>refuses_gin e es c g\<close>: the chain is aborted
  with them, nothing else of the context changes, and \<open>es\<close> is logged after what was.
\<close>

definition refuses_http :: "s2s_error \<Rightarrow> effect list \<Rightarrow> http_reply \<Rightarrow> bool" where
  "refuses_http e es r \<longleftrightarrow>
     r = \<lparr>re_status = status_code (Some e), re_content_type = ''application/json'',
          re_body = error_body (status_code (Some e)), re_log = es\<rparr>"

definition refuses_gin :: "s2s_error \<Rightarrow> effect list \<Rightarrow> gin_ctx \<Rightarrow> gin_ctx \<Rightarrow> bool" where
  "refuses_gin e es c g \<longleftrightarrow>
     g = c\<lparr>gc_abort := Some (status_code (Some e), StatusText (status_code (Some e))),
           gc_events := gc_events c @ map ReceiverEffect es\<rparr>"

definition http_meets ::
  "http_handler option \<Rightarrow> http_handler \<Rightarrow> http_request \<Rightarrow> verdict \<Rightarrow> http_reply \<Rightarrow> bool" where
  "http_meets legacy next_handler q v r =
     (let path = rq_path (hq_request q)
      in case v of
           Malformed e \<Rightarrow> refuses_http e [] r
         | LeftToLegacy \<Rightarrow>
             (case legacy of
                None \<Rightarrow> refuses_http (ErrUnauthenticated NoText) [LogLegacyKey path] r
              | Some h \<Rightarrow> r = add_log [LogLegacyKey path] (h q))
         | Rejected e es \<Rightarrow> refuses_http e (es @ [LogAuthRejected (status_code (Some e)) path]) r
         | HandedOn res es \<Rightarrow> r = add_log es (next_handler (q\<lparr>hq_result := Some res\<rparr>)))"

definition gin_meets :: "gin_handler option \<Rightarrow> gin_ctx \<Rightarrow> verdict \<Rightarrow> gin_ctx \<Rightarrow> bool" where
  "gin_meets legacy c v g =
     (let path = rq_full_path (gc_request c); marked = ctx_set ContextAuth (CStr ''legacy_key'') c
      in case v of
           Malformed e \<Rightarrow> refuses_gin e [] c g
         | LeftToLegacy \<Rightarrow>
             (case legacy of
                None \<Rightarrow> refuses_gin (ErrUnauthenticated NoText) [LogLegacyKey path] marked g
              | Some h \<Rightarrow> g = h (ctx_effects [LogLegacyKey path] marked))
         | Rejected e es \<Rightarrow> refuses_gin e (es @ [LogAuthRejected (status_code (Some e)) path]) c g
         | HandedOn res es \<Rightarrow>
             gc_abort g = gc_abort c \<and> principal_from_context g = Some (rr_service res) \<and>
             gc_events g = gc_events c @ map ReceiverEffect (es @ [LogAuthToken (pr_subject (rr_service res)) path]) \<and>
             gc_keys g ''tenant_id'' =
               (if rr_tenant_id res = [] then gc_keys c ''tenant_id'' else Some (CStr (rr_tenant_id res))) \<and>
             gc_keys g ''namespace'' =
               (if result_namespace res = [] then gc_keys c ''namespace'' else Some (CStr (result_namespace res))) \<and>
             gc_keys g ContextAuth = Some (CStr ''token'') \<and>
             (case rr_user_claims res of
                None \<Rightarrow> gc_keys g ''roles'' = gc_keys c ''roles'' \<and> gc_keys g ''jwt_claims'' = gc_keys c ''jwt_claims''
              | Some m \<Rightarrow> gc_keys g ''roles'' = Some (CStrs (rr_roles res)) \<and>
                  gc_keys g ''jwt_claims'' = Some (CClaims m)))"

lemma no_effects [simp]: "ctx_effects [] d = d"
  by (simp add: ctx_effects_def)

lemma write_error_refuses: "refuses_http e es (write_error es e)"
  by (simp add: refuses_http_def write_error_def Let_def)

lemma abort_refuses: "refuses_gin e es c (s2s_abort e (ctx_effects es c))"
  by (simp add: refuses_gin_def s2s_abort_def ctx_abort_def ctx_effects_def Let_def)

lemma sentinel_refuses: "refuses_gin e [] c (s2s_abort e c)"
  using abort_refuses [of e "[]" c] by simp

lemma set_result_events: "gc_events (set_result r c) = gc_events c"
  by (auto simp: set_result_def ctx_set_def Let_def split: option.split)

lemma set_result_keys:
  "gc_abort (set_result r c) = gc_abort c"
  "gc_keys (set_result r c) ContextPrincipal = Some (CPrincipal (rr_service r))"
  "gc_keys (set_result r c) ''tenant_id'' =
     (if rr_tenant_id r = [] then gc_keys c ''tenant_id'' else Some (CStr (rr_tenant_id r)))"
  "gc_keys (set_result r c) ''namespace'' =
     (if result_namespace r = [] then gc_keys c ''namespace'' else Some (CStr (result_namespace r)))"
  "gc_keys (set_result r c) ContextAuth = Some (CStr ''token'')"
  "rr_user_claims r = None \<Longrightarrow> gc_keys (set_result r c) ''roles'' = gc_keys c ''roles''"
  "rr_user_claims r = None \<Longrightarrow> gc_keys (set_result r c) ''jwt_claims'' = gc_keys c ''jwt_claims''"
  "rr_user_claims r = Some m \<Longrightarrow> gc_keys (set_result r c) ''roles'' = Some (CStrs (rr_roles r))"
  "rr_user_claims r = Some m \<Longrightarrow> gc_keys (set_result r c) ''jwt_claims'' = Some (CClaims m)"
  by (auto simp: set_result_def ctx_set_def Let_def ContextAuth_def ContextPrincipal_def
      split: option.splits)

lemma ctx_effects_simps [simp]:
  "gc_abort (ctx_effects es c) = gc_abort c" "gc_keys (ctx_effects es c) = gc_keys c"
  "gc_events (ctx_effects es c) = gc_events c @ map ReceiverEffect es"
  by (simp_all add: ctx_effects_def)

lemma handed_on_meets:
  "gin_meets lg c (HandedOn res es)
     (ctx_effects [LogAuthToken (pr_subject (rr_service res)) (rq_full_path (gc_request c))]
        (set_result res (ctx_effects es c)))"
  by (auto simp: gin_meets_def set_result_keys set_result_events principal_from_context_def
      split: option.split)

text \<open>C22: The \<open>net/http\<close> and the gin adapter carry out one verdict. For every request, and with or
  without a legacy credential, both refuse a malformed request with the same status and the generic
  body; both leave a request without \<open>X-Service-Token\<close> to the legacy credential, and both refuse it
  with 401 if there is none; both refuse what the receiver refuses, with its status, and log the
  receiver's effects and the rejection; and both hand on what it accepts with the same result and log
  its effects. The gin context then holds the principal, the tenant, the namespace and the
  user's claims and roles of that result.\<close>

theorem adapters_agree:
  "http_meets lh nh q (verdict_of L uuid now cfg (hq_request q)) (s2shttp_serve L uuid now cfg lh nh q) \<and>
   gin_meets lg c (verdict_of L uuid now cfg (gc_request c)) (s2sauth_handle L uuid now cfg lg c)"
proof
  note refusals = write_error_refuses abort_refuses sentinel_refuses
  show "http_meets lh nh q (verdict_of L uuid now cfg (hq_request q)) (s2shttp_serve L uuid now cfg lh nh q)"
    by (auto simp: http_meets_def verdict_of_def s2shttp_serve_def Let_def refusals
        split: option.split list.split prod.split sum.split)
  show "gin_meets lg c (verdict_of L uuid now cfg (gc_request c)) (s2sauth_handle L uuid now cfg lg c)"
  proof (cases "\<exists>res es. verdict_of L uuid now cfg (gc_request c) = HandedOn res es")
    case True
    then obtain res es where v: "verdict_of L uuid now cfg (gc_request c) = HandedOn res es" by blast
    then have "s2sauth_handle L uuid now cfg lg c =
        ctx_effects [LogAuthToken (pr_subject (rr_service res)) (rq_full_path (gc_request c))]
          (set_result res (ctx_effects es c))"
      by (auto simp: verdict_of_def s2sauth_handle_def Let_def split: option.splits list.splits prod.splits sum.splits)
    with v handed_on_meets show ?thesis by simp
  next
    case False
    then show ?thesis
      by (auto simp: gin_meets_def verdict_of_def s2sauth_handle_def Let_def refusals
          split: option.split list.split prod.split sum.split)
  qed
qed

section \<open>The credential is chosen by the header's presence\<close>

lemma s2s_abort_aborts [simp]: "gc_abort (s2s_abort e c) \<noteq> None"
  by (simp add: s2s_abort_def ctx_abort_def Let_def)

lemma s2sauth_passes:
  assumes "rq_headers (gc_request c) (canonical_key HeaderServiceToken) = Some vs"
    and "gc_abort (s2sauth_handle L uuid now cfg legacy c) = None"
  obtains tok auth th r es es' where "vs = [tok]"
    "single_header (rq_headers (gc_request c)) ''Authorization'' = Some auth"
    "single_header (rq_headers (gc_request c)) HeaderTenantID = Some th"
    "authenticate L uuid now cfg tok auth th = (Inr r, es)"
    "s2sauth_handle L uuid now cfg legacy c = ctx_effects es' (set_result r (ctx_effects es c))"
proof (cases "single_header (rq_headers (gc_request c)) ''Authorization''")
  case None
  with assms that show thesis
    by (auto simp: s2sauth_handle_def Let_def split: if_splits)
next
  case (Some auth)
  with assms that show thesis
    by (auto simp: s2sauth_handle_def Let_def length_Suc_conv
        split: option.splits sum.splits prod.splits if_splits)
qed

text \<open>A request that carries \<open>X-Service-Token\<close> is never decided by the legacy credential: what
  the adapters answer does not depend on it, an empty or repeated header is rejected, and a
  request that passes has a principal whose token the receiver authenticated with that header's
  only value and unambiguous \<open>Authorization\<close> and \<open>X-Tenant-ID\<close> headers.\<close>

theorem service_token_never_falls_back:
  assumes "rq_headers (gc_request c) (canonical_key HeaderServiceToken) = Some vs"
  shows "s2sauth_handle L uuid now cfg legacy c = s2sauth_handle L uuid now cfg legacy' c \<and>
    s2shttp_serve L uuid now cfg lh nh (q\<lparr>hq_request := gc_request c\<rparr>)
      = s2shttp_serve L uuid now cfg lh' nh (q\<lparr>hq_request := gc_request c\<rparr>) \<and>
    (gc_abort (s2sauth_handle L uuid now cfg legacy c) = None \<longrightarrow>
       (\<exists>tok auth th r. vs = [tok] \<and>
          single_header (rq_headers (gc_request c)) ''Authorization'' = Some auth \<and>
          single_header (rq_headers (gc_request c)) HeaderTenantID = Some th \<and>
          fst (authenticate L uuid now cfg tok auth th) = Inr r \<and>
          principal_from_context (s2sauth_handle L uuid now cfg legacy c) = Some (rr_service r)))"
proof (intro conjI impI)
  show "s2sauth_handle L uuid now cfg legacy c = s2sauth_handle L uuid now cfg legacy' c"
    using assms by (simp add: s2sauth_handle_def Let_def)
  show "s2shttp_serve L uuid now cfg lh nh (q\<lparr>hq_request := gc_request c\<rparr>)
      = s2shttp_serve L uuid now cfg lh' nh (q\<lparr>hq_request := gc_request c\<rparr>)"
    using assms by (simp add: s2shttp_serve_def Let_def)
  assume pass: "gc_abort (s2sauth_handle L uuid now cfg legacy c) = None"
  show "\<exists>tok auth th r. vs = [tok] \<and>
      single_header (rq_headers (gc_request c)) ''Authorization'' = Some auth \<and>
      single_header (rq_headers (gc_request c)) HeaderTenantID = Some th \<and>
      fst (authenticate L uuid now cfg tok auth th) = Inr r \<and>
      principal_from_context (s2sauth_handle L uuid now cfg legacy c) = Some (rr_service r)"
    using assms pass by (rule s2sauth_passes) (auto simp: principal_from_context_def set_result_keys)
qed

section \<open>Witnesses\<close>

definition sample_s2s_request :: request where
  "sample_s2s_request =
     \<lparr> rq_headers = [canonical_key HeaderServiceToken \<mapsto> [''svc''],
         canonical_key ''Authorization'' \<mapsto> [''Bearer usr''],
         canonical_key HeaderTenantID \<mapsto> [''t1'']],
       rq_path = ''/stock'', rq_full_path = ''/stock'', rq_client_ip = ''::1'' \<rparr>"

lemma canonical_keys_distinct:
  "canonical_key HeaderServiceToken \<noteq> canonical_key ''Authorization''"
  "canonical_key HeaderServiceToken \<noteq> canonical_key HeaderTenantID"
  "canonical_key ''Authorization'' \<noteq> canonical_key HeaderTenantID"
  by (simp_all add: HeaderServiceToken_def HeaderTenantID_def canonical_key_def header_byte_def
      is_digit_def case_defs byte_def char_of_def bit_0)

lemma sample_s2s_passes:
  "gc_abort (s2sauth_handle (sample_both_lib TenantScopeUser) uuid sample_now sample_receiver legacy
     (fresh_ctx sample_s2s_request)) = None"
proof -
  obtain es where "authenticate (sample_both_lib TenantScopeUser) uuid sample_now sample_receiver
      ''svc'' ''Bearer usr'' ''t1'' = (Inr sample_result, es)"
    using sample_authenticate [of uuid] by (metis prod.collapse)
  then show ?thesis
    by (simp add: s2sauth_handle_def Let_def fresh_ctx_def sample_s2s_request_def single_header_def
        canonical_keys_distinct [symmetric] canonical_keys_distinct set_result_keys)
qed

theorem service_token_never_falls_back_witness:
  "\<exists>p. principal_from_context (s2sauth_handle (sample_both_lib TenantScopeUser) (\<lambda>_. None) sample_now
         sample_receiver None (fresh_ctx sample_s2s_request)) = Some p"
proof -
  have "rq_headers (gc_request (fresh_ctx sample_s2s_request)) (canonical_key HeaderServiceToken)
      = Some [''svc'']"
    by (simp add: fresh_ctx_def sample_s2s_request_def canonical_keys_distinct)
  from service_token_never_falls_back [OF this, of "sample_both_lib TenantScopeUser" "\<lambda>_. None"
      sample_now sample_receiver None] sample_s2s_passes
  show ?thesis by blast
qed

end
