(* ===== verification/Middleware.thy ===== *)
theory Middleware
  imports Adapters
begin

text \<open>
  The gin middlewares of \<open>infrastructure/middleware\<close> that authenticate and authorize user
  requests: \<open>tenant_validation.go\<close>, \<open>platform_auth.go\<close>, \<open>require_role.go\<close>, the construction
  in \<open>jwt_keyring.go\<close>, and how they compose in a chain.

  The keyring is resolved once, when a middleware is built; failing to resolve it is the
  panic \<open>Inl\<close>. The JWT library and the clock are arguments of the handler.
\<close>

section \<open>Construction\<close>

definition resolve_public_keyring ::
  "key_source \<Rightarrow> (string \<Rightarrow> string) \<Rightarrow> bool \<Rightarrow> string \<Rightarrow> keyring_error + keyring option" where
  "resolve_public_keyring ks getenv release configured = resolve ks getenv configured release"

section \<open>TenantValidation\<close>

record tenant_config =
  tv_jwt_secret :: string
  tv_jwt_public_key_dir :: string
  tv_namespace :: string
  tv_excluded_routes :: "string list"
  tv_on_tenant_mismatch :: bool
  tv_on_namespace_mismatch :: bool
  tv_reject_missing_tenant :: bool

definition suffix_star :: "string \<Rightarrow> bool" where
  "suffix_star route \<longleftrightarrow> suffix ''*'' route"

fun is_excluded :: "string \<Rightarrow> string list \<Rightarrow> bool" where
  "is_excluded path [] = False"
| "is_excluded path (route # routes) =
     (if suffix_star route
      then (if prefix (butlast route) path then True else is_excluded path routes)
      else if path = route then True else is_excluded path routes)"

text \<open>\<open>stringSliceClaim\<close>; a \<open>[]string\<close> cannot come out of a decoded token.\<close>

definition string_slice_claim :: "map_claims \<Rightarrow> string \<Rightarrow> string list" where
  "string_slice_claim claims key =
     (case claims key of
        None \<Rightarrow> []
      | Some (JArr js) \<Rightarrow> json_strings js
      | Some _ \<Rightarrow> [])"

text \<open>The callbacks are optional: the flag says whether the configuration has one.\<close>

definition call_if :: "bool \<Rightarrow> gin_event \<Rightarrow> gin_handler" where
  "call_if present e c = (if present then ctx_event e c else c)"

definition tenant_validation_handler ::
  "'c jwt_lib \<Rightarrow> time \<Rightarrow> keyring option \<Rightarrow> tenant_config \<Rightarrow> gin_handler" where
  "tenant_validation_handler L now ring cfg c =
     (if is_excluded (rq_path (gc_request c)) (tv_excluded_routes cfg) then c
      else
      let auth_header = get_header c ''Authorization'' in
      if auth_header = [] then ctx_abort 401 ''Authorization header required'' c
      else
      let token_str = trim_prefix auth_header ''Bearer '' in
      if token_str = auth_header then ctx_abort 401 ''Bearer token required'' c
      else (case parse_dual L now token_str (tv_jwt_secret cfg) ring False of
        None \<Rightarrow> ctx_abort 401 ''Invalid or expired token'' c
      | Some claims \<Rightarrow>
      if check_user_claims claims \<noteq> None then ctx_abort 401 ''Invalid or expired token'' c
      else
      let user_id = str_claim claims ''user_id''; jwt_namespace = str_claim claims ''namespace'';
          ip = rq_client_ip (gc_request c) in
      if tv_namespace cfg \<noteq> [] \<and> jwt_namespace \<noteq> tv_namespace cfg
      then ctx_abort 403 ''Namespace mismatch: token does not belong to this project''
             (call_if (tv_on_namespace_mismatch cfg)
                (OnNamespaceMismatch user_id jwt_namespace (tv_namespace cfg) ip) c)
      else
      let jwt_tenant = str_claim claims ''tenant_id'';
          header_tenant = get_header c ''X-Tenant-ID'' in
      if jwt_tenant = []
      then (if tv_reject_missing_tenant cfg
            then ctx_abort 403 ''Forbidden: token is missing tenant_id claim''
                   (call_if (tv_on_tenant_mismatch cfg)
                      (OnTenantMismatch user_id [] header_tenant ip) c)
            else c)
      else if header_tenant = [] then ctx_abort 400 ''X-Tenant-ID header required'' c
      else if jwt_tenant \<noteq> header_tenant
      then ctx_abort 403 ''Tenant mismatch: X-Tenant-ID does not match token tenant''
             (call_if (tv_on_tenant_mismatch cfg)
                (OnTenantMismatch user_id jwt_tenant header_tenant ip) c)
      else
      let c = ctx_set ''tenant_id'' (CStr jwt_tenant) c;
          c = ctx_set ''jwt_claims'' (CClaims claims) c;
          c = ctx_set ''roles'' (CStrs (string_slice_claim claims ''roles'')) c
      in if jwt_namespace \<noteq> [] then ctx_set ''namespace'' (CStr jwt_namespace) c else c))"

definition tenant_validation ::
  "key_source \<Rightarrow> (string \<Rightarrow> string) \<Rightarrow> bool \<Rightarrow> tenant_config \<Rightarrow>
   keyring_error + ('c jwt_lib \<Rightarrow> time \<Rightarrow> gin_handler)" where
  "tenant_validation ks getenv release cfg =
     (case resolve_public_keyring ks getenv release (tv_jwt_public_key_dir cfg) of
        Inl e \<Rightarrow> Inl e
      | Inr ring \<Rightarrow> Inr (\<lambda>L now. tenant_validation_handler L now ring cfg))"

definition namespace_from_context :: "gin_ctx \<Rightarrow> string \<times> bool" where
  "namespace_from_context c =
     (case gc_keys c ''namespace'' of
        Some (CStr ns) \<Rightarrow> (ns, ns \<noteq> [])
      | _ \<Rightarrow> ([], False))"

section \<open>VerifyPlatformJWT\<close>

record platform_config =
  pf_jwt_secret :: string
  pf_jwt_public_key_dir :: string
  pf_namespace :: string

definition platform_handler ::
  "'c jwt_lib \<Rightarrow> time \<Rightarrow> keyring option \<Rightarrow> platform_config \<Rightarrow> gin_handler" where
  "platform_handler L now ring cfg c =
     (let auth_header = get_header c ''Authorization'' in
      if auth_header = [] then ctx_abort 401 ''Authorization header required'' c
      else
      let token_str = trim_prefix auth_header ''Bearer '' in
      if token_str = auth_header then ctx_abort 401 ''Bearer token required'' c
      else (case parse_dual L now token_str (pf_jwt_secret cfg) ring True of
        None \<Rightarrow> ctx_abort 401 ''Invalid or expired token'' c
      | Some claims \<Rightarrow>
      if check_user_claims claims \<noteq> None then ctx_abort 401 ''Invalid or expired token'' c
      else if pf_namespace cfg \<noteq> [] \<and> str_claim claims ''namespace'' \<noteq> pf_namespace cfg
      then ctx_abort 403 ''Namespace mismatch: token does not belong to this project'' c
      else ctx_set ''roles'' (CStrs (string_slice_claim claims ''roles''))
             (ctx_set ''jwt_claims'' (CClaims claims) c)))"

definition verify_platform_jwt ::
  "key_source \<Rightarrow> (string \<Rightarrow> string) \<Rightarrow> bool \<Rightarrow> platform_config \<Rightarrow>
   keyring_error + ('c jwt_lib \<Rightarrow> time \<Rightarrow> gin_handler)" where
  "verify_platform_jwt ks getenv release cfg =
     (case resolve_public_keyring ks getenv release (pf_jwt_public_key_dir cfg) of
        Inl e \<Rightarrow> Inl e
      | Inr ring \<Rightarrow> Inr (\<lambda>L now. platform_handler L now ring cfg))"

section \<open>RequireRole and RequirePermission\<close>

definition claims_from_context :: "gin_ctx \<Rightarrow> map_claims option" where
  "claims_from_context c =
     (case gc_keys c ''jwt_claims'' of Some (CClaims m) \<Rightarrow> Some m | _ \<Rightarrow> None)"

definition roles_from_context :: "gin_ctx \<Rightarrow> string list option" where
  "roles_from_context c =
     (case gc_keys c ''roles'' of
        Some (CStrs roles) \<Rightarrow> Some roles
      | _ \<Rightarrow> map_option (\<lambda>m. string_slice_claim m ''roles'') (claims_from_context c))"

definition to_set :: "string list \<Rightarrow> string \<Rightarrow> bool" where
  "to_set items s \<longleftrightarrow> s \<in> set items"

fun any_role :: "(string \<Rightarrow> bool) \<Rightarrow> string list \<Rightarrow> bool" where
  "any_role allowed [] = False"
| "any_role allowed (r # rs) = (if allowed r then True else any_role allowed rs)"

fun any_permission :: "(string \<Rightarrow> bool) \<Rightarrow> string list \<Rightarrow> bool" where
  "any_permission allowed [] = False"
| "any_permission allowed (p # ps) =
     (if p = ''*'' then True else if allowed p then True else any_permission allowed ps)"

definition require_role :: "string list \<Rightarrow> gin_handler" where
  "require_role allowed c =
     (case roles_from_context c of
        None \<Rightarrow> ctx_abort 403 ''forbidden: missing authorization context'' c
      | Some roles \<Rightarrow>
          if any_role (to_set allowed) roles then c
          else ctx_abort 403 ''forbidden: missing required role'' c)"

definition require_permission :: "string list \<Rightarrow> gin_handler" where
  "require_permission allowed c =
     (case claims_from_context c of
        None \<Rightarrow> ctx_abort 403 ''forbidden: missing authorization context'' c
      | Some claims \<Rightarrow>
          if any_permission (to_set allowed) (string_slice_claim claims ''perms'') then c
          else ctx_abort 403 ''forbidden: missing required permission'' c)"

section \<open>Facts\<close>

lemma is_excluded_iff:
  "is_excluded path routes \<longleftrightarrow>
     (\<exists>r \<in> set routes. if suffix_star r then prefix (butlast r) path else path = r)"
proof (induction routes)
  case (Cons r routes)
  show ?case unfolding is_excluded.simps Cons.IH by auto
qed simp

lemma any_role_iff: "any_role (to_set allowed) roles \<longleftrightarrow> set roles \<inter> set allowed \<noteq> {}"
  by (induction roles) (auto simp: to_set_def)

lemma any_permission_iff:
  "any_permission (to_set allowed) ps \<longleftrightarrow> ''*'' \<in> set ps \<or> set ps \<inter> set allowed \<noteq> {}"
  by (induction ps) (auto simp: to_set_def)

lemma set_json_strings [simp]: "s \<in> set (json_strings js) \<longleftrightarrow> JStr s \<in> set js"
  by (induction js rule: json_strings.induct) auto

lemma string_slice_iff:
  "s \<in> set (string_slice v) \<longleftrightarrow> (\<exists>js. v = Some (JArr js) \<and> JStr s \<in> set js)"
  by (auto simp: string_slice_def split: option.splits json.splits)

lemma string_slice_claim_eq: "string_slice_claim m k = string_slice (m k)"
  by (simp add: string_slice_claim_def string_slice_def)

lemma ctx_abort_aborts [simp]: "gc_abort (ctx_abort code body c) = Some (code, body)"
  by (simp add: ctx_abort_def)

lemma ctx_set_simps [simp]:
  "gc_abort (ctx_set k v c) = gc_abort c" "gc_keys (ctx_set k v c) = (gc_keys c)(k \<mapsto> v)"
  "gc_request (ctx_set k v c) = gc_request c"
  by (simp_all add: ctx_set_def)

lemma bearer_token:
  "trim_prefix h ''Bearer '' \<noteq> h \<longleftrightarrow> (\<exists>tok. h = ''Bearer '' @ tok)"
  "trim_prefix (''Bearer '' @ tok) ''Bearer '' = tok"
  by (auto simp: trim_prefix_same prefix_def) (simp add: trim_prefix_def)

text \<open>A token in the \<open>Authorization\<close> header that \<open>ParseDual\<close> and the user contract accept.\<close>

definition user_token ::
  "'c jwt_lib \<Rightarrow> time \<Rightarrow> keyring option \<Rightarrow> bool \<Rightarrow> gin_ctx \<Rightarrow> map_claims \<Rightarrow> bool" where
  "user_token L now ring require_exp c m \<longleftrightarrow>
     (\<exists>tok. get_header c ''Authorization'' = ''Bearer '' @ tok \<and>
        parse_dual L now tok [] ring require_exp = Some m) \<and> check_user_claims m = None"

lemma parse_dual_secret: "parse_dual L now tok s ring e = parse_dual L now tok s' ring e"
  by (simp add: parse_dual_def)

definition tenant_accepts :: "tenant_config \<Rightarrow> gin_ctx \<Rightarrow> map_claims \<Rightarrow> bool" where
  "tenant_accepts cfg c m \<longleftrightarrow>
     tv_namespace cfg \<in> {[], str_claim m ''namespace''} \<and>
     (if str_claim m ''tenant_id'' = [] then \<not> tv_reject_missing_tenant cfg
      else get_header c ''X-Tenant-ID'' = str_claim m ''tenant_id'')"

definition leave_user :: "map_claims \<Rightarrow> gin_handler" where
  "leave_user m c =
     (if str_claim m ''tenant_id'' = [] then c
      else let c = ctx_set ''roles'' (CStrs (string_slice_claim m ''roles''))
                 (ctx_set ''jwt_claims'' (CClaims m)
                   (ctx_set ''tenant_id'' (CStr (str_claim m ''tenant_id'')) c))
           in if str_claim m ''namespace'' \<noteq> []
              then ctx_set ''namespace'' (CStr (str_claim m ''namespace'')) c else c)"

lemma keeps_keys:
  "gc_keys (ctx_abort code body d) = gc_keys d" "gc_keys (call_if b e d) = gc_keys d"
  by (simp_all add: ctx_abort_def call_if_def ctx_event_def)

lemma user_token_bearer:
  assumes "get_header c ''Authorization'' = ''Bearer '' @ tok"
  shows "user_token L now ring False c m \<longleftrightarrow>
    parse_dual L now tok secret ring False = Some m \<and> check_user_claims m = None"
  using parse_dual_secret [of L now tok "[]" ring False secret] assms by (auto simp: user_token_def)

lemma tenant_validation_accepted:
  assumes "\<not> is_excluded (rq_path (gc_request c)) (tv_excluded_routes cfg)" "user_token L now ring False c m"
  shows "if tenant_accepts cfg c m then tenant_validation_handler L now ring cfg c = leave_user m c
    else \<exists>code body. gc_abort (tenant_validation_handler L now ring cfg c) = Some (code, body) \<and>
      code \<in> {400, 403} \<and> gc_keys (tenant_validation_handler L now ring cfg c) = gc_keys c"
proof -
  obtain tok where tok: "get_header c ''Authorization'' = ''Bearer '' @ tok"
    using assms(2) by (auto simp: user_token_def)
  have bearer: "trim_prefix (''Bearer '' @ tok) ''Bearer '' = tok" "''Bearer '' @ tok \<noteq> []"
    "tok \<noteq> ''Bearer '' @ tok"
    using bearer_token(2) [of tok] by auto
  show ?thesis
    using assms(1) bearer assms(2) [unfolded user_token_bearer [OF tok, where secret = "tv_jwt_secret cfg"]]
    by (auto simp: tenant_validation_handler_def tok keeps_keys tenant_accepts_def leave_user_def Let_def)
qed

lemma tenant_validation_rejected:
  assumes "\<not> is_excluded (rq_path (gc_request c)) (tv_excluded_routes cfg)"
    and "\<not> (\<exists>m. user_token L now ring False c m)"
  shows "\<exists>body. gc_abort (tenant_validation_handler L now ring cfg c) = Some (401, body) \<and>
    gc_keys (tenant_validation_handler L now ring cfg c) = gc_keys c"
proof (cases "\<exists>tok. get_header c ''Authorization'' = ''Bearer '' @ tok")
  case False
  then have "trim_prefix (get_header c ''Authorization'') ''Bearer '' = get_header c ''Authorization''"
    using bearer_token(1) [of "get_header c ''Authorization''"] by auto
  with assms(1) show ?thesis by (simp add: tenant_validation_handler_def Let_def keeps_keys)
next
  case True
  then obtain tok where tok: "get_header c ''Authorization'' = ''Bearer '' @ tok" by blast
  have bearer: "trim_prefix (''Bearer '' @ tok) ''Bearer '' = tok" "''Bearer '' @ tok \<noteq> []"
    "tok \<noteq> ''Bearer '' @ tok"
    using bearer_token(2) [of tok] by auto
  have "parse_dual L now tok (tv_jwt_secret cfg) ring False = None \<or>
      (\<exists>m. parse_dual L now tok (tv_jwt_secret cfg) ring False = Some m \<and> check_user_claims m \<noteq> None)"
    using assms(2) unfolding user_token_bearer [OF tok, where secret = "tv_jwt_secret cfg"]
    by (cases "parse_dual L now tok (tv_jwt_secret cfg) ring False") auto
  with assms(1) bearer show ?thesis by (auto simp: tenant_validation_handler_def tok keeps_keys)
qed

lemma tenant_validation_cases:
  "let g = tenant_validation_handler L now ring cfg c in
   if is_excluded (rq_path (gc_request c)) (tv_excluded_routes cfg) then g = c
   else if \<exists>m. user_token L now ring False c m
   then (\<exists>m. user_token L now ring False c m \<and>
      (if tenant_accepts cfg c m then g = leave_user m c
       else \<exists>code body. gc_abort g = Some (code, body) \<and> code \<in> {400, 403} \<and> gc_keys g = gc_keys c))
   else \<exists>body. gc_abort g = Some (401, body) \<and> gc_keys g = gc_keys c"
proof (cases "is_excluded (rq_path (gc_request c)) (tv_excluded_routes cfg)")
  case True
  then show ?thesis by (simp add: tenant_validation_handler_def Let_def)
next
  case False
  from tenant_validation_accepted [OF this] tenant_validation_rejected [OF this] False
  show ?thesis unfolding Let_def by metis
qed

section \<open>TenantValidation and the role gate behind it\<close>

text \<open>C39: \<open>TenantValidation\<close> lets a request through exactly when its path is excluded, or its
  \<open>Authorization\<close> is a Bearer with a valid user token of the configured namespace whose tenant
  equals \<open>X-Tenant-ID\<close>, or has no tenant while the configuration does not reject that.\<close>

theorem tenant_validation_passes_iff:
  "gc_abort (tenant_validation_handler L now ring cfg c) = None \<longleftrightarrow>
     (is_excluded (rq_path (gc_request c)) (tv_excluded_routes cfg) \<or>
      (\<exists>m. user_token L now ring False c m \<and> tenant_accepts cfg c m)) \<and> gc_abort c = None"
proof -
  have fun_token: "user_token L now ring False c m \<Longrightarrow> user_token L now ring False c m' \<Longrightarrow> m = m'" for m m'
    by (auto simp: user_token_def)
  have leave: "gc_abort (leave_user m c) = gc_abort c" for m
    by (simp add: leave_user_def Let_def)
  show ?thesis
    using tenant_validation_cases [of L now ring cfg c] leave
    by (auto simp: Let_def split: if_splits dest: fun_token)
qed

text \<open>\<open>TenantValidation\<close> separates its refusals: 401 exactly for a request, on a path that is
  not excluded, without a valid user token; a request with one is refused with 400 or 403 only.
  A refused request has gained no claim, role or tenant in its context.\<close>

theorem tenant_validation_refusals:
  "case gc_abort (tenant_validation_handler L now ring cfg (fresh_ctx rq)) of
     None \<Rightarrow> True
   | Some (code, _) \<Rightarrow>
       gc_keys (tenant_validation_handler L now ring cfg (fresh_ctx rq)) = Map.empty \<and>
       (code = 401 \<longleftrightarrow> (\<forall>m. \<not> user_token L now ring False (fresh_ctx rq) m)) \<and>
       code \<in> {400, 401, 403}"
proof -
  have leave: "gc_abort (leave_user m c) = gc_abort c" for m c
    by (simp add: leave_user_def Let_def)
  have fresh: "gc_abort (fresh_ctx rq) = None" "gc_keys (fresh_ctx rq) = Map.empty"
    by (simp_all add: fresh_ctx_def)
  show ?thesis
    using tenant_validation_cases [of L now ring cfg "fresh_ctx rq"]
    by (auto simp: Let_def leave fresh split: if_splits option.splits)
qed

definition has_role :: "string list \<Rightarrow> map_claims \<Rightarrow> bool" where
  "has_role allowed m \<longleftrightarrow> (\<exists>js. m ''roles'' = Some (JArr js) \<and> (\<exists>r. r \<in> set allowed \<and> JStr r \<in> set js))"

lemma has_role_eq: "any_role (to_set allowed) (string_slice (m ''roles'')) \<longleftrightarrow> has_role allowed m"
  by (auto simp: any_role_iff has_role_def string_slice_iff)

lemma roles_from_keys:
  "roles_from_context c = roles_from_context d" if "gc_keys c ''roles'' = gc_keys d ''roles''"
    "gc_keys c ''jwt_claims'' = gc_keys d ''jwt_claims''"
  unfolding roles_from_context_def claims_from_context_def that ..

lemma require_role_passes:
  "gc_abort (require_role allowed c) = None \<longleftrightarrow>
     gc_abort c = None \<and> (\<exists>rs. roles_from_context c = Some rs \<and> any_role (to_set allowed) rs)"
  by (auto simp: require_role_def split: option.splits)

lemma tenant_role_gate:
  assumes "gc_keys c ''roles'' = None" "gc_keys c ''jwt_claims'' = None"
    and "gc_abort (run_chain [tenant_validation_handler L now ring cfg, require_role allowed] c) = None"
  obtains m where "user_token L now ring False c m" "tenant_accepts cfg c m"
    "str_claim m ''tenant_id'' \<noteq> []" "has_role allowed m"
proof -
  let ?g = "tenant_validation_handler L now ring cfg c"
  from assms(3) obtain rs where pass: "gc_abort ?g = None" "roles_from_context ?g = Some rs"
    "any_role (to_set allowed) rs"
    unfolding run_chain_passed require_role_passes by blast
  have none: "roles_from_context c = None"
    using assms(1,2) by (simp add: roles_from_context_def claims_from_context_def)
  then have "?g \<noteq> c" using pass by auto
  then obtain m where m: "user_token L now ring False c m" "tenant_accepts cfg c m" "?g = leave_user m c"
    using tenant_validation_cases [of L now ring cfg c] pass(1) by (auto simp: Let_def split: if_splits)
  moreover have "str_claim m ''tenant_id'' \<noteq> []"
    using m(3) pass(2) none by (auto simp: leave_user_def)
  ultimately show thesis
    using that pass(2,3) m(3)
    by (auto simp: leave_user_def Let_def roles_from_context_def string_slice_claim_eq
        has_role_eq [symmetric] split: if_splits)
qed

lemma user_token_signed:
  assumes "jwt_contract L hd_of payload svc_of verifies" "user_token L now ring require_exp c m"
  obtains tok where "get_header c ''Authorization'' = ''Bearer '' @ tok"
    "token_signed hd_of verifies ring tok" "payload tok = Some m"
    "m ''iss'' = Some (JStr UserIssuer)" "m ''token_use'' \<in> {None, Some (JStr [])}"
    "exp_valid \<lparr>valid_methods = [], strict_decoding = False, want_issuer = None,
       exp_required = require_exp, verify_issued_at = False, po_leeway = 0, po_now = now\<rparr>
       (the (date_claim m ''exp''))"
proof -
  from assms(2) obtain tok where tok: "get_header c ''Authorization'' = ''Bearer '' @ tok"
    and dual: "parse_dual L now tok [] ring require_exp = Some m" and user: "check_user_claims m = None"
    by (auto simp: user_token_def)
  from dual have parsed: "payload tok = Some m" "token_signed hd_of verifies ring tok"
    and valid: "exp_valid \<lparr>valid_methods = [], strict_decoding = False, want_issuer = None,
       exp_required = require_exp, verify_issued_at = False, po_leeway = 0, po_now = now\<rparr>
       (the (date_claim m ''exp''))"
    by (auto simp: parse_dual_def contract_map [OF assms(1)] signature_ok_rs256 token_signed_def
        map_valid_def exp_valid_def split: option.splits)
  from user have "m ''iss'' = Some (JStr UserIssuer)" "m ''token_use'' \<in> {None, Some (JStr [])}"
    by (auto simp: check_user_claims_def str_claim_UserIssuer split: if_splits option.splits json.splits)
  with that tok parsed valid show thesis by blast
qed

text \<open>A handler behind \<open>TenantValidation\<close> and \<open>RequireRole\<close> runs only for a signed user with one
  of the roles in the tenant of the request: an excluded route, a token without a tenant and a
  service token all fail closed, and neither the tenant nor the role can come from a header.\<close>

theorem role_gate_sound:
  assumes "jwt_contract L hd_of payload svc_of verifies"
    and "gc_abort (run_chain [tenant_validation_handler L now ring cfg, require_role allowed]
           (fresh_ctx rq)) = None"
  shows "\<exists>tok m t. header_get rq ''Authorization'' = ''Bearer '' @ tok \<and>
    token_signed hd_of verifies ring tok \<and> payload tok = Some m \<and>
    m ''iss'' = Some (JStr UserIssuer) \<and> m ''token_use'' \<in> {None, Some (JStr [])} \<and>
    m ''tenant_id'' = Some (JStr t) \<and> t \<noteq> [] \<and> header_get rq ''X-Tenant-ID'' = t \<and>
    tv_namespace cfg \<in> {[], str_claim m ''namespace''} \<and> has_role allowed m"
proof -
  from assms(2) obtain m where m: "user_token L now ring False (fresh_ctx rq) m"
    "tenant_accepts cfg (fresh_ctx rq) m" "str_claim m ''tenant_id'' \<noteq> []" "has_role allowed m"
    by (rule tenant_role_gate [rotated 2]) (simp_all add: fresh_ctx_def)
  from assms(1) m(1) obtain tok where "header_get rq ''Authorization'' = ''Bearer '' @ tok"
    "token_signed hd_of verifies ring tok" "payload tok = Some m"
    "m ''iss'' = Some (JStr UserIssuer)" "m ''token_use'' \<in> {None, Some (JStr [])}"
    by (rule user_token_signed) (simp add: get_header_def fresh_ctx_def)
  with m show ?thesis
    using str_claim_nonempty [of m "''tenant_id''" "str_claim m ''tenant_id''"]
    by (auto simp: tenant_accepts_def get_header_def fresh_ctx_def)
qed

lemma single_header_get: "single_header (rq_headers rq) name = Some v \<Longrightarrow> header_get rq name = v"
  by (auto simp: single_header_def header_get_def split: option.splits list.splits)

text \<open>Without a service token the legacy handler decides; with one, the roles are those of the user's
  claims.\<close>

lemma legacy_role_gate:
  assumes "gc_abort (run_chain
           [s2sauth_handle L uuid now rcfg (Some (tenant_validation_handler L now ring cfg)),
            require_role allowed] (fresh_ctx rq)) = None"
    and "rq_headers rq (canonical_key HeaderServiceToken) = None"
  obtains c m where "gc_request c = rq" "user_token L now ring False c m" "tenant_accepts cfg c m"
    "str_claim m ''tenant_id'' \<noteq> []" "has_role allowed m"
proof -
  let ?c = "ctx_effects [LogLegacyKey (rq_full_path rq)]
    (ctx_set ContextAuth (CStr ''legacy_key'') (fresh_ctx rq))"
  have keys: "gc_keys ?c ''roles'' = None" "gc_keys ?c ''jwt_claims'' = None"
    by (simp_all add: fresh_ctx_def ContextAuth_def)
  have rq: "gc_request ?c = rq" by (simp add: fresh_ctx_def ctx_effects_def)
  have "gc_abort (run_chain [tenant_validation_handler L now ring cfg, require_role allowed] ?c) = None"
    using assms unfolding run_chain_passed by (simp add: s2sauth_handle_def Let_def fresh_ctx_def)
  with keys show thesis by (rule tenant_role_gate) (rule that [OF rq])
qed

lemma accepted_role:
  assumes "fst (authenticate L uuid now rcfg tok auth th) = Inr r"
    and "g = ctx_effects es' (set_result r (ctx_effects es (fresh_ctx rq)))"
    and "roles_from_context g = Some rs" "any_role (to_set allowed) rs"
  obtains p m where "verify L now tok (rc_service rcfg) = Inr p" "pr_tenant_scope p = TenantScopeUser"
    "user_bearer L now (cfg_keyring (rc_service rcfg)) auth m" "admits_user rcfg p th m (rr_tenant_id r)"
    "has_role allowed m"
proof -
  have user: "rr_user_claims r \<noteq> None"
  proof
    assume "rr_user_claims r = None"
    then have "roles_from_context g = roles_from_context (fresh_ctx rq)"
      using assms(2) by (intro roles_from_keys) (simp_all add: set_result_keys)
    with assms(3) show False
      by (simp add: roles_from_context_def claims_from_context_def fresh_ctx_def)
  qed
  with assms(1) obtain p m where p: "verify L now tok (rc_service rcfg) = Inr p" "pr_tenant_scope p = TenantScopeUser"
    and m: "rr_user_claims r = Some m" "user_bearer L now (cfg_keyring (rc_service rcfg)) auth m"
      "admits_user rcfg p th m (rr_tenant_id r)" "rr_roles r = string_slice (m ''roles'')"
    by (auto simp: authenticate_Inr authenticate_system_Inr authenticate_user_Inr split: if_splits)
  have "has_role allowed m"
    using assms(2-4) m(1,4) by (simp add: roles_from_context_def set_result_keys(8) has_role_eq [symmetric])
  with p m(2,3) show thesis by (rule that)
qed

lemma user_bearer_signed:
  assumes "jwt_contract L hd_of payload svc_of verifies" "user_bearer L now ring auth m"
  obtains tok where "auth = ''Bearer '' @ tok" "payload tok = Some m" "token_signed hd_of verifies ring tok"
    "user_contract now m"
  using assms(2) parse_user_cases [OF assms(1)] that by (fastforce simp: user_bearer_def)

text \<open>C4: The combined receiver has no way around the role check. Behind the gin adapter with
  \<open>TenantValidation\<close> as its legacy credential, a request passes the role check only if its own
  \<open>Authorization\<close> is a Bearer that an active key signed for a user, with one of the roles and a tenant.
  If the request carries \<open>X-Service-Token\<close>, its only value must also authenticate to this receiver
  with the tenant scope of a user: a system token never passes, and \<open>X-Tenant-ID\<close> can only repeat the
  tenant of the Bearer. Without it, the tenant of the Bearer is the one in \<open>X-Tenant-ID\<close>.\<close>

theorem combined_role_gate_sound:
  assumes "jwt_contract L hd_of payload svc_of verifies"
    and "gc_abort (run_chain
           [s2sauth_handle L uuid now rcfg
              (Some (tenant_validation_handler L now (cfg_keyring (rc_service rcfg)) cfg)),
            require_role allowed] (fresh_ctx rq)) = None"
  shows "\<exists>tok m t. header_get rq ''Authorization'' = ''Bearer '' @ tok \<and> payload tok = Some m \<and>
    token_signed hd_of verifies (cfg_keyring (rc_service rcfg)) tok \<and> has_role allowed m \<and>
    m ''iss'' = Some (JStr UserIssuer) \<and> m ''token_use'' \<in> {None, Some (JStr [])} \<and>
    m ''tenant_id'' = Some (JStr t) \<and> t \<noteq> [] \<and>
    (case rq_headers rq (canonical_key HeaderServiceToken) of
       None \<Rightarrow> header_get rq HeaderTenantID = t \<and> tv_namespace cfg \<in> {[], str_claim m ''namespace''}
     | Some vs \<Rightarrow> header_get rq HeaderTenantID \<in> {[], t} \<and> user_contract now m \<and>
         (\<exists>stok c. vs = [stok] \<and> svc_of stok = Some c \<and> sc_tenant_scope c = TenantScopeUser \<and>
            authenticates hd_of verifies now (rc_service rcfg) stok c \<and> authorized (rc_service rcfg) c))"
proof (cases "rq_headers rq (canonical_key HeaderServiceToken)")
  case None
  obtain c m where c: "gc_request c = rq" "tenant_accepts cfg c m" "str_claim m ''tenant_id'' \<noteq> []" "has_role allowed m"
    and m: "user_token L now (cfg_keyring (rc_service rcfg)) False c m"
    by (rule legacy_role_gate [OF assms(2) None])
  from assms(1) m obtain tok where "header_get rq ''Authorization'' = ''Bearer '' @ tok" "payload tok = Some m"
    "token_signed hd_of verifies (cfg_keyring (rc_service rcfg)) tok"
    "m ''iss'' = Some (JStr UserIssuer)" "m ''token_use'' \<in> {None, Some (JStr [])}"
    by (rule user_token_signed) (simp add: get_header_def c(1))
  with None c show ?thesis
    using str_claim_nonempty [of m "''tenant_id''" "str_claim m ''tenant_id''"]
    by (auto simp: tenant_accepts_def get_header_def HeaderTenantID_def)
next
  case (Some vs)
  let ?g = "s2sauth_handle L uuid now rcfg
    (Some (tenant_validation_handler L now (cfg_keyring (rc_service rcfg)) cfg)) (fresh_ctx rq)"
  have rq: "gc_request (fresh_ctx rq) = rq" by (simp add: fresh_ctx_def)
  from assms(2) obtain rs where pass: "gc_abort ?g = None" and rs: "roles_from_context ?g = Some rs"
    "any_role (to_set allowed) rs"
    unfolding run_chain_passed require_role_passes by blast
  from Some pass obtain stok auth th r es es' where hd: "vs = [stok]"
    "single_header (rq_headers rq) ''Authorization'' = Some auth"
    "single_header (rq_headers rq) HeaderTenantID = Some th"
    and a: "authenticate L uuid now rcfg stok auth th = (Inr r, es)"
    and g: "?g = ctx_effects es' (set_result r (ctx_effects es (fresh_ctx rq)))"
    by (rule s2sauth_passes [of "fresh_ctx rq", unfolded rq])
  from a have "fst (authenticate L uuid now rcfg stok auth th) = Inr r" by simp
  from accepted_role [OF this g rs] obtain p m where p: "verify L now stok (rc_service rcfg) = Inr p"
    "pr_tenant_scope p = TenantScopeUser" and bearer: "user_bearer L now (cfg_keyring (rc_service rcfg)) auth m"
    and m: "admits_user rcfg p th m (rr_tenant_id r)" "has_role allowed m" .
  from user_bearer_signed [OF assms(1) bearer] obtain tok where tok: "auth = ''Bearer '' @ tok" "payload tok = Some m"
    "token_signed hd_of verifies (cfg_keyring (rc_service rcfg)) tok" "user_contract now m" .
  obtain c where "svc_of stok = Some c" "sc_tenant_scope c = TenantScopeUser"
    "authenticates hd_of verifies now (rc_service rcfg) stok c" "authorized (rc_service rcfg) c"
    using verify_cases [OF assms(1), where now = now and tok = stok and cfg = "rc_service rcfg"] p
    by (auto simp: principal_of_def)
  with Some hd tok m single_header_get [OF hd(2)] single_header_get [OF hd(3)] show ?thesis
    by (auto simp: user_contract_def admits_user_def)
qed

text \<open>A platform route behind \<open>VerifyPlatformJWT\<close> and \<open>RequireRole\<close> runs only for a signed user
  token with one of the roles and an \<open>exp\<close> that lies ahead: a token without expiry, which the
  other middlewares accept, never opens it.\<close>

theorem platform_gate_sound:
  assumes "jwt_contract L hd_of payload svc_of verifies"
    and "gc_abort (run_chain [platform_handler L now ring cfg, require_role allowed] (fresh_ctx rq)) = None"
  shows "\<exists>tok m q. header_get rq ''Authorization'' = ''Bearer '' @ tok \<and>
    token_signed hd_of verifies ring tok \<and> payload tok = Some m \<and>
    m ''iss'' = Some (JStr UserIssuer) \<and> m ''token_use'' \<in> {None, Some (JStr [])} \<and>
    m ''exp'' = Some (JNum q) \<and> now < unix_time (f64_to_int64 (of_int \<lfloor>q\<rfloor>)) \<and>
    pf_namespace cfg \<in> {[], str_claim m ''namespace''} \<and> has_role allowed m"
proof -
  let ?g = "platform_handler L now ring cfg (fresh_ctx rq)"
  from assms(2) obtain rs where pass: "gc_abort ?g = None" and rs: "roles_from_context ?g = Some rs"
    "any_role (to_set allowed) rs"
    unfolding run_chain_passed require_role_passes by blast
  from pass obtain tok m where tok: "header_get rq ''Authorization'' = ''Bearer '' @ tok"
    and m: "parse_dual L now tok (pf_jwt_secret cfg) ring True = Some m" "check_user_claims m = None"
    and ns: "pf_namespace cfg \<in> {[], str_claim m ''namespace''}"
    and g: "?g = ctx_set ''roles'' (CStrs (string_slice_claim m ''roles''))
              (ctx_set ''jwt_claims'' (CClaims m) (fresh_ctx rq))"
    using bearer_token(1) [of "header_get rq ''Authorization''"] bearer_token(2)
    by (auto simp: platform_handler_def Let_def get_header_def fresh_ctx_def
        split: if_splits option.splits)
  have "user_token L now ring True (fresh_ctx rq) m"
    using tok m parse_dual_secret [of L now tok "pf_jwt_secret cfg" ring True "[]"]
    by (auto simp: user_token_def get_header_def fresh_ctx_def)
  from user_token_signed [OF assms(1) this] tok obtain tok' where
    "token_signed hd_of verifies ring tok" "payload tok = Some m"
    "m ''iss'' = Some (JStr UserIssuer)" "m ''token_use'' \<in> {None, Some (JStr [])}"
    by (fastforce simp: get_header_def fresh_ctx_def)
  moreover have "\<exists>q. m ''exp'' = Some (JNum q) \<and> now < unix_time (f64_to_int64 (of_int \<lfloor>q\<rfloor>))"
    using m(1) by (auto simp: parse_dual_def contract_map [OF assms(1)] map_valid_def exp_valid_def
        date_claim_def split: option.splits json.splits if_splits)
  moreover have "has_role allowed m"
    using g rs by (simp add: roles_from_context_def string_slice_claim_eq has_role_eq [symmetric])
  ultimately show ?thesis using tok ns by blast
qed

text \<open>The wildcard permission never stands for a role: \<open>RequireRole\<close> passes exactly on one of its
  own role names, while \<open>RequirePermission\<close> also passes on \<open>*\<close>; both refuse, with 403, a context
  that holds no claims.\<close>

theorem role_and_permission_decide:
  "gc_abort (require_role allowed (fresh_ctx rq\<lparr>gc_keys := keys\<rparr>)) =
     (case roles_from_context (fresh_ctx rq\<lparr>gc_keys := keys\<rparr>) of
        None \<Rightarrow> Some (403, ''forbidden: missing authorization context'')
      | Some rs \<Rightarrow>
          if set rs \<inter> set allowed \<noteq> {} then None
          else Some (403, ''forbidden: missing required role'')) \<and>
   gc_abort (require_permission allowed (fresh_ctx rq\<lparr>gc_keys := keys\<rparr>)) =
     (case claims_from_context (fresh_ctx rq\<lparr>gc_keys := keys\<rparr>) of
        None \<Rightarrow> Some (403, ''forbidden: missing authorization context'')
      | Some m \<Rightarrow>
          if set (string_slice_claim m ''perms'') \<inter> insert ''*'' (set allowed) \<noteq> {} then None
          else Some (403, ''forbidden: missing required permission''))"
  by (auto simp: require_role_def require_permission_def any_role_iff any_permission_iff fresh_ctx_def
      split: option.splits)

section \<open>Witnesses\<close>

definition sample_tenant_config :: tenant_config where
  "sample_tenant_config =
     \<lparr> tv_jwt_secret = [], tv_jwt_public_key_dir = ''/keys'', tv_namespace = ''mc'',
       tv_excluded_routes = [''/health'', ''/docs/*''], tv_on_tenant_mismatch = True,
       tv_on_namespace_mismatch = True, tv_reject_missing_tenant = True \<rparr>"

definition sample_user_request :: request where
  "sample_user_request =
     \<lparr> rq_headers = [canonical_key ''Authorization'' \<mapsto> [''Bearer usr''],
         canonical_key ''X-Tenant-ID'' \<mapsto> [''t1'']],
       rq_path = ''/stock'', rq_full_path = ''/stock'', rq_client_ip = ''::1'' \<rparr>"

lemma sample_dual:
  "parse_dual (sample_both_lib ts) sample_now tok s sample_ring require_exp = Some sample_user"
  by (simp add: parse_dual_def sample_both_lib_def reference_lib_def signature_ok_def
      accepted_methods_def map_valid_def date_claim_def exp_valid_def nbf_valid_def iat_valid_def
      issuer_valid_def unix_time_def f64_to_int64_def int64_range_def wrap64_def sample_now_def
      second_def sample_user_def)
    (simp add: sample_header_def)

lemma sample_user_claims_ok: "check_user_claims sample_user = None"
  by (simp add: check_user_claims_def sample_user_def str_claim_def)

lemma sample_user_headers:
  "get_header (fresh_ctx sample_user_request) ''Authorization'' = ''Bearer usr''"
  "get_header (fresh_ctx sample_user_request) ''X-Tenant-ID'' = ''t1''"
  using canonical_keys_distinct(3)
  by (simp_all add: get_header_def header_get_def fresh_ctx_def sample_user_request_def HeaderTenantID_def)

lemma sample_validation:
  "tenant_validation_handler (sample_both_lib ts) sample_now sample_ring sample_tenant_config
     (fresh_ctx sample_user_request) = leave_user sample_user (fresh_ctx sample_user_request)"
proof -
  have claims: "str_claim sample_user ''tenant_id'' = ''t1''" "str_claim sample_user ''namespace'' = ''mc''"
    by (simp_all add: sample_user_def str_claim_def)
  have "tv_namespace sample_tenant_config = ''mc''"
    "\<not> is_excluded (rq_path (gc_request (fresh_ctx sample_user_request)))
        (tv_excluded_routes sample_tenant_config)"
    by (simp_all add: sample_tenant_config_def fresh_ctx_def sample_user_request_def
        suffix_star_def suffix_def)
  then show ?thesis
    by (simp add: tenant_validation_handler_def sample_user_headers sample_dual
        sample_user_claims_ok claims leave_user_def trim_prefix_def Let_def)
qed

lemma sample_chain_passes:
  "gc_abort (run_chain [tenant_validation_handler (sample_both_lib ts) sample_now sample_ring
       sample_tenant_config, require_role [''admin'']] (fresh_ctx sample_user_request)) = None"
proof -
  have "str_claim sample_user ''tenant_id'' = ''t1''" "str_claim sample_user ''namespace'' = ''mc''"
    "string_slice_claim sample_user ''roles'' = [''admin'', ''staff'']"
    by (simp_all add: sample_user_def str_claim_def string_slice_claim_def)
  then show ?thesis
    unfolding run_chain_passed sample_validation
    by (simp add: leave_user_def require_role_passes roles_from_context_def any_role_iff fresh_ctx_def)
qed

theorem role_gate_sound_witness:
  "\<exists>tok m. header_get sample_user_request ''Authorization'' = ''Bearer '' @ tok \<and>
     token_signed (\<lambda>_. sample_header TokenType) (\<lambda>k tok. k = sample_key) sample_ring tok \<and>
     Some sample_user = Some m \<and> has_role [''admin''] m"
  using role_gate_sound [OF reference_lib_contract sample_chain_passes [unfolded sample_both_lib_def]]
  by blast

theorem combined_role_gate_sound_witness:
  "\<exists>tok. token_signed (\<lambda>_. sample_header TokenType) (\<lambda>k tok. k = sample_key) sample_ring tok \<and>
     has_role [''admin''] sample_user"
proof -
  let ?g = "s2sauth_handle (sample_both_lib TenantScopeUser) (\<lambda>_. None) sample_now sample_receiver
    (Some (tenant_validation_handler (sample_both_lib TenantScopeUser) sample_now
      (cfg_keyring (rc_service sample_receiver)) sample_tenant_config)) (fresh_ctx sample_s2s_request)"
  have hdr: "rq_headers (gc_request (fresh_ctx sample_s2s_request)) (canonical_key HeaderServiceToken)
      = Some [''svc'']"
    "single_header (rq_headers (gc_request (fresh_ctx sample_s2s_request))) ''Authorization'' = Some ''Bearer usr''"
    "single_header (rq_headers (gc_request (fresh_ctx sample_s2s_request))) HeaderTenantID = Some ''t1''"
    using canonical_keys_distinct
    by (simp_all add: fresh_ctx_def sample_s2s_request_def single_header_def)
  from sample_s2s_passes have pass: "gc_abort ?g = None" .
  from hdr(1) pass obtain tok auth th r es es' where
    tok: "[''svc''] = [tok]" "Some ''Bearer usr'' = Some auth" "Some ''t1'' = Some th"
    and a: "authenticate (sample_both_lib TenantScopeUser) (\<lambda>_. None) sample_now sample_receiver tok auth th
      = (Inr r, es)" and g: "?g = ctx_effects es' (set_result r (ctx_effects es (fresh_ctx sample_s2s_request)))"
    by (rule s2sauth_passes) (unfold hdr(2,3), blast)
  have "r = sample_result"
    using a tok sample_authenticate [of "\<lambda>_. None"] by auto
  then have "gc_keys ?g ''roles'' = Some (CStrs [''admin'', ''staff''])"
    using g by (simp add: set_result_keys(8) sample_result_def)
  then have "gc_abort (require_role [''admin''] ?g) = None"
    using pass by (simp add: require_role_passes roles_from_context_def any_role_iff)
  then have chain: "gc_abort (run_chain [s2sauth_handle (sample_both_lib TenantScopeUser) (\<lambda>_. None)
      sample_now sample_receiver (Some (tenant_validation_handler (sample_both_lib TenantScopeUser)
        sample_now (cfg_keyring (rc_service sample_receiver)) sample_tenant_config)),
      require_role [''admin'']] (fresh_ctx sample_s2s_request)) = None"
    using pass unfolding run_chain_passed by simp
  have ring: "cfg_keyring (rc_service sample_receiver) = sample_ring"
    by (simp add: sample_receiver_def sample_cfg_def)
  from combined_role_gate_sound [OF reference_lib_contract chain [unfolded sample_both_lib_def]] ring
  show ?thesis by auto
qed

theorem platform_gate_sound_witness:
  "\<exists>m. Some sample_user = Some m \<and> has_role [''admin''] m"
proof -
  have roles: "string_slice_claim sample_user ''roles'' = [''admin'', ''staff'']"
    by (simp add: sample_user_def string_slice_claim_def)
  have "gc_abort (run_chain [platform_handler (sample_both_lib TenantScopeUser) sample_now sample_ring
      \<lparr>pf_jwt_secret = [], pf_jwt_public_key_dir = [], pf_namespace = []\<rparr>, require_role [''admin'']]
      (fresh_ctx sample_user_request)) = None"
    unfolding run_chain_passed platform_handler_def
    by (simp add: sample_user_headers sample_dual sample_user_claims_ok trim_prefix_def
        require_role_passes roles_from_context_def any_role_iff roles)
      (simp add: fresh_ctx_def)
  from platform_gate_sound [OF reference_lib_contract this [unfolded sample_both_lib_def]]
  show ?thesis by blast
qed

end
