(* ===== verification/Gzip.thy ===== *)
theory Gzip
  imports Http
begin

text \<open>
  Response compression: \<open>infrastructure/middleware/gzip.go\<close>, \<open>force_gzip.go\<close> and
  \<open>example_specific_route.go\<close>, and how \<open>infrastructure/config/setup.go\<close> installs them.

  Wrapping the writer of a context in a gzip writer adds one layer of compression, which
  \<open>gc_gzip_writers\<close> counts; the compression itself is the standard library's.
\<close>

definition gzip_encoding :: string where "gzip_encoding = ''gzip''"

record gzip_options =
  go_excluded_paths :: "string list"

definition default_gzip_options :: gzip_options where
  "default_gzip_options = \<lparr>go_excluded_paths = []\<rparr>"

fun should_skip_gzip :: "string \<Rightarrow> string list \<Rightarrow> bool" where
  "should_skip_gzip path [] = False"
| "should_skip_gzip path (excluded # es) =
     (if path = excluded then True else should_skip_gzip path es)"

definition accepts_gzip :: "request \<Rightarrow> bool" where
  "accepts_gzip rq \<longleftrightarrow> str_contains (header_get rq ''Accept-Encoding'') gzip_encoding"

definition wrap_gzip :: gin_handler where
  "wrap_gzip c =
     ctx_header ''Vary'' ''Accept-Encoding''
       (ctx_header ''Content-Encoding'' gzip_encoding
         (c\<lparr>gc_gzip_writers := gc_gzip_writers c + 1\<rparr>))"

text \<open>The options are variadic: the first one counts.\<close>

definition gzip_middleware :: "gzip_options list \<Rightarrow> gin_handler" where
  "gzip_middleware options =
     (let opts = (case options of [] \<Rightarrow> default_gzip_options | o1 # _ \<Rightarrow> o1)
      in (\<lambda>c. if should_skip_gzip (rq_path (gc_request c)) (go_excluded_paths opts) then c
              else if \<not> accepts_gzip (gc_request c) then c
              else wrap_gzip c))"

record force_gzip_options =
  fo_check_client_support :: bool

definition default_force_gzip_options :: force_gzip_options where
  "default_force_gzip_options = \<lparr>fo_check_client_support = True\<rparr>"

definition force_gzip_middleware :: "force_gzip_options list \<Rightarrow> gin_handler" where
  "force_gzip_middleware options =
     (let opts = (case options of [] \<Rightarrow> default_force_gzip_options | o1 # _ \<Rightarrow> o1)
      in (\<lambda>c. if fo_check_client_support opts \<and> \<not> accepts_gzip (gc_request c) then c
              else wrap_gzip c))"

definition gzip_reader :: gin_handler where
  "gzip_reader c = c"

definition conditional_middleware :: "(gin_ctx \<Rightarrow> bool) \<Rightarrow> gin_handler \<Rightarrow> gin_handler" where
  "conditional_middleware condition h = (\<lambda>c. if condition c then h c else c)"

section \<open>Installation\<close>

record shared_config =
  sc_enable_gzip :: bool
  sc_always_try_decompress :: bool
  sc_force_gzip_compression :: bool
  sc_force_gzip_check_support :: bool
  sc_force_gzip_paths :: "string list"
  sc_gzip_excluded_paths :: "string list"

definition default_shared_config :: shared_config where
  "default_shared_config =
     \<lparr> sc_enable_gzip = True, sc_always_try_decompress = True, sc_force_gzip_compression = False,
       sc_force_gzip_check_support = True, sc_force_gzip_paths = [''/iam/api/v1/users''],
       sc_gzip_excluded_paths = [''/health'', ''/metrics'', ''/api-docs'', ''/iam/api/v1/auth''] \<rparr>"

text \<open>
  Of a gin engine: the handlers every route registered on it runs first, and the groups it has
  given out, each with its own handlers. \<open>Use\<close> on a group changes that group alone.
\<close>

record router =
  rt_handlers :: "gin_handler list"
  rt_groups :: "(string \<times> gin_handler list) list"

definition router_use :: "gin_handler \<Rightarrow> router \<Rightarrow> router" where
  "router_use h r = r\<lparr>rt_handlers := rt_handlers r @ [h]\<rparr>"

definition group_use :: "string \<Rightarrow> gin_handler \<Rightarrow> router \<Rightarrow> router" where
  "group_use path h r = r\<lparr>rt_groups := rt_groups r @ [(path, rt_handlers r @ [h])]\<rparr>"

definition setup_shared_middleware :: "router \<Rightarrow> shared_config \<Rightarrow> router" where
  "setup_shared_middleware r config =
     (let r = (if sc_always_try_decompress config then router_use gzip_reader r else r)
      in if sc_enable_gzip config
         then (let r = router_use (gzip_middleware [\<lparr>go_excluded_paths = sc_gzip_excluded_paths config\<rparr>]) r
               in if sc_force_gzip_compression config \<and> sc_force_gzip_paths config \<noteq> []
                  then fold (\<lambda>path. group_use path (force_gzip_middleware
                         [\<lparr>fo_check_client_support = sc_force_gzip_check_support config\<rparr>]))
                       (sc_force_gzip_paths config) r
                  else r)
         else r)"

section \<open>Facts\<close>

lemma should_skip_gzip_iff [simp]: "should_skip_gzip path es \<longleftrightarrow> path \<in> set es"
  by (induction es) auto

lemma handlers_group_use [simp]: "rt_handlers (group_use p h r) = rt_handlers r"
  by (simp add: group_use_def)

lemma handlers_fold_group_use [simp]:
  "rt_handlers (fold (\<lambda>p. group_use p h) ps r) = rt_handlers r"
  by (induction ps arbitrary: r) auto

lemma wrap_gzip_simps [simp]:
  "gc_abort (wrap_gzip c) = gc_abort c" "gc_request (wrap_gzip c) = gc_request c"
  "gc_gzip_writers (wrap_gzip c) = Suc (gc_gzip_writers c)"
  "gc_headers (wrap_gzip c) ''Content-Encoding'' = Some gzip_encoding"
  by (simp_all add: wrap_gzip_def ctx_header_def)

text \<open>A router with the shared middlewares compresses a response once, exactly when compression
  is enabled, the path is not excluded and the client's \<open>Accept-Encoding\<close> names gzip, and it
  labels exactly those responses; the setting that forces compression on some paths changes
  nothing for any route of the router.\<close>

theorem shared_middleware_compression:
  "let r = setup_shared_middleware \<lparr>rt_handlers = [], rt_groups = []\<rparr> config;
       c = run_chain (rt_handlers r) (fresh_ctx rq);
       compress = (sc_enable_gzip config \<and> rq_path rq \<notin> set (sc_gzip_excluded_paths config) \<and>
         accepts_gzip rq)
   in gc_abort c = None \<and> gc_gzip_writers c = (if compress then 1 else 0) \<and>
      gc_headers c ''Content-Encoding'' = (if compress then Some ''gzip'' else None) \<and>
      rt_handlers r = rt_handlers (setup_shared_middleware \<lparr>rt_handlers = [], rt_groups = []\<rparr>
        (config\<lparr>sc_force_gzip_compression := \<not> sc_force_gzip_compression config\<rparr>))"
  by (auto simp: setup_shared_middleware_def router_use_def gzip_middleware_def gzip_reader_def
      fresh_ctx_def Let_def gzip_encoding_def
      simp flip: gzip_encoding_def)

end
