(* ===== verification/S2S_Client.thy ===== *)
theory S2S_Client
  imports Service_Token
begin

text \<open>
  \<open>infrastructure/s2stoken/client/client.go\<close>: the issuing side. A client keeps one entry per
  (audience, scope) with the cached token and its times, one circuit breaker per audience and
  an error counter. The operations below run with the entry's lock held, one after the other;
  theory Single_Flight interleaves them.

  iam and the signer are the record \<open>iam_env\<close>. Each operation returns, besides its result and the
  new state, the issue requests it made. The readings of the clock within one operation (\<open>Refresh\<close> makes two) are taken as one.
\<close>

section \<open>Configuration\<close>

definition DefaultTimeout :: duration where "DefaultTimeout = 5 * second"
definition DefaultRenewBefore :: duration where "DefaultRenewBefore = 60 * second"
definition DefaultFailureThreshold :: int where "DefaultFailureThreshold = 5"
definition DefaultOpenFor :: duration where "DefaultOpenFor = 30 * second"
definition DefaultRetryBackoff :: duration where "DefaultRetryBackoff = 5 * second"
definition MinReissueAge :: duration where "MinReissueAge = 30 * second"
definition AssertionLifetime :: duration where "AssertionLifetime = 60 * second"

definition assertion_type :: string where
  "assertion_type = ''urn:ietf:params:oauth:client-assertion-type:jwt-bearer''"

record http_client =
  hc_follows_redirects :: bool
  hc_timeout :: duration

record client_config =
  cc_subject :: string
  cc_key :: "rsa_public_key option"
  cc_token_url :: string
  cc_http_client :: "http_client option"
  cc_timeout :: duration
  cc_renew_before :: duration
  cc_failure_threshold :: int
  cc_open_for :: duration

datatype client_error =
    SubjectEmpty
  | KeyMissing
  | KeyTooSmall
  | BadTokenURL
  | MetricRegistration
  | KidPanic
  | MissingAudOrScope
  | ErrCircuitOpen
  | ErrIssue string int
  | ContextDone

section \<open>State\<close>

record entry =
  en_token :: string
  en_issued_at :: time
  en_renew_at :: time
  en_expires_at :: time
  en_last_err :: "client_error option"
  en_retry_at :: time

record breaker =
  br_failures :: int
  br_open_until :: time

record client =
  cl_cfg :: client_config
  cl_kid :: string
  cl_http :: http_client
  cl_errors :: "string \<times> string \<Rightarrow> nat"
  cl_entries :: "string \<rightharpoonup> entry"
  cl_breakers :: "string \<rightharpoonup> breaker"

definition new_entry :: entry where
  "new_entry = \<lparr>en_token = [], en_issued_at = zero_time, en_renew_at = zero_time,
     en_expires_at = zero_time, en_last_err = None, en_retry_at = zero_time\<rparr>"

definition new_breaker :: breaker where
  "new_breaker = \<lparr>br_failures = 0, br_open_until = zero_time\<rparr>"

text \<open>
  \<open>New\<close>: \<open>url_ok\<close> is \<open>url.ParseRequestURI\<close>, \<open>reg\<close> what the registerer answers when the client
  registers its counter.
\<close>

definition with_defaults :: "client_config \<Rightarrow> client_config" where
  "with_defaults cfg =
     cfg\<lparr> cc_timeout := (if cc_timeout cfg = 0 then DefaultTimeout else cc_timeout cfg),
          cc_renew_before := (if cc_renew_before cfg = 0 then DefaultRenewBefore else cc_renew_before cfg),
          cc_failure_threshold :=
            (if cc_failure_threshold cfg = 0 then DefaultFailureThreshold else cc_failure_threshold cfg),
          cc_open_for := (if cc_open_for cfg = 0 then DefaultOpenFor else cc_open_for cfg) \<rparr>"

definition issue_http_client :: "client_config \<Rightarrow> http_client" where
  "issue_http_client cfg =
     (let hc = (case cc_http_client cfg of
                  None \<Rightarrow> \<lparr>hc_follows_redirects = True, hc_timeout = 0\<rparr>
                | Some h \<Rightarrow> h);
          hc = hc\<lparr>hc_follows_redirects := False\<rparr>
      in if hc_timeout hc = 0 then hc\<lparr>hc_timeout := cc_timeout cfg\<rparr> else hc)"




section \<open>Entries and breakers\<close>

definition normalize_scope :: "string list \<Rightarrow> string" where
  "normalize_scope ss = join '' '' (sort (remdups (concat (map str_fields ss))))"

definition entry_key :: "string \<Rightarrow> string \<Rightarrow> string" where
  "entry_key aud scope = aud @ [CHR 0x00] @ scope"

definition entry_of :: "client \<Rightarrow> string \<Rightarrow> entry" where
  "entry_of c key = (case cl_entries c key of None \<Rightarrow> new_entry | Some e \<Rightarrow> e)"

definition put_entry :: "string \<Rightarrow> entry \<Rightarrow> client \<Rightarrow> client" where
  "put_entry key e c = c\<lparr>cl_entries := (cl_entries c)(key \<mapsto> e)\<rparr>"

text \<open>\<open>entry\<close> creates a missing entry.\<close>

definition client_entry :: "string \<Rightarrow> client \<Rightarrow> client" where
  "client_entry key c = put_entry key (entry_of c key) c"

definition breaker_for :: "client \<Rightarrow> string \<Rightarrow> breaker" where
  "breaker_for c aud = (case cl_breakers c aud of None \<Rightarrow> new_breaker | Some b \<Rightarrow> b)"

definition put_breaker :: "string \<Rightarrow> breaker \<Rightarrow> client \<Rightarrow> client" where
  "put_breaker aud b c = c\<lparr>cl_breakers := (cl_breakers c)(aud \<mapsto> b)\<rparr>"

definition allow :: "string \<Rightarrow> time \<Rightarrow> client \<Rightarrow> bool \<times> client" where
  "allow aud now c =
     (let b = breaker_for c aud
      in (br_failures b < cc_failure_threshold (cl_cfg c) \<or> \<not> now < br_open_until b,
          put_breaker aud b c))"

definition record_failure :: "string \<Rightarrow> time \<Rightarrow> client \<Rightarrow> client" where
  "record_failure aud now c =
     (let b = breaker_for c aud;
          b = b\<lparr>br_failures := wrap64 (br_failures b + 1)\<rparr>;
          b = (if br_failures b \<ge> cc_failure_threshold (cl_cfg c)
               then b\<lparr>br_open_until := now + cc_open_for (cl_cfg c)\<rparr> else b)
      in put_breaker aud b c)"

definition record_success :: "string \<Rightarrow> client \<Rightarrow> client" where
  "record_success aud c = put_breaker aud \<lparr>br_failures = 0, br_open_until = zero_time\<rparr> c"

definition count_error :: "string \<Rightarrow> string \<Rightarrow> client \<Rightarrow> client" where
  "count_error aud reason c =
     c\<lparr>cl_errors := (cl_errors c)((aud, reason) := cl_errors c (aud, reason) + 1)\<rparr>"

definition trips_breaker :: "string \<Rightarrow> bool" where
  "trips_breaker reason \<longleftrightarrow> reason \<in> {''transport'', ''http_5xx'', ''http_429'', ''decode''}"

section \<open>Issuing\<close>

record assertion_claims =
  ac_iss :: string
  ac_sub :: string
  ac_aud :: string
  ac_iat :: int
  ac_exp :: int
  ac_jti :: string

record token_form =
  tf_grant_type :: string
  tf_client_assertion_type :: string
  tf_client_assertion :: string
  tf_audience :: string
  tf_scope :: string

text \<open>iam's answer: none, or a status and, for a JSON body that decodes, its token and lifetime.\<close>

datatype iam_reply = NoReply | Reply int "(string \<times> int) option"

record iam_env =
  rand_bytes :: "string option"
  sign_rs256 :: "string \<Rightarrow> assertion_claims \<Rightarrow> string option"
  request_ok :: "string \<Rightarrow> bool"
  iam_post :: "string \<Rightarrow> token_form \<Rightarrow> iam_reply"

text \<open>\<open>t.Unix()\<close>.\<close>

definition time_unix :: "time \<Rightarrow> int" where
  "time_unix t = t div second - 62135596800"

definition assertion :: "iam_env \<Rightarrow> client \<Rightarrow> time \<Rightarrow> string option" where
  "assertion env c now =
     (case rand_bytes env of
        None \<Rightarrow> None
      | Some jti \<Rightarrow>
          sign_rs256 env (cl_kid c)
            \<lparr> ac_iss = cc_subject (cl_cfg c), ac_sub = cc_subject (cl_cfg c),
              ac_aud = AssertionAudience, ac_iat = time_unix now,
              ac_exp = time_unix (now + AssertionLifetime), ac_jti = hex_encode jti \<rparr>)"

definition http_reason :: "int \<Rightarrow> string" where
  "http_reason status =
     (if status = 429 then ''http_429'' else if status < 500 then ''http_4xx'' else ''http_5xx'')"

definition issue ::
  "iam_env \<Rightarrow> client \<Rightarrow> string \<Rightarrow> string \<Rightarrow> time \<Rightarrow> (string \<times> client_error) + (string \<times> duration)" where
  "issue env c aud scope now =
     (case assertion env c now of
        None \<Rightarrow> Inl (''sign'', ErrIssue ''sign'' 0)
      | Some a \<Rightarrow>
      if \<not> request_ok env (cc_token_url (cl_cfg c)) then Inl (''transport'', ErrIssue ''transport'' 0)
      else (case iam_post env (cc_token_url (cl_cfg c))
                   \<lparr> tf_grant_type = ''client_credentials'', tf_client_assertion_type = assertion_type,
                     tf_client_assertion = a, tf_audience = aud, tf_scope = scope \<rparr> of
        NoReply \<Rightarrow> Inl (''transport'', ErrIssue ''transport'' 0)
      | Reply status body \<Rightarrow>
      if status \<noteq> 200 then Inl (http_reason status, ErrIssue (http_reason status) status)
      else (case body of
        None \<Rightarrow> Inl (''decode'', ErrIssue ''decode'' 0)
      | Some (access_token, expires_in) \<Rightarrow>
      if access_token = [] \<or> expires_in \<le> 0 then Inl (''decode'', ErrIssue ''decode'' 0)
      else let ttl = wrap64 (expires_in * second)
           in Inr (access_token, if ttl > TTL then TTL else ttl))))"

definition issue_and_store ::
  "iam_env \<Rightarrow> string \<Rightarrow> string \<Rightarrow> time \<Rightarrow> bool \<Rightarrow> client \<Rightarrow> (client_error + string) \<times> client" where
  "issue_and_store env aud scope now valid c =
     (let key = entry_key aud scope in
      case issue env c aud scope now of
        Inl (reason, err) \<Rightarrow>
          let c = count_error aud reason c;
              c = (if trips_breaker reason then record_failure aud now c
                   else put_entry key ((entry_of c key)\<lparr>en_last_err := Some err,
                          en_retry_at := now + DefaultRetryBackoff\<rparr>) c)
          in (if valid then Inr (en_token (entry_of c key)) else Inl err, c)
      | Inr (tok, ttl) \<Rightarrow>
          let c = record_success aud c;
              e = (entry_of c key)\<lparr>en_last_err := None, en_retry_at := zero_time,
                    en_token := tok, en_issued_at := now, en_expires_at := now + ttl,
                    en_renew_at := now + ttl - cc_renew_before (cl_cfg c)\<rparr>
          in (Inr tok, put_entry key e c))"

text \<open>
  \<open>obtainLocked\<close> up to the issue: a result at once, or the need to issue (with whether a valid
  token remains). \<open>ctx_done\<close> says that the caller's context ends before the issue returns: the
  caller gets its error, the issue still runs and stores.
\<close>

datatype obtain_step = Done "client_error + string" | NeedIssue bool

definition obtain_start :: "string \<Rightarrow> string \<Rightarrow> time \<Rightarrow> client \<Rightarrow> obtain_step \<times> client" where
  "obtain_start aud scope now c =
     (let e = entry_of c (entry_key aud scope) in
      if en_token e \<noteq> [] \<and> now < en_renew_at e then (Done (Inr (en_token e)), c)
      else let valid = (en_token e \<noteq> [] \<and> now < en_expires_at e) in
      if en_last_err e \<noteq> None \<and> now < en_retry_at e
      then (Done (if valid then Inr (en_token e) else Inl (the (en_last_err e))), c)
      else (case allow aud now c of
        (False, c) \<Rightarrow>
          (Done (if valid then Inr (en_token e) else Inl ErrCircuitOpen),
           count_error aud ''circuit_open'' c)
      | (True, c) \<Rightarrow> (NeedIssue valid, c)))"

type_synonym calls = "(string \<times> string) list"

definition obtain_locked ::
  "iam_env \<Rightarrow> bool \<Rightarrow> string \<Rightarrow> string \<Rightarrow> time \<Rightarrow> client \<Rightarrow> (client_error + string) \<times> client \<times> calls"
  where
  "obtain_locked env ctx_done aud scope now c =
     (case obtain_start aud scope now c of
        (Done r, c) \<Rightarrow> (r, c, [])
      | (NeedIssue valid, c) \<Rightarrow>
          (case issue_and_store env aud scope now valid c of
             (r, c) \<Rightarrow> (if ctx_done then Inl ContextDone else r, c, [(aud, scope)])))"

section \<open>The client's operations\<close>

definition token ::
  "iam_env \<Rightarrow> bool \<Rightarrow> string \<Rightarrow> string list \<Rightarrow> time \<Rightarrow> client \<Rightarrow>
   (client_error + string) \<times> client \<times> calls" where
  "token env ctx_done aud ss now c =
     (let scope = normalize_scope ss in
      if trim_space aud = [] \<or> scope = [] then (Inl MissingAudOrScope, c, [])
      else obtain_locked env ctx_done aud scope now (client_entry (entry_key aud scope) c))"

text \<open>\<open>Refresh\<close>: \<open>Inr (Some tok)\<close> is a new token, \<open>Inr None\<close> is \<open>ok = false\<close> without an error.\<close>

definition refresh ::
  "iam_env \<Rightarrow> bool \<Rightarrow> string \<Rightarrow> string \<Rightarrow> string list \<Rightarrow> time \<Rightarrow> client \<Rightarrow>
   (client_error + string option) \<times> client \<times> calls" where
  "refresh env ctx_done sent aud ss now c =
     (let scope = normalize_scope ss; key = entry_key aud scope in
      if trim_space aud = [] \<or> scope = [] then (Inl MissingAudOrScope, c, [])
      else
      let c = client_entry key c; e = entry_of c key in
      if en_token e \<noteq> [] \<and> en_token e \<noteq> sent \<and> now < en_expires_at e
      then (Inr (Some (en_token e)), c, [])
      else if en_token e = sent \<and> time_sub now (en_issued_at e) < MinReissueAge
      then (Inr None, c, [])
      else (case obtain_locked env ctx_done aud scope now
                   (put_entry key (e\<lparr>en_renew_at := zero_time\<rparr>) c) of
        (Inl err, c, calls) \<Rightarrow> (Inl err, c, calls)
      | (Inr tok, c, calls) \<Rightarrow> (Inr (if tok = sent then None else Some tok), c, calls)))"

definition invalidate :: "string \<Rightarrow> string list \<Rightarrow> client \<Rightarrow> client" where
  "invalidate aud ss c =
     (let key = entry_key aud (normalize_scope ss); c = client_entry key c
      in put_entry key ((entry_of c key)\<lparr>en_token := [], en_issued_at := zero_time,
           en_renew_at := zero_time, en_expires_at := zero_time\<rparr>) c)"

section \<open>Projections\<close>

lemma entry_put [simp]:
  "entry_of (put_entry k e c) k' = (if k' = k then e else entry_of c k')"
  "breaker_for (put_entry k e c) aud = breaker_for c aud" "cl_cfg (put_entry k e c) = cl_cfg c"
  by (simp_all add: entry_of_def put_entry_def breaker_for_def)

lemma breaker_put [simp]:
  "breaker_for (put_breaker a b c) a' = (if a' = a then b else breaker_for c a')"
  "entry_of (put_breaker a b c) k = entry_of c k" "cl_cfg (put_breaker a b c) = cl_cfg c"
  by (simp_all add: entry_of_def put_breaker_def breaker_for_def)

lemma count_error_simps [simp]:
  "entry_of (count_error a r c) k = entry_of c k" "breaker_for (count_error a r c) a' = breaker_for c a'"
  "cl_cfg (count_error a r c) = cl_cfg c"
  by (simp_all add: entry_of_def count_error_def breaker_for_def)

lemma client_entry_simps [simp]:
  "entry_of (client_entry k c) k' = entry_of c k'" "breaker_for (client_entry k c) a = breaker_for c a"
  "cl_cfg (client_entry k c) = cl_cfg c"
  by (simp_all add: client_entry_def)

lemma record_simps [simp]:
  "entry_of (record_failure a now c) k = entry_of c k"
  "entry_of (record_success a c) k = entry_of c k"
  "cl_cfg (record_failure a now c) = cl_cfg c" "cl_cfg (record_success a c) = cl_cfg c"
  "a' \<noteq> a \<Longrightarrow> breaker_for (record_failure a now c) a' = breaker_for c a'"
  "a' \<noteq> a \<Longrightarrow> breaker_for (record_success a c) a' = breaker_for c a'"
  by (simp_all add: record_failure_def record_success_def Let_def)

lemma allow_eq:
  "allow aud now c =
     (br_failures (breaker_for c aud) < cc_failure_threshold (cl_cfg c) \<or>
        br_open_until (breaker_for c aud) \<le> now,
      put_breaker aud (breaker_for c aud) c)"
  by (auto simp: allow_def Let_def)

lemma put_breaker_same [simp]: "breaker_for (put_breaker a (breaker_for c a) c) a' = breaker_for c a'"
  by simp

section \<open>What obtaining a token does\<close>

text \<open>The outcome of an issue on its entry and breaker.\<close>

lemma issue_Inr:
  "issue env c aud scope now = Inr (tok, ttl) \<Longrightarrow> tok \<noteq> [] \<and> ttl \<le> TTL"
  by (auto simp: issue_def Let_def split: option.splits iam_reply.splits if_splits)

lemma issue_cong:
  assumes "cl_cfg c = cl_cfg c'" "cl_kid c = cl_kid c'"
  shows "issue env c aud scope now = issue env c' aud scope now"
  unfolding issue_def assertion_def assms ..

lemma obtain_start_eq:
  fixes aud scope now c
  defines "e \<equiv> entry_of c (entry_key aud scope)"
  shows "obtain_start aud scope now c =
     (if en_token e \<noteq> [] \<and> now < en_renew_at e then (Done (Inr (en_token e)), c)
      else if en_last_err e \<noteq> None \<and> now < en_retry_at e
      then (Done (if en_token e \<noteq> [] \<and> now < en_expires_at e then Inr (en_token e)
                  else Inl (the (en_last_err e))), c)
      else if fst (allow aud now c)
      then (NeedIssue (en_token e \<noteq> [] \<and> now < en_expires_at e), snd (allow aud now c))
      else (Done (if en_token e \<noteq> [] \<and> now < en_expires_at e then Inr (en_token e)
                  else Inl ErrCircuitOpen),
            count_error aud ''circuit_open'' (snd (allow aud now c))))"
  unfolding obtain_start_def e_def Let_def by (simp split: prod.split bool.split)

text \<open>The cases in which no request is made: the cached token, an error that is still fresh, an open
  circuit.\<close>

lemma start_done_cases:
  fixes aud scope :: string
  defines "key \<equiv> entry_key aud scope"
  assumes "obtain_start aud scope now c = (Done r, c')"
  obtains (cached) "en_token (entry_of c key) \<noteq> []" "now < en_renew_at (entry_of c key)"
      "r = Inr (en_token (entry_of c key))" "c' = c"
  | (backoff) "c' = c" "en_last_err (entry_of c key) \<noteq> None" "now < en_retry_at (entry_of c key)"
      "r = (if en_token (entry_of c key) \<noteq> [] \<and> now < en_expires_at (entry_of c key)
            then Inr (en_token (entry_of c key)) else Inl (the (en_last_err (entry_of c key))))"
  | (circuit) "entry_of c' = entry_of c" "breaker_for c' = breaker_for c" "cl_cfg c' = cl_cfg c"
      "r = (if en_token (entry_of c key) \<noteq> [] \<and> now < en_expires_at (entry_of c key)
            then Inr (en_token (entry_of c key)) else Inl ErrCircuitOpen)"
      "cc_failure_threshold (cl_cfg c) \<le> br_failures (breaker_for c aud)"
      "now < br_open_until (breaker_for c aud)"
proof -
  let ?e = "entry_of c key"
  have start: "obtain_start aud scope now c = (Done r, c')" by (rule assms(2))
  consider (a) "en_token ?e \<noteq> []" "now < en_renew_at ?e"
    | (b) "\<not> (en_token ?e \<noteq> [] \<and> now < en_renew_at ?e)" "en_last_err ?e \<noteq> None" "now < en_retry_at ?e"
    | (c) "\<not> (en_token ?e \<noteq> [] \<and> now < en_renew_at ?e)"
        "\<not> (en_last_err ?e \<noteq> None \<and> now < en_retry_at ?e)" by blast
  then show thesis
  proof cases
    case a
    with start show thesis by (intro cached) (auto simp: obtain_start_eq key_def)
  next
    case b
    with start show thesis by (intro backoff) (auto simp: obtain_start_eq key_def)
  next
    case c
    with start have "\<not> fst (allow aud now c)" "c' = count_error aud ''circuit_open'' (snd (allow aud now c))"
      "r = (if en_token ?e \<noteq> [] \<and> now < en_expires_at ?e then Inr (en_token ?e) else Inl ErrCircuitOpen)"
      unfolding obtain_start_eq key_def [symmetric] by (auto split: if_splits)
    then show thesis by (intro circuit) (simp_all add: allow_eq fun_eq_iff not_less)
  qed
qed

lemma start_issues:
  assumes "obtain_start aud scope now c = (NeedIssue valid, c')"
  shows "c' = put_breaker aud (breaker_for c aud) c"
    "valid \<longleftrightarrow> en_token (entry_of c (entry_key aud scope)) \<noteq> [] \<and>
       now < en_expires_at (entry_of c (entry_key aud scope))"
    "issue env c' aud scope now = issue env c aud scope now"
proof -
  show c': "c' = put_breaker aud (breaker_for c aud) c" and
    "valid \<longleftrightarrow> en_token (entry_of c (entry_key aud scope)) \<noteq> [] \<and>
       now < en_expires_at (entry_of c (entry_key aud scope))"
    using assms unfolding obtain_start_eq by (auto simp: allow_eq split: if_splits)
  show "issue env c' aud scope now = issue env c aud scope now"
    by (rule issue_cong) (simp_all add: c' put_breaker_def)
qed

lemma obtain_cases:
  fixes aud scope :: string
  defines "key \<equiv> entry_key aud scope"
  assumes "obtain_locked env ctx_done aud scope now c = (r, c', calls)"
  obtains (cached) "calls = []" "en_token (entry_of c key) \<noteq> []"
      "now < en_renew_at (entry_of c key)" "r = Inr (en_token (entry_of c key))" "c' = c"
  | (backoff) "calls = []" "c' = c" "en_last_err (entry_of c key) \<noteq> None"
      "now < en_retry_at (entry_of c key)"
      "r = (if en_token (entry_of c key) \<noteq> [] \<and> now < en_expires_at (entry_of c key)
            then Inr (en_token (entry_of c key)) else Inl (the (en_last_err (entry_of c key))))"
  | (circuit) "calls = []" "entry_of c' = entry_of c" "breaker_for c' = breaker_for c"
      "cl_cfg c' = cl_cfg c"
      "r = (if en_token (entry_of c key) \<noteq> [] \<and> now < en_expires_at (entry_of c key)
            then Inr (en_token (entry_of c key)) else Inl ErrCircuitOpen)"
      "cc_failure_threshold (cl_cfg c) \<le> br_failures (breaker_for c aud)"
      "now < br_open_until (breaker_for c aud)"
  | (failed) err reason where "calls = [(aud, scope)]" "cl_cfg c' = cl_cfg c"
      "\<And>k. entry_of c' k = (if k = key \<and> \<not> trips_breaker reason
         then (entry_of c key)\<lparr>en_last_err := Some err, en_retry_at := now + DefaultRetryBackoff\<rparr>
         else entry_of c k)"
      "\<And>a. breaker_for c' a = (if trips_breaker reason then breaker_for (record_failure aud now c) a
         else breaker_for c a)"
      "r = (if ctx_done then Inl ContextDone
            else if en_token (entry_of c key) \<noteq> [] \<and> now < en_expires_at (entry_of c key)
            then Inr (en_token (entry_of c key)) else Inl err)"
      "issue env c aud scope now = Inl (reason, err)"
  | (issued) tok ttl where "calls = [(aud, scope)]" "cl_cfg c' = cl_cfg c"
      "\<And>k. entry_of c' k = (if k = key
         then (entry_of c key)\<lparr>en_last_err := None, en_retry_at := zero_time, en_token := tok,
           en_issued_at := now, en_expires_at := now + ttl,
           en_renew_at := now + ttl - cc_renew_before (cl_cfg c)\<rparr>
         else entry_of c k)"
      "\<And>a. breaker_for c' a = breaker_for (record_success aud c) a"
      "r = (if ctx_done then Inl ContextDone else Inr tok)"
      "issue env c aud scope now = Inr (tok, ttl)"
proof (cases "obtain_start aud scope now c")
  case (Pair s c1)
  show thesis
  proof (cases s)
    case (Done r')
    then have eqs: "r' = r" "c1 = c'" "calls = []"
      using assms(2) Pair by (auto simp: obtain_locked_def)
    from Pair [unfolded Done eqs(1,2)] show thesis
      by (cases rule: start_done_cases) (use that(1-3) eqs(3) key_def in blast)+
  next
    case (NeedIssue valid)
    note start = start_issues [OF Pair [unfolded NeedIssue]]
    show thesis
    proof (cases "issue env c aud scope now")
      case (Inl re)
      then obtain reason err where re: "issue env c aud scope now = Inl (reason, err)" by (cases re) auto
      show thesis
        by (rule failed [OF _ _ _ _ _ re])
          (use assms(2) Pair NeedIssue start(3) re in
            \<open>auto simp: obtain_locked_def issue_and_store_def Let_def start(1,2) key_def
              record_failure_def fun_eq_iff split: if_splits\<close>)
    next
      case (Inr tt)
      then obtain tok ttl where tt: "issue env c aud scope now = Inr (tok, ttl)" by (cases tt) auto
      show thesis
        by (rule issued [OF _ _ _ _ _ tt])
          (use assms(2) Pair NeedIssue start(3) tt in
            \<open>auto simp: obtain_locked_def issue_and_store_def Let_def start(1,2) key_def
              record_success_def fun_eq_iff split: if_splits\<close>)
    qed
  qed
qed

section \<open>A cached token is a valid token\<close>

text \<open>
  The invariant of a client whose \<open>RenewBefore\<close> is not negative: an entry's token is renewed
  before it expires, and expires at most 300 seconds after it was issued.
\<close>

definition entry_ok :: "entry \<Rightarrow> bool" where
  "entry_ok e \<longleftrightarrow>
     en_renew_at e \<le> max 0 (en_expires_at e) \<and> (en_token e = [] \<or> en_expires_at e \<le> en_issued_at e + TTL)"

definition client_ok :: "client \<Rightarrow> bool" where
  "client_ok c \<longleftrightarrow> 0 \<le> cc_renew_before (cl_cfg c) \<and> (\<forall>k. entry_ok (entry_of c k))"


lemma entry_ok_new [simp]: "entry_ok new_entry"
  by (simp add: entry_ok_def new_entry_def zero_time_def)



lemma client_entry_ok [simp]: "client_ok (client_entry k c) = client_ok c"
  by (simp add: client_ok_def)












section \<open>Isolation, backoff, breaker\<close>

lemma obtain_frame:
  assumes "obtain_locked env ctx_done aud scope now c = (r, c', calls)"
  shows "cl_cfg c' = cl_cfg c \<and> set calls \<subseteq> {(aud, scope)} \<and> length calls \<le> 1 \<and>
    (\<forall>k. k \<noteq> entry_key aud scope \<longrightarrow> entry_of c' k = entry_of c k) \<and>
    (\<forall>a. a \<noteq> aud \<longrightarrow> breaker_for c' a = breaker_for c a)"
  using assms by (cases rule: obtain_cases) auto

lemma token_frame:
  assumes "token env ctx_done aud ss now c = (r, c', calls)"
  shows "cl_cfg c' = cl_cfg c \<and> set calls \<subseteq> {(aud, normalize_scope ss)} \<and> length calls \<le> 1 \<and>
    (\<forall>k. k \<noteq> entry_key aud (normalize_scope ss) \<longrightarrow> entry_of c' k = entry_of c k) \<and>
    (\<forall>a. a \<noteq> aud \<longrightarrow> breaker_for c' a = breaker_for c a)"
  using assms obtain_frame by (fastforce simp: token_def Let_def split: if_splits)

lemma refresh_frame:
  assumes "refresh env ctx_done sent aud ss now c = (r, c', calls)"
  shows "cl_cfg c' = cl_cfg c \<and> set calls \<subseteq> {(aud, normalize_scope ss)} \<and> length calls \<le> 1 \<and>
    (\<forall>k. k \<noteq> entry_key aud (normalize_scope ss) \<longrightarrow> entry_of c' k = entry_of c k) \<and>
    (\<forall>a. a \<noteq> aud \<longrightarrow> breaker_for c' a = breaker_for c a)"
proof -
  let ?k = "entry_key aud (normalize_scope ss)"
  let ?c = "put_entry ?k ((entry_of c ?k)\<lparr>en_renew_at := zero_time\<rparr>) (client_entry ?k c)"
  obtain r0 c0 calls0 where o: "obtain_locked env ctx_done aud (normalize_scope ss) now ?c = (r0, c0, calls0)"
    by (metis prod_cases3)
  show ?thesis
    using assms o obtain_frame [OF o]
    by (auto simp: refresh_def Let_def split: if_splits sum.splits)
qed

text \<open>The audiences of one client do not disturb each other: an operation on (aud, scope) asks
  iam at most once, for that pair only, and changes no other pair's entry and no other
  audience's circuit, so a misconfigured audience cannot cut off the rest.\<close>

theorem operations_isolated:
  "(case token env ctx_done aud ss now c of (r, c', calls) \<Rightarrow>
      calls \<in> {[], [(aud, normalize_scope ss)]} \<and>
      {k. entry_of c' k \<noteq> entry_of c k} \<subseteq> {entry_key aud (normalize_scope ss)} \<and>
      {a. breaker_for c' a \<noteq> breaker_for c a} \<subseteq> {aud}) \<and>
   (case refresh env ctx_done sent aud ss now c of (r, c', calls) \<Rightarrow>
      calls \<in> {[], [(aud, normalize_scope ss)]} \<and>
      {k. entry_of c' k \<noteq> entry_of c k} \<subseteq> {entry_key aud (normalize_scope ss)} \<and>
      {a. breaker_for c' a \<noteq> breaker_for c a} \<subseteq> {aud}) \<and>
   {k. entry_of (invalidate aud ss c) k \<noteq> entry_of c k} \<subseteq> {entry_key aud (normalize_scope ss)}"
proof -
  have one: "set calls \<subseteq> {p} \<Longrightarrow> length calls \<le> 1 \<Longrightarrow> calls = [] \<or> calls = [p]" for calls :: calls and p
    by (cases calls) auto
  obtain r c1 k where t: "token env ctx_done aud ss now c = (r, c1, k)" by (metis prod_cases3)
  obtain r' c2 k' where u: "refresh env ctx_done sent aud ss now c = (r', c2, k')" by (metis prod_cases3)
  have "{k. entry_of (invalidate aud ss c) k \<noteq> entry_of c k} \<subseteq> {entry_key aud (normalize_scope ss)}"
    by (auto simp: invalidate_def Let_def)
  moreover have "k \<in> {[], [(aud, normalize_scope ss)]}" "k' \<in> {[], [(aud, normalize_scope ss)]}"
    using token_frame [OF t] refresh_frame [OF u] one by simp_all
  moreover have "{k. entry_of c1 k \<noteq> entry_of c k} \<subseteq> {entry_key aud (normalize_scope ss)}"
    "{a. breaker_for c1 a \<noteq> breaker_for c a} \<subseteq> {aud}"
    using token_frame [OF t] by auto
  moreover have "{k. entry_of c2 k \<noteq> entry_of c k} \<subseteq> {entry_key aud (normalize_scope ss)}"
    "{a. breaker_for c2 a \<noteq> breaker_for c a} \<subseteq> {aud}"
    using refresh_frame [OF u] by auto
  ultimately show ?thesis unfolding t u prod.case by (intro conjI)
qed

lemma issue_reason: "issue env c aud scope now = Inl (reason, err) \<Longrightarrow> \<exists>status. err = ErrIssue reason status"
  by (auto simp: issue_def Let_def split: option.splits iam_reply.splits if_splits)

lemma obtain_rejected:
  assumes "obtain_locked env ctx_done aud scope now c = (Inl (ErrIssue reason status), c', calls)"
    and "calls \<noteq> []" "\<not> trips_breaker reason"
  defines "e \<equiv> entry_of c' (entry_key aud scope)"
  shows "en_last_err e = Some (ErrIssue reason status) \<and> en_retry_at e = now + DefaultRetryBackoff \<and>
    (en_token e = [] \<or> en_expires_at e \<le> now) \<and> (en_token e = [] \<or> en_renew_at e \<le> now) \<and>
    breaker_for c' aud = breaker_for c aud"
proof -
  let ?e = "entry_of c (entry_key aud scope)"
  have renew: "calls \<noteq> [] \<Longrightarrow> \<not> (en_token ?e \<noteq> [] \<and> now < en_renew_at ?e)"
    using assms(1) by (auto simp: obtain_locked_def obtain_start_eq split: if_splits)
  from assms(1) show ?thesis
  proof (cases rule: obtain_cases)
    case (failed err reason')
    then obtain st where "err = ErrIssue reason' st" using issue_reason by blast
    with failed renew assms(2,3) show ?thesis by (auto simp: e_def split: if_splits)
  qed (use assms(2) in \<open>auto split: if_splits\<close>)
qed

text \<open>A permanent rejection is not hammered: when iam rejects a request with a 4xx other than 429
  (or it cannot be signed), the circuit of the audience is left as it was, and for the next five
  seconds every \<open>Token\<close> for the same pair returns that error without asking iam.\<close>

theorem rejection_backs_off:
  assumes "token env ctx_done aud ss now c = (Inl (ErrIssue reason status), c', calls)"
    and "calls \<noteq> []" "\<not> trips_breaker reason" "now \<le> t" "t < now + DefaultRetryBackoff"
  shows "breaker_for c' aud = breaker_for c aud \<and>
    (case token env' ctx_done' aud ss t c' of (r, _, calls') \<Rightarrow>
       r = Inl (ErrIssue reason status) \<and> calls' = [])"
proof -
  let ?k = "entry_key aud (normalize_scope ss)"
  from assms(1) have aud: "trim_space aud \<noteq> []" "normalize_scope ss \<noteq> []"
    and o: "obtain_locked env ctx_done aud (normalize_scope ss) now (client_entry ?k c)
      = (Inl (ErrIssue reason status), c', calls)"
    by (auto simp: token_def Let_def split: if_splits)
  from obtain_rejected [OF o assms(2,3)] show ?thesis
    using assms(4,5) aud
    by (auto simp: token_def Let_def obtain_locked_def obtain_start_eq)
qed

definition iam_down :: "iam_env \<Rightarrow> bool" where
  "iam_down env \<longleftrightarrow>
     (\<forall>c aud scope now. \<exists>reason err. issue env c aud scope now = Inl (reason, err) \<and> trips_breaker reason)"

section \<open>Refresh\<close>

text \<open>The reaction to a 401 is bounded and loses nothing: \<open>Refresh\<close> never gives back the rejected
  token, never asks iam when that token is still cached and younger than 30 seconds, and leaves
  a cached token that is still valid in place unless iam issued a new one in this call.\<close>

theorem refresh_safe:
  "let e = entry_of c (entry_key aud (normalize_scope ss))
   in case refresh env ctx_done sent aud ss now c of (r, c', calls) \<Rightarrow>
        r \<noteq> Inr (Some sent) \<and>
        (if en_token e = sent \<and> now - en_issued_at e < MinReissueAge then calls = [] else True) \<and>
        (let e' = entry_of c' (entry_key aud (normalize_scope ss))
         in (en_token e' = en_token e \<and> en_expires_at e' = en_expires_at e) \<or>
            (calls = [(aud, normalize_scope ss)] \<and> en_issued_at e' = now \<and> en_token e' \<noteq> []))"
proof -
  let ?k = "entry_key aud (normalize_scope ss)"
  let ?e = "entry_of c ?k"
  let ?c = "put_entry ?k (?e\<lparr>en_renew_at := zero_time\<rparr>) (client_entry ?k c)"
  obtain r0 c0 calls0 where o: "obtain_locked env ctx_done aud (normalize_scope ss) now ?c = (r0, c0, calls0)"
    by (metis prod_cases3)
  have young: "time_sub now (en_issued_at ?e) < MinReissueAge \<longleftrightarrow> now - en_issued_at ?e < MinReissueAge"
    by (rule time_sub_less) (simp_all add: MinReissueAge_def second_def)
  have kept: "(en_token (entry_of c0 ?k) = en_token ?e \<and> en_expires_at (entry_of c0 ?k) = en_expires_at ?e) \<or>
      (calls0 = [(aud, normalize_scope ss)] \<and> en_issued_at (entry_of c0 ?k) = now \<and>
       en_token (entry_of c0 ?k) \<noteq> [])"
    using o
  proof (cases rule: obtain_cases)
    case (issued tok ttl)
    with issue_Inr [OF issued(6)] show ?thesis by auto
  qed auto
  show ?thesis
    using kept by (auto simp: refresh_def Let_def o young split: sum.splits)
qed

section \<open>Scopes and keys\<close>

text \<open>A string without white space, at any of its positions.\<close>

definition no_ws :: "string \<Rightarrow> bool" where
  "no_ws f \<longleftrightarrow> (\<forall>g. suffix g f \<longrightarrow> ws_width g = 0)"

lemma ws_width_0: "ws_width s = 0 \<longleftrightarrow> (\<forall>w \<in> set ws_runes. \<not> prefix w s)"
  by (auto simp: ws_width_def find_None_iff find_Some_iff ws_runes_nonempty split: option.splits)

lemma ws_width_append: "ws_width (g @ s) = 0 \<Longrightarrow> ws_width g = 0"
  by (auto simp: ws_width_0)

lemma ws_rune_space: "w \<in> set ws_runes \<Longrightarrow> w \<noteq> g @ CHR '' '' # t \<or> g = []"
  by (auto simp: ws_runes_def append_eq_Cons_conv)

lemma ws_width_before_space:
  assumes "ws_width g = 0" "g \<noteq> []"
  shows "ws_width (g @ CHR '' '' # t) = 0"
  unfolding ws_width_0
proof
  fix w assume w: "w \<in> set ws_runes"
  show "\<not> prefix w (g @ CHR '' '' # t)"
  proof
    assume "prefix w (g @ CHR '' '' # t)"
    then consider "prefix w g" | u where "w = g @ CHR '' '' # u"
      by (auto simp: prefix_append prefix_Cons)
    then show False
      using assms w ws_rune_space [OF w] by cases (auto simp: ws_width_0)
  qed
qed

lemma fields_no_ws:
  "f \<in> set (str_fields_from cur s) \<Longrightarrow>
   (\<And>g. suffix g (rev cur) \<Longrightarrow> g \<noteq> [] \<Longrightarrow> ws_width (g @ s) = 0) \<Longrightarrow> no_ws f"
proof (induction cur s rule: str_fields_from.induct)
  case (1 cur s)
  have cur: "no_ws (rev cur)"
    unfolding no_ws_def using 1(4) ws_width_append by (metis ws_width_Nil(1))
  show ?case
  proof (cases "s = [] \<or> ws_width s \<noteq> 0")
    case True
    with 1(2,3) cur show ?thesis
      by (subst (asm) (2) str_fields_from.simps) (auto split: if_splits)
  next
    case False
    then have f: "f \<in> set (str_fields_from (hd s # cur) (tl s))"
      using 1(3) by (subst (asm) str_fields_from.simps) simp
    show ?thesis
    proof (rule 1(1) [OF _ _ f])
      fix g assume "suffix g (rev (hd s # cur))" "g \<noteq> []"
      then obtain h where "g = h @ [hd s]" "suffix h (rev cur)"
        by (auto simp: suffix_snoc)
      then show "ws_width (g @ tl s) = 0"
        using 1(4) [of h] False by (cases "h = []") (auto simp: hd_Cons_tl)
    qed (use False in auto)
  qed
qed

lemma str_fields_no_ws: "f \<in> set (str_fields s) \<Longrightarrow> no_ws f"
  unfolding str_fields_def by (rule fields_no_ws) auto

lemma no_ws_tl: "no_ws (x # f) \<Longrightarrow> no_ws f"
  by (auto simp: no_ws_def suffix_Cons)

lemma fields_from_word:
  "no_ws f \<Longrightarrow> s = [] \<or> hd s = CHR '' '' \<Longrightarrow>
   str_fields_from cur (f @ s) = str_fields_from (rev f @ cur) s"
proof (induction f arbitrary: cur)
  case (Cons x f)
  then have "ws_width (x # f) = 0" by (simp add: no_ws_def)
  then have "ws_width ((x # f) @ s) = 0"
    using ws_width_before_space [of "x # f" "tl s"] Cons.prems(2) by (cases s) auto
  then show ?case
    using Cons no_ws_tl by (subst str_fields_from.simps) auto
qed simp

lemma fields_join:
  "(\<And>f. f \<in> set fs \<Longrightarrow> f \<noteq> [] \<and> no_ws f) \<Longrightarrow> str_fields (join '' '' fs) = fs"
  unfolding str_fields_def
proof (induction "'' ''" fs rule: join.induct)
  case 1
  then show ?case by (simp add: str_fields_from.simps)
next
  case (2 x)
  then show ?case
    using fields_from_word [of x "[]" "[]"] by (simp add: str_fields_from.simps [of "rev x" "[]"])
next
  case (3 x y zs)
  have "str_fields_from [] (x @ '' '' @ join '' '' (y # zs)) =
      str_fields_from (rev x) ('' '' @ join '' '' (y # zs))"
    using fields_from_word [of x "'' '' @ join '' '' (y # zs)" "[]"] 3(2) by simp
  also have "\<dots> = x # str_fields_from [] (join '' '' (y # zs))"
    using 3(2) [of x] by (subst str_fields_from.simps) simp
  finally show ?case using 3 by simp
qed

lemma normalize_scope_fields:
  "str_fields (normalize_scope ss) = sort (remdups (concat (map str_fields ss)))"
  unfolding normalize_scope_def by (rule fields_join) (auto dest: str_fields_no_ws str_fields_nonempty)

text \<open>The scope part of a cache key is canonical: reading it back gives the sorted set of the
  requested scopes, so two requests share an entry of an audience exactly when they ask for the
  same set of scopes, in whatever order, grouping or repetition.\<close>

theorem scope_key_canonical:
  "str_fields (normalize_scope ss) = sort (remdups (concat (map str_fields ss))) \<and>
   (entry_key aud (normalize_scope ss) = entry_key aud (normalize_scope ss') \<longleftrightarrow>
     (\<Union>s\<in>set ss. set (str_fields s)) = (\<Union>s\<in>set ss'. set (str_fields s)))"
proof -
  have "normalize_scope ss = normalize_scope ss' \<longleftrightarrow>
      set (concat (map str_fields ss)) = set (concat (map str_fields ss'))"
  proof
    assume "normalize_scope ss = normalize_scope ss'"
    then have "set (str_fields (normalize_scope ss)) = set (str_fields (normalize_scope ss'))" by simp
    then show "set (concat (map str_fields ss)) = set (concat (map str_fields ss'))"
      unfolding normalize_scope_fields by simp
  next
    assume "set (concat (map str_fields ss)) = set (concat (map str_fields ss'))"
    then have "sort (remdups (concat (map str_fields ss))) = sort (remdups (concat (map str_fields ss')))"
      by (intro sorted_distinct_set_unique) simp_all
    then show "normalize_scope ss = normalize_scope ss'" by (simp add: normalize_scope_def)
  qed
  then show ?thesis by (simp add: normalize_scope_fields entry_key_def)
qed

section \<open>Witnesses\<close>

definition sample_client_config :: client_config where
  "sample_client_config =
     \<lparr> cc_subject = ''sales'', cc_key = Some sample_key, cc_token_url = ''http://iam/s2s/token'',
       cc_http_client = None, cc_timeout = 0, cc_renew_before = 0, cc_failure_threshold = 0,
       cc_open_for = 0 \<rparr>"

definition sample_client :: client where
  "sample_client =
     \<lparr> cl_cfg = with_defaults sample_client_config, cl_kid = sample_kid,
       cl_http = issue_http_client (with_defaults sample_client_config), cl_errors = (\<lambda>_. 0),
       cl_entries = Map.empty, cl_breakers = Map.empty \<rparr>"

definition sample_env :: "iam_reply \<Rightarrow> iam_env" where
  "sample_env reply =
     \<lparr> rand_bytes = Some ''0123456789abcdef'', sign_rs256 = (\<lambda>_ _. Some ''assertion''),
       request_ok = (\<lambda>_. True), iam_post = (\<lambda>_ _. reply) \<rparr>"



lemma sample_aud: "trim_space ''stock'' = ''stock''" by (simp add: graphic_def byte_def)

lemma sample_scope: "normalize_scope [''stock:read''] = ''stock:read''"
  by (simp add: normalize_scope_def go_lib)

lemma sample_client_empty [simp]:
  "entry_of sample_client k = new_entry" "breaker_for sample_client a = new_breaker"
  "cc_failure_threshold (cl_cfg sample_client) = 5" "cc_open_for (cl_cfg sample_client) = 30 * second"
  by (simp_all add: sample_client_def entry_of_def breaker_for_def sample_client_config_def
      with_defaults_def DefaultFailureThreshold_def DefaultOpenFor_def)

lemma sample_issue:
  "issue (sample_env NoReply) c aud scope now = Inl (''transport'', ErrIssue ''transport'' 0)"
  "issue (sample_env (Reply 403 None)) c aud scope now = Inl (''http_4xx'', ErrIssue ''http_4xx'' 403)"
  "issue (sample_env (Reply 200 (Some (''tok'', 600)))) c aud scope now = Inr (''tok'', TTL)"
  by (simp_all add: issue_def assertion_def sample_env_def http_reason_def durations second_def
      wrap64_def)

lemma sample_start:
  "obtain_start ''stock'' ''stock:read'' now (client_entry k sample_client)
     = (NeedIssue False, put_breaker ''stock'' new_breaker (client_entry k sample_client))"
  by (simp add: obtain_start_eq new_entry_def allow_eq)
    (simp add: new_breaker_def zero_time_def)




text \<open>The proviso is needed: a lifetime of 9.3 billion seconds wraps around, and \<open>Token\<close> returns a token
  that, by the client's own books, expired long ago.\<close>

theorem overflowing_lifetime_expired:
  "\<exists>c' calls. token (sample_env (Reply 200 (Some (''tok'', 9300000000)))) False ''stock'' [''stock:read'']
       sample_now sample_client = (Inr ''tok'', c', calls) \<and>
     en_expires_at (entry_of c' (entry_key ''stock'' ''stock:read'')) < sample_now"
proof -
  have "issue (sample_env (Reply 200 (Some (''tok'', 9300000000)))) c aud scope now
      = Inr (''tok'', - 9146744073709551616)" for c aud scope now
    by (simp add: issue_def assertion_def sample_env_def durations second_def wrap64_def)
  then show ?thesis
    by (simp add: token_def Let_def sample_aud sample_scope obtain_locked_def sample_start issue_and_store_def)
qed

lemma sample_token_rejected:
  "\<exists>c'. token (sample_env (Reply 403 None)) False ''stock'' [''stock:read''] sample_now
     sample_client = (Inl (ErrIssue ''http_4xx'' 403), c', [(''stock'', ''stock:read'')])"
  by (simp add: token_def Let_def sample_aud sample_scope obtain_locked_def sample_start
      issue_and_store_def sample_issue trips_breaker_def)

theorem rejection_backs_off_witness:
  "\<exists>c'. case token (sample_env (Reply 200 (Some (''tok'', 600)))) False ''stock'' [''stock:read'']
           (sample_now + 4 * second) c' of (r, _, calls) \<Rightarrow>
        r = Inl (ErrIssue ''http_4xx'' 403) \<and> calls = []"
proof -
  obtain c' where t: "token (sample_env (Reply 403 None)) False ''stock'' [''stock:read''] sample_now
     sample_client = (Inl (ErrIssue ''http_4xx'' 403), c', [(''stock'', ''stock:read'')])"
    using sample_token_rejected by blast
  have "\<not> trips_breaker ''http_4xx''" "4 * second < DefaultRetryBackoff" "0 \<le> second"
    by (simp_all add: trips_breaker_def DefaultRetryBackoff_def second_def)
  with rejection_backs_off [OF t, of "sample_now + 4 * second"
      "sample_env (Reply 200 (Some (''tok'', 600)))" False]
  show ?thesis by (intro exI [of _ c']) simp
qed

end
