(* ===== verification/S2S_Transport.thy ===== *)
theory S2S_Transport
  imports S2S_Client User_Token
begin

text \<open>
  The rest of the issuing side: \<open>infrastructure/s2stoken/client/transport.go\<close>, the HTTP
  transport that attaches the service token and its mode switch, and \<open>LoadPrivateKey\<close> of
  \<open>client.go\<close>.

  The base round tripper is a function from the attempt and the token it carries to a status,
  \<open>None\<close> being a transport error. \<open>strings.EqualFold\<close> is a parameter; \<open>ToLower\<close> and
  \<open>ToUpper\<close> are modelled on ASCII letters.
\<close>

unbundle bit_operations_syntax

section \<open>Modes\<close>

datatype mode = ModeLegacy | ModeToken

definition mode_env_var :: "string \<Rightarrow> string" where
  "mode_env_var destination =
     ''S2S_MODE_'' @ map upper (map (\<lambda>c. if c = CHR ''-'' then CHR ''_'' else c) (trim_space destination))"

definition parse_mode :: "string \<Rightarrow> mode option" where
  "parse_mode raw =
     (let m = map lower (trim_space raw)
      in if m = [] \<or> m = ''legacy'' then Some ModeLegacy
         else if m = ''token'' then Some ModeToken
         else None)"

definition mode_for :: "(string \<Rightarrow> string) \<Rightarrow> string \<Rightarrow> mode option" where
  "mode_for getenv destination = parse_mode (getenv (mode_env_var destination))"

section \<open>The transport\<close>

record transport =
  tp_audience :: string
  tp_scopes :: "string list"
  tp_host :: string

text \<open>Of a request: whether it is a redirection, its host, its body, and \<open>GetBody\<close> if it has one
  (whether calling it works).\<close>

record out_request =
  or_redirect :: bool
  or_host :: string
  or_body :: bool
  or_get_body :: "bool option"

datatype transport_error = ErrHostMismatch | TokenError client_error | SendError

type_synonym sends = "(string \<times> string option) list"

definition delivered :: "int option \<Rightarrow> transport_error + int" where
  "delivered r = (case r of None \<Rightarrow> Inl SendError | Some status \<Rightarrow> Inr status)"

definition round_trip ::
  "(string \<Rightarrow> string \<Rightarrow> bool) \<Rightarrow> (nat \<Rightarrow> string option \<Rightarrow> int option) \<Rightarrow> iam_env \<Rightarrow> bool \<Rightarrow> time \<Rightarrow>
   iam_env \<Rightarrow> bool \<Rightarrow> time \<Rightarrow> transport \<Rightarrow> out_request \<Rightarrow> client \<Rightarrow>
   (transport_error + int) \<times> client \<times> sends \<times> calls" where
  "round_trip equal_fold base env ctx_done now env' ctx_done' now' t rq c =
     (let h = or_host rq in
      if or_redirect rq then (delivered (base 0 None), c, [(h, None)], [])
      else if tp_host t \<noteq> [] \<and> \<not> equal_fold h (trim_space (tp_host t)) then (Inl ErrHostMismatch, c, [], [])
      else (case token env ctx_done (tp_audience t) (tp_scopes t) now c of
        (Inl e, c, calls) \<Rightarrow> (Inl (TokenError e), c, [], calls)
      | (Inr tok, c, calls) \<Rightarrow>
      let r = base 0 (Some tok) in
      if r \<noteq> Some 401 then (delivered r, c, [(h, Some tok)], calls)
      else if or_body rq \<and> or_get_body rq = None then (delivered r, c, [(h, Some tok)], calls)
      else (case refresh env' ctx_done' tok (tp_audience t) (tp_scopes t) now' c of
        (Inl e, c, calls') \<Rightarrow> (delivered r, c, [(h, Some tok)], calls @ calls')
      | (Inr None, c, calls') \<Rightarrow> (delivered r, c, [(h, Some tok)], calls @ calls')
      | (Inr (Some fresh), c, calls') \<Rightarrow>
      if or_get_body rq = Some False then (delivered r, c, [(h, Some tok)], calls @ calls')
      else (delivered (base 1 (Some fresh)), c, [(h, Some tok), (h, Some fresh)], calls @ calls'))))"

section \<open>The private key\<close>

record opened_file =
  of_perm :: "nat option"
  of_read :: "string option"

datatype private_key_error =
    OpenFailed
  | StatError
  | PermissionsTooOpen nat
  | ReadError
  | NotAPem
  | BadPkcs8
  | PrivateNotRSA
  | BadPkcs1
  | NotAPrivateKey string
  | PrivateTooSmall

record private_key_source =
  pk_open :: "string \<Rightarrow> opened_file option"
  pk_pem_decode :: "string \<Rightarrow> pem_block option"
  parse_pkcs8 :: "string \<Rightarrow> parsed_key option"
  parse_pkcs1 :: "string \<Rightarrow> rsa_public_key option"

definition load_private_key ::
  "private_key_source \<Rightarrow> string \<Rightarrow> private_key_error + rsa_public_key" where
  "load_private_key ks path =
     (case pk_open ks path of
        None \<Rightarrow> Inl OpenFailed
      | Some f \<Rightarrow>
     (case of_perm f of
        None \<Rightarrow> Inl StatError
      | Some perm \<Rightarrow>
      if perm AND 63 \<noteq> 0 then Inl (PermissionsTooOpen perm)
      else (case of_read f of
        None \<Rightarrow> Inl ReadError
      | Some raw \<Rightarrow>
      (case pk_pem_decode ks (take (2 ^ 20) raw) of
        None \<Rightarrow> Inl NotAPem
      | Some block \<Rightarrow>
      let key = (if pem_type block = ''PRIVATE KEY''
          then (case parse_pkcs8 ks (pem_bytes block) of
                  None \<Rightarrow> Inl BadPkcs8
                | Some ParsedOther \<Rightarrow> Inl PrivateNotRSA
                | Some (ParsedRSA k) \<Rightarrow> Inr k)
          else if pem_type block = ''RSA PRIVATE KEY''
          then (case parse_pkcs1 ks (pem_bytes block) of None \<Rightarrow> Inl BadPkcs1 | Some k \<Rightarrow> Inr k)
          else Inl (NotAPrivateKey (pem_type block)))
      in (case key of
            Inl e \<Rightarrow> Inl e
          | Inr k \<Rightarrow> if bit_len (rsa_n k) < 2048 then Inl PrivateTooSmall else Inr k)))))"

section \<open>Properties\<close>

text \<open>The sends that the transport may make: none; a redirection, without a token; or one or two
  to the request's own host, pinned if the transport names a host.\<close>

definition allowed_sends ::
  "(string \<Rightarrow> string \<Rightarrow> bool) \<Rightarrow> (nat \<Rightarrow> string option \<Rightarrow> int option) \<Rightarrow> transport \<Rightarrow> out_request \<Rightarrow>
   sends \<Rightarrow> bool" where
  "allowed_sends equal_fold base t rq sends \<longleftrightarrow>
     sends = [] \<or>
     (or_redirect rq \<and> sends = [(or_host rq, None)]) \<or>
     (\<not> or_redirect rq \<and> (tp_host t = [] \<or> equal_fold (or_host rq) (trim_space (tp_host t))) \<and>
      (\<exists>a. sends = [(or_host rq, Some a)] \<or>
        (\<exists>b. sends = [(or_host rq, Some a), (or_host rq, Some b)] \<and> a \<noteq> b \<and>
           base 0 (Some a) = Some 401 \<and> or_get_body rq \<noteq> Some False \<and>
           \<not> (or_body rq \<and> or_get_body rq = None))))"

lemma refresh_not_sent: "refresh env ctx_done sent aud ss now c = (Inr (Some tok), c', calls) \<Longrightarrow> tok \<noteq> sent"
  by (auto simp: refresh_def Let_def split: if_splits prod.splits sum.splits)

text \<open>C20: The transport sends a request at most twice, to the request's own host only and never to a
  host other than the pinned one; a redirection carries no token; the second send follows a 401,
  carries another token and only happens when the body can be sent again; and iam is asked at
  most twice, for the transport's own audience and scopes.\<close>

theorem transport_confines_token:
  "case round_trip equal_fold base env ctx_done now env' ctx_done' now' t rq c of (r, c', sends, calls) \<Rightarrow>
     allowed_sends equal_fold base t rq sends \<and> length calls \<le> 2 \<and>
     set calls \<subseteq> {(tp_audience t, normalize_scope (tp_scopes t))} \<and>
     (sends = [] \<or> r = delivered (base (length sends - 1) (snd (last sends))))"
proof -
  obtain r1 c1 k1 where t: "token env ctx_done (tp_audience t) (tp_scopes t) now c = (r1, c1, k1)"
    by (metis prod_cases3)
  note tf = token_frame [OF t]
  show ?thesis
  proof (cases r1)
    case (Inl e)
    with t tf show ?thesis by (auto simp: round_trip_def Let_def allowed_sends_def)
  next
    case (Inr tok)
    obtain r2 c2 k2 where u: "refresh env' ctx_done' tok (tp_audience t) (tp_scopes t) now' c1 = (r2, c2, k2)"
      by (metis prod_cases3)
    note rf = refresh_frame [OF u]
    have neq: "r2 = Inr (Some fresh) \<Longrightarrow> tok \<noteq> fresh" for fresh
      using refresh_not_sent u by blast
    have two: "length (k1 @ k2) \<le> 2" "set (k1 @ k2) \<subseteq> {(tp_audience t, normalize_scope (tp_scopes t))}"
      using tf rf by auto
    show ?thesis
    proof (cases "or_redirect rq \<or> (tp_host t \<noteq> [] \<and> \<not> equal_fold (or_host rq) (trim_space (tp_host t))) \<or>
        base 0 (Some tok) \<noteq> Some 401 \<or> (or_body rq \<and> or_get_body rq = None)")
      case True
      with t tf Inr show ?thesis by (auto simp: round_trip_def Let_def allowed_sends_def)
    next
      case False
      then show ?thesis
        using t u Inr two neq
        by (auto simp: round_trip_def Let_def allowed_sends_def split: sum.split option.split)
    qed
  qed
qed

lemma and_63: "n AND 63 = n mod 64" for n :: nat
  using and_exp_eq_0_iff_not_bit take_bit_eq_mask [of 6 n] take_bit_eq_mod [of 6 n]
  by (simp add: mask_eq_exp_minus_1)

text \<open>A private key is used only from a file that neither its group nor others can access (no
  permission bit below the owner's is set), and only an RSA key of at least 2048 bits.\<close>

theorem private_key_permissions:
  "case load_private_key ks path of
     Inl _ \<Rightarrow> True
   | Inr k \<Rightarrow> \<exists>f perm. pk_open ks path = Some f \<and> of_perm f = Some perm \<and> 64 dvd perm \<and>
       2 ^ 2047 \<le> rsa_n k"
proof (cases "load_private_key ks path")
  case (Inr k)
  then obtain f perm where "pk_open ks path = Some f" "of_perm f = Some perm" "perm AND 63 = 0"
    "\<not> bit_len (rsa_n k) < 2048"
    by (auto simp: load_private_key_def Let_def
        split: option.splits if_splits sum.splits parsed_key.splits)
  moreover from this have "64 dvd perm" by (simp add: and_63 dvd_eq_mod_eq_0)
  moreover from calculation have "2 ^ 2047 \<le> rsa_n k" using bit_len_ge [of 2047 "rsa_n k"] by (simp del: power_numeral)
  ultimately show ?thesis using Inr by auto
qed simp

text \<open>The mode of a destination is never ambiguous.\<close>

lemma parse_mode_iff:
  "parse_mode raw = Some ModeToken \<longleftrightarrow> map lower (trim_space raw) = ''token''"
  "parse_mode raw = Some ModeLegacy \<longleftrightarrow> map lower (trim_space raw) \<in> {[], ''legacy''}"
  by (auto simp: parse_mode_def Let_def)

end
