(* ===== verification/Single_Flight.thy ===== *)
theory Single_Flight
  imports S2S_Client
begin

text \<open>
  The concurrency of one entry of the client (\<open>acquire\<close>, \<open>release\<close>, \<open>Token\<close> and the goroutine of
  \<open>obtainLocked\<close> in \<open>client.go\<close>): many callers of \<open>Token\<close> for one pair (audience, scope), as a
  step relation. The lock of the entry is a channel of capacity one, held by a caller or, once
  a request to iam is under way, by the goroutine that makes it. A caller may leave at any time
  that its context ends; operations on other entries of the same client may run in between.
  \<open>Refresh\<close> and \<open>Invalidate\<close> take the same lock; they change when the entry is renewed, and so how many
  requests there are, and are not steps here: \<open>Client_Runs\<close> interleaves them with \<open>Token\<close>.
\<close>

datatype holder = Free | HeldBy nat | IssuedFor nat time bool

text \<open>
  A caller is entering, blocked on the lock (it found it taken), holding it, awaiting the
  goroutine, or finished.
\<close>

datatype pc = Entering | Blocked | Holding | Awaiting | Finished "client_error + string"

record flight =
  fl_client :: client
  fl_lock :: holder
  fl_pc :: "nat \<Rightarrow> pc"
  fl_done :: "nat \<Rightarrow> (client_error + string) option"
  fl_requests :: nat

inductive step :: "iam_env \<Rightarrow> string \<Rightarrow> string \<Rightarrow> time set \<Rightarrow> flight \<Rightarrow> flight \<Rightarrow> bool"
  for env :: iam_env and aud :: string and scope :: string and clock :: "time set"
where
  acquire: "fl_pc s i \<in> {Entering, Blocked} \<Longrightarrow> fl_lock s = Free \<Longrightarrow>
     step env aud scope clock s (s\<lparr>fl_lock := HeldBy i, fl_pc := (fl_pc s)(i := Holding)\<rparr>)"
| block: "fl_pc s i = Entering \<Longrightarrow> fl_lock s \<noteq> Free \<Longrightarrow>
     step env aud scope clock s (s\<lparr>fl_pc := (fl_pc s)(i := Blocked)\<rparr>)"
| give_up: "fl_pc s i = Blocked \<Longrightarrow>
     step env aud scope clock s (s\<lparr>fl_pc := (fl_pc s)(i := Finished (Inl ContextDone))\<rparr>)"
| at_once: "fl_pc s i = Holding \<Longrightarrow> fl_lock s = HeldBy i \<Longrightarrow> now \<in> clock \<Longrightarrow>
     obtain_start aud scope now (fl_client s) = (Done r, c) \<Longrightarrow>
     step env aud scope clock s
       (s\<lparr>fl_client := c, fl_lock := Free, fl_pc := (fl_pc s)(i := Finished r)\<rparr>)"
| hand_off: "fl_pc s i = Holding \<Longrightarrow> fl_lock s = HeldBy i \<Longrightarrow> now \<in> clock \<Longrightarrow>
     obtain_start aud scope now (fl_client s) = (NeedIssue valid, c) \<Longrightarrow>
     step env aud scope clock s
       (s\<lparr>fl_client := c, fl_lock := IssuedFor i now valid, fl_pc := (fl_pc s)(i := Awaiting),
          fl_done := (fl_done s)(i := None), fl_requests := fl_requests s + 1\<rparr>)"
| issue_done: "fl_lock s = IssuedFor i now valid \<Longrightarrow>
     issue_and_store env aud scope now valid (fl_client s) = (r, c) \<Longrightarrow>
     step env aud scope clock s
       (s\<lparr>fl_client := c, fl_lock := Free, fl_done := (fl_done s)(i := Some r)\<rparr>)"
| receive: "fl_pc s i = Awaiting \<Longrightarrow> fl_done s i = Some r \<Longrightarrow>
     step env aud scope clock s (s\<lparr>fl_pc := (fl_pc s)(i := Finished r)\<rparr>)"
| leave: "fl_pc s i = Awaiting \<Longrightarrow>
     step env aud scope clock s (s\<lparr>fl_pc := (fl_pc s)(i := Finished (Inl ContextDone))\<rparr>)"
| other_entry: "entry_of c (entry_key aud scope) = entry_of (fl_client s) (entry_key aud scope) \<Longrightarrow>
     cl_cfg c = cl_cfg (fl_client s) \<Longrightarrow> cl_kid c = cl_kid (fl_client s) \<Longrightarrow>
     step env aud scope clock s (s\<lparr>fl_client := c\<rparr>)"

definition start_flight :: "client \<Rightarrow> flight" where
  "start_flight c =
     \<lparr> fl_client = c, fl_lock = Free, fl_pc = (\<lambda>_. Entering), fl_done = (\<lambda>_. None), fl_requests = 0 \<rparr>"

inductive flights :: "iam_env \<Rightarrow> string \<Rightarrow> string \<Rightarrow> time set \<Rightarrow> client \<Rightarrow> flight \<Rightarrow> bool"
  for env aud scope clock c0
where
  start: "flights env aud scope clock c0 (start_flight c0)"
| more: "flights env aud scope clock c0 s \<Longrightarrow> step env aud scope clock s s' \<Longrightarrow>
     flights env aud scope clock c0 s'"

section \<open>The lock\<close>

definition lock_inv :: "flight \<Rightarrow> bool" where
  "lock_inv s \<longleftrightarrow>
     (\<forall>i. fl_pc s i = Holding \<longleftrightarrow> fl_lock s = HeldBy i) \<and>
     (\<forall>i. fl_pc s i = Awaiting \<longrightarrow> fl_done s i \<noteq> None \<or> (\<exists>now valid. fl_lock s = IssuedFor i now valid)) \<and>
     (\<forall>i now valid. fl_lock s = IssuedFor i now valid \<longrightarrow>
        fl_done s i = None \<and> fl_pc s i \<in> {Awaiting, Finished (Inl ContextDone)})"

lemma lock_inv_start: "lock_inv (start_flight c)"
  by (simp add: lock_inv_def start_flight_def)

lemma lock_inv_step: "step env aud scope clock s s' \<Longrightarrow> lock_inv s \<Longrightarrow> lock_inv s'"
  by (induction rule: step.induct) (auto simp: lock_inv_def split: if_splits, (metis pc.distinct)+)

lemma flights_lock_inv: "flights env aud scope clock c0 s \<Longrightarrow> lock_inv s"
  by (induction rule: flights.induct) (auto intro: lock_inv_start lock_inv_step)

text \<open>Some move other than giving up is possible while a caller is not finished; it moves one caller
  at most, that one or one that has entered before.\<close>

lemma flight_progress:
  assumes inv: "lock_inv s" and now: "now \<in> clock" and busy: "\<And>r. fl_pc s i \<noteq> Finished r"
  shows "\<exists>s' j. step env aud scope clock s s' \<and> (\<forall>l. l \<noteq> j \<longrightarrow> fl_pc s' l = fl_pc s l) \<and>
    (j = i \<or> fl_pc s j \<noteq> Entering) \<and>
    (fl_lock s' \<noteq> fl_lock s \<or> (\<exists>i r. fl_pc s i = Awaiting \<and> fl_done s i = Some r \<and> fl_pc s' i = Finished r))"
proof (cases "fl_lock s")
  case Free
  show ?thesis
  proof (cases "fl_pc s i = Awaiting")
    case True
    with inv Free obtain r where r: "fl_done s i = Some r" by (auto simp: lock_inv_def)
    show ?thesis
      by (rule exI, rule exI [of _ i], intro conjI, rule step.receive [OF True r]) (use True r in auto)
  next
    case False
    with inv Free busy have "fl_pc s i \<in> {Entering, Blocked}"
      by (cases "fl_pc s i") (auto simp: lock_inv_def)
    from step.acquire [OF this Free] show ?thesis
      by (intro exI [of _ i] exI conjI, assumption) (use Free in auto)
  qed
next
  case (HeldBy j)
  then have j: "fl_pc s j = Holding" using inv by (auto simp: lock_inv_def)
  obtain o1 c where o1: "obtain_start aud scope now (fl_client s) = (o1, c)" by fastforce
  show ?thesis
  proof (cases o1)
    case (Done r)
    from step.at_once [OF j HeldBy now o1 [unfolded Done]] show ?thesis
      by (intro exI [of _ j] exI conjI, assumption) (use HeldBy j in auto)
  next
    case (NeedIssue v)
    from step.hand_off [OF j HeldBy now o1 [unfolded NeedIssue]] show ?thesis
      by (intro exI [of _ j] exI conjI, assumption) (use HeldBy j in auto)
  qed
next
  case (IssuedFor j t v)
  obtain r c where "issue_and_store env aud scope t v (fl_client s) = (r, c)" by fastforce
  from step.issue_done [OF IssuedFor this] show ?thesis
    by (intro exI [of _ i] exI conjI, assumption) (use IssuedFor in auto)
qed

text \<open>C8: The single flight of an entry is safe and never jams: in every reachable state at most one
  caller holds the entry and none does while a request to iam is under way; a caller that waits
  for a result has one or its request is under way; and as long as some caller is not finished,
  some caller or the goroutine can make a step other than a caller's giving up.\<close>

theorem single_flight_safe:
  assumes "flights env aud scope clock c0 s" "now \<in> clock"
  shows "(\<forall>i j. fl_pc s i = Holding \<and> fl_pc s j = Holding \<longrightarrow> i = j) \<and>
    (\<forall>i j t v. fl_lock s = IssuedFor j t v \<longrightarrow> fl_pc s i \<noteq> Holding) \<and>
    (\<forall>i. fl_pc s i = Awaiting \<longrightarrow> fl_done s i \<noteq> None \<or> (\<exists>t v. fl_lock s = IssuedFor i t v)) \<and>
    ((\<exists>i. \<forall>r. fl_pc s i \<noteq> Finished r) \<longrightarrow>
       (\<exists>s'. step env aud scope clock s s' \<and>
          (fl_lock s' \<noteq> fl_lock s \<or> (\<exists>i r. fl_pc s i = Awaiting \<and> fl_done s i = Some r \<and> fl_pc s' i = Finished r))))"
proof -
  have inv: "lock_inv s" by (rule flights_lock_inv [OF assms(1)])
  have "\<exists>s'. step env aud scope clock s s' \<and>
      (fl_lock s' \<noteq> fl_lock s \<or> (\<exists>i r. fl_pc s i = Awaiting \<and> fl_done s i = Some r \<and> fl_pc s' i = Finished r))"
    if "\<forall>r. fl_pc s i \<noteq> Finished r" for i
    using flight_progress [OF inv assms(2), of i env aud scope] that by blast
  then have progress: "(\<exists>i. \<forall>r. fl_pc s i \<noteq> Finished r) \<longrightarrow> (\<exists>s'. step env aud scope clock s s' \<and>
      (fl_lock s' \<noteq> fl_lock s \<or> (\<exists>i r. fl_pc s i = Awaiting \<and> fl_done s i = Some r \<and> fl_pc s' i = Finished r)))"
    by blast
  have "\<forall>i j. fl_pc s i = Holding \<and> fl_pc s j = Holding \<longrightarrow> i = j"
    "\<forall>i j t v. fl_lock s = IssuedFor j t v \<longrightarrow> fl_pc s i \<noteq> Holding"
    "\<forall>i. fl_pc s i = Awaiting \<longrightarrow> fl_done s i \<noteq> None \<or> (\<exists>t v. fl_lock s = IssuedFor i t v)"
    using inv unfolding lock_inv_def by auto
  with progress show ?thesis by (intro conjI)
qed

section \<open>One request serves every caller\<close>

text \<open>iam answers every request with a token of lifetime \<open>ttl\<close>.\<close>

definition iam_up :: "iam_env \<Rightarrow> string \<Rightarrow> duration \<Rightarrow> bool" where
  "iam_up env tok ttl \<longleftrightarrow> (\<forall>c aud scope now. issue env c aud scope now = Inr (tok, ttl))"

text \<open>
  While the clock shows a time of the window \<open>[t, T)\<close>, and a token issued in it is due for renewal
  only at \<open>T\<close> or later, the requests made so far are accounted for: none, with a lock that no
  goroutine holds; or one, under way or stored.
\<close>

definition one_request :: "string \<Rightarrow> string \<Rightarrow> time \<Rightarrow> time \<Rightarrow> duration \<Rightarrow> flight \<Rightarrow> bool" where
  "one_request aud scope t T ttl s \<longleftrightarrow>
     T \<le> t + ttl - cc_renew_before (cl_cfg (fl_client s)) \<and>
     (let e = entry_of (fl_client s) (entry_key aud scope)
      in (fl_requests s = 0 \<and> (\<forall>i n v. fl_lock s \<noteq> IssuedFor i n v)) \<or>
         (fl_requests s = 1 \<and>
            ((\<exists>i n v. fl_lock s = IssuedFor i n v \<and> t \<le> n) \<or>
             (en_token e \<noteq> [] \<and> T \<le> en_renew_at e \<and> (\<forall>i n v. fl_lock s \<noteq> IssuedFor i n v)))))"

lemma one_request_step:
  assumes "step env aud scope {t..<T} s s'" "iam_up env tok ttl" "tok \<noteq> []"
    and "lock_inv s" "one_request aud scope t T ttl s"
  shows "one_request aud scope t T ttl s'"
  using assms(1,4,5)
proof (induction rule: step.induct)
  case (at_once s i now r c)
  have "entry_of c = entry_of (fl_client s)" "cl_cfg c = cl_cfg (fl_client s)"
    using at_once(4) by (auto simp: obtain_start_eq fun_eq_iff allow_eq split: if_splits)
  with at_once show ?case by (auto simp: one_request_def Let_def)
next
  case (hand_off s i now valid c)
  let ?e = "entry_of (fl_client s) (entry_key aud scope)"
  have "entry_of c = entry_of (fl_client s)" "cl_cfg c = cl_cfg (fl_client s)"
    and old: "\<not> (en_token ?e \<noteq> [] \<and> now < en_renew_at ?e)"
    using hand_off(4) by (auto simp: obtain_start_eq fun_eq_iff allow_eq split: if_splits)
  moreover have "fl_requests s = 0"
    using hand_off(2,3,6) old by (auto simp: one_request_def Let_def)
  ultimately show ?case using hand_off by (auto simp: one_request_def Let_def)
next
  case (issue_done s i now valid r c)
  have e: "entry_of c (entry_key aud scope) = (entry_of (fl_client s) (entry_key aud scope))
      \<lparr>en_last_err := None, en_retry_at := zero_time, en_token := tok, en_issued_at := now,
       en_expires_at := now + ttl, en_renew_at := now + ttl - cc_renew_before (cl_cfg (fl_client s))\<rparr>"
    and cfg: "cl_cfg c = cl_cfg (fl_client s)"
    using issue_done(2) assms(2) by (auto simp: issue_and_store_def iam_up_def Let_def)
  with issue_done(1,4) assms(3) show ?case by (auto simp: one_request_def Let_def)
qed (auto simp: one_request_def Let_def)

text \<open>C27: However many callers ask for a pair at once, and however they interleave, block, leave or
  are cancelled, iam is asked once: while it answers, all the calls made in the window before
  the token is due for renewal share one request.\<close>

theorem one_request_serves_all:
  assumes "flights env aud scope {t..<T} c0 s" "iam_up env tok ttl" "tok \<noteq> []"
    and "T \<le> t + ttl - cc_renew_before (cl_cfg c0)"
  shows "fl_requests s \<le> 1"
proof -
  from assms(1) have "one_request aud scope t T ttl s"
  proof (induction rule: flights.induct)
    case start
    then show ?case using assms(4) by (simp add: one_request_def start_flight_def Let_def)
  next
    case (more s s')
    then show ?case using one_request_step assms(2,3) flights_lock_inv by blast
  qed
  then show ?thesis by (auto simp: one_request_def Let_def)
qed

section \<open>Every caller finishes\<close>

text \<open>
  Runs in which only the callers below \<open>n\<close> take part, with the number of moves made: the steps that
  change the place of a caller or the lock (what remains are operations on other entries).
\<close>

inductive moves ::
    "nat \<Rightarrow> iam_env \<Rightarrow> string \<Rightarrow> string \<Rightarrow> time set \<Rightarrow> client \<Rightarrow> nat \<Rightarrow> flight \<Rightarrow> bool"
  for n env aud scope clock c0
where
  no_move: "moves n env aud scope clock c0 0 (start_flight c0)"
| a_step: "moves n env aud scope clock c0 k s \<Longrightarrow> step env aud scope clock s s' \<Longrightarrow>
     (\<And>i. n \<le> i \<Longrightarrow> fl_pc s' i = fl_pc s i) \<Longrightarrow>
     moves n env aud scope clock c0 (if fl_pc s' = fl_pc s \<and> fl_lock s' = fl_lock s then k else Suc k) s'"

text \<open>What is left to do: each caller has at most five moves before it, the goroutine one.\<close>

fun moves_left :: "pc \<Rightarrow> nat" where
  "moves_left Entering = 5"
| "moves_left Blocked = 4"
| "moves_left Holding = 3"
| "moves_left Awaiting = 1"
| "moves_left (Finished r) = 0"

definition under_way :: "holder \<Rightarrow> nat" where
  "under_way h = (case h of IssuedFor i t v \<Rightarrow> 1 | _ \<Rightarrow> 0)"

definition work :: "nat \<Rightarrow> flight \<Rightarrow> nat" where
  "work n s = (\<Sum>i<n. moves_left (fl_pc s i)) + under_way (fl_lock s)"

lemma work_move:
  fixes n :: nat
  assumes "i < n"
  shows "(\<Sum>j<n. moves_left ((f(i := p)) j)) + moves_left (f i) = (\<Sum>j<n. moves_left (f j)) + moves_left p"
proof -
  have "(\<Sum>j \<in> {..<n} - {i}. moves_left ((f(i := p)) j)) = (\<Sum>j \<in> {..<n} - {i}. moves_left (f j))"
    by (rule sum.cong) auto
  moreover have "(\<Sum>j<n. g j) = g i + (\<Sum>j \<in> {..<n} - {i}. g j)" for g :: "nat \<Rightarrow> nat"
    by (rule sum.remove) (use assms in auto)
  note this [of "\<lambda>j. moves_left ((f(i := p)) j)"] this [of "\<lambda>j. moves_left (f j)"]
  ultimately show ?thesis by simp
qed

lemma work_frame:
  fixes n :: nat
  assumes "\<And>j. n \<le> j \<Longrightarrow> (f(i := p)) j = f j" "f i \<noteq> p"
  shows "(\<Sum>j<n. moves_left ((f(i := p)) j)) + moves_left (f i) = (\<Sum>j<n. moves_left (f j)) + moves_left p"
proof -
  have "i < n" using assms by (metis fun_upd_same not_le_imp_less)
  then show ?thesis by (rule work_move)
qed

lemma work_step:
  assumes "step env aud scope clock s s'" "\<And>i. n \<le> i \<Longrightarrow> fl_pc s' i = fl_pc s i"
    and "fl_pc s' \<noteq> fl_pc s \<or> fl_lock s' \<noteq> fl_lock s"
  shows "work n s' < work n s"
  using assms
proof (induction rule: step.induct)
  case (acquire s i)
  with work_frame [of n "fl_pc s" i Holding] show ?case by (auto simp: work_def under_way_def)
next
  case (block s i)
  with work_frame [of n "fl_pc s" i Blocked] show ?case by (simp add: work_def)
next
  case (give_up s i)
  with work_frame [of n "fl_pc s" i "Finished (Inl ContextDone)"] show ?case by (simp add: work_def)
next
  case (at_once s i now r c)
  with work_frame [of n "fl_pc s" i "Finished r"] show ?case by (simp add: work_def under_way_def)
next
  case (hand_off s i now valid c)
  with work_frame [of n "fl_pc s" i Awaiting] show ?case by (simp add: work_def under_way_def)
next
  case (issue_done s i now valid r c)
  then show ?case by (simp add: work_def under_way_def)
next
  case (receive s i r)
  with work_frame [of n "fl_pc s" i "Finished r"] show ?case by (simp add: work_def)
next
  case (leave s i)
  with work_frame [of n "fl_pc s" i "Finished (Inl ContextDone)"] show ?case by (simp add: work_def)
qed simp

lemma moves_work:
  "moves n env aud scope clock c0 k s \<Longrightarrow>
   k + work n s \<le> 5 * n \<and> lock_inv s \<and> (\<forall>i \<ge> n. fl_pc s i = Entering)"
proof (induction rule: moves.induct)
  case no_move
  have "work n (start_flight c0) = 5 * n"
    by (simp add: work_def start_flight_def under_way_def)
  then show ?case using lock_inv_start [of c0] by (simp add: start_flight_def)
next
  case (a_step k s s')
  have "work n s' < work n s \<or> (work n s' = work n s \<and> fl_pc s' = fl_pc s \<and> fl_lock s' = fl_lock s)"
  proof (cases "fl_pc s' = fl_pc s \<and> fl_lock s' = fl_lock s")
    case False
    then show ?thesis using work_step [OF a_step.hyps(2), of n] a_step.hyps(3) by auto
  qed (simp add: work_def)
  with a_step show ?case using lock_inv_step [OF a_step.hyps(2)] by auto
qed

text \<open>C24: The concurrent calls of a pair all come to an end, whatever the scheduling: with \<open>n\<close> callers any
  run makes at most \<open>5 n\<close> moves, and as long as one of them is not finished another move is possible
  in which nobody gives up, so every run that goes on as long as it can ends with all of them
  finished.\<close>

theorem single_flight_terminates:
  assumes "moves n env aud scope clock c0 k s" "now \<in> clock"
  shows "k \<le> 5 * n \<and>
    ((\<exists>i<n. \<forall>r. fl_pc s i \<noteq> Finished r) \<longrightarrow>
       (\<exists>s'. moves n env aud scope clock c0 (Suc k) s' \<and>
          (fl_lock s' \<noteq> fl_lock s \<or> (\<exists>i r. fl_pc s i = Awaiting \<and> fl_done s i = Some r \<and> fl_pc s' i = Finished r))))"
proof -
  have inv: "k + work n s \<le> 5 * n" "lock_inv s" "\<And>i. n \<le> i \<Longrightarrow> fl_pc s i = Entering"
    using moves_work [OF assms(1)] by auto
  have "\<exists>s'. moves n env aud scope clock c0 (Suc k) s' \<and>
      (fl_lock s' \<noteq> fl_lock s \<or> (\<exists>i r. fl_pc s i = Awaiting \<and> fl_done s i = Some r \<and> fl_pc s' i = Finished r))"
    if "i < n" and busy: "\<And>r. fl_pc s i \<noteq> Finished r" for i
  proof -
    obtain s' j where s': "step env aud scope clock s s'" "\<And>l. l \<noteq> j \<Longrightarrow> fl_pc s' l = fl_pc s l"
        "j = i \<or> fl_pc s j \<noteq> Entering"
        "fl_lock s' \<noteq> fl_lock s \<or> (\<exists>i r. fl_pc s i = Awaiting \<and> fl_done s i = Some r \<and> fl_pc s' i = Finished r)"
      using flight_progress [OF inv(2) assms(2) busy, of env aud scope] by blast
    have "j < n" using s'(3) that(1) inv(3) [of j] by force
    then have "\<And>l. n \<le> l \<Longrightarrow> fl_pc s' l = fl_pc s l" using s'(2) by auto
    from moves.a_step [OF assms(1) s'(1) this]
    have "moves n env aud scope clock c0 (if fl_pc s' = fl_pc s \<and> fl_lock s' = fl_lock s then k else Suc k) s'" .
    moreover have "\<not> (fl_pc s' = fl_pc s \<and> fl_lock s' = fl_lock s)" using s'(4) by auto
    ultimately show ?thesis using s'(4) by auto
  qed
  with inv(1) show ?thesis by auto
qed

section \<open>Witnesses\<close>

abbreviation sample_flight :: flight where
  "sample_flight \<equiv> start_flight sample_client"

theorem single_flight_safe_witness:
  "\<exists>s'. step (sample_env NoReply) ''stock'' ''stock:read'' {0..} sample_flight s' \<and>
      fl_lock s' \<noteq> Free"
proof -
  have "flights (sample_env NoReply) ''stock'' ''stock:read'' {0..} sample_client sample_flight"
    by (rule flights.start)
  from single_flight_safe [OF this, of 0] show ?thesis
    by (auto simp: start_flight_def)
qed

theorem one_request_serves_all_witness:
  "fl_requests (sample_flight\<lparr>fl_lock := HeldBy 7, fl_pc := (fl_pc sample_flight)(7 := Holding)\<rparr>) \<le> 1"
proof -
  let ?env = "sample_env (Reply 200 (Some (''tok'', 600)))"
  have "flights ?env ''stock'' ''stock:read'' {0..<240 * second} sample_client
    (sample_flight\<lparr>fl_lock := HeldBy 7, fl_pc := (fl_pc sample_flight)(7 := Holding)\<rparr>)"
    by (rule flights.more [OF flights.start step.acquire]) (simp_all add: start_flight_def)
  from one_request_serves_all [OF this, of "''tok''" TTL] show ?thesis
    by (simp add: iam_up_def sample_issue sample_client_def sample_client_config_def with_defaults_def
        DefaultRenewBefore_def TTL_def)
qed

theorem single_flight_terminates_witness:
  "\<exists>s'. moves 3 (sample_env NoReply) ''stock'' ''stock:read'' {0..} sample_client 1 s'"
proof -
  have "moves 3 (sample_env NoReply) ''stock'' ''stock:read'' {0..} sample_client 0 sample_flight"
    by (rule moves.no_move)
  from single_flight_terminates [OF this, of 0]
  have "(\<exists>i<3. \<forall>r. fl_pc sample_flight i \<noteq> Finished r) \<longrightarrow>
      (\<exists>s'. moves 3 (sample_env NoReply) ''stock'' ''stock:read'' {0..} sample_client 1 s')"
    by auto
  moreover have "\<exists>i<3. \<forall>r. fl_pc sample_flight i \<noteq> Finished r"
    by (rule exI [of _ 0]) (simp add: start_flight_def)
  ultimately show ?thesis by blast
qed

end
