(* ===== verification/Client_Runs.thy ===== *)
theory Client_Runs
  imports S2S_Client
begin

text \<open>
  A client of \<open>infrastructure/s2stoken/client/client.go\<close> under concurrent callers of \<open>Token\<close>, \<open>Refresh\<close>
  and \<open>Invalidate\<close>, for all its pairs of audience and scope, and what the circuit breaker of an audience
  is worth then.

  An operation holds the lock of its entry, so nothing else reads or writes that entry, and it
  uses the breaker of its audience once before the request to iam and once after it, under the mutex of
  the client. So each part is one step, and the parts of different entries interleave freely.
\<close>

section \<open>The two parts of an operation\<close>

text \<open>\<open>Token\<close> and \<open>Refresh\<close> up to the request: a result at once, or the need for a request.\<close>

definition token_start :: "string \<Rightarrow> string list \<Rightarrow> time \<Rightarrow> client \<Rightarrow> obtain_step \<times> client" where
  "token_start aud ss now c =
     (let scope = normalize_scope ss in
      if trim_space aud = [] \<or> scope = [] then (Done (Inl MissingAudOrScope), c)
      else obtain_start aud scope now (client_entry (entry_key aud scope) c))"

datatype refresh_step = Kept | Obtaining obtain_step

definition refresh_start ::
  "string \<Rightarrow> string \<Rightarrow> string list \<Rightarrow> time \<Rightarrow> client \<Rightarrow> refresh_step \<times> client" where
  "refresh_start sent aud ss now c =
     (let scope = normalize_scope ss; key = entry_key aud scope in
      if trim_space aud = [] \<or> scope = [] then (Obtaining (Done (Inl MissingAudOrScope)), c)
      else
      let c = client_entry key c; e = entry_of c key in
      if en_token e \<noteq> [] \<and> en_token e \<noteq> sent \<and> now < en_expires_at e
      then (Obtaining (Done (Inr (en_token e))), c)
      else if en_token e = sent \<and> time_sub now (en_issued_at e) < MinReissueAge then (Kept, c)
      else (case obtain_start aud scope now (put_entry key (e\<lparr>en_renew_at := zero_time\<rparr>) c) of
              (st, c) \<Rightarrow> (Obtaining st, c)))"

text \<open>The operations of \<open>S2S_Client\<close> are these parts, one after the other.\<close>

definition finish ::
  "iam_env \<Rightarrow> bool \<Rightarrow> string \<Rightarrow> string \<Rightarrow> time \<Rightarrow> obtain_step \<times> client \<Rightarrow> (client_error + string) \<times> client \<times> calls" where
  "finish env ctx_done aud scope now p =
     (case p of
        (Done r, c) \<Rightarrow> (r, c, [])
      | (NeedIssue valid, c) \<Rightarrow>
          (case issue_and_store env aud scope now valid c of
             (r, c) \<Rightarrow> (if ctx_done then Inl ContextDone else r, c, [(aud, scope)])))"

lemma token_in_parts:
  "token env ctx_done aud ss now c =
     finish env ctx_done aud (normalize_scope ss) now (token_start aud ss now c)"
  by (simp add: token_def token_start_def obtain_locked_def finish_def Let_def)

lemma refresh_in_parts:
  "refresh env ctx_done sent aud ss now c =
     (case refresh_start sent aud ss now c of
        (Kept, c) \<Rightarrow> (Inr None, c, [])
      | (Obtaining st, c) \<Rightarrow>
          (case finish env ctx_done aud (normalize_scope ss) now (st, c) of
             (Inl err, c, calls) \<Rightarrow> (Inl err, c, calls)
           | (Inr tok, c, calls) \<Rightarrow> (Inr (if tok = sent then None else Some tok), c, calls)))"
  by (auto simp: refresh_def refresh_start_def obtain_locked_def finish_def Let_def
      split: prod.splits obtain_step.splits sum.splits)

section \<open>Runs\<close>

text \<open>The client, the requests under way by the key of their entry (with the pair, the time and whether
  a valid token remains), and all the requests made so far.\<close>

type_synonym flying = "string \<rightharpoonup> string \<times> string \<times> time \<times> bool"

record client_run =
  cr_client :: client
  cr_flying :: flying
  cr_requests :: calls

definition at_once :: "client \<Rightarrow> client_run \<Rightarrow> client_run" where
  "at_once c s = s\<lparr>cr_client := c\<rparr>"

definition take_off :: "string \<Rightarrow> string \<Rightarrow> time \<Rightarrow> bool \<Rightarrow> client \<Rightarrow> client_run \<Rightarrow> client_run" where
  "take_off aud scope now valid c s =
     s\<lparr>cr_client := c, cr_flying := (cr_flying s)(entry_key aud scope \<mapsto> (aud, scope, now, valid)),
       cr_requests := cr_requests s @ [(aud, scope)]\<rparr>"

definition free :: "string \<Rightarrow> string list \<Rightarrow> client_run \<Rightarrow> bool" where
  "free aud ss s \<longleftrightarrow> cr_flying s (entry_key aud (normalize_scope ss)) = None"

inductive client_step :: "iam_env \<Rightarrow> time set \<Rightarrow> client_run \<Rightarrow> client_run \<Rightarrow> bool"
  for env clock
where
  token_done: "free aud ss s \<Longrightarrow> now \<in> clock \<Longrightarrow> token_start aud ss now (cr_client s) = (Done r, c) \<Longrightarrow>
     client_step env clock s (at_once c s)"
| token_asks: "free aud ss s \<Longrightarrow> now \<in> clock \<Longrightarrow> token_start aud ss now (cr_client s) = (NeedIssue valid, c) \<Longrightarrow>
     client_step env clock s (take_off aud (normalize_scope ss) now valid c s)"
| refresh_kept: "free aud ss s \<Longrightarrow> now \<in> clock \<Longrightarrow> refresh_start sent aud ss now (cr_client s) = (Kept, c) \<Longrightarrow>
     client_step env clock s (at_once c s)"
| refresh_done: "free aud ss s \<Longrightarrow> now \<in> clock \<Longrightarrow>
     refresh_start sent aud ss now (cr_client s) = (Obtaining (Done r), c) \<Longrightarrow>
     client_step env clock s (at_once c s)"
| refresh_asks: "free aud ss s \<Longrightarrow> now \<in> clock \<Longrightarrow>
     refresh_start sent aud ss now (cr_client s) = (Obtaining (NeedIssue valid), c) \<Longrightarrow>
     client_step env clock s (take_off aud (normalize_scope ss) now valid c s)"
| lands: "cr_flying s key = Some (aud, scope, now, valid) \<Longrightarrow>
     issue_and_store env aud scope now valid (cr_client s) = (r, c) \<Longrightarrow>
     client_step env clock s (s\<lparr>cr_client := c, cr_flying := (cr_flying s)(key := None)\<rparr>)"
| invalidates: "free aud ss s \<Longrightarrow> client_step env clock s (at_once (invalidate aud ss (cr_client s)) s)"

inductive client_runs :: "iam_env \<Rightarrow> time set \<Rightarrow> client \<Rightarrow> client_run \<Rightarrow> bool"
  for env clock c0
where
  runs_start: "client_runs env clock c0 \<lparr>cr_client = c0, cr_flying = Map.empty, cr_requests = []\<rparr>"
| runs_step: "client_runs env clock c0 s \<Longrightarrow> client_step env clock s s' \<Longrightarrow> client_runs env clock c0 s'"

section \<open>What the first part does to the breaker\<close>

definition may_ask :: "string \<Rightarrow> time \<Rightarrow> client \<Rightarrow> bool" where
  "may_ask aud now c \<longleftrightarrow>
     br_failures (breaker_for c aud) < cc_failure_threshold (cl_cfg c) \<or> br_open_until (breaker_for c aud) \<le> now"

lemma obtain_start_frame:
  assumes "obtain_start aud scope now c = (st, c')"
  shows "breaker_for c' = breaker_for c \<and> cl_cfg c' = cl_cfg c \<and> (\<forall>valid. st = NeedIssue valid \<longrightarrow> may_ask aud now c)"
  using assms by (auto simp: obtain_start_eq allow_eq may_ask_def fun_eq_iff split: if_splits)

lemma may_ask_cong: "breaker_for c' = breaker_for c \<Longrightarrow> cl_cfg c' = cl_cfg c \<Longrightarrow> may_ask aud now c' = may_ask aud now c"
  by (simp add: may_ask_def)

lemma token_start_frame:
  assumes "token_start aud ss now c = (st, c')"
  shows "breaker_for c' = breaker_for c \<and> cl_cfg c' = cl_cfg c \<and> (\<forall>valid. st = NeedIssue valid \<longrightarrow> may_ask aud now c)"
proof -
  let ?c = "client_entry (entry_key aud (normalize_scope ss)) c"
  have "breaker_for ?c = breaker_for c" by (simp add: fun_eq_iff)
  with obtain_start_frame [of aud "normalize_scope ss" now ?c st c'] may_ask_cong [of ?c c aud now] assms
  show ?thesis by (auto simp: token_start_def Let_def split: if_splits)
qed

lemma refresh_start_frame:
  assumes "refresh_start sent aud ss now c = (st, c')"
  shows "breaker_for c' = breaker_for c \<and> cl_cfg c' = cl_cfg c \<and>
    (\<forall>valid. st = Obtaining (NeedIssue valid) \<longrightarrow> may_ask aud now c)"
proof -
  let ?k = "entry_key aud (normalize_scope ss)"
  let ?c = "put_entry ?k ((entry_of (client_entry ?k c) ?k)\<lparr>en_renew_at := zero_time\<rparr>) (client_entry ?k c)"
  have same: "breaker_for ?c = breaker_for c" "breaker_for (client_entry ?k c) = breaker_for c" "cl_cfg ?c = cl_cfg c"
    by (simp_all add: fun_eq_iff)
  obtain st0 c0 where o: "obtain_start aud (normalize_scope ss) now ?c = (st0, c0)" by fastforce
  from obtain_start_frame [OF this] may_ask_cong [OF same(1,3), of aud now] assms o same show ?thesis
    by (auto simp: refresh_start_def Let_def split: if_splits)
qed

lemma invalidate_frame: "breaker_for (invalidate aud ss c) = breaker_for c \<and> cl_cfg (invalidate aud ss c) = cl_cfg c"
  by (simp add: invalidate_def Let_def fun_eq_iff)

lemma lands_frame:
  assumes "iam_down env" "issue_and_store env aud scope now valid c = (r, c')"
  shows "breaker_for c' = breaker_for (record_failure aud now c) \<and> cl_cfg c' = cl_cfg c"
proof -
  obtain reason err where i: "issue env c aud scope now = Inl (reason, err)" "trips_breaker reason"
    using assms(1) unfolding iam_down_def by blast
  have "c' = record_failure aud now (count_error aud reason c)"
    using assms(2) i by (auto simp: issue_and_store_def Let_def split: if_splits)
  then show ?thesis by (auto simp: record_failure_def Let_def fun_eq_iff)
qed

section \<open>The breaker under concurrent callers\<close>

text \<open>How many requests an audience has seen, for which scopes, and the scopes whose request is under way.\<close>

definition asked_for :: "string \<Rightarrow> client_run \<Rightarrow> nat" where
  "asked_for aud s = length (filter (\<lambda>p. fst p = aud) (cr_requests s))"

definition scopes_asked :: "string \<Rightarrow> client_run \<Rightarrow> string set" where
  "scopes_asked aud s = {scope. (aud, scope) \<in> set (cr_requests s)}"

definition airborne :: "string \<Rightarrow> client_run \<Rightarrow> string set" where
  "airborne aud s = {scope. \<exists>now valid. cr_flying s (entry_key aud scope) = Some (aud, scope, now, valid)}"

text \<open>
  The invariant while iam is down and the circuit was closed at first: a request is under way or has been
  counted as a failure; a circuit that opened stays open until \<open>T\<close>; and the counted failures and the
  scopes bound the requests.
\<close>

definition breaker_inv :: "time set \<Rightarrow> int \<Rightarrow> duration \<Rightarrow> time \<Rightarrow> string \<Rightarrow> client_run \<Rightarrow> bool" where
  "breaker_inv clock thr open_for T aud s \<longleftrightarrow>
     (let b = breaker_for (cr_client s) aud in
      cc_failure_threshold (cl_cfg (cr_client s)) = thr \<and> cc_open_for (cl_cfg (cr_client s)) = open_for \<and>
      (\<forall>k a scope now valid. cr_flying s k = Some (a, scope, now, valid) \<longrightarrow>
         k = entry_key a scope \<and> (a, scope) \<in> set (cr_requests s) \<and> now \<in> clock) \<and>
      (int (length (cr_requests s)) < 2 ^ 63 \<longrightarrow>
         0 \<le> br_failures b \<and> int (asked_for aud s) = br_failures b + int (card (airborne aud s))) \<and>
      (thr \<le> br_failures b \<longrightarrow> T \<le> br_open_until b) \<and>
      (int (length (cr_requests s)) < 2 ^ 63 \<longrightarrow>
         int (asked_for aud s) \<le> thr - 1 + int (card (scopes_asked aud s))))"

lemma scopes_asked_finite [simp]: "finite (scopes_asked aud s)"
proof -
  have "scopes_asked aud s \<subseteq> snd ` set (cr_requests s)" by (force simp: scopes_asked_def)
  then show ?thesis by (rule finite_subset) simp
qed

lemma inv_airborne: "breaker_inv clock thr d T aud s \<Longrightarrow> airborne aud s \<subseteq> scopes_asked aud s"
  unfolding breaker_inv_def airborne_def scopes_asked_def Let_def by blast

lemma at_once_simps [simp]:
  "asked_for aud (at_once c s) = asked_for aud s" "airborne aud (at_once c s) = airborne aud s"
  "scopes_asked aud (at_once c s) = scopes_asked aud s" "cr_client (at_once c s) = c"
  "cr_flying (at_once c s) = cr_flying s" "cr_requests (at_once c s) = cr_requests s"
  by (simp_all add: at_once_def asked_for_def airborne_def scopes_asked_def)

lemma key_scope: "entry_key aud scope = entry_key aud scope' \<longleftrightarrow> scope = scope'"
  by (simp add: entry_key_def)

lemma breaker_inv_at_once:
  assumes "breaker_inv clock thr d T aud s" "breaker_for c = breaker_for (cr_client s)" "cl_cfg c = cl_cfg (cr_client s)"
  shows "breaker_inv clock thr d T aud (at_once c s)"
  using assms(1) unfolding breaker_inv_def Let_def at_once_simps assms(2,3) .

lemma breaker_inv_take_off:
  assumes inv: "breaker_inv clock thr d T aud s" and free: "cr_flying s (entry_key a scope) = None"
    and c: "breaker_for c = breaker_for (cr_client s)" "cl_cfg c = cl_cfg (cr_client s)"
    and now: "now \<in> clock" "now < T" and ask: "may_ask a now (cr_client s)"
  shows "breaker_inv clock thr d T aud (take_off a scope now valid c s)" (is "breaker_inv _ _ _ _ _ ?s")
proof -
  let ?b = "breaker_for (cr_client s) aud"
  have old: "cc_failure_threshold (cl_cfg (cr_client s)) = thr" "cc_open_for (cl_cfg (cr_client s)) = d"
    "\<And>k a scope now valid. cr_flying s k = Some (a, scope, now, valid) \<Longrightarrow>
       k = entry_key a scope \<and> (a, scope) \<in> set (cr_requests s) \<and> now \<in> clock"
    "int (length (cr_requests s)) < 2 ^ 63 \<Longrightarrow>
       0 \<le> br_failures ?b \<and> int (asked_for aud s) = br_failures ?b + int (card (airborne aud s))"
    "thr \<le> br_failures ?b \<Longrightarrow> T \<le> br_open_until ?b"
    "int (length (cr_requests s)) < 2 ^ 63 \<Longrightarrow> int (asked_for aud s) \<le> thr - 1 + int (card (scopes_asked aud s))"
    using inv unfolding breaker_inv_def Let_def by blast+
  have fin: "finite (airborne aud s)" using inv_airborne [OF inv] finite_subset scopes_asked_finite by blast
  have air: "airborne aud ?s = (if a = aud then insert scope (airborne aud s) else airborne aud s)"
  proof (cases "a = aud")
    case True
    with free show ?thesis by (auto simp: airborne_def take_off_def key_scope)
  next
    case False
    with free show ?thesis by (auto simp: airborne_def take_off_def)
  qed
  have new: "scope \<notin> airborne aud s" if "a = aud" using free that by (simp add: airborne_def)
  have asked: "asked_for aud ?s = (if a = aud then asked_for aud s + 1 else asked_for aud s)"
    "scopes_asked aud ?s = (if a = aud then insert scope (scopes_asked aud s) else scopes_asked aud s)"
    by (auto simp: asked_for_def scopes_asked_def take_off_def)
  have len: "int (length (cr_requests ?s)) < 2 ^ 63 \<Longrightarrow> int (length (cr_requests s)) < 2 ^ 63"
    by (simp add: take_off_def)
  have count: "int (asked_for aud ?s) = br_failures ?b + int (card (airborne aud ?s))"
    if "int (length (cr_requests ?s)) < 2 ^ 63"
    using old(4) [OF len [OF that]] new fin by (auto simp: asked(1) air)
  have bound: "int (asked_for aud ?s) \<le> thr - 1 + int (card (scopes_asked aud ?s))"
    if l: "int (length (cr_requests ?s)) < 2 ^ 63"
  proof (cases "a = aud")
    case True
    have "br_failures ?b < thr" using ask old(1,5) now(2) True
      by (cases "thr \<le> br_failures ?b") (auto simp: may_ask_def)
    moreover have "card (airborne aud ?s) \<le> card (scopes_asked aud ?s)"
      unfolding air asked(2) using inv_airborne [OF inv] True by (intro card_mono) auto
    ultimately show ?thesis using count [OF l] by simp
  next
    case False
    with old(6) [OF len [OF l]] show ?thesis by (simp add: asked)
  qed
  have fly: "k = entry_key a' scope' \<and> (a', scope') \<in> set (cr_requests ?s) \<and> now' \<in> clock"
    if "cr_flying ?s k = Some (a', scope', now', valid')" for k a' scope' now' valid'
    using that old(3) [of k a' scope' now' valid'] now(1) by (auto simp: take_off_def split: if_splits)
  have client: "cr_client ?s = c" by (simp add: take_off_def)
  show ?thesis
    unfolding breaker_inv_def Let_def client c
    using old(1,2,5) old(4) [OF len] fly count bound by blast
qed

lemma breaker_inv_lands:
  assumes inv: "breaker_inv clock thr d T aud s" and fly: "cr_flying s key = Some (a, scope, now, valid)"
    and c: "breaker_for c = breaker_for (record_failure a now (cr_client s))" "cl_cfg c = cl_cfg (cr_client s)"
    and T: "\<And>t. t \<in> clock \<Longrightarrow> T \<le> t + d"
  shows "breaker_inv clock thr d T aud (s\<lparr>cr_client := c, cr_flying := (cr_flying s)(key := None)\<rparr>)"
    (is "breaker_inv _ _ _ _ _ ?s")
proof -
  let ?b = "breaker_for (cr_client s) aud" and ?b' = "breaker_for c aud"
  have old: "cc_failure_threshold (cl_cfg (cr_client s)) = thr" "cc_open_for (cl_cfg (cr_client s)) = d"
    "\<And>k a scope now valid. cr_flying s k = Some (a, scope, now, valid) \<Longrightarrow>
       k = entry_key a scope \<and> (a, scope) \<in> set (cr_requests s) \<and> now \<in> clock"
    "int (length (cr_requests s)) < 2 ^ 63 \<Longrightarrow>
       0 \<le> br_failures ?b \<and> int (asked_for aud s) = br_failures ?b + int (card (airborne aud s))"
    "thr \<le> br_failures ?b \<Longrightarrow> T \<le> br_open_until ?b"
    "int (length (cr_requests s)) < 2 ^ 63 \<Longrightarrow> int (asked_for aud s) \<le> thr - 1 + int (card (scopes_asked aud s))"
    using inv unfolding breaker_inv_def Let_def by blast+
  have key: "key = entry_key a scope" "now \<in> clock" using old(3) [OF fly] by simp_all
  have fin: "finite (airborne aud s)" using inv_airborne [OF inv] finite_subset scopes_asked_finite by blast
  have same: "asked_for aud ?s = asked_for aud s" "scopes_asked aud ?s = scopes_asked aud s"
    "cr_requests ?s = cr_requests s" "cr_client ?s = c"
    by (simp_all add: asked_for_def scopes_asked_def)
  have air: "airborne aud ?s = (if a = aud then airborne aud s - {scope} else airborne aud s)"
  proof (cases "a = aud")
    case True
    then show ?thesis by (auto simp: airborne_def key(1) key_scope)
  next
    case False
    have "cr_flying s (entry_key aud sc) = Some (aud, sc, n, v) \<Longrightarrow> entry_key aud sc \<noteq> key" for sc n v
      using fly False by auto
    with False show ?thesis by (auto simp: airborne_def)
  qed
  have there: "scope \<in> airborne aud s" if "a = aud" using fly that by (auto simp: airborne_def key(1))
  have count: "0 \<le> br_failures ?b' \<and> int (asked_for aud ?s) = br_failures ?b' + int (card (airborne aud ?s))"
    if l: "int (length (cr_requests ?s)) < 2 ^ 63"
  proof (cases "a = aud")
    case True
    note o = old(4) [OF l [unfolded same(3)]]
    have c1: "card (airborne aud s) = card (airborne aud ?s) + 1"
      using card_Suc_Diff1 [OF fin there [OF True]] by (simp add: air True)
    have "asked_for aud s \<le> length (cr_requests s)" by (simp add: asked_for_def)
    with o c1 l have "br_failures ?b + 1 < 2 ^ 63" by (simp add: same(3))
    with o have "wrap64 (br_failures ?b + 1) = br_failures ?b + 1" by (intro wrap64_id) (simp add: int64_range_def)
    then have "br_failures ?b' = br_failures ?b + 1" by (simp add: c(1) record_failure_def Let_def True)
    with o c1 show ?thesis by (simp add: same(1))
  next
    case False
    then have "?b' = ?b" by (simp add: c(1))
    with old(4) [OF l [unfolded same(3)]] False show ?thesis by (simp add: same(1) air)
  qed
  have opened: "T \<le> br_open_until ?b'" if "thr \<le> br_failures ?b'"
  proof (cases "a = aud")
    case True
    with that T [OF key(2)] old(1,2) show ?thesis
      by (auto simp: c(1) record_failure_def Let_def split: if_splits)
  next
    case False
    then have "?b' = ?b" by (simp add: c(1))
    with old(5) that show ?thesis by simp
  qed
  have fly': "k = entry_key a' scope' \<and> (a', scope') \<in> set (cr_requests ?s) \<and> now' \<in> clock"
    if "cr_flying ?s k = Some (a', scope', now', valid')" for k a' scope' now' valid'
    using that old(3) [of k a' scope' now' valid'] by (auto split: if_splits)
  have bound: "int (asked_for aud ?s) \<le> thr - 1 + int (card (scopes_asked aud ?s))"
    if "int (length (cr_requests ?s)) < 2 ^ 63"
    using old(6) that by (simp add: same)
  show ?thesis
    unfolding breaker_inv_def Let_def same(4) c(2)
    using old(1,2) fly' count opened bound by blast
qed

lemma breaker_inv_step:
  assumes "client_step env clock s s'" "iam_down env" "breaker_inv clock thr d T aud s"
    and "\<And>t. t \<in> clock \<Longrightarrow> t < T \<and> T \<le> t + d"
  shows "breaker_inv clock thr d T aud s'"
  using assms(1)
proof cases
  case (token_done aud' ss now r c)
  with token_start_frame breaker_inv_at_once [OF assms(3)] show ?thesis by metis
next
  case (token_asks aud' ss now valid c)
  note f = token_start_frame [OF token_asks(4)]
  show ?thesis
    unfolding token_asks(1)
    by (rule breaker_inv_take_off [OF assms(3)]) (use token_asks f assms(4) in \<open>auto simp: free_def\<close>)
next
  case (refresh_kept aud' ss now sent c)
  with refresh_start_frame breaker_inv_at_once [OF assms(3)] show ?thesis by metis
next
  case (refresh_done aud' ss now sent r c)
  with refresh_start_frame breaker_inv_at_once [OF assms(3)] show ?thesis by metis
next
  case (refresh_asks aud' ss now sent valid c)
  note f = refresh_start_frame [OF refresh_asks(4)]
  show ?thesis
    unfolding refresh_asks(1)
    by (rule breaker_inv_take_off [OF assms(3)]) (use refresh_asks f assms(4) in \<open>auto simp: free_def\<close>)
next
  case (lands key aud' scope now valid r c)
  note f = lands_frame [OF assms(2) lands(3)]
  show ?thesis
    unfolding lands(1)
    by (rule breaker_inv_lands [OF assms(3) lands(2)]) (use f assms(4) in auto)
next
  case (invalidates aud' ss)
  with invalidate_frame breaker_inv_at_once [OF assms(3)] show ?thesis by metis
qed

lemma breaker_inv_start:
  assumes "breaker_for c0 aud = new_breaker" "0 < cc_failure_threshold (cl_cfg c0)"
  shows "breaker_inv clock (cc_failure_threshold (cl_cfg c0)) (cc_open_for (cl_cfg c0)) T aud
    \<lparr>cr_client = c0, cr_flying = Map.empty, cr_requests = []\<rparr>"
  using assms by (simp add: breaker_inv_def asked_for_def airborne_def scopes_asked_def new_breaker_def Let_def)

text \<open>C28: While iam is down, the circuit breaker bounds what a client asks of it, under any interleaving of
  concurrent \<open>Token\<close>, \<open>Refresh\<close> and \<open>Invalidate\<close> calls for all audiences and scopes. Within one \<open>OpenFor\<close>,
  from a client with no request under way and a closed circuit for an audience, the requests for it are
  at most \<open>FailureThreshold - 1\<close> and one for each of the scopes asked for: one scope alone makes at most
  \<open>FailureThreshold\<close> requests, and each further scope, whose entry has a lock of its own, may have
  one request under way when the circuit opens.\<close>

theorem breaker_bounds_requests:
  assumes "client_runs env clock c0 s" "iam_down env" "breaker_for c0 aud = new_breaker"
    and "0 < cc_failure_threshold (cl_cfg c0)"
    and "\<And>t. t \<in> clock \<Longrightarrow> start \<le> t \<and> t < start + cc_open_for (cl_cfg c0)"
    and "int (length (cr_requests s)) < 2 ^ 63"
  shows "int (length (filter (\<lambda>p. fst p = aud) (cr_requests s)))
    \<le> cc_failure_threshold (cl_cfg c0) - 1 + int (card {scope. (aud, scope) \<in> set (cr_requests s)})"
proof -
  let ?T = "start + cc_open_for (cl_cfg c0)"
  have "breaker_inv clock (cc_failure_threshold (cl_cfg c0)) (cc_open_for (cl_cfg c0)) ?T aud s"
    using assms(1)
  proof induction
    case runs_start
    show ?case by (rule breaker_inv_start [OF assms(3,4)])
  next
    case (runs_step s s')
    show ?case
      by (rule breaker_inv_step [OF runs_step.hyps(2) assms(2) runs_step.IH]) (use assms(5) in force)
  qed
  with assms(6) show ?thesis
    by (simp add: breaker_inv_def asked_for_def scopes_asked_def Let_def)
qed

text \<open>The bound is attained: with a threshold of one failure, two callers with two scopes both ask.\<close>

definition narrow_client :: client where
  "narrow_client = sample_client\<lparr>cl_cfg := (cl_cfg sample_client)\<lparr>cc_failure_threshold := 1\<rparr>\<rparr>"

lemma narrow_simps [simp]:
  "entry_of narrow_client k = new_entry" "breaker_for narrow_client a = new_breaker"
  "cc_failure_threshold (cl_cfg narrow_client) = 1" "cc_open_for (cl_cfg narrow_client) = 30 * second"
  using sample_client_empty(1,2,4)
  by (simp_all add: narrow_client_def entry_of_def breaker_for_def)

lemma first_asks:
  assumes "entry_of c (entry_key aud (normalize_scope ss)) = new_entry" "breaker_for c aud = new_breaker"
    and "0 < cc_failure_threshold (cl_cfg c)" "trim_space aud \<noteq> []" "normalize_scope ss \<noteq> []"
  shows "token_start aud ss now c =
    (NeedIssue False, put_breaker aud new_breaker (client_entry (entry_key aud (normalize_scope ss)) c))"
proof -
  have "en_token new_entry = []" "en_last_err new_entry = None" by (simp_all add: new_entry_def)
  moreover have "br_failures new_breaker = 0" by (simp add: new_breaker_def)
  ultimately show ?thesis using assms by (simp add: token_start_def obtain_start_eq allow_eq Let_def)
qed

lemma two_scopes: "normalize_scope [''a''] = ''a''" "normalize_scope [''b''] = ''b''"
  by (simp_all add: normalize_scope_def go_lib)

theorem breaker_bounds_requests_witness:
  "\<exists>s. client_runs (sample_env NoReply) {sample_now} narrow_client s \<and>
     cr_requests s = [(''stock'', ''a''), (''stock'', ''b'')] \<and>
     int (length (filter (\<lambda>p. fst p = ''stock'') (cr_requests s))) \<le>
       1 - 1 + int (card {scope. (''stock'', scope) \<in> set (cr_requests s)})"
proof -
  let ?env = "sample_env NoReply" and ?s0 = "\<lparr>cr_client = narrow_client, cr_flying = Map.empty, cr_requests = []\<rparr>"
  let ?c1 = "put_breaker ''stock'' new_breaker (client_entry (entry_key ''stock'' ''a'') narrow_client)"
  let ?s1 = "take_off ''stock'' ''a'' sample_now False ?c1 ?s0"
  let ?c2 = "put_breaker ''stock'' new_breaker (client_entry (entry_key ''stock'' ''b'') ?c1)"
  let ?s2 = "take_off ''stock'' ''b'' sample_now False ?c2 ?s1"
  have down: "iam_down ?env" by (auto simp: iam_down_def sample_issue trips_breaker_def)
  have "client_step ?env {sample_now} ?s0 ?s1"
    using token_asks [of "''stock''" "[''a'']" ?s0 sample_now "{sample_now}" False ?c1]
      first_asks [of narrow_client "''stock''" "[''a'']" sample_now] sample_aud
    by (simp add: free_def two_scopes)
  with runs_start have run1: "client_runs ?env {sample_now} narrow_client ?s1" by (rule runs_step)
  have "entry_key ''stock'' ''b'' \<noteq> entry_key ''stock'' ''a''" by (simp add: key_scope)
  then have "client_step ?env {sample_now} ?s1 ?s2"
    using token_asks [of "''stock''" "[''b'']" ?s1 sample_now "{sample_now}" False ?c2]
      first_asks [of ?c1 "''stock''" "[''b'']" sample_now] sample_aud
    by (simp add: free_def two_scopes take_off_def)
  with run1 have run: "client_runs ?env {sample_now} narrow_client ?s2" by (rule runs_step)
  have reqs: "cr_requests ?s2 = [(''stock'', ''a''), (''stock'', ''b'')]" by (simp add: take_off_def)
  have clock: "sample_now \<le> t \<and> t < sample_now + cc_open_for (cl_cfg narrow_client)" if "t \<in> {sample_now}" for t
    using that by (simp add: second_def)
  have "int (length (cr_requests ?s2)) < 2 ^ 63" by (simp add: reqs)
  with breaker_bounds_requests [OF run down _ _ clock, of "''stock''"] have
    "int (length (filter (\<lambda>p. fst p = ''stock'') (cr_requests ?s2)))
      \<le> 1 - 1 + int (card {scope. (''stock'', scope) \<in> set (cr_requests ?s2)})" by simp
  with run reqs show ?thesis by blast
qed

end
