(* ===== verification/Float64.thy ===== *)
theory Float64
  imports Prelude
begin

text \<open>
  The \<open>float64\<close> arithmetic that the code uses: IEEE 754 binary64 with rounding to the nearest,
  ties to even. A finite number is a rational, \<open>None\<close> is any infinity or NaN; multiplying by such a
  value, and converting it, gives such a value again.
\<close>

type_synonym f64 = "rat option"

text \<open>\<open>2 ^ e\<close> for an integer \<open>e\<close>.\<close>

definition pow2 :: "int \<Rightarrow> rat" where
  "pow2 e = (if 0 \<le> e then 2 ^ nat e else 1 / 2 ^ nat (- e))"

text \<open>The exponent of a positive rational: \<open>pow2 e \<le> q < pow2 (e + 1)\<close>.\<close>

definition exponent :: "rat \<Rightarrow> int" where
  "exponent q =
     (let (n, d) = quotient_of q; e = int (bit_len (nat n)) - int (bit_len (nat d))
      in if pow2 e \<le> q then e else e - 1)"

definition round_half_even :: "rat \<Rightarrow> int" where
  "round_half_even q =
     (let f = \<lfloor>q\<rfloor>; r = q - of_int f
      in if r < 1 / 2 \<or> (r = 1 / 2 \<and> even f) then f else f + 1)"

definition f64_round :: "rat \<Rightarrow> f64" where
  "f64_round q =
     (if q = 0 then Some 0
      else let u = pow2 (max (exponent \<bar>q\<bar>) (- 1022) - 52);
               r = sgn q * of_int (round_half_even (\<bar>q\<bar> / u)) * u
           in if \<bar>r\<bar> < 2 ^ 1024 then Some r else None)"

definition f64_mult :: "f64 \<Rightarrow> f64 \<Rightarrow> f64" where
  "f64_mult a b = (case (a, b) of (Some x, Some y) \<Rightarrow> f64_round (x * y) | _ \<Rightarrow> None)"

definition f64_add :: "f64 \<Rightarrow> f64 \<Rightarrow> f64" where
  "f64_add a b = (case (a, b) of (Some x, Some y) \<Rightarrow> f64_round (x + y) | _ \<Rightarrow> None)"

text \<open>Division by a number that is not zero.\<close>

definition f64_div :: "f64 \<Rightarrow> f64 \<Rightarrow> f64" where
  "f64_div a b = (case (a, b) of (Some x, Some y) \<Rightarrow> f64_round (x / y) | _ \<Rightarrow> None)"

definition f64_of_int :: "int \<Rightarrow> f64" where
  "f64_of_int n = f64_round (of_int n)"

text \<open>\<open>int64(f)\<close>, and \<open>int(math.Ceil(f))\<close>.\<close>

definition int64_of_f64 :: "f64 \<Rightarrow> int" where
  "int64_of_f64 a = (case a of None \<Rightarrow> - (2 ^ 63) | Some q \<Rightarrow> f64_to_int64 q)"

definition ceil_int :: "f64 \<Rightarrow> int" where
  "ceil_int a = (case a of None \<Rightarrow> - (2 ^ 63) | Some q \<Rightarrow> f64_to_int64 (of_int \<lceil>q\<rceil>))"

text \<open>\<open>Duration.Seconds\<close>.\<close>

definition go_mod :: "int \<Rightarrow> int \<Rightarrow> int" where
  "go_mod a b = a - b * go_div a b"

definition duration_seconds :: "duration \<Rightarrow> f64" where
  "duration_seconds d =
     f64_add (f64_of_int (go_div d second)) (f64_div (f64_of_int (go_mod d second)) (Some 1000000000))"

section \<open>Small integers are exact\<close>

lemma pow2_pos [simp]: "0 < pow2 e" by (simp add: pow2_def)

lemma pow2_nonneg: "0 \<le> e \<Longrightarrow> pow2 e = 2 ^ nat e" by (simp add: pow2_def)

lemma round_half_even_int [simp]: "round_half_even (of_int n) = n"
  by (simp add: round_half_even_def)

lemma bit_len_1 [simp]: "bit_len (Suc 0) = 1" by (simp add: bit_len.simps)

lemma exponent_of_nat:
  assumes "0 < n"
  shows "exponent (of_nat n) = int (bit_len n) - 1"
proof -
  have pos: "0 < bit_len n" using assms by (subst bit_len.simps) simp
  have "2 ^ (bit_len n - 1) \<le> n"
    using bit_len_ge [of "bit_len n - 1" n] pos by simp
  then have "(2::rat) ^ (bit_len n - 1) \<le> of_nat n"
    by (metis of_nat_le_iff of_nat_numeral of_nat_power)
  moreover have "nat (int (bit_len n) - 1) = bit_len n - 1" by simp
  ultimately show ?thesis
    using pos quotient_of_int [of "int n"] by (simp add: exponent_def pow2_nonneg)
qed

lemma f64_round_nat:
  assumes "n < 2 ^ 53"
  shows "f64_round (of_nat n) = Some (of_nat n)"
proof (cases "n = 0")
  case False
  have len: "bit_len n \<le> 53"
    using bit_len_ge [of 53 n] assms by simp
  have pos: "0 < bit_len n" using False by (subst bit_len.simps) simp
  let ?k = "53 - bit_len n"
  have u: "pow2 (max (exponent (of_nat n)) (- 1022) - 52) = 1 / 2 ^ ?k"
  proof (cases "?k = 0")
    case True
    then have "bit_len n = 53" using len by simp
    then show ?thesis using False by (simp add: exponent_of_nat pow2_def)
  next
    case False
    have "max (int (bit_len n) - 1) (- 1022) - 52 = - int ?k" using len pos by simp
    then show ?thesis
      using False \<open>n \<noteq> 0\<close> by (simp add: exponent_of_nat pow2_def)
  qed
  have "(of_nat n :: rat) / (1 / 2 ^ ?k) = of_int (int n * 2 ^ ?k)" by simp
  then have m: "round_half_even (of_nat n / (1 / 2 ^ ?k)) = int n * 2 ^ ?k"
    by (metis round_half_even_int)
  have "(of_nat n :: rat) < 2 ^ 53" using assms by (metis of_nat_less_iff of_nat_numeral of_nat_power)
  then have "(of_nat n :: rat) < 2 ^ 1024"
    by (rule less_le_trans) (rule power_increasing, simp_all)
  then show ?thesis
    using False m by (simp add: f64_round_def Let_def u sgn_if del: power_numeral)
qed (simp add: f64_round_def)

lemma f64_of_int_small: "0 \<le> n \<Longrightarrow> n < 2 ^ 53 \<Longrightarrow> f64_of_int n = Some (of_int n)"
  using f64_round_nat [of "nat n"] by (simp add: f64_of_int_def)

lemma f64_mult_small:
  "0 \<le> a \<Longrightarrow> 0 \<le> b \<Longrightarrow> a * b < 2 ^ 53 \<Longrightarrow>
   f64_mult (Some (of_int a)) (Some (of_int b)) = Some (of_int (a * b))"
  using f64_round_nat [of "nat (a * b)"] by (simp add: f64_mult_def)

end
