(* ===== verification/Event_Metrics.thy ===== *)
theory Event_Metrics
  imports Float64
begin

text \<open>
  Metric events: the port \<open>domain/port/metrics_recorder.go\<close> and the event bus's recorder over it,
  \<open>eventbus/metrics/recorder.go\<close>, with its own decimal conversion.

  A recorder is the list of the events it was given; a nil recorder drops them.
\<close>

datatype metric_kind = MetricKindCounter | MetricKindGauge | MetricKindHistogram

datatype metric_unit =
    MetricUnitNone | MetricUnitMilliseconds | MetricUnitSeconds | MetricUnitBytes
  | MetricUnitRequests | MetricUnitItems

record metric_event =
  mt_name :: string
  mt_kind :: metric_kind
  mt_unit :: metric_unit
  mt_labels :: "string \<rightharpoonup> string"
  mt_value :: f64

text \<open>\<open>strconvItoa\<close>: the loop prepends digits while \<open>n > 0\<close>; negating the least \<open>int\<close> wraps.\<close>

function itoa_loop :: "int \<Rightarrow> string \<Rightarrow> string" where
  "itoa_loop n digits =
     (if n > 0 then itoa_loop (n div 10) (char_of (nat (48 + n mod 10)) # digits) else digits)"
  by pat_completeness auto
termination
  by (relation "measure (\<lambda>(n, digits). nat n)") auto

declare itoa_loop.simps [simp del]

definition strconv_itoa :: "int \<Rightarrow> string" where
  "strconv_itoa n =
     (if n = 0 then ''0''
      else if n < 0 then ''-'' @ itoa_loop (wrap64 (- n)) []
      else itoa_loop n [])"

definition metric_labels :: "string \<Rightarrow> string \<Rightarrow> string \<rightharpoonup> string" where
  "metric_labels channel event_type = [''channel'' \<mapsto> channel, ''event_type'' \<mapsto> event_type]"

definition counter_event :: "string \<Rightarrow> (string \<rightharpoonup> string) \<Rightarrow> metric_event" where
  "counter_event name l =
     \<lparr>mt_name = name, mt_kind = MetricKindCounter, mt_unit = MetricUnitNone, mt_labels = l,
      mt_value = Some 1\<rparr>"

definition published :: "string \<Rightarrow> string \<Rightarrow> metric_event" where
  "published channel event_type =
     counter_event ''eventbus.published'' (metric_labels channel event_type)"

definition consumed :: "string \<Rightarrow> string \<Rightarrow> metric_event" where
  "consumed channel event_type =
     counter_event ''eventbus.consumed'' (metric_labels channel event_type)"

definition failed :: "string \<Rightarrow> string \<Rightarrow> string \<Rightarrow> metric_event" where
  "failed channel event_type reason =
     counter_event ''eventbus.failed'' ((metric_labels channel event_type)(''reason'' \<mapsto> reason))"

definition retried :: "string \<Rightarrow> string \<Rightarrow> int \<Rightarrow> metric_event" where
  "retried channel event_type attempt =
     counter_event ''eventbus.retried''
       ((metric_labels channel event_type)(''attempt'' \<mapsto> strconv_itoa attempt))"

definition dead_lettered :: "string \<Rightarrow> string \<Rightarrow> metric_event" where
  "dead_lettered channel event_type =
     counter_event ''eventbus.dlq'' (metric_labels channel event_type)"

definition dlq_size :: "string \<Rightarrow> string \<Rightarrow> f64 \<Rightarrow> metric_event" where
  "dlq_size channel event_type n =
     \<lparr>mt_name = ''eventbus.dlq_size'', mt_kind = MetricKindGauge, mt_unit = MetricUnitNone,
      mt_labels = metric_labels channel event_type, mt_value = n\<rparr>"

definition publish_time :: "string \<Rightarrow> string \<Rightarrow> f64 \<Rightarrow> metric_event" where
  "publish_time channel event_type ms =
     \<lparr>mt_name = ''eventbus.publish_time'', mt_kind = MetricKindHistogram,
      mt_unit = MetricUnitMilliseconds, mt_labels = metric_labels channel event_type, mt_value = ms\<rparr>"

definition consume_time :: "string \<Rightarrow> string \<Rightarrow> f64 \<Rightarrow> metric_event" where
  "consume_time channel event_type ms =
     \<lparr>mt_name = ''eventbus.consume_time'', mt_kind = MetricKindHistogram,
      mt_unit = MetricUnitMilliseconds, mt_labels = metric_labels channel event_type, mt_value = ms\<rparr>"

text \<open>\<open>NewEventBusRecorder\<close>: whether there is a recorder to give events to.\<close>

definition record_metrics :: "bool \<Rightarrow> metric_event list \<Rightarrow> metric_event list" where
  "record_metrics present es = (if present then es else [])"

section \<open>The decimal conversion\<close>

fun read_digits :: "int \<Rightarrow> string \<Rightarrow> int" where
  "read_digits acc [] = acc"
| "read_digits acc (c # cs) = read_digits (10 * acc + (int (byte c) - 48)) cs"

definition read_int :: "string \<Rightarrow> int" where
  "read_int s = (case s of c # cs \<Rightarrow> if c = CHR ''-'' then - read_digits 0 cs else read_digits 0 s | [] \<Rightarrow> 0)"

lemma read_digits_append: "read_digits acc (xs @ ys) = read_digits (read_digits acc xs) ys"
  by (induction xs arbitrary: acc) auto

lemma byte_digit [simp]: "0 \<le> d \<Longrightarrow> d < 10 \<Longrightarrow> int (byte (char_of (nat (48 + d)))) = 48 + d"
  by (simp add: byte_def of_char_of nat_less_iff flip: of_nat_mod)

lemma itoa_loop_acc: "itoa_loop n digits = itoa_loop n [] @ digits"
proof (induction "nat n" arbitrary: n digits rule: less_induct)
  case less
  show ?case
  proof (cases "n > 0")
    case True
    have IH: "itoa_loop (n div 10) ds = itoa_loop (n div 10) [] @ ds" for ds
      using True by (intro less) auto
    let ?d = "char_of (nat (48 + n mod 10)) :: char"
    have "itoa_loop n digits = itoa_loop (n div 10) (?d # digits)"
      "itoa_loop n [] = itoa_loop (n div 10) [?d]"
      using True by (simp_all add: itoa_loop.simps [of n])
    then show ?thesis using IH [of "?d # digits"] IH [of "[?d]"] by simp
  qed (simp add: itoa_loop.simps)
qed

lemma itoa_loop_unfold: "n > 0 \<Longrightarrow> itoa_loop n [] = itoa_loop (n div 10) [] @ [char_of (nat (48 + n mod 10))]"
  by (subst itoa_loop.simps) (simp add: itoa_loop_acc [of _ "[_]"])

lemma read_itoa_loop: "0 \<le> n \<Longrightarrow> read_digits 0 (itoa_loop n []) = n"
proof (induction "nat n" arbitrary: n rule: less_induct)
  case less
  show ?case
  proof (cases "n > 0")
    case True
    then have "read_digits 0 (itoa_loop (n div 10) []) = n div 10"
      by (intro less) auto
    then show ?thesis using True by (simp add: itoa_loop_unfold read_digits_append)
  qed (use less in \<open>simp add: itoa_loop.simps\<close>)
qed

lemma itoa_loop_digits: "c \<in> set (itoa_loop n []) \<Longrightarrow> 48 \<le> byte c \<and> byte c \<le> 57"
proof (induction "nat n" arbitrary: n rule: less_induct)
  case less
  show ?case
  proof (cases "n > 0")
    case True
    have d: "int (byte (char_of (nat (48 + n mod 10)) :: char)) = 48 + n mod 10" by simp
    have "0 \<le> n mod 10" "n mod 10 < 10" by simp_all
    then have "48 \<le> byte (char_of (nat (48 + n mod 10)) :: char)"
      "byte (char_of (nat (48 + n mod 10)) :: char) \<le> 57" using d by linarith+
    moreover have "c \<in> set (itoa_loop (n div 10) []) \<Longrightarrow> 48 \<le> byte c \<and> byte c \<le> 57"
      using True by (intro less) auto
    ultimately show ?thesis using less(2) True by (auto simp: itoa_loop_unfold)
  qed (use less in \<open>simp add: itoa_loop.simps\<close>)
qed

lemma strconv_itoa_min: "strconv_itoa (- (2 ^ 63)) = ''-''"
  by (simp add: strconv_itoa_def wrap64_def itoa_loop.simps)

text \<open>The event bus's own decimal conversion can be read back for every \<open>int\<close> but the least one,
  for which negation wraps and the result is a lone minus sign.\<close>

theorem strconv_itoa_roundtrip:
  assumes "int64_range n"
  shows "(if n = - (2 ^ 63) then strconv_itoa n = ''-'' else read_int (strconv_itoa n) = n)"
proof (cases "n = - (2 ^ 63)")
  case False
  show ?thesis
  proof (cases "n > 0")
    case True
    then obtain c cs where loop: "itoa_loop n [] = c # cs"
      by (cases "itoa_loop n []") (simp_all add: itoa_loop_unfold)
    then have "c \<noteq> CHR ''-''" using itoa_loop_digits [of c n] by (auto simp: byte_def)
    then show ?thesis
      using True loop read_itoa_loop [of n] by (simp add: strconv_itoa_def read_int_def)
  next
    case nonpos: False
    then have "wrap64 (- n) = - n"
      using assms False by (intro wrap64_id) (auto simp: int64_range_def)
    then show ?thesis
      using nonpos False read_itoa_loop [of "- n"]
      by (auto simp: strconv_itoa_def read_int_def byte_def)
  qed
qed (use strconv_itoa_min in simp)

theorem strconv_itoa_roundtrip_witness:
  "read_int (strconv_itoa (- 42)) = - 42 \<and> strconv_itoa (- (2 ^ 63)) = ''-''"
  using strconv_itoa_roundtrip [of "- 42"] strconv_itoa_roundtrip [of "- (2 ^ 63)"]
  by (simp add: int64_range_def)

end
