(* ===== verification/Event.thy ===== *)
theory Event
  imports Float64 Encoding
begin

text \<open>
  \<open>eventbus/domain\<close>: the event envelope (\<open>event.go\<close>), generated identifiers (\<open>id.go\<close>), and the
  retry policy with its jittered exponential backoff (\<open>retry.go\<close>, \<open>rand.go\<close>).

  A pointer to an event is an option where the code can be given nil; elsewhere it is the
  event's value, and an operation that writes through it returns the updated event. Random
  bytes and the random source of the jitter are parameters.
\<close>

unbundle bit_operations_syntax

section \<open>The event\<close>

record domain_event =
  ev_id :: string
  ev_type :: string
  ev_version :: string
  ev_namespace :: string
  ev_tenant_id :: string
  ev_user_id :: string
  ev_correlation_id :: string
  ev_traceparent :: string
  ev_channel :: string
  ev_priority :: int
  ev_payload :: string
  ev_occurred_at :: time
  ev_delayed_until :: "time option"
  ev_attempt :: int
  ev_max_attempts :: int
  ev_dlq_at :: "time option"
  ev_error :: string

definition empty_event :: domain_event where
  "empty_event =
     \<lparr> ev_id = [], ev_type = [], ev_version = [], ev_namespace = [], ev_tenant_id = [],
       ev_user_id = [], ev_correlation_id = [], ev_traceparent = [], ev_channel = [],
       ev_priority = 0, ev_payload = [], ev_occurred_at = zero_time, ev_delayed_until = None,
       ev_attempt = 0, ev_max_attempts = 0, ev_dlq_at = None, ev_error = [] \<rparr>"

text \<open>\<open>marshal\<close> is \<open>json.Marshal\<close>, \<open>uuid\<close> the fresh identifier of \<open>uuid.New().String()\<close>.\<close>

definition new_event ::
  "('p \<Rightarrow> string option) \<Rightarrow> string \<Rightarrow> time \<Rightarrow> string \<Rightarrow> string \<Rightarrow> string \<Rightarrow> string \<Rightarrow> 'p \<Rightarrow>
   domain_event option" where
  "new_event marshal uuid now event_type namespace tenant_id user_id payload =
     (case marshal payload of
        None \<Rightarrow> None
      | Some raw \<Rightarrow>
          Some (empty_event\<lparr> ev_id := uuid, ev_type := event_type, ev_version := ''1'',
            ev_namespace := namespace, ev_tenant_id := tenant_id, ev_user_id := user_id,
            ev_payload := raw, ev_occurred_at := now, ev_attempt := 0 \<rparr>))"

definition raw_payload :: "domain_event \<Rightarrow> string" where
  "raw_payload e = ev_payload e"

definition unmarshal_payload :: "(string \<Rightarrow> 'p option) \<Rightarrow> domain_event \<Rightarrow> 'p option" where
  "unmarshal_payload unmarshal e = unmarshal (ev_payload e)"

text \<open>A copy of an event shares nothing that the model can change: nil stays nil.\<close>

definition clone :: "domain_event option \<Rightarrow> domain_event option" where
  "clone p =
     (case p of
        None \<Rightarrow> None
      | Some e \<Rightarrow>
          (let cp = e;
               cp = (case ev_delayed_until e of None \<Rightarrow> cp | Some t \<Rightarrow> cp\<lparr>ev_delayed_until := Some t\<rparr>);
               cp = (case ev_dlq_at e of None \<Rightarrow> cp | Some t \<Rightarrow> cp\<lparr>ev_dlq_at := Some t\<rparr>)
           in Some cp))"

definition event_key :: "domain_event \<Rightarrow> string" where
  "event_key e =
     (if ev_namespace e = [] then ev_type e
      else let tenant = (if ev_tenant_id e = [] then ''_'' else ev_tenant_id e)
           in if ev_version e = [] then ev_namespace e @ ''.'' @ tenant @ ''.'' @ ev_type e
              else ev_namespace e @ ''.'' @ tenant @ ''.'' @ ev_type e @ ''.'' @ ev_version e)"

lemma clone_id [simp]: "clone p = p"
  by (auto simp: clone_def Let_def split: option.splits)

section \<open>Generated identifiers\<close>

text \<open>\<open>primary\<close> are the 16 bytes of \<open>rand.Read\<close>, \<open>None\<close> if it fails; \<open>fallback\<close> the bytes of the
  seeded source.\<close>

definition binary_read :: "nat list option \<Rightarrow> (nat \<Rightarrow> nat) \<Rightarrow> nat list" where
  "binary_read primary fallback =
     (case primary of None \<Rightarrow> map (\<lambda>i. fallback i mod 256) [0..<16] | Some b \<Rightarrow> b)"

definition hex_bytes :: "nat list \<Rightarrow> string" where
  "hex_bytes b = hex_encode (map char_of b)"

definition generate_id :: "nat list option \<Rightarrow> (nat \<Rightarrow> nat) \<Rightarrow> string" where
  "generate_id primary fallback =
     (let b = binary_read primary fallback;
          b = b[6 := (b ! 6 AND 15) OR 64];
          b = b[8 := (b ! 8 AND 63) OR 128]
      in hex_bytes (take 4 b) @ ''-'' @ hex_bytes (take 2 (drop 4 b)) @ ''-''
         @ hex_bytes (take 2 (drop 6 b)) @ ''-'' @ hex_bytes (take 2 (drop 8 b)) @ ''-''
         @ hex_bytes (drop 10 b))"

section \<open>The retry policy\<close>

record retry_policy =
  rp_max_attempts :: int
  rp_initial_delay :: duration
  rp_max_delay :: duration
  rp_backoff_factor :: f64

definition default_retry_policy :: retry_policy where
  "default_retry_policy =
     \<lparr> rp_max_attempts = 5, rp_initial_delay = second, rp_max_delay = 5 * minute,
       rp_backoff_factor = Some 2 \<rparr>"

fun pow_loop :: "f64 \<Rightarrow> nat \<Rightarrow> f64 \<Rightarrow> f64" where
  "pow_loop base 0 result = result"
| "pow_loop base (Suc n) result = pow_loop base n (f64_mult result base)"

definition go_pow :: "f64 \<Rightarrow> f64 \<Rightarrow> f64" where
  "go_pow base e = pow_loop base (nat (int64_of_f64 e)) (Some 1)"

text \<open>\<open>randInt63n\<close> panics on a bound that is not positive.\<close>

definition rand_int63n :: "(int \<Rightarrow> int) \<Rightarrow> int \<Rightarrow> int outcome" where
  "rand_int63n rnd n = (if n \<le> 0 then Panics else Returns (rnd n))"

definition clamp_attempt :: "retry_policy \<Rightarrow> int \<Rightarrow> int" where
  "clamp_attempt p attempt =
     (let attempt = (if attempt < 1 then 1 else attempt)
      in if attempt > rp_max_attempts p then rp_max_attempts p else attempt)"

definition backoff_factor :: "retry_policy \<Rightarrow> int \<Rightarrow> duration" where
  "backoff_factor p attempt =
     (let factor = int64_of_f64 (f64_mult (f64_of_int (rp_initial_delay p))
            (go_pow (rp_backoff_factor p) (f64_of_int (wrap64 (clamp_attempt p attempt - 1)))))
      in if factor > rp_max_delay p then rp_max_delay p else factor)"

definition compute_delay :: "retry_policy \<Rightarrow> int \<Rightarrow> (int \<Rightarrow> int) \<Rightarrow> duration outcome" where
  "compute_delay p attempt rnd =
     (let factor = backoff_factor p attempt
      in case rand_int63n rnd (go_div factor 10) of
           Panics \<Rightarrow> Panics
         | Fails e \<Rightarrow> Fails e
         | Returns jitter \<Rightarrow> Returns (wrap64 (factor + jitter)))"

definition uniform :: "(int \<Rightarrow> int) \<Rightarrow> bool" where
  "uniform rnd \<longleftrightarrow> (\<forall>n. 0 < n \<longrightarrow> 0 \<le> rnd n \<and> rnd n < n)"

section \<open>Properties\<close>

lemma and_15: "b AND 15 = b mod 16" for b :: nat
  using take_bit_eq_mask [of 4 b] take_bit_eq_mod [of 4 b] by (simp add: mask_eq_exp_minus_1)

lemma and_63_mod: "b AND 63 = b mod 64" for b :: nat
  using take_bit_eq_mask [of 6 b] take_bit_eq_mod [of 6 b] by (simp add: mask_eq_exp_minus_1)

lemma or_high: "x < 2 ^ n \<Longrightarrow> x OR 2 ^ n = x + 2 ^ n" for x :: nat
proof -
  assume x: "x < 2 ^ n"
  then have "take_bit n x = x" by (rule take_bit_nat_eq_self)
  then have "\<not> bit x m \<or> \<not> bit (2 ^ n :: nat) m" for m
    by (metis bit_exp_iff bit_take_bit_iff nat_less_le)
  then show ?thesis by (metis disjunctive_add)
qed

lemma version_byte: "(b AND 15) OR 64 = b mod 16 + 64" for b :: nat
proof -
  have "b mod 16 < 2 ^ 6" by (rule less_trans [of _ 16]) simp_all
  from or_high [OF this] show ?thesis by (simp add: and_15)
qed

lemma variant_byte: "(b AND 63) OR 128 = b mod 64 + 128" for b :: nat
proof -
  have "b mod 64 < 2 ^ 7" by (rule less_trans [of _ 64]) simp_all
  from or_high [OF this] show ?thesis by (simp add: and_63_mod)
qed

lemma list16:
  assumes "length b = 16"
  obtains b0 b1 b2 b3 b4 b5 b6 b7 b8 b9 b10 b11 b12 b13 b14 b15
  where "b = [b0, b1, b2, b3, b4, b5, b6, b7, b8, b9, b10, b11, b12, b13, b14, b15]"
proof -
  have "length b = Suc (Suc (Suc (Suc (Suc (Suc (Suc (Suc (Suc (Suc (Suc (Suc (Suc (Suc (Suc (Suc 0)))))))))))))))"
    using assms by simp
  then show thesis by (auto simp only: length_Suc_conv length_0_conv intro: that)
qed

lemma hex_bytes_Cons: "x < 256 \<Longrightarrow> hex_bytes (x # xs) = hex_digit (x div 16) # hex_digit (x mod 16) # hex_bytes xs"
  by (simp add: hex_bytes_def hex_encode_def)

lemma hex_bytes_Nil: "hex_bytes [] = []" by (simp add: hex_bytes_def hex_encode_def)

lemma variant_digit: "n < 64 \<Longrightarrow> hex_digit ((n + 128) div 16) \<in> {CHR ''8'', CHR ''9'', CHR ''a'', CHR ''b''}"
proof -
  assume "n < 64"
  then have "(n + 128) div 16 \<in> {8, 9, 10, 11}" by auto
  then show ?thesis by (auto simp: hex_digit_def hex_alphabet_def)
qed

text \<open>A generated identifier has the form of a random UUID, whether or not the random source
  works: 36 characters with hyphens after 8, 13, 18 and 23, version 4 and variant 10.\<close>

theorem generate_id_uuid_v4:
  assumes "case primary of None \<Rightarrow> True | Some b \<Rightarrow> length b = 16 \<and> (\<forall>x. x \<in> set b \<longrightarrow> x < 256)"
  shows "length (generate_id primary fallback) = 36 \<and>
    generate_id primary fallback ! 8 = CHR ''-'' \<and> generate_id primary fallback ! 13 = CHR ''-'' \<and>
    generate_id primary fallback ! 18 = CHR ''-'' \<and> generate_id primary fallback ! 23 = CHR ''-'' \<and>
    generate_id primary fallback ! 14 = CHR ''4'' \<and>
    generate_id primary fallback ! 19 \<in> {CHR ''8'', CHR ''9'', CHR ''a'', CHR ''b''}"
proof -
  let ?b = "binary_read primary fallback"
  have b: "length ?b = 16" "\<And>x. x \<in> set ?b \<Longrightarrow> x < 256"
    using assms by (auto simp: binary_read_def split: option.splits)
  from b(1) obtain b0 b1 b2 b3 b4 b5 b6 b7 b8 b9 b10 b11 b12 b13 b14 b15 where
    bs: "?b = [b0, b1, b2, b3, b4, b5, b6, b7, b8, b9, b10, b11, b12, b13, b14, b15]" by (rule list16)
  have lt: "b0 < 256" "b1 < 256" "b2 < 256" "b3 < 256" "b4 < 256" "b5 < 256" "b7 < 256" "b9 < 256"
    "b10 < 256" "b11 < 256" "b12 < 256" "b13 < 256" "b14 < 256" "b15 < 256"
    using b(2) unfolding bs by simp_all
  have ver: "b6 mod 16 + 64 < 256" "(b6 mod 16 + 64) div 16 = 4" by simp_all
  have var: "b8 mod 64 + 128 < 256" by simp
  have four: "hex_digit 4 = CHR ''4''" by (simp add: hex_digit_def hex_alphabet_def)
  have "generate_id primary fallback =
      hex_bytes [b0, b1, b2, b3] @ ''-'' @ hex_bytes [b4, b5] @ ''-'' @ hex_bytes [b6 mod 16 + 64, b7]
      @ ''-'' @ hex_bytes [b8 mod 64 + 128, b9] @ ''-'' @ hex_bytes [b10, b11, b12, b13, b14, b15]"
    unfolding generate_id_def bs Let_def by (simp add: version_byte variant_byte)
  then show ?thesis
    using variant_digit [of "b8 mod 64"]
    by (simp add: hex_bytes_Cons hex_bytes_Nil lt ver var four)
qed

theorem generate_id_uuid_v4_witness:
  "generate_id (Some (replicate 16 255)) (\<lambda>_. 0) ! 14 = CHR ''4''"
  using generate_id_uuid_v4 [of "Some (replicate 16 255)" "\<lambda>_. 0"] by simp

text \<open>The delay before a retry is the clamped exponential backoff plus a jitter of less than a
  tenth of it, so it exceeds the configured maximum by less than ten percent; and computing it
  panics exactly when the clamped backoff is below ten nanoseconds.\<close>

theorem compute_delay_bounds:
  assumes "uniform rnd" "rp_max_delay p < 2 ^ 62"
  shows "backoff_factor p attempt \<le> rp_max_delay p \<and>
    (case compute_delay p attempt rnd of
       Returns d \<Rightarrow> 10 \<le> backoff_factor p attempt \<and> backoff_factor p attempt \<le> d \<and>
         10 * (d - backoff_factor p attempt) < backoff_factor p attempt
     | Panics \<Rightarrow> backoff_factor p attempt < 10
     | Fails _ \<Rightarrow> False)"
proof -
  let ?f = "backoff_factor p attempt"
  have max: "?f \<le> rp_max_delay p" by (simp add: backoff_factor_def Let_def)
  show ?thesis
  proof (cases "10 \<le> ?f")
    case True
    then have div: "go_div ?f 10 = ?f div 10" "0 < ?f div 10" by (simp_all add: go_div_nonneg)
    then have jitter: "0 \<le> rnd (?f div 10)" "rnd (?f div 10) < ?f div 10"
      using assms(1) by (auto simp: uniform_def)
    then have "wrap64 (?f + rnd (?f div 10)) = ?f + rnd (?f div 10)"
      using True max assms(2) by (intro wrap64_id) (auto simp: int64_range_def)
    then show ?thesis
      using True max div jitter by (simp add: compute_delay_def Let_def rand_int63n_def)
  next
    case False
    have "go_div ?f 10 \<le> 0"
    proof (cases "?f \<le> 0")
      case True
      then show ?thesis by (simp add: go_div_def sgn_if pos_imp_zdiv_nonneg_iff)
    next
      case nonneg: False
      then show ?thesis using False by (simp add: go_div_nonneg)
    qed
    then show ?thesis using False max by (simp add: compute_delay_def Let_def rand_int63n_def)
  qed
qed

theorem compute_delay_bounds_witness:
  "backoff_factor default_retry_policy 3 \<le> 5 * minute"
  using compute_delay_bounds [of "\<lambda>_. 0" default_retry_policy 3]
  by (simp add: uniform_def default_retry_policy_def minute_def second_def)

lemma int64_of_f64_of_int: "int64_range n \<Longrightarrow> int64_of_f64 (Some (of_int n)) = n"
  by (simp add: int64_of_f64_def f64_to_int64_def)

text \<open>The default policy doubles from one second to sixteen, exactly.\<close>

lemma default_backoff:
  "backoff_factor default_retry_policy attempt = 2 ^ nat (max 1 (min 5 attempt) - 1) * second"
proof -
  define k where "k = nat (max 1 (min 5 attempt) - 1)"
  have k: "k \<le> 4" by (simp add: k_def)
  have att: "clamp_attempt default_retry_policy attempt = int k + 1"
    by (auto simp: k_def Let_def clamp_attempt_def default_retry_policy_def)
  have pow: "pow_loop (Some 2) n (Some (2 ^ m)) = Some (2 ^ (m + n))" if "m + n \<le> 10" for n m
    using that
  proof (induction n arbitrary: m)
    case (Suc n)
    have "(2::int) ^ m * 2 < 2 ^ 53"
      using Suc.prems power_strict_increasing [of "Suc m" 53 "2::int"] by simp
    then have "f64_mult (Some (2 ^ m)) (Some 2) = Some (2 ^ Suc m)"
      using f64_mult_small [of "2 ^ m" 2] by (simp add: mult.commute)
    with Suc.IH [of "Suc m"] Suc.prems show ?case by simp
  qed simp
  have "int64_of_f64 (f64_of_int (int k)) = int k"
    using k f64_of_int_small [of "int k"]
    by (simp add: int64_of_f64_def f64_to_int64_def int64_range_def)
  then have "go_pow (Some 2) (f64_of_int (wrap64 (int k))) = Some (2 ^ k)"
    using pow [of 0 k] k by (simp add: go_pow_def wrap64_id int64_range_def)
  moreover have "f64_mult (Some (of_int second)) (Some (2 ^ k)) = Some (of_int (second * 2 ^ k))"
  proof -
    have "(2::int) ^ k \<le> 2 ^ 4" using k by (intro power_increasing) simp_all
    then show ?thesis using f64_mult_small [of second "2 ^ k"] by (simp add: second_def)
  qed
  moreover have "f64_of_int second = Some (of_int second)"
    by (rule f64_of_int_small) (simp_all add: second_def)
  moreover have small: "second * 2 ^ k \<le> 16 * second"
    using power_increasing [of k 4 "2::int"] k by (simp add: second_def)
  moreover have "int64_of_f64 (Some (of_int (second * 2 ^ k))) = second * 2 ^ k"
  proof (rule int64_of_f64_of_int)
    have "0 \<le> second * 2 ^ k" by (simp add: second_def)
    then have "- (2 ^ 63) \<le> second * 2 ^ k" by (rule order_trans [rotated]) simp
    moreover have "second * 2 ^ k < 2 ^ 63"
      using small by (rule le_less_trans) (simp add: second_def)
    ultimately show "int64_range (second * 2 ^ k)" by (simp add: int64_range_def)
  qed
  ultimately have "backoff_factor default_retry_policy attempt = second * 2 ^ k"
    unfolding backoff_factor_def Let_def att
    by (simp add: default_retry_policy_def minute_def second_def)
  then show ?thesis by (simp add: k_def mult.commute)
qed

lemma default_delay:
  assumes "uniform rnd"
  shows "\<exists>d. compute_delay default_retry_policy attempt rnd = Returns d \<and> second \<le> d \<and> d < 18 * second"
proof -
  let ?f = "backoff_factor default_retry_policy attempt"
  have "(2::int) ^ nat (max 1 (min 5 attempt) - 1) \<le> 2 ^ 4" by (intro power_increasing) auto
  then have f: "second \<le> ?f" "?f \<le> 16 * second" by (simp_all add: default_backoff second_def)
  have div: "go_div ?f 10 = ?f div 10" "0 < ?f div 10" using f by (simp_all add: go_div_nonneg second_def)
  then have jitter: "0 \<le> rnd (?f div 10)" "rnd (?f div 10) < ?f div 10"
    using assms by (auto simp: uniform_def)
  then have "wrap64 (?f + rnd (?f div 10)) = ?f + rnd (?f div 10)"
    using f by (intro wrap64_id) (auto simp: int64_range_def second_def)
  then show ?thesis
    using f div jitter by (auto simp: compute_delay_def Let_def rand_int63n_def)
qed

end
