(* ===== verification/Event_Store.thy ===== *)
theory Event_Store
  imports Event "HOL-Library.Multiset"
begin

text \<open>
  The storage port of the event bus (\<open>Store\<close> of \<open>eventbus/ports/ports.go\<close>), its in-memory
  implementation \<open>eventbus/infrastructure/memory/store.go\<close>, and the stub adapters for Kafka,
  RabbitMQ and SQS, which refuse every operation.

  A store is the record of its operations over a state. Where an operation of the in-memory
  store reads the clock, ranges over a map, draws a random number or calls \<open>sort.Slice\<close> (which is
  not stable), the reading, the order, the source and the sorting function are in \<open>mem_env\<close>;
  \<open>env_ok\<close> says what the language promises of them.
\<close>

section \<open>The port\<close>

record 's event_store =
  so_save :: "domain_event option \<Rightarrow> 's \<Rightarrow> unit outcome \<times> 's"
  so_save_batch :: "domain_event option list \<Rightarrow> 's \<Rightarrow> unit outcome \<times> 's"
  so_poll :: "string \<Rightarrow> int \<Rightarrow> 's \<Rightarrow> domain_event list outcome \<times> 's"
  so_mark_processed :: "string \<Rightarrow> 's \<Rightarrow> unit outcome \<times> 's"
  so_mark_failed :: "string \<Rightarrow> int \<Rightarrow> string option \<Rightarrow> int \<Rightarrow> 's \<Rightarrow> unit outcome \<times> 's"
  so_move_to_dlq :: "domain_event \<Rightarrow> string \<Rightarrow> 's \<Rightarrow> unit outcome \<times> 's"
  so_list_dlq :: "string \<Rightarrow> int \<Rightarrow> 's \<Rightarrow> domain_event list outcome \<times> 's"

section \<open>The in-memory store\<close>

record stored_event =
  se_event :: domain_event
  se_visible_at :: time

record mem_store =
  ms_events :: "string \<rightharpoonup> stored_event"
  ms_dlq :: "string \<rightharpoonup> domain_event"
  ms_closed :: bool

record mem_env =
  me_now :: time
  me_order :: "string list"
  me_dlq_order :: "string list"
  me_rnd :: "int \<Rightarrow> int"
  me_sort_occurred :: "domain_event list \<Rightarrow> domain_event list"
  me_sort_dlq :: "domain_event list \<Rightarrow> domain_event list"

definition new_store :: mem_store where
  "new_store = \<lparr>ms_events = Map.empty, ms_dlq = Map.empty, ms_closed = False\<rparr>"

definition compute_visible_at :: "mem_env \<Rightarrow> domain_event \<Rightarrow> time" where
  "compute_visible_at env ev =
     (case ev_delayed_until ev of
        None \<Rightarrow> me_now env
      | Some t \<Rightarrow> if t > me_now env then t else me_now env)"

definition save :: "mem_env \<Rightarrow> domain_event option \<Rightarrow> mem_store \<Rightarrow> unit outcome \<times> mem_store" where
  "save env p s =
     (if ms_closed s then (Fails ''memory store is closed'', s)
      else (case p of
        None \<Rightarrow> (Panics, s)
      | Some event \<Rightarrow>
      if ev_id event = [] then (Fails ''event id is required'', s)
      else let ev = (if ev_occurred_at event = zero_time
                     then event\<lparr>ev_occurred_at := me_now env\<rparr> else event)
           in (Returns (),
               s\<lparr>ms_events := (ms_events s)(ev_id ev \<mapsto>
                   \<lparr>se_event = ev, se_visible_at = compute_visible_at env ev\<rparr>)\<rparr>)))"

text \<open>The loop of \<open>SaveBatch\<close>, for any adapter's \<open>Save\<close>: it stops at the first error.\<close>

fun save_all ::
  "(domain_event option \<Rightarrow> 's \<Rightarrow> unit outcome \<times> 's) \<Rightarrow> domain_event option list \<Rightarrow> 's \<Rightarrow>
   unit outcome \<times> 's" where
  "save_all sv [] s = (Returns (), s)"
| "save_all sv (e # es) s =
     (case sv e s of
        (Returns _, s) \<Rightarrow> save_all sv es s
      | (r, s) \<Rightarrow> (r, s))"

text \<open>The loop of \<open>Poll\<close> over the events in map order: visible ones are leased for 30 seconds.\<close>

fun poll_loop ::
  "string list \<Rightarrow> time \<Rightarrow> string \<Rightarrow> int \<Rightarrow> (string \<rightharpoonup> stored_event) \<Rightarrow> domain_event list \<Rightarrow>
   (string \<rightharpoonup> stored_event) \<times> domain_event list" where
  "poll_loop [] now event_type batch evs result = (evs, result)"
| "poll_loop (k # ks) now event_type batch evs result =
     (case evs k of
        None \<Rightarrow> poll_loop ks now event_type batch evs result
      | Some se \<Rightarrow>
          if ev_type (se_event se) \<noteq> event_type then poll_loop ks now event_type batch evs result
          else if se_visible_at se > now then poll_loop ks now event_type batch evs result
          else if ev_dlq_at (se_event se) \<noteq> None then poll_loop ks now event_type batch evs result
          else let evs = evs(k \<mapsto> se\<lparr>se_visible_at := now + 30 * second\<rparr>);
                   result = result @ [se_event se]
               in if int (length result) \<ge> batch then (evs, result)
                  else poll_loop ks now event_type batch evs result)"

definition poll ::
  "mem_env \<Rightarrow> string \<Rightarrow> int \<Rightarrow> mem_store \<Rightarrow> domain_event list outcome \<times> mem_store" where
  "poll env event_type batch_size s =
     (if ms_closed s then (Fails ''memory store is closed'', s)
      else let batch = (if batch_size \<le> 0 then 1 else batch_size)
           in case poll_loop (me_order env) (me_now env) event_type batch (ms_events s) [] of
                (evs, result) \<Rightarrow> (Returns (me_sort_occurred env result), s\<lparr>ms_events := evs\<rparr>))"

definition mark_processed :: "string \<Rightarrow> mem_store \<Rightarrow> unit outcome \<times> mem_store" where
  "mark_processed event_id s =
     (if ms_events s event_id = None then (Fails ''event not found'', s)
      else (Returns (), s\<lparr>ms_events := (ms_events s)(event_id := None)\<rparr>))"

definition move_to_dlq_locked ::
  "mem_env \<Rightarrow> domain_event \<Rightarrow> string \<Rightarrow> mem_store \<Rightarrow> unit outcome \<times> mem_store" where
  "move_to_dlq_locked env event reason s =
     (let (event, s) = (case ms_events s (ev_id event) of
            None \<Rightarrow> (event, s)
          | Some se \<Rightarrow> (se_event se, s\<lparr>ms_events := (ms_events s)(ev_id event := None)\<rparr>));
          ev = event;
          ev = (if ev_dlq_at ev = None then ev\<lparr>ev_dlq_at := Some (me_now env)\<rparr> else ev);
          ev = (if reason \<noteq> [] \<and> ev_error ev = [] then ev\<lparr>ev_error := reason\<rparr> else ev)
      in (Returns (), s\<lparr>ms_dlq := (ms_dlq s)(ev_id ev \<mapsto> ev)\<rparr>))"

definition move_to_dlq ::
  "mem_env \<Rightarrow> domain_event \<Rightarrow> string \<Rightarrow> mem_store \<Rightarrow> unit outcome \<times> mem_store" where
  "move_to_dlq env event reason s = move_to_dlq_locked env event reason s"

definition mark_failed ::
  "mem_env \<Rightarrow> string \<Rightarrow> int \<Rightarrow> string option \<Rightarrow> int \<Rightarrow> mem_store \<Rightarrow> unit outcome \<times> mem_store" where
  "mark_failed env event_id attempt err max_attempts s =
     (case ms_events s event_id of
        None \<Rightarrow> (Fails ''event not found'', s)
      | Some se \<Rightarrow>
          let ev = (se_event se)\<lparr>ev_attempt := attempt\<rparr>;
              ev = (case err of None \<Rightarrow> ev | Some msg \<Rightarrow> ev\<lparr>ev_error := msg\<rparr>)
          in if attempt \<ge> max_attempts
             then let ev = ev\<lparr>ev_dlq_at := Some (me_now env),
                            ev_error := ''max attempts exceeded: '' @ ev_error ev\<rparr>
                  in move_to_dlq_locked env ev []
                       (s\<lparr>ms_events := (ms_events s)(event_id \<mapsto> se\<lparr>se_event := ev\<rparr>)\<rparr>)
             else (case compute_delay default_retry_policy attempt (me_rnd env) of
                     Returns delay \<Rightarrow>
                       (Returns (), s\<lparr>ms_events := (ms_events s)(event_id \<mapsto>
                          \<lparr>se_event = ev, se_visible_at = me_now env + delay\<rparr>)\<rparr>)
                   | _ \<Rightarrow> (Panics, s\<lparr>ms_events := (ms_events s)(event_id \<mapsto> se\<lparr>se_event := ev\<rparr>)\<rparr>)))"

fun list_loop ::
  "string list \<Rightarrow> string \<Rightarrow> int \<Rightarrow> (string \<rightharpoonup> domain_event) \<Rightarrow> domain_event list \<Rightarrow> domain_event list" where
  "list_loop [] event_type limit dlq result = result"
| "list_loop (k # ks) event_type limit dlq result =
     (case dlq k of
        None \<Rightarrow> list_loop ks event_type limit dlq result
      | Some ev \<Rightarrow>
          if event_type \<noteq> [] \<and> ev_type ev \<noteq> event_type then list_loop ks event_type limit dlq result
          else let result = result @ [ev]
               in if limit > 0 \<and> int (length result) \<ge> limit then result
                  else list_loop ks event_type limit dlq result)"

definition list_dlq ::
  "mem_env \<Rightarrow> string \<Rightarrow> int \<Rightarrow> mem_store \<Rightarrow> domain_event list outcome \<times> mem_store" where
  "list_dlq env event_type limit s =
     (Returns (me_sort_dlq env (list_loop (me_dlq_order env) event_type limit (ms_dlq s) [])), s)"

definition close_store :: "mem_store \<Rightarrow> mem_store" where
  "close_store s = s\<lparr>ms_closed := True\<rparr>"

definition memory_store :: "mem_env \<Rightarrow> mem_store event_store" where
  "memory_store env =
     \<lparr> so_save = save env, so_save_batch = save_all (save env), so_poll = poll env,
       so_mark_processed = mark_processed, so_mark_failed = mark_failed env,
       so_move_to_dlq = move_to_dlq env, so_list_dlq = list_dlq env \<rparr>"

text \<open>
  What the language promises of an environment, for a given store: ranging over a map visits
  each key once, \<open>sort.Slice\<close> permutes and sorts, and the random source is in range.
\<close>

definition sorts_by :: "(domain_event \<Rightarrow> 'k::linorder) \<Rightarrow> (domain_event list \<Rightarrow> domain_event list) \<Rightarrow> bool" where
  "sorts_by key srt \<longleftrightarrow> (\<forall>xs. mset (srt xs) = mset xs \<and> sorted (map key (srt xs)))"

definition env_ok :: "mem_env \<Rightarrow> mem_store \<Rightarrow> bool" where
  "env_ok env s \<longleftrightarrow>
     distinct (me_order env) \<and> set (me_order env) = dom (ms_events s) \<and>
     distinct (me_dlq_order env) \<and> set (me_dlq_order env) = dom (ms_dlq s) \<and>
     uniform (me_rnd env) \<and> sorts_by ev_occurred_at (me_sort_occurred env) \<and>
     sorts_by (\<lambda>e. the (ev_dlq_at e)) (me_sort_dlq env)"

section \<open>The stub adapters\<close>

text \<open>\<open>kafka\<close>, \<open>rabbitmq\<close> and \<open>sqs\<close> differ in the name in their errors; the client is present or nil.\<close>

definition stub_save :: "string \<Rightarrow> bool \<Rightarrow> domain_event option \<Rightarrow> unit \<Rightarrow> unit outcome \<times> unit" where
  "stub_save name client event s =
     (if \<not> client then (Fails (name @ '': client not configured''), s)
      else if (case event of None \<Rightarrow> True | Some e \<Rightarrow> ev_type e = [])
      then (Fails (name @ '': event type is required''), s)
      else (Fails (name @ '': Save not implemented in v0.2.0 stub''), s))"

definition stub_call :: "string \<Rightarrow> bool \<Rightarrow> string \<Rightarrow> unit \<Rightarrow> 'a outcome \<times> unit" where
  "stub_call name client method s =
     (if \<not> client then (Fails (name @ '': client not configured''), s)
      else (Fails (name @ '': '' @ method @ '' not implemented in v0.2.0 stub''), s))"

definition stub_store :: "string \<Rightarrow> bool \<Rightarrow> unit event_store" where
  "stub_store name client =
     \<lparr> so_save = stub_save name client, so_save_batch = save_all (stub_save name client),
       so_poll = (\<lambda>_ _. stub_call name client ''Poll''),
       so_mark_processed = (\<lambda>_. stub_call name client ''MarkProcessed''),
       so_mark_failed = (\<lambda>_ _ _ _. stub_call name client ''MarkFailed''),
       so_move_to_dlq = (\<lambda>_ _. stub_call name client ''MoveToDLQ''),
       so_list_dlq = (\<lambda>_ _. stub_call name client ''ListDLQ'') \<rparr>"

definition kafka_store :: "bool \<Rightarrow> unit event_store" where "kafka_store = stub_store ''kafka''"
definition rabbitmq_store :: "bool \<Rightarrow> unit event_store" where "rabbitmq_store = stub_store ''rabbitmq''"
definition sqs_store :: "bool \<Rightarrow> unit event_store" where "sqs_store = stub_store ''sqs''"

text \<open>The message body of the adapters' \<open>encode\<close>, before \<open>json.Marshal\<close>: the fields and the nested
  metadata; \<open>rfc3339\<close> formats the time.\<close>

definition encode_event ::
  "(time \<Rightarrow> string) \<Rightarrow> domain_event \<Rightarrow> (string \<rightharpoonup> string) \<times> (string \<rightharpoonup> string)" where
  "encode_event rfc3339 e =
     ([''id'' \<mapsto> ev_id e, ''event_type'' \<mapsto> ev_type e, ''payload'' \<mapsto> ev_payload e],
      [''channel'' \<mapsto> ev_channel e, ''namespace'' \<mapsto> ev_namespace e, ''tenant_id'' \<mapsto> ev_tenant_id e,
       ''version'' \<mapsto> ev_version e, ''occurred_at'' \<mapsto> rfc3339 (ev_occurred_at e)])"

definition rabbitmq_encode ::
  "(time \<Rightarrow> string) \<Rightarrow> domain_event \<Rightarrow> (string \<rightharpoonup> string) \<times> (string \<rightharpoonup> string)" where
  "rabbitmq_encode rfc3339 e = encode_event rfc3339 e"

definition sqs_encode ::
  "(time \<Rightarrow> string) \<Rightarrow> domain_event \<Rightarrow> (string \<rightharpoonup> string) \<times> (string \<rightharpoonup> string)" where
  "sqs_encode rfc3339 e = encode_event rfc3339 e"

section \<open>What a store promises\<close>

text \<open>The content of an event, without the delivery metadata that stores update.\<close>

definition content :: "domain_event \<Rightarrow> domain_event" where
  "content e = e\<lparr>ev_occurred_at := 0, ev_attempt := 0, ev_dlq_at := None, ev_error := []\<rparr>"

lemma content_update [simp]:
  "content (e\<lparr>ev_attempt := a\<rparr>) = content e" "content (e\<lparr>ev_error := m\<rparr>) = content e"
  "content (e\<lparr>ev_dlq_at := d\<rparr>) = content e" "content (e\<lparr>ev_occurred_at := t\<rparr>) = content e"
  by (simp_all add: content_def)

lemma content_id: "content e = content e' \<Longrightarrow> ev_id e = ev_id e' \<and> ev_type e = ev_type e'"
  by (cases e; cases e') (simp add: content_def)

text \<open>
  The contract of the port that consumers rely on, over the events that are still to be
  delivered (\<open>pending\<close>) and the dead letters (\<open>dead\<close>), by identifier: a saved event is pending; a
  poll gives distinct pending events of the type asked for and loses none; acknowledging
  removes exactly the event; a failure records the attempt and moves the event to the dead
  letters exactly when it was the last one.
\<close>

locale event_store_laws =
  fixes st :: "'s event_store"
    and pending :: "'s \<Rightarrow> string \<Rightarrow> domain_event option"
    and dead :: "'s \<Rightarrow> string \<Rightarrow> domain_event option"
    and ok :: "'s \<Rightarrow> bool"
  assumes save_law: "ok s \<Longrightarrow> so_save st (Some e) s = (r, s') \<Longrightarrow>
      ok s' \<and> dead s' = dead s \<and>
      (if r = Returns ()
       then \<exists>e'. content e' = content e \<and> ev_attempt e' = ev_attempt e \<and>
         pending s' = (pending s)(ev_id e \<mapsto> e')
       else pending s' = pending s)"
    and poll_law: "ok s \<Longrightarrow> so_poll st ty n s = (p, s') \<Longrightarrow>
      ok s' \<and> pending s' = pending s \<and> dead s' = dead s \<and>
      (case p of
         Returns es \<Rightarrow> distinct (map ev_id es) \<and>
           (\<forall>e. e \<in> set es \<longrightarrow> ev_type e = ty \<and> pending s (ev_id e) = Some e)
       | _ \<Rightarrow> True)"
    and processed_law: "ok s \<Longrightarrow> so_mark_processed st i s = (r, s') \<Longrightarrow>
      ok s' \<and> dead s' = dead s \<and>
      (if r = Returns () then pending s i \<noteq> None \<and> pending s' = (pending s)(i := None)
       else pending s i = None \<and> pending s' = pending s)"
    and failed_law: "ok s \<Longrightarrow> so_mark_failed st i a err m s = (r, s') \<Longrightarrow>
      ok s' \<and>
      (case pending s i of
         None \<Rightarrow> r \<noteq> Returns () \<and> pending s' = pending s \<and> dead s' = dead s
       | Some e \<Rightarrow> r = Returns () \<and>
           (\<exists>e'. content e' = content e \<and> ev_attempt e' = a \<and>
              (if m \<le> a then pending s' = (pending s)(i := None) \<and> dead s' = (dead s)(i \<mapsto> e')
               else pending s' = (pending s)(i \<mapsto> e') \<and> dead s' = dead s)))"
begin

lemma poll_pending:
  assumes "ok s" "so_poll st ty n s = (Returns es, s')" "e \<in> set es"
  shows "pending s' (ev_id e) = Some e" "ev_type e = ty"
  using poll_law [OF assms(1,2)] assms(3) by auto

lemma processed_other:
  "ok s \<Longrightarrow> so_mark_processed st i s = (r, s') \<Longrightarrow> j \<noteq> i \<Longrightarrow> pending s' j = pending s j \<and> dead s' j = dead s j"
  using processed_law [of s i r s'] by (auto split: if_splits)

lemma failed_other:
  "ok s \<Longrightarrow> so_mark_failed st i a err m s = (r, s') \<Longrightarrow> j \<noteq> i \<Longrightarrow> pending s' j = pending s j \<and> dead s' j = dead s j"
  using failed_law [of s i a err m r s'] by (auto split: if_splits option.splits)

end

section \<open>The in-memory store keeps the contract\<close>

definition pending :: "mem_store \<Rightarrow> string \<rightharpoonup> domain_event" where
  "pending s = (\<lambda>i. map_option se_event (ms_events s i))"

definition mem_ok :: "mem_store \<Rightarrow> bool" where
  "mem_ok s \<longleftrightarrow> (\<forall>i se. ms_events s i = Some se \<longrightarrow> ev_id (se_event se) = i)"

definition env_sane :: "mem_env \<Rightarrow> bool" where
  "env_sane env \<longleftrightarrow> distinct (me_order env) \<and> uniform (me_rnd env) \<and>
     sorts_by ev_occurred_at (me_sort_occurred env)"

definition eligible :: "time \<Rightarrow> string \<Rightarrow> stored_event \<Rightarrow> bool" where
  "eligible now ty se \<longleftrightarrow>
     ev_type (se_event se) = ty \<and> se_visible_at se \<le> now \<and> ev_dlq_at (se_event se) = None"

definition lease :: "time \<Rightarrow> string set \<Rightarrow> (string \<rightharpoonup> stored_event) \<Rightarrow> string \<rightharpoonup> stored_event" where
  "lease now ks evs =
     (\<lambda>k. if k \<in> ks then map_option (\<lambda>se. se\<lparr>se_visible_at := now + 30 * second\<rparr>) (evs k) else evs k)"

text \<open>What the loop of \<open>Poll\<close> takes: some of the eligible events in map order, all of them if there
  are fewer than the batch.\<close>

definition takes ::
  "time \<Rightarrow> string \<Rightarrow> int \<Rightarrow> (string \<rightharpoonup> stored_event) \<Rightarrow> domain_event list \<Rightarrow> string list \<Rightarrow>
   string list \<Rightarrow> (string \<rightharpoonup> stored_event) \<Rightarrow> domain_event list \<Rightarrow> bool" where
  "takes now ty b evs acc ks ts evs' res \<longleftrightarrow>
     distinct ts \<and> set ts \<subseteq> set ks \<and> res = acc @ map (\<lambda>k. se_event (the (evs k))) ts \<and>
     (\<forall>k \<in> set ts. \<exists>se. evs k = Some se \<and> eligible now ty se) \<and>
     evs' = lease now (set ts) evs \<and>
     (int (length acc) < b \<longrightarrow> int (length res) \<le> b) \<and>
     (int (length res) < b \<longrightarrow>
        (\<forall>k \<in> set ks. \<forall>se. evs k = Some se \<and> eligible now ty se \<longrightarrow> k \<in> set ts))"

lemma takes_Cons:
  assumes "takes now ty b (evs(k \<mapsto> se\<lparr>se_visible_at := now + 30 * second\<rparr>)) (acc @ [se_event se]) ks ts evs' res"
    and se: "evs k = Some se" "eligible now ty se" and "k \<notin> set ks" "\<not> b \<le> int (length (acc @ [se_event se]))"
  shows "takes now ty b evs acc (k # ks) (k # ts) evs' res"
proof -
  let ?evs = "evs(k \<mapsto> se\<lparr>se_visible_at := now + 30 * second\<rparr>)"
  let ?acc = "acc @ [se_event se]"
  from assms(1) have ts: "distinct ts" "set ts \<subseteq> set ks"
    "res = ?acc @ map (\<lambda>k. se_event (the (?evs k))) ts"
    "\<forall>k \<in> set ts. \<exists>se. ?evs k = Some se \<and> eligible now ty se" "evs' = lease now (set ts) ?evs"
    "int (length ?acc) < b \<longrightarrow> int (length res) \<le> b"
    "int (length res) < b \<longrightarrow>
      (\<forall>k \<in> set ks. \<forall>se. ?evs k = Some se \<and> eligible now ty se \<longrightarrow> k \<in> set ts)"
    unfolding takes_def by blast+
  have k: "k \<notin> set ts" "k \<notin> set ks" using ts(2) assms(4) by auto
  have upd: "?evs j = evs j" if "j \<in> set ks" for j using that k by auto
  have "map (\<lambda>k. se_event (the (?evs k))) ts = map (\<lambda>k. se_event (the (evs k))) ts"
    using k(1) by (intro map_cong) auto
  moreover have "lease now (set ts) ?evs = lease now (set (k # ts)) evs"
    using se(1) k by (auto simp: lease_def fun_eq_iff)
  ultimately have res: "res = acc @ map (\<lambda>k. se_event (the (evs k))) (k # ts)"
    and evs': "evs' = lease now (set (k # ts)) evs"
    using ts(3,5) se(1) by simp_all
  have el: "\<exists>se. evs j = Some se \<and> eligible now ty se" if "j \<in> set (k # ts)" for j
  proof (cases "j = k")
    case False
    then have "j \<in> set ts" using that by simp
    with ts(2,4) upd show ?thesis by fastforce
  qed (use se in blast)
  have all: "j \<in> set (k # ts)"
    if "int (length res) < b" "j \<in> set (k # ks)" "evs j = Some se'" "eligible now ty se'" for j se'
  proof (cases "j = k")
    case False
    then have "j \<in> set ks" using that by simp
    with ts(7) that upd show ?thesis by fastforce
  qed simp
  have "distinct (k # ts)" "set (k # ts) \<subseteq> set (k # ks)" using ts(1,2) k by auto
  moreover have "int (length acc) < b \<longrightarrow> int (length res) \<le> b" using ts(6) assms(5) by simp
  ultimately show ?thesis
    unfolding takes_def using res evs' el all by blast
qed

lemma poll_loop_spec:
  "poll_loop ks now ty b evs acc = (evs', res) \<Longrightarrow> distinct ks \<Longrightarrow>
   \<exists>ts. takes now ty b evs acc ks ts evs' res"
proof (induction ks arbitrary: evs acc)
  case Nil
  then show ?case by (auto simp: lease_def takes_def)
next
  case (Cons k ks)
  show ?case
  proof (cases "\<exists>se. evs k = Some se \<and> eligible now ty se")
    case False
    then have "poll_loop ks now ty b evs acc = (evs', res)"
      using Cons.prems(1) by (auto simp: eligible_def not_le split: option.splits if_splits)
    from Cons.IH [OF this] Cons.prems(2) obtain ts where "takes now ty b evs acc ks ts evs' res" by auto
    with False show ?thesis by (intro exI [of _ ts]) (auto simp: takes_def)
  next
    case True
    then obtain se where se: "evs k = Some se" "eligible now ty se" by blast
    let ?evs = "evs(k \<mapsto> se\<lparr>se_visible_at := now + 30 * second\<rparr>)"
    let ?acc = "acc @ [se_event se]"
    have evs1: "lease now {k} evs = ?evs" using se(1) by (auto simp: lease_def)
    show ?thesis
    proof (cases "int (length ?acc) \<ge> b")
      case True
      then have "evs' = ?evs" "res = ?acc"
        using Cons.prems(1) se by (auto simp: eligible_def Let_def)
      with True se evs1 show ?thesis by (intro exI [of _ "[k]"]) (auto simp: takes_def)
    next
      case False
      then have run: "poll_loop ks now ty b ?evs ?acc = (evs', res)"
        using Cons.prems(1) se by (auto simp: eligible_def Let_def)
      have "distinct ks" using Cons.prems(2) by simp
      from Cons.IH [OF run this] obtain ts where "takes now ty b ?evs ?acc ks ts evs' res" ..
      from takes_Cons [OF this se] Cons.prems(2) False
      have "takes now ty b evs acc (k # ks) (k # ts) evs' res" by simp
      then show ?thesis ..
    qed
  qed
qed

lemma lease_simps [simp]:
  "map_option se_event (lease now ks evs i) = map_option se_event (evs i)"
  "dom (lease now ks evs) = dom evs"
  by (auto simp: lease_def option.map_comp comp_def split: if_splits)

lemma mem_ok_id: "mem_ok s \<Longrightarrow> ms_events s i = Some se \<Longrightarrow> ev_id (se_event se) = i"
  by (simp add: mem_ok_def)

lemma sorts_by_set: "sorts_by key srt \<Longrightarrow> set (srt xs) = set xs"
  unfolding sorts_by_def by (metis set_mset_mset)

lemma sorts_by_distinct: "sorts_by key srt \<Longrightarrow> distinct (map f (srt xs)) = distinct (map f xs)"
  unfolding sorts_by_def by (metis mset_eq_imp_distinct_iff mset_map)

lemma poll_result:
  assumes "poll env ty n s = (r, s')" "env_sane env" "mem_ok s"
  shows "s' = s \<and> (\<exists>m. r = Fails m) \<or>
    (\<exists>ts es. distinct ts \<and> set ts \<subseteq> set (me_order env) \<and> r = Returns es \<and>
       s' = s\<lparr>ms_events := lease (me_now env) (set ts) (ms_events s)\<rparr> \<and>
       mset (map ev_id es) = mset ts \<and> sorted (map ev_occurred_at es) \<and>
       int (length es) \<le> max 1 n \<and>
       (\<forall>e. e \<in> set es \<longrightarrow> (\<exists>se. ms_events s (ev_id e) = Some se \<and> se_event se = e \<and>
          eligible (me_now env) ty se)) \<and>
       (int (length es) < max 1 n \<longrightarrow> (\<forall>k \<in> set (me_order env). \<forall>se. ms_events s k = Some se \<and>
          eligible (me_now env) ty se \<longrightarrow> k \<in> set ts)))"
proof (cases "ms_closed s")
  case True
  with assms(1) show ?thesis by (auto simp: poll_def)
next
  case False
  define b where "b = (if n \<le> 0 then 1 else n)"
  have b: "b = max 1 n" by (simp add: b_def)
  obtain evs res where loop: "poll_loop (me_order env) (me_now env) ty b (ms_events s) [] = (evs, res)"
    by fastforce
  have r: "r = Returns (me_sort_occurred env res)" "s' = s\<lparr>ms_events := evs\<rparr>"
    using assms(1) False loop by (auto simp: poll_def Let_def b_def)
  have "distinct (me_order env)" "sorts_by ev_occurred_at (me_sort_occurred env)"
    using assms(2) by (simp_all add: env_sane_def)
  then obtain ts where ts: "takes (me_now env) ty b (ms_events s) [] (me_order env) ts evs res"
    using poll_loop_spec [OF loop] by blast
  let ?es = "me_sort_occurred env res"
  have sorted: "mset ?es = mset res" "sorted (map ev_occurred_at ?es)"
    using assms(2) by (auto simp: env_sane_def sorts_by_def)
  have id: "ev_id (se_event (the (ms_events s k))) = k" if "k \<in> set ts" for k
    using ts that mem_ok_id [OF assms(3)] by (force simp: takes_def)
  have res: "res = map (\<lambda>k. se_event (the (ms_events s k))) ts" using ts by (simp add: takes_def)
  have "map ev_id res = ts"
    unfolding res using id by (simp add: map_idI)
  then have "mset (map ev_id ?es) = mset ts"
    using sorted(1) by (metis mset_map)
  moreover have "length ?es = length res" using sorted(1) by (metis size_mset)
  moreover have "\<exists>se. ms_events s (ev_id e) = Some se \<and> se_event se = e \<and> eligible (me_now env) ty se"
    if "e \<in> set ?es" for e
  proof -
    have "e \<in> set res" using that sorted(1) by (metis set_mset_mset)
    then obtain k where k: "k \<in> set ts" "e = se_event (the (ms_events s k))" by (auto simp: res)
    with ts obtain se where se: "ms_events s k = Some se" "eligible (me_now env) ty se"
      by (auto simp: takes_def)
    moreover from this k id [OF k(1)] have "ev_id e = k" by simp
    ultimately show ?thesis using k(2) by simp
  qed
  ultimately show ?thesis
    using ts r sorted b unfolding takes_def
    by (intro disjI2 exI [of _ ts] exI [of _ ?es]) auto
qed

lemma mark_failed_Some:
  assumes "mem_ok s" "uniform (me_rnd env)" "ms_events s i = Some se"
  shows "\<exists>s' e'. mark_failed env i a err m s = (Returns (), s') \<and> mem_ok s' \<and>
    content e' = content (se_event se) \<and> ev_attempt e' = a \<and>
    (if m \<le> a then pending s' = (pending s)(i := None) \<and> ms_dlq s' = (ms_dlq s)(i \<mapsto> e')
     else pending s' = (pending s)(i \<mapsto> e') \<and> ms_dlq s' = ms_dlq s)"
proof -
  have id: "ev_id (se_event se) = i" using assms(1,3) by (rule mem_ok_id)
  obtain d where d: "compute_delay default_retry_policy a (me_rnd env) = Returns d"
    using default_delay [OF assms(2)] by blast
  show ?thesis
  proof (cases "m \<le> a")
    case True
    then show ?thesis
      using assms(1,3) id
      by (cases err) (auto simp: mark_failed_def move_to_dlq_locked_def Let_def pending_def mem_ok_def fun_eq_iff)
  next
    case False
    then show ?thesis
      using assms(1,3) id d
      by (cases err) (auto simp: mark_failed_def Let_def pending_def mem_ok_def fun_eq_iff)
  qed
qed

interpretation memory: event_store_laws "memory_store env" pending ms_dlq "\<lambda>s. mem_ok s \<and> env_sane env"
  for env :: mem_env
proof unfold_locales
  fix s s' :: mem_store and e :: domain_event and r :: "unit outcome"
  assume ok: "mem_ok s \<and> env_sane env" and step: "so_save (memory_store env) (Some e) s = (r, s')"
  then have "save env (Some e) s = (r, s')" by (simp add: memory_store_def)
  with ok show "(mem_ok s' \<and> env_sane env) \<and> ms_dlq s' = ms_dlq s \<and>
      (if r = Returns ()
       then \<exists>e'. content e' = content e \<and> ev_attempt e' = ev_attempt e \<and>
         pending s' = (pending s)(ev_id e \<mapsto> e')
       else pending s' = pending s)"
    by (auto simp: save_def Let_def mem_ok_def pending_def fun_eq_iff split: if_splits)
next
  fix s s' :: mem_store and ty :: string and n :: int and p :: "domain_event list outcome"
  assume ok: "mem_ok s \<and> env_sane env" and step: "so_poll (memory_store env) ty n s = (p, s')"
  then have poll: "poll env ty n s = (p, s')" by (simp add: memory_store_def)
  have inv: "mem_ok (s\<lparr>ms_events := lease now ts (ms_events s)\<rparr>)" for now ts
    using ok by (auto simp: mem_ok_def lease_def split: if_splits)
  have pend: "pending (s\<lparr>ms_events := lease now ts (ms_events s)\<rparr>) = pending s" for now ts
    by (simp add: pending_def)
  have dist: "distinct (map ev_id es)" if "mset (map ev_id es) = mset ts" "distinct ts" for es ts
    using that by (metis mset_eq_imp_distinct_iff)
  show "(mem_ok s' \<and> env_sane env) \<and> pending s' = pending s \<and> ms_dlq s' = ms_dlq s \<and>
      (case p of
         Returns es \<Rightarrow> distinct (map ev_id es) \<and>
           (\<forall>e. e \<in> set es \<longrightarrow> ev_type e = ty \<and> pending s (ev_id e) = Some e)
       | _ \<Rightarrow> True)"
    using poll_result [OF poll] ok inv pend dist
    by (fastforce simp: pending_def eligible_def)
next
  fix s s' :: mem_store and i :: string and r :: "unit outcome"
  assume ok: "mem_ok s \<and> env_sane env" and step: "so_mark_processed (memory_store env) i s = (r, s')"
  then have "mark_processed i s = (r, s')" by (simp add: memory_store_def)
  with ok show "(mem_ok s' \<and> env_sane env) \<and> ms_dlq s' = ms_dlq s \<and>
      (if r = Returns () then pending s i \<noteq> None \<and> pending s' = (pending s)(i := None)
       else pending s i = None \<and> pending s' = pending s)"
    by (auto simp: mark_processed_def mem_ok_def pending_def fun_eq_iff split: if_splits)
next
  fix s s' :: mem_store and i :: string and a m :: int and err :: "string option" and r :: "unit outcome"
  assume ok: "mem_ok s \<and> env_sane env" and step: "so_mark_failed (memory_store env) i a err m s = (r, s')"
  then have mf: "mark_failed env i a err m s = (r, s')" by (simp add: memory_store_def)
  show "(mem_ok s' \<and> env_sane env) \<and>
      (case pending s i of
         None \<Rightarrow> r \<noteq> Returns () \<and> pending s' = pending s \<and> ms_dlq s' = ms_dlq s
       | Some e \<Rightarrow> r = Returns () \<and>
           (\<exists>e'. content e' = content e \<and> ev_attempt e' = a \<and>
              (if m \<le> a then pending s' = (pending s)(i := None) \<and> ms_dlq s' = (ms_dlq s)(i \<mapsto> e')
               else pending s' = (pending s)(i \<mapsto> e') \<and> ms_dlq s' = ms_dlq s)))"
  proof (cases "ms_events s i")
    case None
    with mf ok show ?thesis by (auto simp: mark_failed_def pending_def)
  next
    case (Some se)
    have "mem_ok s" "uniform (me_rnd env)" using ok by (simp_all add: env_sane_def)
    from mark_failed_Some [OF this Some, of a err m] mf ok Some show ?thesis
      by (auto simp: pending_def)
  qed
qed

interpretation stub: event_store_laws "stub_store name client" "\<lambda>_. Map.empty" "\<lambda>_. Map.empty" "\<lambda>_. True"
  for name :: string and client :: bool
  by unfold_locales
    (auto simp: stub_store_def stub_save_def stub_call_def split: if_splits outcome.splits)

section \<open>Leases and backoff\<close>

lemma env_ok_sane: "env_ok env s \<Longrightarrow> env_sane env"
  by (simp add: env_ok_def env_sane_def)

lemma poll_returns:
  assumes "poll env ty n s = (Returns es, s')" "env_sane env" "mem_ok s"
  obtains ts where "set ts = ev_id ` set es" "set ts \<subseteq> set (me_order env)" "distinct (map ev_id es)"
    "s' = s\<lparr>ms_events := lease (me_now env) (set ts) (ms_events s)\<rparr>"
    "sorted (map ev_occurred_at es)" "int (length es) \<le> max 1 n"
    "\<forall>e. e \<in> set es \<longrightarrow> (\<exists>se. ms_events s (ev_id e) = Some se \<and> se_event se = e \<and>
       eligible (me_now env) ty se)"
    "int (length es) < max 1 n \<longrightarrow> (\<forall>k \<in> set (me_order env). \<forall>se. ms_events s k = Some se \<and>
       eligible (me_now env) ty se \<longrightarrow> k \<in> set ts)"
proof -
  from poll_result [OF assms] obtain ts where ts: "distinct ts" "set ts \<subseteq> set (me_order env)"
    "s' = s\<lparr>ms_events := lease (me_now env) (set ts) (ms_events s)\<rparr>"
    "mset (map ev_id es) = mset ts" "sorted (map ev_occurred_at es)" "int (length es) \<le> max 1 n"
    "\<forall>e. e \<in> set es \<longrightarrow> (\<exists>se. ms_events s (ev_id e) = Some se \<and> se_event se = e \<and>
       eligible (me_now env) ty se)"
    "int (length es) < max 1 n \<longrightarrow> (\<forall>k \<in> set (me_order env). \<forall>se. ms_events s k = Some se \<and>
       eligible (me_now env) ty se \<longrightarrow> k \<in> set ts)"
    by auto
  moreover have "set ts = ev_id ` set es" using ts(4) by (metis set_mset_mset list.set_map)
  moreover have "distinct (map ev_id es)" using ts(1,4) by (metis mset_eq_imp_distinct_iff)
  ultimately show ?thesis using that by blast
qed

lemma poll_invisible:
  assumes "poll env ty n s = (Returns es, s')" "env_sane env" "mem_ok s"
    and "ms_events s i = Some se" "me_now env < se_visible_at se"
  shows "i \<notin> ev_id ` set es"
  using assms(4,5) by (rule_tac poll_returns [OF assms(1-3)]) (fastforce simp: eligible_def)

lemma poll_keeps_ok: "poll env ty n s = (r, s') \<Longrightarrow> env_sane env \<Longrightarrow> mem_ok s \<Longrightarrow> mem_ok s'"
  using memory.poll_law [of s env ty n r s'] by (simp add: memory_store_def)

subsection \<open>Leases between the operations of all consumers\<close>

text \<open>The operations of the store, as any number of services and consumers call them in any order; the
  mutex of the store makes each of them one step (a batch is one save after the other).\<close>

datatype store_op =
    SaveOp mem_env "domain_event option"
  | SaveBatchOp mem_env "domain_event option list"
  | PollOp mem_env string int
  | MarkProcessedOp string
  | MarkFailedOp mem_env string int "string option" int
  | MoveToDlqOp mem_env domain_event string
  | ListDlqOp mem_env string int
  | CloseOp

fun apply_op :: "store_op \<Rightarrow> mem_store \<Rightarrow> mem_store" where
  "apply_op (SaveOp env p) s = snd (save env p s)"
| "apply_op (SaveBatchOp env ps) s = snd (save_all (save env) ps s)"
| "apply_op (PollOp env ty n) s = snd (poll env ty n s)"
| "apply_op (MarkProcessedOp i) s = snd (mark_processed i s)"
| "apply_op (MarkFailedOp env i a err m) s = snd (mark_failed env i a err m s)"
| "apply_op (MoveToDlqOp env e reason) s = snd (move_to_dlq env e reason s)"
| "apply_op (ListDlqOp env ty n) s = snd (list_dlq env ty n s)"
| "apply_op CloseOp s = close_store s"

definition apply_ops :: "store_op list \<Rightarrow> mem_store \<Rightarrow> mem_store" where
  "apply_ops ops s = fold apply_op ops s"

fun op_sane :: "store_op \<Rightarrow> bool" where
  "op_sane (PollOp env ty n) \<longleftrightarrow> env_sane env"
| "op_sane (MarkFailedOp env i a err m) \<longleftrightarrow> env_sane env"
| "op_sane _ \<longleftrightarrow> True"

text \<open>An operation hands the event \<open>i\<close> back for polls at \<open>t\<close>: it saves an event under this identifier that is
  visible by then, or records a failure, not the last one, a second or more before.\<close>

definition saves_back :: "string \<Rightarrow> time \<Rightarrow> mem_env \<Rightarrow> domain_event option \<Rightarrow> bool" where
  "saves_back i t env p \<longleftrightarrow> (case p of None \<Rightarrow> False | Some e \<Rightarrow> ev_id e = i \<and> compute_visible_at env e \<le> t)"

fun hands_back :: "string \<Rightarrow> time \<Rightarrow> store_op \<Rightarrow> bool" where
  "hands_back i t (SaveOp env p) \<longleftrightarrow> saves_back i t env p"
| "hands_back i t (SaveBatchOp env ps) \<longleftrightarrow> list_ex (saves_back i t env) ps"
| "hands_back i t (MarkFailedOp env j a err m) \<longleftrightarrow> j = i \<and> a < m \<and> me_now env + second \<le> t"
| "hands_back i t _ \<longleftrightarrow> False"

definition held :: "string \<Rightarrow> time \<Rightarrow> mem_store \<Rightarrow> bool" where
  "held i t s \<longleftrightarrow> mem_ok s \<and> (\<forall>se. ms_events s i = Some se \<longrightarrow> t < se_visible_at se)"

lemma save_held: "held i t s \<Longrightarrow> \<not> saves_back i t env p \<Longrightarrow> held i t (snd (save env p s))"
  by (auto simp: save_def held_def saves_back_def mem_ok_def compute_visible_at_def Let_def split: option.splits)

lemma save_all_held:
  "held i t s \<Longrightarrow> \<not> list_ex (saves_back i t env) ps \<Longrightarrow> held i t (snd (save_all (save env) ps s))"
proof (induction ps arbitrary: s)
  case (Cons p ps)
  obtain r s' where p: "save env p s = (r, s')" by fastforce
  with save_held [OF Cons.prems(1), of env p] Cons.prems(2) have "held i t s'" by simp
  with Cons.IH [of s'] Cons.prems(2) p show ?case by (cases r) simp_all
qed simp

lemma poll_held:
  assumes "held i t s" "env_sane env"
  shows "held i t (snd (poll env ty n s))"
proof -
  obtain r s' where p: "poll env ty n s = (r, s')" by fastforce
  have ok: "mem_ok s" using assms(1) by (simp add: held_def)
  have ok': "mem_ok s'" by (rule poll_keeps_ok [OF p assms(2) ok])
  show ?thesis
  proof (cases "\<exists>es. r = Returns es")
    case True
    then obtain es where "poll env ty n s = (Returns es, s')" using p by blast
    then show ?thesis
      by (rule poll_returns [OF _ assms(2) ok])
        (use assms(1) ok' p in \<open>fastforce simp: held_def lease_def eligible_def second_def split: if_splits\<close>)
  next
    case False
    with poll_result [OF p assms(2) ok] have "s' = s" by auto
    with assms(1) p show ?thesis by simp
  qed
qed

lemma move_to_dlq_held: "held i t s \<Longrightarrow> held i t (snd (move_to_dlq_locked env e reason s))"
  by (auto simp: move_to_dlq_locked_def held_def mem_ok_def Let_def split: option.splits)

lemma mark_failed_held:
  assumes "held i t s" "env_sane env" "\<not> (j = i \<and> a < m \<and> me_now env + second \<le> t)"
  shows "held i t (snd (mark_failed env j a err m s))"
proof (cases "ms_events s j")
  case None
  with assms(1) show ?thesis by (simp add: mark_failed_def)
next
  case (Some se)
  have ok: "mem_ok s" and unif: "uniform (me_rnd env)" using assms by (simp_all add: held_def env_sane_def)
  obtain d where d: "compute_delay default_retry_policy a (me_rnd env) = Returns d" "second \<le> d"
    using default_delay [OF unif] by blast
  obtain s' e' where s': "mark_failed env j a err m s = (Returns (), s')" "mem_ok s'"
    "m \<le> a \<Longrightarrow> pending s' = (pending s)(j := None)"
    using mark_failed_Some [OF ok unif Some, of a err m] by (auto split: if_splits)
  have other: "ms_events s' i = ms_events s i" if "i \<noteq> j"
    using s'(1) that mem_ok_id [OF ok Some] Some d(1)
    by (auto simp: mark_failed_def move_to_dlq_locked_def Let_def split: option.splits if_splits)
  have own: "t < se_visible_at se'" if "i = j" "ms_events s' i = Some se'" for se'
  proof (cases "m \<le> a")
    case True
    with s'(3) that have "pending s' i = None" by simp
    with that(2) show ?thesis by (simp add: pending_def)
  next
    case False
    with s'(1) that Some d have "se_visible_at se' = me_now env + d"
      by (auto simp: mark_failed_def Let_def split: option.splits)
    with False assms(3) that(1) d(2) show ?thesis by simp
  qed
  with other s'(1,2) assms(1) show ?thesis by (cases "i = j") (auto simp: held_def)
qed

lemma mark_processed_held: "held i t s \<Longrightarrow> held i t (snd (mark_processed j s))"
  by (auto simp: mark_processed_def held_def mem_ok_def)

lemma close_held: "held i t s \<Longrightarrow> held i t (close_store s)"
  by (simp add: close_store_def held_def mem_ok_def)

lemma apply_op_held:
  "held i t s \<Longrightarrow> op_sane op \<Longrightarrow> \<not> hands_back i t op \<Longrightarrow> held i t (apply_op op s)"
  by (cases op)
    (simp_all add: save_held save_all_held poll_held mark_failed_held mark_processed_held move_to_dlq_held move_to_dlq_def
      list_dlq_def close_held)

lemma apply_ops_held:
  "held i t s \<Longrightarrow> \<forall>op \<in> set ops. op_sane op \<Longrightarrow> \<not> (\<exists>op \<in> set ops. hands_back i t op) \<Longrightarrow>
   held i t (apply_ops ops s)"
proof (induction ops arbitrary: s)
  case (Cons op ops)
  then have "held i t (apply_op op s)" by (intro apply_op_held) simp_all
  from Cons.IH [OF this] Cons.prems(2,3) show ?case by (simp add: apply_ops_def)
qed (simp add: apply_ops_def)

lemma poll_held_none:
  assumes "poll env ty n s = (Returns es, s')" "env_sane env" "held i (me_now env) s"
  shows "i \<notin> ev_id ` set es"
proof
  assume i: "i \<in> ev_id ` set es"
  have ok: "mem_ok s" using assms(3) by (simp add: held_def)
  have "\<forall>e. e \<in> set es \<longrightarrow>
      (\<exists>se. ms_events s (ev_id e) = Some se \<and> se_event se = e \<and> eligible (me_now env) ty se)"
    by (rule poll_returns [OF assms(1,2) ok])
  with i obtain se where "ms_events s i = Some se" "eligible (me_now env) ty se" by blast
  with assms(3) show False by (auto simp: held_def eligible_def)
qed

text \<open>C6: Polling leases what it returns. A poll gives at most a batch of pending events of the type
  asked for, each once and in order of occurrence, and all the visible ones when they are fewer
  than the batch; it changes no event. Whatever operations follow, of any consumers and services and in any order
  (saves, polls, acknowledgements, failures, moves to the dead letters), no poll gives any of them again within
  30 seconds, unless one of these operations handed the event back: its failure was recorded a second or more
  before, or an event was saved again under its identifier.\<close>

theorem poll_leases_exclusively:
  assumes "mem_ok s" "env_ok env s" "env_sane env'" "\<forall>op \<in> set ops. op_sane op"
    and "poll env ty n s = (Returns es, s1)" "poll env' ty' n' (apply_ops ops s1) = (Returns es', s2)"
  shows "distinct (map ev_id es) \<and> sorted (map ev_occurred_at es) \<and> int (length es) \<le> max 1 n \<and>
    (\<forall>e \<in> set es. ev_type e = ty \<and> ev_dlq_at e = None \<and> pending s (ev_id e) = Some e) \<and>
    (int (length es) < max 1 n \<longrightarrow>
       (\<forall>i se. ms_events s i = Some se \<and> eligible (me_now env) ty se \<longrightarrow> se_event se \<in> set es)) \<and>
    pending s1 = pending s \<and>
    (\<forall>i \<in> ev_id ` set es \<inter> ev_id ` set es'.
       me_now env + 30 * second \<le> me_now env' \<or> (\<exists>op \<in> set ops. hands_back i (me_now env') op))"
proof -
  have sane: "env_sane env" using assms(2) by (rule env_ok_sane)
  obtain ts where ts: "set ts = ev_id ` set es" "set ts \<subseteq> set (me_order env)" "distinct (map ev_id es)"
    "s1 = s\<lparr>ms_events := lease (me_now env) (set ts) (ms_events s)\<rparr>"
    "sorted (map ev_occurred_at es)" "int (length es) \<le> max 1 n"
    and el: "\<forall>e. e \<in> set es \<longrightarrow> (\<exists>se. ms_events s (ev_id e) = Some se \<and> se_event se = e \<and>
       eligible (me_now env) ty se)"
    and all: "int (length es) < max 1 n \<longrightarrow> (\<forall>k \<in> set (me_order env). \<forall>se. ms_events s k = Some se \<and>
       eligible (me_now env) ty se \<longrightarrow> k \<in> set ts)"
    by (rule poll_returns [OF assms(5) sane assms(1)])
  have ok1: "mem_ok s1" using poll_keeps_ok [OF assms(5) sane assms(1)] .
  have evs: "\<forall>e \<in> set es. ev_type e = ty \<and> ev_dlq_at e = None \<and> pending s (ev_id e) = Some e"
    using el by (fastforce simp: eligible_def pending_def)
  have "se_event se \<in> set es"
    if "int (length es) < max 1 n" "ms_events s i = Some se" "eligible (me_now env) ty se" for i se
  proof -
    have "i \<in> set (me_order env)" using assms(2) that(2) by (auto simp: env_ok_def)
    with all that have "i \<in> ev_id ` set es" using ts(1) by blast
    then obtain e where e: "e \<in> set es" "ev_id e = i" by blast
    with el that(2) show ?thesis by force
  qed
  moreover have "pending s1 = pending s" by (simp add: ts(4) pending_def)
  moreover have "i \<notin> ev_id ` set es'"
    if i: "i \<in> ev_id ` set es" and early: "me_now env' < me_now env + 30 * second"
      and kept: "\<not> (\<exists>op \<in> set ops. hands_back i (me_now env') op)" for i
  proof -
    have "held i (me_now env') s1" using ok1 i early ts(1) by (auto simp: held_def ts(4) lease_def)
    from apply_ops_held [OF this assms(4) kept] have "held i (me_now env') (apply_ops ops s1)" .
    then show ?thesis by (rule poll_held_none [OF assms(6,3)])
  qed
  ultimately show ?thesis using ts evs by (metis (no_types, lifting) IntD1 IntD2 not_le)
qed

text \<open>Environments for the examples.\<close>

definition at_time :: "time \<Rightarrow> string list \<Rightarrow> mem_env" where
  "at_time now order =
     \<lparr>me_now = now, me_order = order, me_dlq_order = [], me_rnd = (\<lambda>_. 0),
      me_sort_occurred = sort_key ev_occurred_at, me_sort_dlq = sort_key (\<lambda>e. the (ev_dlq_at e))\<rparr>"

definition demo_event :: domain_event where
  "demo_event = empty_event\<lparr>ev_id := ''e1'', ev_type := ''order.placed'', ev_occurred_at := 7\<rparr>"

definition demo_mem :: mem_store where
  "demo_mem = new_store\<lparr>ms_events := [''e1'' \<mapsto> \<lparr>se_event = demo_event, se_visible_at = 0\<rparr>]\<rparr>"

lemma sorts_by_sort_key [simp]: "sorts_by k (sort_key k)"
  by (simp add: sorts_by_def)

lemma at_time_sane [simp]: "distinct order \<Longrightarrow> env_sane (at_time now order)"
  by (simp add: env_sane_def at_time_def uniform_def)

lemma demo_mem_ok [simp]: "mem_ok demo_mem" "env_ok (at_time now [''e1'']) demo_mem"
  by (auto simp: mem_ok_def env_ok_def demo_mem_def demo_event_def at_time_def uniform_def new_store_def)

theorem poll_leases_exclusively_witness:
  "poll (at_time 100 [''e1'']) ''order.placed'' 10 demo_mem =
     (Returns [demo_event], demo_mem\<lparr>ms_events := lease 100 {''e1''} (ms_events demo_mem)\<rparr>) \<and>
   pending (demo_mem\<lparr>ms_events := lease 100 {''e1''} (ms_events demo_mem)\<rparr>) = pending demo_mem"
proof -
  let ?s1 = "demo_mem\<lparr>ms_events := lease 100 {''e1''} (ms_events demo_mem)\<rparr>"
  let ?ops = "[PollOp (at_time 150 [''e1'']) ''order.placed'' 10, MarkProcessedOp ''e2'']"
  have p1: "poll (at_time 100 [''e1'']) ''order.placed'' 10 demo_mem = (Returns [demo_event], ?s1)"
    by (auto simp: poll_def demo_mem_def demo_event_def new_store_def empty_event_def at_time_def
      lease_def second_def fun_eq_iff)
  have p2: "poll (at_time t [''e1'']) ''order.placed'' 10 ?s1 = (Returns [], ?s1)" if "t \<le> 200" for t
    using that by (auto simp: poll_def demo_mem_def demo_event_def new_store_def empty_event_def at_time_def
      lease_def second_def)
  have "apply_ops ?ops ?s1 = ?s1"
    using p2 [of 150] by (simp add: apply_ops_def mark_processed_def demo_mem_def lease_def)
  with p2 [of 200] have "poll (at_time 200 [''e1'']) ''order.placed'' 10 (apply_ops ?ops ?s1) = (Returns [], ?s1)"
    by simp
  from poll_leases_exclusively [OF demo_mem_ok(1,2) _ _ p1 this] p1 show ?thesis by simp
qed

text \<open>The exception is needed: an event that is saved again is polled again at once.\<close>

lemma saved_again_polled_again:
  "fst (poll (at_time 200 [''e1'']) ''order.placed'' 10
     (apply_ops [PollOp (at_time 100 [''e1'']) ''order.placed'' 10, SaveOp (at_time 150 []) (Some demo_event)] demo_mem)) =
   Returns [demo_event]"
  by (simp add: apply_ops_def save_def compute_visible_at_def poll_def demo_mem_def demo_event_def new_store_def
    empty_event_def at_time_def zero_time_def Let_def)

text \<open>A failed event backs off. A failure that was not the last attempt keeps the event, with the
  attempt recorded, and no poll gives it before a second has passed; it is visible again in
  less than eighteen. The last failure moves it to the dead letters, where no poll looks.\<close>

theorem failed_event_backs_off:
  assumes "mem_ok s" "env_sane env" "env_sane env'" "pending s i = Some e"
    and "mark_failed env i attempt err max_attempts s = (r, s1)"
    and "poll env' ty n s1 = (Returns es, s2)"
  shows "r = Returns () \<and>
    (if attempt < max_attempts
     then (\<exists>e'. pending s1 i = Some e' \<and> ev_attempt e' = attempt \<and> content e' = content e) \<and>
       (me_now env' < me_now env + second \<longrightarrow> i \<notin> ev_id ` set es) \<and>
       (\<exists>se. ms_events s1 i = Some se \<and> se_visible_at se < me_now env + 18 * second)
     else pending s1 i = None \<and> i \<notin> ev_id ` set es \<and>
       (\<exists>e'. ms_dlq s1 i = Some e' \<and> content e' = content e))"
proof -
  have unif: "uniform (me_rnd env)" using assms(2) by (simp add: env_sane_def)
  obtain se where se: "ms_events s i = Some se" "se_event se = e"
    using assms(4) by (auto simp: pending_def)
  from mark_failed_Some [OF assms(1) unif se(1), of attempt err max_attempts] assms(5)
  obtain e' where r: "r = Returns ()" and ok1: "mem_ok s1" and e': "content e' = content e"
    "ev_attempt e' = attempt"
    "if max_attempts \<le> attempt then pending s1 = (pending s)(i := None) \<and> ms_dlq s1 = (ms_dlq s)(i \<mapsto> e')
     else pending s1 = (pending s)(i \<mapsto> e') \<and> ms_dlq s1 = ms_dlq s"
    using se(2) by auto
  have gone: "i \<notin> ev_id ` set es" if "ms_events s1 i = None"
    using that by (rule_tac poll_returns [OF assms(6,3) ok1]) fastforce
  obtain d where d: "compute_delay default_retry_policy attempt (me_rnd env) = Returns d"
    "second \<le> d" "d < 18 * second" using default_delay [OF unif] by blast
  show ?thesis
  proof (cases "attempt < max_attempts")
    case True
    then obtain se1 where se1: "ms_events s1 i = Some se1" "se_visible_at se1 = me_now env + d"
      using assms(5) se d by (auto simp: mark_failed_def Let_def split: option.splits)
    have "i \<notin> ev_id ` set es" if "me_now env' < me_now env + second"
      using poll_invisible [OF assms(6,3) ok1 se1(1)] se1(2) d(2) that by simp
    with True r e' se1 d show ?thesis by simp
  next
    case False
    then have "pending s1 i = None" using e'(3) by simp
    then have "ms_events s1 i = None" by (simp add: pending_def)
    with False r e' gone show ?thesis by (auto simp: pending_def)
  qed
qed

theorem failed_event_backs_off_witness:
  "\<exists>s1. mark_failed (at_time 100 []) ''e1'' 5 (Some ''boom'') 5 demo_mem = (Returns (), s1) \<and>
     pending s1 ''e1'' = None \<and> (\<exists>e'. ms_dlq s1 ''e1'' = Some e' \<and> content e' = content demo_event)"
proof -
  have p: "pending demo_mem ''e1'' = Some demo_event" by (simp add: pending_def demo_mem_def)
  obtain s1 r where mf: "mark_failed (at_time 100 []) ''e1'' 5 (Some ''boom'') 5 demo_mem = (r, s1)"
    by fastforce
  have "ms_closed s1 = False"
    using mf by (auto simp: mark_failed_def demo_mem_def new_store_def move_to_dlq_locked_def Let_def
      split: option.splits if_splits)
  then have poll: "poll (at_time 200 []) ''order.placed'' 10 s1 = (Returns [], s1)"
    by (simp add: poll_def at_time_def)
  have "env_sane (at_time 100 [])" "env_sane (at_time 200 [])" by simp_all
  from failed_event_backs_off [OF demo_mem_ok(1) this p mf poll] mf show ?thesis by simp
qed

end
