(* ===== verification/Event_Bus.thy ===== *)
theory Event_Bus
  imports Event_Metrics Event_Store
begin

text \<open>
  The use cases of the event bus, \<open>eventbus/application/usecase.go\<close>: publishing one event or a
  batch, registering handlers, and one poll cycle of a consumer (\<open>PollOnce\<close>) with its
  acknowledgement, retry and dead-letter logic. They work over any store of the port.

  An operation returns its result, the store's state and the metric events it recorded. A
  handler is a function from the event it is given to its error and the event as it leaves it;
  the pointers of a batch are taken to be distinct.
\<close>

section \<open>Publishing\<close>

record bus_config =
  bc_max_retries :: int
  bc_initial_backoff :: duration
  bc_max_backoff :: duration
  bc_backoff_factor :: f64
  bc_dlq_topic_suffix :: string
  bc_metrics_recorder :: bool

definition default_bus_config :: bus_config where
  "default_bus_config =
     \<lparr>bc_max_retries = 5, bc_initial_backoff = 1 * second, bc_max_backoff = 60 * second,
      bc_backoff_factor = Some 2, bc_dlq_topic_suffix = ''.dlq'', bc_metrics_recorder = False\<rparr>"

text \<open>The defaults both publishing methods fill in: identifier, version and time of occurrence.\<close>

definition prepare :: "string \<Rightarrow> time \<Rightarrow> domain_event \<Rightarrow> domain_event" where
  "prepare fresh now event =
     (let event = (if ev_id event = [] then event\<lparr>ev_id := fresh\<rparr> else event);
          event = (if ev_version event = [] then event\<lparr>ev_version := ''1''\<rparr> else event)
      in if ev_occurred_at event = zero_time then event\<lparr>ev_occurred_at := now\<rparr> else event)"

definition channel_of :: "domain_event \<Rightarrow> string" where
  "channel_of event = (if ev_channel event = [] then ev_type event else ev_channel event)"

definition publish ::
  "'s event_store \<Rightarrow> bus_config \<Rightarrow> string \<Rightarrow> time \<Rightarrow> f64 \<Rightarrow> domain_event option \<Rightarrow> 's \<Rightarrow>
   unit outcome \<times> 's \<times> metric_event list" where
  "publish st cfg fresh now elapsed p s =
     (case p of
        None \<Rightarrow> (Fails ''eventbus: event is nil'', s, [])
      | Some event \<Rightarrow>
          if ev_type event = [] then (Fails ''eventbus: event type is required'', s, [])
          else let event = prepare fresh now event; channel = channel_of event
               in case so_save st (Some event) s of
                    (Panics, s) \<Rightarrow> (Panics, s, [])
                  | (Fails e, s) \<Rightarrow>
                      (Fails (''eventbus: publish '' @ ev_type event @ '': '' @ e), s,
                       record_metrics (bc_metrics_recorder cfg)
                         [failed channel (ev_type event) ''publish_store_error''])
                  | (Returns _, s) \<Rightarrow>
                      (Returns (), s,
                       record_metrics (bc_metrics_recorder cfg)
                         [publish_time channel (ev_type event) elapsed,
                          published channel (ev_type event)]))"

fun prepare_all :: "(nat \<Rightarrow> string) \<Rightarrow> nat \<Rightarrow> time \<Rightarrow> domain_event option list \<Rightarrow> domain_event option list" where
  "prepare_all fresh i now [] = []"
| "prepare_all fresh i now (e # es) =
     map_option (prepare (fresh i) now) e # prepare_all fresh (Suc i) now es"

text \<open>The metrics loop of \<open>PublishBatch\<close> dereferences every event, nil ones too.\<close>

fun published_loop :: "domain_event option list \<Rightarrow> metric_event list \<Rightarrow> unit outcome \<times> metric_event list" where
  "published_loop [] ms = (Returns (), ms)"
| "published_loop (None # es) ms = (Panics, ms)"
| "published_loop (Some e # es) ms = published_loop es (ms @ [published (channel_of e) (ev_type e)])"

definition publish_batch ::
  "'s event_store \<Rightarrow> bus_config \<Rightarrow> (nat \<Rightarrow> string) \<Rightarrow> time \<Rightarrow> f64 \<Rightarrow> domain_event option list \<Rightarrow> 's \<Rightarrow>
   unit outcome \<times> 's \<times> metric_event list" where
  "publish_batch st cfg fresh now elapsed events s =
     (if events = [] then (Returns (), s, [])
      else let events = prepare_all fresh 0 now events
           in case so_save_batch st events s of
                (Panics, s) \<Rightarrow> (Panics, s, [])
              | (Fails e, s) \<Rightarrow>
                  (Fails (''eventbus: publish batch: '' @ e), s,
                   record_metrics (bc_metrics_recorder cfg)
                     [failed ''batch'' ''batch'' ''publish_batch_store_error''])
              | (Returns _, s) \<Rightarrow>
                  (case published_loop events [publish_time ''batch'' ''batch'' elapsed] of
                     (r, ms) \<Rightarrow> (r, s, record_metrics (bc_metrics_recorder cfg) ms)))"

section \<open>Handlers\<close>

type_synonym handler = "domain_event \<Rightarrow> unit outcome \<times> domain_event"
type_synonym handler_registry = "string \<rightharpoonup> handler list"

definition register :: "string \<Rightarrow> handler option \<Rightarrow> handler_registry \<Rightarrow> string option \<times> handler_registry" where
  "register event_type h r =
     (if event_type = [] then (Some ''eventbus: event type is required'', r)
      else case h of
             None \<Rightarrow> (Some ''eventbus: handler is nil'', r)
           | Some h \<Rightarrow>
               (None, r(event_type \<mapsto> (case r event_type of None \<Rightarrow> [] | Some l \<Rightarrow> l) @ [h])))"

definition subscribe :: "string \<Rightarrow> handler option \<Rightarrow> handler_registry \<Rightarrow> string option \<times> handler_registry" where
  "subscribe event_type h r = register event_type h r"

fun dispatch_loop ::
  "handler list \<Rightarrow> domain_event \<Rightarrow> string option \<Rightarrow> string option outcome \<times> domain_event" where
  "dispatch_loop [] event first_err = (Returns first_err, event)"
| "dispatch_loop (h # hs) event first_err =
     (case h event of
        (Returns _, event) \<Rightarrow> dispatch_loop hs event first_err
      | (Fails e, event) \<Rightarrow> dispatch_loop hs event (if first_err = None then Some e else first_err)
      | (Panics, event) \<Rightarrow> (Panics, event))"

definition dispatch :: "handler_registry \<Rightarrow> domain_event \<Rightarrow> string option outcome \<times> domain_event" where
  "dispatch r event =
     (case r (ev_type event) of
        None \<Rightarrow> (Returns None, event)
      | Some hs \<Rightarrow> if hs = [] then (Returns None, event) else dispatch_loop hs event None)"

section \<open>A poll cycle\<close>

text \<open>The result of \<open>PollOnce\<close> is the pair of its count and its error; \<open>elapsed\<close> gives the handler
  time in milliseconds. \<open>ms\<close> accumulates the metric events.\<close>

fun consume_loop ::
  "'s event_store \<Rightarrow> bus_config \<Rightarrow> handler_registry \<Rightarrow> (domain_event \<Rightarrow> f64) \<Rightarrow> domain_event list \<Rightarrow>
   int \<Rightarrow> 's \<Rightarrow> metric_event list \<Rightarrow> (int \<times> string option) outcome \<times> 's \<times> metric_event list" where
  "consume_loop st cfg reg elapsed [] processed s ms = (Returns (processed, None), s, ms)"
| "consume_loop st cfg reg elapsed (event # events) processed s ms =
     (let channel = channel_of event
      in case dispatch reg event of
           (Returns None, event) \<Rightarrow>
             (let ms = ms @ [consume_time channel (ev_type event) (elapsed event)]
              in case so_mark_processed st (ev_id event) s of
                   (Returns _, s) \<Rightarrow>
                     consume_loop st cfg reg elapsed events (processed + 1) s
                       (ms @ [consumed channel (ev_type event)])
                 | (Fails e, s) \<Rightarrow>
                     (Returns (processed, Some (''eventbus: ack '' @ ev_id event @ '': '' @ e)), s,
                      ms @ [failed channel (ev_type event) ''ack_error''])
                 | (Panics, s) \<Rightarrow> (Panics, s, ms))
         | (Returns (Some e), event) \<Rightarrow>
             (let ms = ms @ [consume_time channel (ev_type event) (elapsed event)];
                  attempt = wrap64 (ev_attempt event + 1);
                  max_retries = bc_max_retries cfg
              in case so_mark_failed st (ev_id event) attempt (Some e) max_retries s of
                   (Panics, s) \<Rightarrow> (Panics, s, ms)
                 | (r, s) \<Rightarrow>
                     (let ms = ms @ (if r \<noteq> Returns () then []
                                     else if attempt \<ge> max_retries
                                     then [dead_lettered channel (ev_type event)]
                                     else [retried channel (ev_type event) attempt])
                      in consume_loop st cfg reg elapsed events processed s
                           (ms @ [failed channel (ev_type event) ''handler_error''])))
         | (_, event) \<Rightarrow> (Panics, s, ms))"

definition poll_once ::
  "'s event_store \<Rightarrow> bus_config \<Rightarrow> handler_registry \<Rightarrow> (domain_event \<Rightarrow> f64) \<Rightarrow> string \<Rightarrow> 's \<Rightarrow>
   (int \<times> string option) outcome \<times> 's \<times> metric_event list" where
  "poll_once st cfg reg elapsed event_type s =
     (case so_poll st event_type 10 s of
        (Panics, s) \<Rightarrow> (Panics, s, [])
      | (Fails e, s) \<Rightarrow> (Returns (0, Some (''eventbus: poll '' @ event_type @ '': '' @ e)), s, [])
      | (Returns events, s) \<Rightarrow>
          if events = [] then (Returns (0, None), s, [])
          else (case consume_loop st cfg reg elapsed events 0 s [] of
                  (r, s, ms) \<Rightarrow> (r, s, record_metrics (bc_metrics_recorder cfg) ms)))"

section \<open>No event is lost\<close>

text \<open>Handlers may change what they like of an event but its identifier and attempt count, and
  return.\<close>

definition keeps :: "handler \<Rightarrow> bool" where
  "keeps h \<longleftrightarrow> (\<forall>e r e'. h e = (r, e') \<longrightarrow>
     r \<noteq> Panics \<and> ev_id e' = ev_id e \<and> ev_attempt e' = ev_attempt e)"

definition handlers_keep :: "handler_registry \<Rightarrow> bool" where
  "handlers_keep reg \<longleftrightarrow> (\<forall>ty hs h. reg ty = Some hs \<and> h \<in> set hs \<longrightarrow> keeps h)"

text \<open>The specification of a cycle for one event it was given: \<open>p\<close> is what is pending under its
  identifier afterwards, \<open>d0\<close> and \<open>d\<close> what the dead letters held before and hold after.\<close>

definition handled :: "handler_registry \<Rightarrow> domain_event \<Rightarrow> bool" where
  "handled reg e \<longleftrightarrow> fst (dispatch reg e) = Returns None"

definition settled ::
  "handler_registry \<Rightarrow> int \<Rightarrow> domain_event \<Rightarrow> domain_event option \<Rightarrow> domain_event option \<Rightarrow>
   domain_event option \<Rightarrow> bool" where
  "settled reg max_retries e p d0 d \<longleftrightarrow>
     (let attempt = wrap64 (ev_attempt e + 1)
      in if handled reg e then p = None \<and> d = d0
         else \<exists>e'. content e' = content e \<and> ev_attempt e' = attempt \<and>
                (if max_retries \<le> attempt then p = None \<and> d = Some e' else p = Some e' \<and> d = d0))"

lemma dispatch_loop_keeps:
  "dispatch_loop hs e err = (r, e') \<Longrightarrow> \<forall>h \<in> set hs. keeps h \<Longrightarrow>
   (\<exists>x. r = Returns x) \<and> ev_id e' = ev_id e \<and> ev_attempt e' = ev_attempt e"
proof (induction hs arbitrary: e err)
  case (Cons h hs)
  obtain r1 e1 where h: "h e = (r1, e1)" by fastforce
  moreover have "keeps h" using Cons.prems(2) by simp
  ultimately have keep: "r1 \<noteq> Panics" "ev_id e1 = ev_id e" "ev_attempt e1 = ev_attempt e"
    unfolding keeps_def by blast+
  then obtain err1 where run: "dispatch_loop hs e1 err1 = (r, e')"
    using Cons.prems(1) h by (cases r1) auto
  have "\<forall>h \<in> set hs. keeps h" using Cons.prems(2) by simp
  from Cons.IH [OF run this] keep show ?case by simp
qed auto

lemma dispatch_keeps:
  assumes "handlers_keep reg" "dispatch reg e = (r, e')"
  shows "(\<exists>x. r = Returns x) \<and> ev_id e' = ev_id e \<and> ev_attempt e' = ev_attempt e"
proof (cases "reg (ev_type e)")
  case (Some hs)
  then have "\<forall>h \<in> set hs. keeps h" using assms(1) by (auto simp: handlers_keep_def)
  with assms(2) Some show ?thesis
    using dispatch_loop_keeps [of hs e None r e'] by (auto simp: dispatch_def split: if_splits)
qed (use assms(2) in \<open>auto simp: dispatch_def\<close>)

text \<open>What the metrics of a cycle tell of one event: how many events of each name they hold.\<close>

definition tally :: "string \<Rightarrow> metric_event list \<Rightarrow> nat" where
  "tally name ms = length (filter (\<lambda>m. mt_name m = name) ms)"

lemma tally_simps [simp]:
  "tally name [] = 0" "tally name (ms @ ms') = tally name ms + tally name ms'"
  "tally name (m # ms) = (if mt_name m = name then Suc (tally name ms) else tally name ms)"
  by (simp_all add: tally_def)

definition told :: "handler_registry \<Rightarrow> int \<Rightarrow> domain_event \<Rightarrow> metric_event list \<Rightarrow> bool" where
  "told reg max_retries e ms \<longleftrightarrow>
     (let given_up = (max_retries \<le> wrap64 (ev_attempt e + 1)) in
      tally ''eventbus.published'' ms = 0 \<and>
      tally ''eventbus.consumed'' ms = (if handled reg e then 1 else 0) \<and>
      tally ''eventbus.failed'' ms = (if handled reg e then 0 else 1) \<and>
      tally ''eventbus.dlq'' ms = (if \<not> handled reg e \<and> given_up then 1 else 0) \<and>
      tally ''eventbus.retried'' ms = (if \<not> handled reg e \<and> \<not> given_up then 1 else 0))"

lemmas metric_names = published_def consumed_def failed_def retried_def dead_lettered_def dlq_size_def
  publish_time_def consume_time_def counter_event_def

context event_store_laws
begin

definition batch_settled ::
  "handler_registry \<Rightarrow> int \<Rightarrow> domain_event list \<Rightarrow> 's \<Rightarrow> 's \<Rightarrow> bool" where
  "batch_settled reg m es s s' \<longleftrightarrow>
     (\<forall>e. e \<in> set es \<longrightarrow>
        settled reg m e (pending s' (ev_id e)) (dead s (ev_id e)) (dead s' (ev_id e))) \<and>
     (\<forall>i. i \<notin> ev_id ` set es \<longrightarrow> pending s' i = pending s i \<and> dead s' i = dead s i)"

text \<open>One event of the batch: the loop goes on with the rest of it, the event settled and the
  others untouched.\<close>

lemma consume_one:
  assumes "ok s" "pending s (ev_id e) = Some e" "handlers_keep reg"
    and "consume_loop st cfg reg elapsed (e # es) n s ms = (r, s', ms')"
  obtains s1 d where "ok s1" "batch_settled reg (bc_max_retries cfg) [e] s s1" "told reg (bc_max_retries cfg) e d"
    "consume_loop st cfg reg elapsed es (if handled reg e then n + 1 else n) s1 (ms @ d) = (r, s', ms')"
proof -
  obtain x e1 where d: "dispatch reg e = (x, e1)" by fastforce
  with dispatch_keeps [OF assms(3) d] obtain err
    where x: "dispatch reg e = (Returns err, e1)" "ev_id e1 = ev_id e" "ev_attempt e1 = ev_attempt e"
    by auto
  let ?time = "consume_time (channel_of e) (ev_type e1) (elapsed e1)"
  show ?thesis
  proof (cases err)
    case None
    obtain q s1 where mp: "so_mark_processed st (ev_id e) s = (q, s1)" by fastforce
    from processed_law [OF assms(1) mp] assms(2)
    have law: "ok s1" "q = Returns ()" "dead s1 = dead s" "pending s1 = (pending s)(ev_id e := None)"
      by (auto split: if_splits)
    have h: "handled reg e" using x None by (simp add: handled_def)
    show ?thesis
    proof (rule that [of s1 "[?time, consumed (channel_of e) (ev_type e1)]"])
      show "batch_settled reg (bc_max_retries cfg) [e] s s1"
        using h law by (simp add: batch_settled_def settled_def Let_def)
      show "told reg (bc_max_retries cfg) e [?time, consumed (channel_of e) (ev_type e1)]"
        using h by (simp add: told_def metric_names)
    qed (use law h assms(4) x mp None in \<open>simp_all add: Let_def\<close>)
  next
    case (Some msg)
    let ?a = "wrap64 (ev_attempt e + 1)"
    let ?d = "[?time, if bc_max_retries cfg \<le> ?a then dead_lettered (channel_of e) (ev_type e1)
      else retried (channel_of e) (ev_type e1) ?a, failed (channel_of e) (ev_type e1) ''handler_error'']"
    obtain q s1 where mf: "so_mark_failed st (ev_id e) ?a (Some msg) (bc_max_retries cfg) s = (q, s1)"
      by fastforce
    from failed_law [OF assms(1) mf] assms(2) obtain e' where law: "ok s1" "q = Returns ()"
      "content e' = content e" "ev_attempt e' = ?a"
      "if bc_max_retries cfg \<le> ?a then pending s1 = (pending s)(ev_id e := None) \<and> dead s1 = (dead s)(ev_id e \<mapsto> e')
       else pending s1 = (pending s)(ev_id e \<mapsto> e') \<and> dead s1 = dead s" by auto
    have h: "\<not> handled reg e" using x Some by (simp add: handled_def)
    show ?thesis
    proof (rule that [of s1 ?d])
      show "batch_settled reg (bc_max_retries cfg) [e] s s1"
        using h law by (auto simp: batch_settled_def settled_def Let_def split: if_splits)
      show "told reg (bc_max_retries cfg) e ?d" using h by (simp add: told_def metric_names)
    qed (use law(1,2) h assms(4) x mf Some in \<open>simp_all add: Let_def split: if_splits\<close>)
  qed
qed

lemma batch_settled_Cons:
  assumes "batch_settled reg m [e] s s1" "batch_settled reg m es s1 s'" "ev_id e \<notin> ev_id ` set es"
  shows "batch_settled reg m (e # es) s s'"
proof -
  have first: "settled reg m e (pending s1 (ev_id e)) (dead s (ev_id e)) (dead s1 (ev_id e))"
    and same1: "\<And>i. i \<noteq> ev_id e \<Longrightarrow> pending s1 i = pending s i \<and> dead s1 i = dead s i"
    using assms(1) by (simp_all add: batch_settled_def)
  have rest: "\<And>x. x \<in> set es \<Longrightarrow> settled reg m x (pending s' (ev_id x)) (dead s1 (ev_id x)) (dead s' (ev_id x))"
    and same2: "\<And>i. i \<notin> ev_id ` set es \<Longrightarrow> pending s' i = pending s1 i \<and> dead s' i = dead s1 i"
    using assms(2) by (simp_all add: batch_settled_def)
  have "settled reg m x (pending s' (ev_id x)) (dead s (ev_id x)) (dead s' (ev_id x))" if "x \<in> set (e # es)" for x
  proof (cases "x \<in> set es")
    case True
    with assms(3) have "ev_id x \<noteq> ev_id e" by (metis imageI)
    with rest [OF True] same1 show ?thesis by simp
  next
    case False
    with that first same2 [OF assms(3)] show ?thesis by simp
  qed
  moreover have "pending s' i = pending s i \<and> dead s' i = dead s i" if "i \<notin> ev_id ` set (e # es)" for i
    using that same1 [of i] same2 [of i] by simp
  ultimately show ?thesis by (simp add: batch_settled_def)
qed

lemma consume_loop_settles:
  assumes "ok s" "distinct (map ev_id es)" "\<And>e. e \<in> set es \<Longrightarrow> pending s (ev_id e) = Some e"
    and "handlers_keep reg" "consume_loop st cfg reg elapsed es n s ms = (r, s', ms')"
  shows "ok s' \<and> r = Returns (n + int (length (filter (handled reg) es)), None) \<and>
    batch_settled reg (bc_max_retries cfg) es s s'"
  using assms
proof (induction es arbitrary: n s ms)
  case Nil
  then show ?case by (simp add: batch_settled_def)
next
  case (Cons e es)
  have "pending s (ev_id e) = Some e" using Cons.prems(3) by simp
  from consume_one [OF Cons.prems(1) this Cons.prems(4,5)] obtain s1 d
    where s1: "ok s1" "batch_settled reg (bc_max_retries cfg) [e] s s1"
      "consume_loop st cfg reg elapsed es (if handled reg e then n + 1 else n) s1 (ms @ d) = (r, s', ms')"
    by metis
  have new: "ev_id e \<notin> ev_id ` set es" and dist: "distinct (map ev_id es)"
    using Cons.prems(2) by simp_all
  have "pending s1 (ev_id x) = Some x" if "x \<in> set es" for x
  proof -
    have "ev_id x \<noteq> ev_id e" using new that by (metis imageI)
    with s1(2) Cons.prems(3) [of x] that show ?thesis by (simp add: batch_settled_def)
  qed
  from Cons.IH [OF s1(1) dist this Cons.prems(4) s1(3)] batch_settled_Cons [OF s1(2) _ new]
  show ?case by auto
qed

text \<open>One event of a batch whatever became of it in the store meanwhile: the lease may have run out, and
  another consumer may have taken the event.\<close>

lemma consume_single:
  assumes "ok s" "handlers_keep reg" "consume_loop st cfg reg elapsed [e] n s ms = (r, s', ms')"
  shows "ok s' \<and>
    (if handled reg e then pending s' = (pending s)(ev_id e := None) \<and> dead s' = dead s
     else (case pending s (ev_id e) of
         None \<Rightarrow> pending s' = pending s \<and> dead s' = dead s
       | Some p \<Rightarrow> \<exists>e'. content e' = content p \<and> ev_attempt e' = wrap64 (ev_attempt e + 1) \<and>
           (if bc_max_retries cfg \<le> wrap64 (ev_attempt e + 1)
            then pending s' = (pending s)(ev_id e := None) \<and> dead s' = (dead s)(ev_id e \<mapsto> e')
            else pending s' = (pending s)(ev_id e \<mapsto> e') \<and> dead s' = dead s)))"
proof -
  obtain x e1 where d: "dispatch reg e = (x, e1)" by fastforce
  with dispatch_keeps [OF assms(2) d] obtain err
    where x: "dispatch reg e = (Returns err, e1)" "ev_id e1 = ev_id e" "ev_attempt e1 = ev_attempt e" by auto
  show ?thesis
  proof (cases err)
    case None
    obtain q s1 where mp: "so_mark_processed st (ev_id e) s = (q, s1)" by fastforce
    have "s' = s1" using assms(3) x mp None by (cases q) (simp_all add: Let_def)
    with processed_law [OF assms(1) mp] x(1) None show ?thesis by (auto simp: handled_def fun_upd_idem split: if_splits)
  next
    case (Some msg)
    let ?a = "wrap64 (ev_attempt e + 1)"
    obtain q s1 where mf: "so_mark_failed st (ev_id e) ?a (Some msg) (bc_max_retries cfg) s = (q, s1)" by fastforce
    have "s' = s1" using assms(3) x mf Some by (cases q) (simp_all add: Let_def)
    with failed_law [OF assms(1) mf] x(1) Some show ?thesis by (auto simp: handled_def split: option.splits)
  qed
qed

text \<open>A cycle in which the poll returned the batch \<open>es\<close>.\<close>

lemma poll_once_settles:
  assumes "ok s" "handlers_keep reg" "poll_once st cfg reg elapsed ty s = (r, s', ms)"
    and "so_poll st ty 10 s = (Returns es, s1)"
  shows "ok s' \<and> r = Returns (int (length (filter (handled reg) es)), None) \<and>
    batch_settled reg (bc_max_retries cfg) es s s'"
proof -
  from poll_law [OF assms(1,4)] have law: "ok s1" "pending s1 = pending s" "dead s1 = dead s"
    "distinct (map ev_id es)" "\<And>e. e \<in> set es \<Longrightarrow> pending s (ev_id e) = Some e" by auto
  obtain r1 s2 ms2 where loop: "consume_loop st cfg reg elapsed es 0 s1 [] = (r1, s2, ms2)"
    by (metis prod_cases3)
  have p: "\<And>e. e \<in> set es \<Longrightarrow> pending s1 (ev_id e) = Some e" using law by simp
  from consume_loop_settles [OF law(1) law(4) p assms(2) loop]
  have l: "ok s2" "r1 = Returns (int (length (filter (handled reg) es)), None)"
    "batch_settled reg (bc_max_retries cfg) es s1 s2" by auto
  have "r = r1" "s' = s2" using assms(3,4) loop l(2) by (auto simp: poll_once_def split: if_splits)
  with l law show ?thesis by (simp add: batch_settled_def)
qed

lemma poll_once_fails:
  assumes "ok s" "poll_once st cfg reg elapsed ty s = (r, s', ms)"
    and "so_poll st ty 10 s = (p, s1)" "\<And>es. p \<noteq> Returns es"
  shows "ok s' \<and> pending s' = pending s \<and> dead s' = dead s \<and> (r = Panics \<or> (\<exists>m. r = Returns (0, Some m)))"
  using poll_law [OF assms(1,3)] assms(2-4) by (cases p) (auto simp: poll_once_def)

lemma publish_saves:
  assumes "ok s" "publish st cfg fresh now elapsed p s = (r, s', ms)"
  shows "ok s' \<and> dead s' = dead s \<and>
    (if r = Returns ()
     then \<exists>e e'. p = Some e \<and> content e' = content (prepare fresh now e) \<and>
       ev_attempt e' = ev_attempt e \<and> pending s' = (pending s)(ev_id (prepare fresh now e) \<mapsto> e')
     else pending s' = pending s)"
proof (cases "\<exists>e. p = Some e \<and> ev_type e \<noteq> []")
  case True
  then obtain e where e: "p = Some e" "ev_type e \<noteq> []" by blast
  obtain q s1 where sv: "so_save st (Some (prepare fresh now e)) s = (q, s1)" by fastforce
  have "s' = s1" "r = Returns () \<longleftrightarrow> q = Returns ()"
    using assms(2) e sv by (auto simp: publish_def Let_def split: outcome.splits)
  moreover have "ev_attempt (prepare fresh now e) = ev_attempt e" by (simp add: prepare_def Let_def)
  ultimately show ?thesis using save_law [OF assms(1) sv] e(1) by auto
next
  case False
  with assms(2) have "s' = s" "r \<noteq> Returns ()" by (auto simp: publish_def split: option.splits if_splits)
  with assms(1) show ?thesis by simp
qed

end

section \<open>Runs of the bus\<close>

text \<open>C18: A poll cycle over the in-memory store settles every event it was given and touches no other.
  The handlers decide: after success the event is acknowledged and gone; after an error its
  attempt is counted and it stays pending with its content, or, when that was the last attempt,
  it is a dead letter. The cycle reports how many succeeded, and no error.\<close>

theorem no_event_is_lost:
  assumes "mem_ok s" "env_sane env" "handlers_keep reg"
    and "poll env ty 10 s = (Returns es, s1)"
    and "poll_once (memory_store env) cfg reg elapsed ty s = (r, s', ms)"
  shows "r = Returns (int (length (filter (handled reg) es)), None) \<and> mem_ok s' \<and>
    (\<forall>e \<in> set es. pending s (ev_id e) = Some e \<and>
       settled reg (bc_max_retries cfg) e (pending s' (ev_id e)) (ms_dlq s (ev_id e)) (ms_dlq s' (ev_id e))) \<and>
    (\<forall>i. i \<notin> ev_id ` set es \<longrightarrow> pending s' i = pending s i \<and> ms_dlq s' i = ms_dlq s i)"
proof -
  have ok: "mem_ok s \<and> env_sane env" using assms(1,2) by simp
  have p: "so_poll (memory_store env) ty 10 s = (Returns es, s1)"
    using assms(4) by (simp add: memory_store_def)
  show ?thesis
    using memory.poll_once_settles [OF ok assms(3,5) p] memory.poll_law [OF ok p]
    by (auto simp: memory.batch_settled_def)
qed

text \<open>The loop of \<open>PollOnce\<close> is its body for one event after the other, until one of them ends it.\<close>

definition goes_on :: "(int \<times> string option) outcome \<Rightarrow> bool" where
  "goes_on r \<longleftrightarrow> (case r of Returns (n, None) \<Rightarrow> True | _ \<Rightarrow> False)"

lemma consume_loop_step:
  "consume_loop st cfg reg elapsed (e # es) n s ms =
     (case consume_loop st cfg reg elapsed [e] n s ms of
        (Returns (n, None), s, ms) \<Rightarrow> consume_loop st cfg reg elapsed es n s ms
      | (r, s, ms) \<Rightarrow> (r, s, ms))"
  by (auto simp: Let_def split: prod.split outcome.split option.split)

text \<open>
  A run of the bus over the in-memory store, with any clock, order and random source at each
  step. \<open>pub\<close> are the identifiers published with success, \<open>acked\<close> those of the events that
  their handlers took, and \<open>work c\<close> the events that the consumer \<open>c\<close> polled and has not worked through.
  Any number of consumers run, each in steps: it polls, and then dispatches and acknowledges, retries or
  gives up one event after the other; other consumers and publishers act in between, a handler may take longer
  than the lease, a consumer may crash and leave the rest of its batch, and the store may be closed.
  Publishers give events that were not attempted. \<open>MoveToDLQ\<close>, which nothing in the repository calls,
  is no step.
\<close>

inductive bus_run ::
  "bus_config \<Rightarrow> handler_registry \<Rightarrow> mem_store \<Rightarrow> (nat \<Rightarrow> domain_event list) \<Rightarrow> string set \<Rightarrow> string set \<Rightarrow> bool"
  for cfg reg where
  empty: "bus_run cfg reg new_store (\<lambda>_. []) {} {}"
| publishes: "bus_run cfg reg s work pub acked \<Longrightarrow> env_sane env \<Longrightarrow> ev_attempt e = 0 \<Longrightarrow>
    publish (memory_store env) cfg fresh now elapsed (Some e) s = (r, s', ms) \<Longrightarrow>
    bus_run cfg reg s' work
      (if r = Returns () then insert (ev_id (prepare fresh now e)) pub else pub) acked"
| publishes_batch: "bus_run cfg reg s work pub acked \<Longrightarrow> env_sane env \<Longrightarrow> (\<And>e. Some e \<in> set es \<Longrightarrow> ev_attempt e = 0) \<Longrightarrow>
    publish_batch (memory_store env) cfg freshes now elapsed es s = (r, s', ms) \<Longrightarrow>
    bus_run cfg reg s' work
      (if r = Returns () then pub \<union> {ev_id e | e. Some e \<in> set (prepare_all freshes 0 now es)} else pub) acked"
| polls: "bus_run cfg reg s work pub acked \<Longrightarrow> env_sane env \<Longrightarrow> work c = [] \<Longrightarrow>
    poll env ty 10 s = (Returns es, s') \<Longrightarrow>
    bus_run cfg reg s' (work(c := es)) pub acked"
| handles: "bus_run cfg reg s work pub acked \<Longrightarrow> env_sane env \<Longrightarrow> work c = e # es \<Longrightarrow>
    consume_loop (memory_store env) cfg reg elapsed_of [e] n s ms = (r, s', ms') \<Longrightarrow>
    bus_run cfg reg s' (work(c := if goes_on r then es else [])) pub
      (if handled reg e then insert (ev_id e) acked else acked)"
| crashes: "bus_run cfg reg s work pub acked \<Longrightarrow> bus_run cfg reg s (work(c := [])) pub acked"
| closes: "bus_run cfg reg s work pub acked \<Longrightarrow> bus_run cfg reg (close_store s) work pub acked"

text \<open>An undisturbed cycle of \<open>PollOnce\<close> is such a run.\<close>

lemma bus_loop:
  assumes "handlers_keep reg" "env_sane env"
  shows "mem_ok s \<Longrightarrow> distinct (map ev_id es) \<Longrightarrow> (\<And>e. e \<in> set es \<Longrightarrow> pending s (ev_id e) = Some e) \<Longrightarrow>
    bus_run cfg reg s (work(c := es)) pub acked \<Longrightarrow>
    consume_loop (memory_store env) cfg reg elapsed_of es n s ms = (r, s', ms') \<Longrightarrow>
    bus_run cfg reg s' (work(c := [])) pub (acked \<union> ev_id ` {e \<in> set es. handled reg e})"
proof (induction es arbitrary: s n ms acked)
  case (Cons e es)
  let ?st = "memory_store env" and ?acked = "if handled reg e then insert (ev_id e) acked else acked"
  obtain r1 s1 ms1 where one: "consume_loop ?st cfg reg elapsed_of [e] n s ms = (r1, s1, ms1)" by (metis prod_cases3)
  have ok: "mem_ok s \<and> env_sane env" and p: "pending s (ev_id e) = Some e" using Cons.prems assms(2) by simp_all
  obtain t d where t: "mem_ok t \<and> env_sane env" "memory.batch_settled reg (bc_max_retries cfg) [e] s t"
    "consume_loop ?st cfg reg elapsed_of [] (if handled reg e then n + 1 else n) t (ms @ d) = (r1, s1, ms1)"
    by (rule memory.consume_one [OF ok p assms(1) one])
  then have s1: "mem_ok s1" "memory.batch_settled reg (bc_max_retries cfg) [e] s s1"
    "r1 = Returns (if handled reg e then n + 1 else n, None)" by simp_all
  have "bus_run cfg reg s1 ((work(c := e # es))(c := if goes_on r1 then es else [])) pub ?acked"
    by (rule bus_run.handles [OF Cons.prems(4) assms(2) _ one]) simp
  then have run: "bus_run cfg reg s1 (work(c := es)) pub ?acked" using s1(3) by (simp add: goes_on_def)
  have new: "ev_id e \<notin> ev_id ` set es" and dist: "distinct (map ev_id es)" using Cons.prems(2) by simp_all
  have pend: "pending s1 (ev_id x) = Some x" if "x \<in> set es" for x
  proof -
    have "ev_id x \<noteq> ev_id e" using new that by (metis imageI)
    with s1(2) Cons.prems(3) [of x] that show ?thesis by (simp add: memory.batch_settled_def)
  qed
  have "consume_loop ?st cfg reg elapsed_of es (if handled reg e then n + 1 else n) s1 ms1 = (r, s', ms')"
    using Cons.prems(5) unfolding consume_loop_step [of _ _ _ _ e es] one s1(3) by simp
  from Cons.IH [OF s1(1) dist pend run this]
  have "bus_run cfg reg s' (work(c := [])) pub (?acked \<union> ev_id ` {e \<in> set es. handled reg e})" .
  moreover have "?acked \<union> ev_id ` {e \<in> set es. handled reg e} = acked \<union> ev_id ` {x \<in> set (e # es). handled reg x}"
    by auto
  ultimately show ?case by (simp only:)
qed simp

lemma bus_cycle:
  assumes "bus_run cfg reg s work pub acked" "handlers_keep reg" "env_sane env" "mem_ok s" "work c = []"
    and "poll env ty 10 s = (Returns es, s1)" "poll_once (memory_store env) cfg reg elapsed_of ty s = (r, s', ms)"
  shows "bus_run cfg reg s' work pub (acked \<union> ev_id ` {e \<in> set es. handled reg e})"
proof -
  have p: "so_poll (memory_store env) ty 10 s = (Returns es, s1)" using assms(6) by (simp add: memory_store_def)
  have "mem_ok s \<and> env_sane env" using assms(3,4) by simp
  from memory.poll_law [OF this p] have law: "mem_ok s1" "pending s1 = pending s" "distinct (map ev_id es)"
    "\<And>e. e \<in> set es \<Longrightarrow> pending s1 (ev_id e) = Some e" by auto
  have run: "bus_run cfg reg s1 (work(c := es)) pub acked" by (rule bus_run.polls [OF assms(1,3,5,6)])
  have same: "work(c := []) = work" using assms(5) by auto
  show ?thesis
  proof (cases "es = []")
    case True
    with assms(7) p run same show ?thesis by (simp add: poll_once_def)
  next
    case False
    then obtain r1 ms1 where "consume_loop (memory_store env) cfg reg elapsed_of es 0 s1 [] = (r1, s', ms1)"
      using assms(7) p by (auto simp: poll_once_def split: prod.splits)
    from bus_loop [OF assms(2,3) law(1,3,4) run this] same show ?thesis by simp
  qed
qed

definition accounted :: "bus_config \<Rightarrow> mem_store \<Rightarrow> string set \<Rightarrow> string set \<Rightarrow> bool" where
  "accounted cfg s pub acked \<longleftrightarrow>
     mem_ok s \<and> pub \<subseteq> dom (pending s) \<union> dom (ms_dlq s) \<union> acked \<and>
     (\<forall>i e. pending s i = Some e \<longrightarrow> 0 \<le> ev_attempt e \<and> ev_attempt e < bc_max_retries cfg) \<and>
     (\<forall>i e. ms_dlq s i = Some e \<longrightarrow> ev_attempt e = bc_max_retries cfg)"

lemma accounted_publish:
  assumes "accounted cfg s pub acked" "env_sane env" "ev_attempt e = 0" "0 < bc_max_retries cfg"
    and "publish (memory_store env) cfg fresh now elapsed (Some e) s = (r, s', ms)"
  shows "accounted cfg s' (if r = Returns () then insert (ev_id (prepare fresh now e)) pub else pub) acked"
proof -
  have ok: "mem_ok s \<and> env_sane env" using assms(1,2) by (simp add: accounted_def)
  from memory.publish_saves [OF ok assms(5)] assms(1,3,4) show ?thesis
    by (cases "r = Returns ()") (auto simp: accounted_def split: if_splits)
qed

text \<open>What settling does to the attempts of one event, and that it stays in sight.\<close>

lemma settled_bounds:
  assumes "settled reg m e p d0 d" "0 \<le> ev_attempt e" "ev_attempt e < m" "m < 2 ^ 63"
  shows "\<And>e'. p = Some e' \<Longrightarrow> 0 \<le> ev_attempt e' \<and> ev_attempt e' < m"
    "\<And>e'. d = Some e' \<Longrightarrow> d0 = Some e' \<or> ev_attempt e' = m"
    "handled reg e \<or> p \<noteq> None \<or> d \<noteq> None"
proof -
  have "wrap64 (ev_attempt e + 1) = ev_attempt e + 1"
    using assms(2-4) by (intro wrap64_id) (auto simp: int64_range_def)
  with assms show "\<And>e'. p = Some e' \<Longrightarrow> 0 \<le> ev_attempt e' \<and> ev_attempt e' < m"
    "\<And>e'. d = Some e' \<Longrightarrow> d0 = Some e' \<or> ev_attempt e' = m"
    "handled reg e \<or> p \<noteq> None \<or> d \<noteq> None"
    by (auto simp: settled_def Let_def split: if_splits)
qed

lemma accounted_mono: "accounted cfg s pub acked \<Longrightarrow> pub' \<subseteq> pub \<Longrightarrow> acked \<subseteq> acked' \<Longrightarrow> accounted cfg s pub' acked'"
  unfolding accounted_def by blast

lemma accounted_save_all:
  assumes "env_sane env" "0 < bc_max_retries cfg"
  shows "accounted cfg s pub acked \<Longrightarrow> (\<And>e. Some e \<in> set ps \<Longrightarrow> ev_attempt e = 0) \<Longrightarrow>
    save_all (save env) ps s = (r, s') \<Longrightarrow>
    accounted cfg s' (if r = Returns () then pub \<union> {ev_id e | e. Some e \<in> set ps} else pub) acked"
proof (induction ps arbitrary: s pub)
  case (Cons p ps)
  show ?case
  proof (cases p)
    case None
    obtain r1 where r1: "save env None s = (r1, s)" "r1 \<noteq> Returns ()"
      by (cases "ms_closed s") (simp_all add: save_def)
    with Cons.prems(3) None have "r = r1" "s' = s" by (cases r1; simp)+
    with Cons.prems(1) r1(2) show ?thesis by simp
  next
    case (Some e)
    obtain r1 s1 where s1: "save env (Some e) s = (r1, s1)" by fastforce
    have ok: "mem_ok s \<and> env_sane env" using Cons.prems(1) assms(1) by (simp add: accounted_def)
    have zero: "ev_attempt e = 0" using Cons.prems(2) Some by simp
    have "so_save (memory_store env) (Some e) s = (r1, s1)" using s1 by (simp add: memory_store_def)
    from memory.save_law [OF ok this] Cons.prems(1) zero assms(2)
    have acc: "accounted cfg s1 (if r1 = Returns () then insert (ev_id e) pub else pub) acked"
      by (cases "r1 = Returns ()") (auto simp: accounted_def split: if_splits)
    show ?thesis
    proof (cases "r1 = Returns ()")
      case True
      with Cons.prems(3) s1 Some have run: "save_all (save env) ps s1 = (r, s')" by simp
      from acc True have acc: "accounted cfg s1 (insert (ev_id e) pub) acked" by simp
      have "accounted cfg s' (if r = Returns () then insert (ev_id e) pub \<union> {ev_id e | e. Some e \<in> set ps}
          else insert (ev_id e) pub) acked"
        by (rule Cons.IH [OF acc _ run]) (use Cons.prems(2) in simp)
      then show ?thesis by (rule accounted_mono) (auto simp: Some)
    next
      case False
      with Cons.prems(3) s1 Some have "r = r1" "s' = s1" by (cases r1; simp)+
      with acc False show ?thesis by simp
    qed
  qed
qed (simp add: accounted_def)

lemma prepare_all_attempts:
  "(\<And>e. Some e \<in> set es \<Longrightarrow> ev_attempt e = 0) \<Longrightarrow> Some e \<in> set (prepare_all fresh i now es) \<Longrightarrow> ev_attempt e = 0"
proof (induction es arbitrary: i)
  case (Cons p es)
  have "ev_attempt (prepare f now x) = ev_attempt x" for f x by (simp add: prepare_def Let_def)
  with Cons show ?case by (cases p) auto
qed simp

lemma accounted_batch:
  assumes "accounted cfg s pub acked" "env_sane env" "\<And>e. Some e \<in> set es \<Longrightarrow> ev_attempt e = 0" "0 < bc_max_retries cfg"
    and run: "publish_batch (memory_store env) cfg fresh now elapsed es s = (r, s', ms)"
  shows "accounted cfg s'
    (if r = Returns () then pub \<union> {ev_id e | e. Some e \<in> set (prepare_all fresh 0 now es)} else pub) acked"
proof (cases "es = []")
  case True
  with assms(1) run show ?thesis by (simp add: publish_batch_def)
next
  case False
  obtain r1 s1 where s1: "save_all (save env) (prepare_all fresh 0 now es) s = (r1, s1)" by fastforce
  have "accounted cfg s1 (if r1 = Returns () then pub \<union> {ev_id e | e. Some e \<in> set (prepare_all fresh 0 now es)} else pub) acked"
    by (rule accounted_save_all [OF assms(2,4,1) _ s1]) (rule prepare_all_attempts [OF assms(3)])
  moreover have "s' = s1" "r = Returns () \<longrightarrow> r1 = Returns ()"
    using run s1 False by (cases r1; force simp: publish_batch_def memory_store_def split: prod.splits)+
  ultimately show ?thesis by (auto elim: accounted_mono)
qed

text \<open>The events that a consumer holds have attempts left, as they had when it polled them.\<close>

definition work_ok :: "bus_config \<Rightarrow> (nat \<Rightarrow> domain_event list) \<Rightarrow> bool" where
  "work_ok cfg work \<longleftrightarrow> (\<forall>c. \<forall>e \<in> set (work c). 0 \<le> ev_attempt e \<and> ev_attempt e < bc_max_retries cfg)"

lemma accounted_single:
  assumes "accounted cfg s pub acked" "env_sane env" "handlers_keep reg" "bc_max_retries cfg < 2 ^ 63"
    and "0 \<le> ev_attempt e" "ev_attempt e < bc_max_retries cfg"
    and run: "consume_loop (memory_store env) cfg reg elapsed [e] n s ms = (r, s', ms')"
  shows "accounted cfg s' pub (if handled reg e then insert (ev_id e) acked else acked)"
proof -
  have ok: "mem_ok s \<and> env_sane env" using assms(1,2) by (simp add: accounted_def)
  have a: "wrap64 (ev_attempt e + 1) = ev_attempt e + 1"
    using assms(4-6) by (intro wrap64_id) (auto simp: int64_range_def)
  note step = memory.consume_single [OF ok assms(3) run, unfolded a]
  show ?thesis
  proof (cases "handled reg e \<or> pending s (ev_id e) = None")
    case True
    with step assms(1) show ?thesis by (auto simp: accounted_def split: if_splits)
  next
    case False
    with step obtain e' where "mem_ok s'" "ev_attempt e' = ev_attempt e + 1"
      "if bc_max_retries cfg \<le> ev_attempt e + 1
       then pending s' = (pending s)(ev_id e := None) \<and> ms_dlq s' = (ms_dlq s)(ev_id e \<mapsto> e')
       else pending s' = (pending s)(ev_id e \<mapsto> e') \<and> ms_dlq s' = ms_dlq s" by auto
    with False assms(1,5,6) show ?thesis by (auto simp: accounted_def split: if_splits)
  qed
qed

lemma bus_run_accounted:
  assumes "bus_run cfg reg s work pub acked" "handlers_keep reg"
    and "0 < bc_max_retries cfg" "bc_max_retries cfg < 2 ^ 63"
  shows "accounted cfg s pub acked \<and> work_ok cfg work"
  using assms(1)
proof induction
  case empty
  show ?case by (simp add: accounted_def new_store_def mem_ok_def pending_def work_ok_def)
next
  case publishes
  then show ?case using accounted_publish assms(3) by blast
next
  case publishes_batch
  then show ?case using accounted_batch assms(3) by blast
next
  case (polls s work pub acked env c ty es s')
  then have "mem_ok s \<and> env_sane env" "so_poll (memory_store env) ty 10 s = (Returns es, s')"
    by (simp_all add: accounted_def memory_store_def)
  from memory.poll_law [OF this] polls.IH show ?case by (auto simp: accounted_def work_ok_def)
next
  case (handles s work pub acked env c e es elapsed_of n ms r s' ms')
  have "0 \<le> ev_attempt e" "ev_attempt e < bc_max_retries cfg"
    using handles.IH handles.hyps(3) by (simp_all add: work_ok_def, metis list.set_intros(1), metis list.set_intros(1))
  with accounted_single [OF _ handles.hyps(2) assms(2,4) _ _ handles.hyps(4)] handles.IH
  have "accounted cfg s' pub (if handled reg e then insert (ev_id e) acked else acked)" by blast
  moreover have "set es \<subseteq> set (work c)" using handles.hyps(3) by auto
  ultimately show ?case using handles.IH by (auto simp: work_ok_def)
next
  case crashes
  then show ?case by (simp add: work_ok_def)
next
  case closes
  then show ?case by (simp add: accounted_def close_store_def mem_ok_def pending_def)
qed

text \<open>C5: Nothing that was published disappears. Along every run of publishers and consumers, interleaved in
  any way, with slow handlers, crashes and the closing of the store, an event
  that was published with success, alone or in a batch, is still pending, or a dead letter, or was taken by its
  handlers; pending events have been attempted fewer than \<open>MaxRetries\<close> times, and the dead
  letters exactly that often.\<close>

theorem published_events_accounted_for:
  assumes "bus_run cfg reg s work pub acked" "handlers_keep reg"
    and "0 < bc_max_retries cfg" "bc_max_retries cfg < 2 ^ 63"
  shows "accounted cfg s pub acked"
  by (rule bus_run_accounted [OF assms, THEN conjunct1])

text \<open>Examples: a registry whose handler always fails, and one whose handler takes the event.\<close>

definition demo_registry :: "unit outcome \<Rightarrow> handler_registry" where
  "demo_registry r = [''order.placed'' \<mapsto> [\<lambda>e. (r, e)]]"

lemma prepare_id: "ev_id (prepare fresh now e) = (if ev_id e = [] then fresh else ev_id e)"
  by (simp add: prepare_def Let_def)

lemma demo_registry_keeps [simp]: "r \<noteq> Panics \<Longrightarrow> handlers_keep (demo_registry r)"
  by (auto simp: handlers_keep_def demo_registry_def keeps_def split: if_splits)

lemma demo_poll:
  "poll (at_time 100 [''e1'']) ''order.placed'' 10 demo_mem =
     (Returns [demo_event], demo_mem\<lparr>ms_events := lease 100 {''e1''} (ms_events demo_mem)\<rparr>)"
  by (auto simp: poll_def demo_mem_def demo_event_def new_store_def empty_event_def at_time_def
    lease_def second_def fun_eq_iff)

theorem no_event_is_lost_witness:
  "\<exists>s' ms. poll_once (memory_store (at_time 100 [''e1''])) default_bus_config
       (demo_registry (Fails ''boom'')) (\<lambda>_. Some 0) ''order.placed'' demo_mem = (Returns (0, None), s', ms) \<and>
     (\<exists>e'. pending s' ''e1'' = Some e' \<and> content e' = content demo_event \<and> ev_attempt e' = 1)"
proof -
  let ?st = "memory_store (at_time 100 [''e1''])" and ?reg = "demo_registry (Fails ''boom'')"
  obtain r s' ms where run:
    "poll_once ?st default_bus_config ?reg (\<lambda>_. Some 0) ''order.placed'' demo_mem = (r, s', ms)"
    by (metis prod_cases3)
  have "env_sane (at_time 100 [''e1''])" "handlers_keep ?reg" by simp_all
  from no_event_is_lost [OF demo_mem_ok(1) this demo_poll run] run show ?thesis
    by (auto simp: settled_def handled_def dispatch_def demo_registry_def demo_event_def
      empty_event_def default_bus_config_def wrap64_def)
qed

theorem published_events_accounted_for_witness:
  "\<exists>s. bus_run default_bus_config (demo_registry (Fails ''boom'')) s (\<lambda>_. []) {''e1''} {} \<and>
     accounted default_bus_config s {''e1''} {}"
proof -
  let ?reg = "demo_registry (Fails ''boom'')" and ?env = "at_time 100 [''e1'']"
  obtain r s' ms where pub: "publish (memory_store ?env) default_bus_config ''x'' 5 (Some 0) (Some demo_event)
      new_store = (r, s', ms)" by (metis prod_cases3)
  then have r: "r = Returns ()"
    by (auto simp: publish_def Let_def memory_store_def save_def prepare_id new_store_def demo_event_def)
  have "env_sane ?env" "ev_attempt demo_event = 0" by (simp_all add: demo_event_def empty_event_def)
  from bus_run.publishes [OF bus_run.empty this pub, of ?reg] r
  have run: "bus_run default_bus_config ?reg s' (\<lambda>_. []) {''e1''} {}"
    by (simp add: prepare_id demo_event_def)
  have "handlers_keep ?reg" "0 < bc_max_retries default_bus_config" "bc_max_retries default_bus_config < 2 ^ 63"
    by (simp_all add: default_bus_config_def)
  from published_events_accounted_for [OF run this] run show ?thesis by blast
qed

section \<open>Batches\<close>

lemma save_prepared:
  "\<not> ms_closed s \<Longrightarrow> (\<And>i. fresh i \<noteq> []) \<Longrightarrow> save_all (save env) (prepare_all fresh i now es) s = (r, s') \<Longrightarrow>
   r = (if None \<in> set es then Panics else Returns ())"
proof (induction es arbitrary: i s)
  case (Cons e es)
  show ?case
  proof (cases e)
    case (Some x)
    have "ev_id (prepare (fresh i) now x) \<noteq> []" using Cons.prems(2) by (simp add: prepare_id)
    then obtain s1 where s1: "save env (Some (prepare (fresh i) now x)) s = (Returns (), s1)" "\<not> ms_closed s1"
      using Cons.prems(1) by (simp add: save_def Let_def)
    then have "save_all (save env) (prepare_all fresh (Suc i) now es) s1 = (r, s')"
      using Cons.prems(3) Some by simp
    from Cons.IH [OF s1(2) Cons.prems(2) this] Some show ?thesis by simp
  qed (use Cons.prems in \<open>simp add: save_def\<close>)
qed simp

lemma published_loop_prepared:
  "None \<notin> set es \<Longrightarrow> fst (published_loop (prepare_all fresh i now es) ms) = Returns ()"
proof (induction es arbitrary: i ms)
  case (Cons e es)
  then show ?case by (cases e) auto
qed simp

text \<open>A batch over an open in-memory store is published unless it holds a nil event. The loop that
  fills in the defaults skips nil events, but the store then dereferences them: such a batch
  panics, with the events before the nil one saved.\<close>

theorem publish_batch_nil_panics:
  assumes "\<not> ms_closed s" "\<And>i. fresh i \<noteq> []"
  shows "fst (publish_batch (memory_store env) cfg fresh now elapsed es s) =
    (if None \<in> set es then Panics else Returns ())"
proof -
  obtain r s' where sv: "save_all (save env) (prepare_all fresh 0 now es) s = (r, s')" by fastforce
  obtain x ms where loop: "published_loop (prepare_all fresh 0 now es)
      [publish_time ''batch'' ''batch'' elapsed] = (x, ms)" by fastforce
  have "x = Returns ()" if "None \<notin> set es"
    using published_loop_prepared [OF that, of fresh 0 now "[publish_time ''batch'' ''batch'' elapsed]"] loop
    by simp
  with save_prepared [OF assms sv] sv loop show ?thesis
    by (auto simp: publish_batch_def memory_store_def)
qed

theorem publish_batch_nil_panics_witness:
  "fst (publish_batch (memory_store (at_time 100 [])) default_bus_config (\<lambda>_. ''x'') 5 (Some 0)
     [Some demo_event, None] new_store) = Panics"
  using publish_batch_nil_panics [of new_store "\<lambda>_. ''x''" "at_time 100 []" default_bus_config 5 "Some 0"
      "[Some demo_event, None]"] by (simp add: new_store_def)

lemma dispatch_loop_sticky:
  "(\<And>h. h \<in> set hs \<Longrightarrow> fst (h e) \<noteq> Panics \<and> snd (h e) = e) \<Longrightarrow>
   fst (dispatch_loop hs e (Some m)) = Returns (Some m)"
proof (induction hs)
  case (Cons h hs)
  have "fst (h e) \<noteq> Panics \<and> snd (h e) = e" using Cons.prems [of h] by simp
  with Cons show ?case by (cases "h e"; cases "fst (h e)") auto
qed simp

lemma dispatch_loop_first:
  "(\<And>h. h \<in> set hs \<Longrightarrow> fst (h e) \<noteq> Panics \<and> snd (h e) = e) \<Longrightarrow>
   fst (dispatch_loop hs e None) =
     Returns (case dropWhile (\<lambda>h. fst (h e) = Returns ()) hs of
       [] \<Rightarrow> None | h # _ \<Rightarrow> (case fst (h e) of Fails m \<Rightarrow> Some m | _ \<Rightarrow> None))"
proof (induction hs)
  case (Cons h hs)
  have "fst (h e) \<noteq> Panics \<and> snd (h e) = e" using Cons.prems [of h] by simp
  with Cons dispatch_loop_sticky [of hs e] show ?case by (cases "h e"; cases "fst (h e)") auto
qed simp

text \<open>Handlers are called in the order they were registered, each whatever the ones before it
  returned, and the first error is the result.\<close>

theorem dispatch_first_error:
  assumes "\<And>h. h \<in> set hs \<Longrightarrow> fst (h e) \<noteq> Panics \<and> snd (h e) = e" "reg (ev_type e) = Some hs"
  shows "fst (dispatch reg e) =
    Returns (case dropWhile (\<lambda>h. fst (h e) = Returns ()) hs of
       [] \<Rightarrow> None | h # _ \<Rightarrow> (case fst (h e) of Fails m \<Rightarrow> Some m | _ \<Rightarrow> None))"
  using assms dispatch_loop_first [of hs e] by (auto simp: dispatch_def)

theorem dispatch_first_error_witness:
  "fst (dispatch (demo_registry (Fails ''boom'')) demo_event) = Returns (Some ''boom'')"
  using dispatch_first_error [of "[\<lambda>e. (Fails ''boom'', e)]" demo_event "demo_registry (Fails ''boom'')"]
  by (simp add: demo_registry_def demo_event_def)

end
