(* ===== verification/Worker.thy ===== *)
theory Worker
  imports Event_Bus
begin

text \<open>
  The polling worker of the event bus, \<open>eventbus/worker/worker.go\<close>: a number of goroutines that
  run \<open>loop\<close>, stopped through the channel \<open>stopChan\<close> and the wait group \<open>wg\<close>.

  The goroutines and the callers of \<open>Stop\<close> are a step relation over what they share. The store
  that a poll uses is one of a set, since the clock and the random source differ from call to
  call; publishers may change the store's state at any time. \<open>canceled\<close> says which errors are
  \<open>context.Canceled\<close>.
\<close>

record worker_config =
  wk_poll_interval :: duration
  wk_max_concurrency :: nat
  wk_event_types :: "string list"

definition default_worker_config :: "string list \<Rightarrow> worker_config" where
  "default_worker_config event_types =
     \<lparr>wk_poll_interval = 5 * second, wk_max_concurrency = 1, wk_event_types = event_types\<rparr>"

text \<open>\<open>Worker.PollOnce\<close>: one cycle over all the event types, up to the first error.\<close>

fun worker_poll_once ::
  "'s event_store \<Rightarrow> bus_config \<Rightarrow> handler_registry \<Rightarrow> (domain_event \<Rightarrow> f64) \<Rightarrow> string list \<Rightarrow> 's \<Rightarrow>
   unit outcome \<times> 's \<times> metric_event list" where
  "worker_poll_once st cfg reg elapsed [] s = (Returns (), s, [])"
| "worker_poll_once st cfg reg elapsed (ty # tys) s =
     (case poll_once st cfg reg elapsed ty s of
        (Returns (n, None), s, ms) \<Rightarrow>
          (case worker_poll_once st cfg reg elapsed tys s of (r, s, ms') \<Rightarrow> (r, s, ms @ ms'))
      | (Returns (n, Some e), s, ms) \<Rightarrow> (Fails (''poll '' @ ty @ '': '' @ e), s, ms)
      | (_, s, ms) \<Rightarrow> (Panics, s, ms))"

section \<open>The goroutines\<close>

text \<open>A loop waits in its \<open>select\<close>, is in a pass with these event types left, or has returned.\<close>

datatype loop_pc = Selecting | Passing "string list" | Exited

text \<open>A caller of \<open>Stop\<close> has not called it, waits for the group, or is back.\<close>

datatype stop_pc = NotCalled | Waiting | Stopped

record 's worker =
  wk_ctx_done :: bool
  wk_stop_closed :: bool
  wk_wg :: int
  wk_loops :: "nat \<Rightarrow> loop_pc"
  wk_stops :: "nat \<Rightarrow> stop_pc"
  wk_store :: 's

definition start_worker :: "worker_config \<Rightarrow> 's \<Rightarrow> 's worker" where
  "start_worker wc s =
     \<lparr> wk_ctx_done = False, wk_stop_closed = False, wk_wg = int (wk_max_concurrency wc),
       wk_loops = (\<lambda>i. if i < wk_max_concurrency wc then Selecting else Exited),
       wk_stops = (\<lambda>_. NotCalled), wk_store = s \<rparr>"

definition exit_loop :: "nat \<Rightarrow> 's worker \<Rightarrow> 's worker" where
  "exit_loop i w = w\<lparr>wk_loops := (wk_loops w)(i := Exited), wk_wg := wk_wg w - 1\<rparr>"

text \<open>The body of the loop over event types after \<open>PollOnce\<close> came back with \<open>err\<close>.\<close>

definition after_poll ::
  "(string \<Rightarrow> bool) \<Rightarrow> nat \<Rightarrow> string list \<Rightarrow> string option \<Rightarrow> 's worker \<Rightarrow> 's worker" where
  "after_poll canceled i tys err w =
     (case err of
        Some e \<Rightarrow> if canceled e then exit_loop i w
                  else w\<lparr>wk_loops := (wk_loops w)(i := Passing tys)\<rparr>
      | None \<Rightarrow> w\<lparr>wk_loops := (wk_loops w)(i := Passing tys)\<rparr>)"

inductive worker_step ::
  "'s event_store set \<Rightarrow> bus_config \<Rightarrow> handler_registry \<Rightarrow> (string \<Rightarrow> bool) \<Rightarrow> worker_config \<Rightarrow>
   's worker \<Rightarrow> 's worker \<Rightarrow> bool"
  for stores cfg reg canceled wc
where
  cancel: "worker_step stores cfg reg canceled wc w (w\<lparr>wk_ctx_done := True\<rparr>)"
| leave: "wk_loops w i = Selecting \<Longrightarrow> wk_ctx_done w \<or> wk_stop_closed w \<Longrightarrow>
    worker_step stores cfg reg canceled wc w (exit_loop i w)"
| tick: "wk_loops w i = Selecting \<Longrightarrow>
    worker_step stores cfg reg canceled wc w
      (w\<lparr>wk_loops := (wk_loops w)(i := Passing (wk_event_types wc))\<rparr>)"
| polls: "wk_loops w i = Passing (ty # tys) \<Longrightarrow> st \<in> stores \<Longrightarrow>
    poll_once st cfg reg elapsed ty (wk_store w) = (Returns (n, err), s', ms) \<Longrightarrow>
    worker_step stores cfg reg canceled wc w (after_poll canceled i tys err (w\<lparr>wk_store := s'\<rparr>))"
| pass_over: "wk_loops w i = Passing [] \<Longrightarrow>
    worker_step stores cfg reg canceled wc w (w\<lparr>wk_loops := (wk_loops w)(i := Selecting)\<rparr>)"
| stop_call: "wk_stops w j = NotCalled \<Longrightarrow>
    worker_step stores cfg reg canceled wc w
      (w\<lparr>wk_stop_closed := True, wk_stops := (wk_stops w)(j := Waiting)\<rparr>)"
| stop_return: "wk_stops w j = Waiting \<Longrightarrow> wk_wg w = 0 \<Longrightarrow>
    worker_step stores cfg reg canceled wc w (w\<lparr>wk_stops := (wk_stops w)(j := Stopped)\<rparr>)"
| publishers: "worker_step stores cfg reg canceled wc w (w\<lparr>wk_store := s'\<rparr>)"

inductive_cases worker_stepE: "worker_step stores cfg reg canceled wc w w'"

text \<open>A loop that has returned stays so.\<close>

lemma exited_step:
  "worker_step stores cfg reg canceled wc w w' \<Longrightarrow> \<forall>i. wk_loops w i = Exited \<Longrightarrow> wk_loops w' j = Exited"
  by (elim worker_stepE) auto

lemma exited_steps:
  "(worker_step stores cfg reg canceled wc)\<^sup>*\<^sup>* w w' \<Longrightarrow> \<forall>i. wk_loops w i = Exited \<Longrightarrow> wk_loops w' j = Exited"
  by (induction arbitrary: j rule: rtranclp_induct) (auto intro: exited_step)

section \<open>The wait group counts the running loops\<close>

definition running :: "worker_config \<Rightarrow> 's worker \<Rightarrow> nat set" where
  "running wc w = {i. i < wk_max_concurrency wc \<and> wk_loops w i \<noteq> Exited}"

definition worker_inv :: "worker_config \<Rightarrow> 's worker \<Rightarrow> bool" where
  "worker_inv wc w \<longleftrightarrow>
     wk_wg w = int (card (running wc w)) \<and>
     (\<forall>i. wk_max_concurrency wc \<le> i \<longrightarrow> wk_loops w i = Exited) \<and>
     (\<forall>j. wk_stops w j \<noteq> NotCalled \<longrightarrow> wk_stop_closed w) \<and>
     (\<forall>j. wk_stops w j = Stopped \<longrightarrow> running wc w = {})"

lemma finite_running [simp]: "finite (running wc w)"
  by (simp add: running_def)

lemma running_update:
  "worker_inv wc w \<Longrightarrow> wk_loops w i \<noteq> Exited \<Longrightarrow>
   i \<in> running wc w \<and> running wc (w\<lparr>wk_loops := (wk_loops w)(i := p)\<rparr>) =
     (if p = Exited then running wc w - {i} else running wc w)"
  unfolding worker_inv_def running_def by (auto simp: not_less)

lemma inv_move:
  assumes "worker_inv wc w" "wk_loops w i \<noteq> Exited" "p \<noteq> Exited"
  shows "worker_inv wc (w\<lparr>wk_loops := (wk_loops w)(i := p)\<rparr>)"
  using running_update [OF assms(1,2), of p] assms unfolding worker_inv_def by auto

lemma inv_exit:
  assumes "worker_inv wc w" "wk_loops w i \<noteq> Exited"
  shows "worker_inv wc (exit_loop i w)"
proof -
  have r: "i \<in> running wc w" "running wc (w\<lparr>wk_loops := (wk_loops w)(i := Exited)\<rparr>) = running wc w - {i}"
    using running_update [OF assms, of Exited] by simp_all
  then have "running wc (exit_loop i w) = running wc w - {i}" by (simp add: exit_loop_def running_def)
  moreover have "card (running wc w) = Suc (card (running wc w - {i}))"
    by (rule card.remove [OF finite_running r(1)])
  moreover have "wk_wg (exit_loop i w) = wk_wg w - 1" "wk_stops (exit_loop i w) = wk_stops w"
    "wk_stop_closed (exit_loop i w) = wk_stop_closed w"
    "\<And>j. wk_loops w j = Exited \<Longrightarrow> wk_loops (exit_loop i w) j = Exited"
    by (simp_all add: exit_loop_def)
  ultimately show ?thesis using assms(1) unfolding worker_inv_def by simp
qed

lemma inv_store: "worker_inv wc (w\<lparr>wk_store := s\<rparr>) \<longleftrightarrow> worker_inv wc w"
  by (simp add: worker_inv_def running_def)

lemma inv_after_poll:
  "worker_inv wc w \<Longrightarrow> wk_loops w i \<noteq> Exited \<Longrightarrow> worker_inv wc (after_poll canceled i tys err w)"
  by (cases err) (simp_all add: after_poll_def inv_exit inv_move)

lemma inv_frame:
  assumes "worker_inv wc w" "wk_wg w' = wk_wg w" "wk_loops w' = wk_loops w"
    and "\<And>j. wk_stops w' j \<noteq> NotCalled \<Longrightarrow> wk_stop_closed w'"
    and "\<And>j. wk_stops w' j = Stopped \<Longrightarrow> wk_stops w j = Stopped \<or> wk_wg w = 0"
  shows "worker_inv wc w'"
proof -
  have "running wc w' = running wc w" using assms(3) by (simp add: running_def)
  then show ?thesis using assms by (auto simp: worker_inv_def)
qed

lemma worker_inv_step:
  "worker_step stores cfg reg canceled wc w w' \<Longrightarrow> worker_inv wc w \<Longrightarrow> worker_inv wc w'"
proof (induction rule: worker_step.induct)
  case (polls w i ty tys st elapsed n err s' ms)
  then show ?case by (intro inv_after_poll) (simp_all add: inv_store)
next
  case (leave w i)
  then show ?case by (intro inv_exit) simp_all
next
  case (tick w i)
  then show ?case by (intro inv_move) simp_all
next
  case (pass_over w i)
  then show ?case by (intro inv_move) simp_all
next
  case (cancel w)
  then have "\<And>j. wk_stops w j \<noteq> NotCalled \<Longrightarrow> wk_stop_closed w" by (auto simp: worker_inv_def)
  then show ?case by (intro inv_frame [OF cancel]) simp_all
next
  case (stop_call w j)
  show ?case by (rule inv_frame [OF stop_call(2)]) (auto split: if_splits)
next
  case (stop_return w j)
  then have "wk_stop_closed w" by (auto simp: worker_inv_def)
  with stop_return show ?case by (intro inv_frame [OF stop_return(3)]) (auto split: if_splits)
next
  case (publishers w s')
  then show ?case by (simp add: inv_store)
qed

lemma worker_inv_start: "worker_inv wc (start_worker wc s)"
  by (simp add: worker_inv_def start_worker_def running_def)

lemma reachable_inv:
  "(worker_step stores cfg reg canceled wc)\<^sup>*\<^sup>* (start_worker wc s) w \<Longrightarrow> worker_inv wc w"
  by (induction rule: rtranclp_induct) (auto intro: worker_inv_start worker_inv_step)

section \<open>Stopping\<close>

text \<open>C26: \<open>Stop\<close> waits for the work in flight. In every reachable state the wait group holds the
  number of loops that have not returned, it never goes below zero, and once any call of \<open>Stop\<close> is
  back all loops have returned: no poll happens afterwards, whatever the other callers do.\<close>

theorem stop_waits_for_loops:
  assumes "(worker_step stores cfg reg canceled wc)\<^sup>*\<^sup>* (start_worker wc s) w"
  shows "wk_wg w = int (card {i. wk_loops w i \<noteq> Exited}) \<and>
    (wk_stops w j = Stopped \<longrightarrow> (\<forall>i. wk_loops w i = Exited) \<and> wk_stop_closed w \<and>
       (\<forall>w'. (worker_step stores cfg reg canceled wc)\<^sup>*\<^sup>* w w' \<longrightarrow> (\<forall>i. wk_loops w' i = Exited)))"
proof -
  have inv: "worker_inv wc w" by (rule reachable_inv [OF assms])
  have all: "running wc w = {i. wk_loops w i \<noteq> Exited}" if "worker_inv wc w" for w :: "'a worker"
    using that by (auto simp: worker_inv_def running_def not_less [symmetric])
  have "\<forall>i. wk_loops w i = Exited" if "wk_stops w j = Stopped"
    using inv that all [OF inv] by (auto simp: worker_inv_def)
  then have stopped: "wk_loops w' i = Exited"
    if "wk_stops w j = Stopped" "(worker_step stores cfg reg canceled wc)\<^sup>*\<^sup>* w w'" for w' i
    using that exited_steps by blast
  have "wk_stop_closed w" if "wk_stops w j = Stopped"
    using inv that by (auto simp: worker_inv_def)
  with inv all [OF inv] stopped show ?thesis by (auto simp: worker_inv_def)
qed

theorem stop_waits_for_loops_witness:
  "wk_wg (start_worker (default_worker_config []) ()) = 1"
proof -
  let ?w = "start_worker (default_worker_config []) ()"
  have "(worker_step {} default_bus_config Map.empty (\<lambda>_. False) (default_worker_config []))\<^sup>*\<^sup>* ?w ?w" by simp
  from stop_waits_for_loops [OF this, of 0] have "wk_wg ?w = int (card {i. wk_loops ?w i \<noteq> Exited})" by blast
  moreover have "{i. wk_loops ?w i \<noteq> Exited} = {0}" by (auto simp: start_worker_def default_worker_config_def)
  ultimately show ?thesis by simp
qed

text \<open>One loop can always be driven to its end once the worker was told to stop.\<close>

lemma loop_can_select:
  assumes "stores \<noteq> {}"
    and "\<And>st elapsed ty s. st \<in> stores \<Longrightarrow> \<exists>n err s' ms. poll_once st cfg reg elapsed ty s = (Returns (n, err), s', ms)"
  shows "wk_loops w i = Passing tys \<Longrightarrow>
    \<exists>w'. (worker_step stores cfg reg canceled wc)\<^sup>*\<^sup>* w w' \<and> wk_stop_closed w' = wk_stop_closed w \<and> wk_stops w' = wk_stops w \<and>
      wk_loops w' i \<in> {Selecting, Exited} \<and> (\<forall>j. j \<noteq> i \<longrightarrow> wk_loops w' j = wk_loops w j)"
proof (induction tys arbitrary: w)
  case Nil
  then show ?case using worker_step.pass_over [OF Nil, of stores cfg reg canceled wc]
    by (intro exI [of _ "w\<lparr>wk_loops := (wk_loops w)(i := Selecting)\<rparr>"]) auto
next
  case (Cons ty tys)
  obtain st where st: "st \<in> stores" using assms(1) by blast
  obtain n err s' ms where "poll_once st cfg reg (\<lambda>_. Some 0) ty (wk_store w) = (Returns (n, err), s', ms)"
    using assms(2) [OF st] by blast
  from worker_step.polls [OF Cons.prems st this]
  have run: "worker_step stores cfg reg canceled wc w (after_poll canceled i tys err (w\<lparr>wk_store := s'\<rparr>))"
    (is "worker_step _ _ _ _ _ w ?w") .
  have keep: "wk_stop_closed ?w = wk_stop_closed w" "wk_stops ?w = wk_stops w" "\<And>j. j \<noteq> i \<Longrightarrow> wk_loops ?w j = wk_loops w j"
    by (auto simp: after_poll_def exit_loop_def split: option.splits)
  show ?case
  proof (cases "wk_loops ?w i = Exited")
    case True
    with run keep show ?thesis by (intro exI [of _ ?w]) auto
  next
    case False
    then have "wk_loops ?w i = Passing tys"
      by (auto simp: after_poll_def exit_loop_def split: option.splits if_splits)
    from Cons.IH [OF this] obtain w' where
      "(worker_step stores cfg reg canceled wc)\<^sup>*\<^sup>* ?w w'" "wk_stop_closed w' = wk_stop_closed ?w" "wk_stops w' = wk_stops ?w"
      "wk_loops w' i \<in> {Selecting, Exited}" "\<forall>j. j \<noteq> i \<longrightarrow> wk_loops w' j = wk_loops ?w j" by blast
    with run keep show ?thesis by (intro exI [of _ w']) (auto intro: converse_rtranclp_into_rtranclp)
  qed
qed

lemma loop_can_exit:
  assumes "stores \<noteq> {}"
    and "\<And>st elapsed ty s. st \<in> stores \<Longrightarrow> \<exists>n err s' ms. poll_once st cfg reg elapsed ty s = (Returns (n, err), s', ms)"
    and "wk_stop_closed w"
  shows "\<exists>w'. (worker_step stores cfg reg canceled wc)\<^sup>*\<^sup>* w w' \<and> wk_stop_closed w' \<and> wk_stops w' = wk_stops w \<and>
    wk_loops w' i = Exited \<and> (\<forall>j. j \<noteq> i \<longrightarrow> wk_loops w' j = wk_loops w j)"
proof -
  have "\<exists>v. (worker_step stores cfg reg canceled wc)\<^sup>*\<^sup>* w v \<and> wk_stop_closed v \<and> wk_stops v = wk_stops w \<and>
      wk_loops v i \<in> {Selecting, Exited} \<and> (\<forall>j. j \<noteq> i \<longrightarrow> wk_loops v j = wk_loops w j)"
  proof (cases "wk_loops w i")
    case (Passing tys)
    from loop_can_select [OF assms(1,2) Passing] assms(3) show ?thesis by metis
  qed (use assms(3) in auto)
  then obtain v where v: "(worker_step stores cfg reg canceled wc)\<^sup>*\<^sup>* w v" "wk_stop_closed v" "wk_stops v = wk_stops w"
    "wk_loops v i \<in> {Selecting, Exited}" "\<forall>j. j \<noteq> i \<longrightarrow> wk_loops v j = wk_loops w j" by blast
  show ?thesis
  proof (cases "wk_loops v i = Exited")
    case False
    then have "wk_loops v i = Selecting" using v(4) by simp
    from worker_step.leave [OF this] v(2)
    have "worker_step stores cfg reg canceled wc v (exit_loop i v)" by blast
    with v show ?thesis
      by (intro exI [of _ "exit_loop i v"]) (auto simp: exit_loop_def intro: rtranclp.rtrancl_into_rtrancl)
  qed (use v in blast)
qed

lemma loops_can_exit:
  assumes "stores \<noteq> {}"
    and "\<And>st elapsed ty s. st \<in> stores \<Longrightarrow> \<exists>n err s' ms. poll_once st cfg reg elapsed ty s = (Returns (n, err), s', ms)"
    and "wk_stop_closed w"
  shows "\<exists>w'. (worker_step stores cfg reg canceled wc)\<^sup>*\<^sup>* w w' \<and> wk_stop_closed w' \<and> wk_stops w' = wk_stops w \<and>
    (\<forall>i. i < n \<longrightarrow> wk_loops w' i = Exited)"
proof (induction n)
  case 0
  show ?case using assms(3) by (intro exI [of _ w]) simp
next
  case (Suc n)
  then obtain v where v: "(worker_step stores cfg reg canceled wc)\<^sup>*\<^sup>* w v" "wk_stop_closed v"
    "wk_stops v = wk_stops w" "\<forall>i. i < n \<longrightarrow> wk_loops v i = Exited" by blast
  from loop_can_exit [OF assms(1,2) v(2), where i = n and wc = wc and canceled = canceled] obtain w' where
    w': "(worker_step stores cfg reg canceled wc)\<^sup>*\<^sup>* v w'" "wk_stop_closed w'" "wk_stops w' = wk_stops v"
    "wk_loops w' n = Exited" "\<forall>j. j \<noteq> n \<longrightarrow> wk_loops w' j = wk_loops v j" by blast
  have "wk_loops w' i = Exited" if "i < Suc n" for i
    using that v(4) w'(4,5) by (cases "i = n") auto
  moreover have "(worker_step stores cfg reg canceled wc)\<^sup>*\<^sup>* w w'" using v(1) w'(1) by (rule rtranclp_trans)
  ultimately show ?case using v(3) w'(2,3) by (intro exI [of _ w']) simp
qed

text \<open>C25: A worker can always be stopped. From every reachable state in which a caller of \<open>Stop\<close>
  waits, if polls return (with or without an error), the loops can run to their ends and
  that call can come back.\<close>

theorem stop_can_return:
  assumes "stores \<noteq> {}"
    and "\<And>st elapsed ty s. st \<in> stores \<Longrightarrow> \<exists>n err s' ms. poll_once st cfg reg elapsed ty s = (Returns (n, err), s', ms)"
    and "(worker_step stores cfg reg canceled wc)\<^sup>*\<^sup>* (start_worker wc s) w" "wk_stops w j = Waiting"
  shows "\<exists>w'. (worker_step stores cfg reg canceled wc)\<^sup>*\<^sup>* w w' \<and> wk_stops w' j = Stopped"
proof -
  have "wk_stop_closed w" using reachable_inv [OF assms(3)] assms(4) by (auto simp: worker_inv_def)
  from loops_can_exit [OF assms(1,2) this, where wc = wc and n = "wk_max_concurrency wc" and canceled = canceled] obtain v where
    v: "(worker_step stores cfg reg canceled wc)\<^sup>*\<^sup>* w v" "wk_stops v = wk_stops w"
    "\<forall>i. i < wk_max_concurrency wc \<longrightarrow> wk_loops v i = Exited" by blast
  have "worker_inv wc v" using rtranclp_trans [OF assms(3) v(1)] by (rule reachable_inv)
  moreover have "running wc v = {}" using v(3) by (auto simp: running_def)
  ultimately have "wk_wg v = 0" by (simp add: worker_inv_def)
  with worker_step.stop_return [of v j stores cfg reg canceled wc] v(2) assms(4)
  have "worker_step stores cfg reg canceled wc v (v\<lparr>wk_stops := (wk_stops v)(j := Stopped)\<rparr>)" by simp
  with v(1) show ?thesis
    by (intro exI [of _ "v\<lparr>wk_stops := (wk_stops v)(j := Stopped)\<rparr>"]) (auto intro: rtranclp.rtrancl_into_rtrancl)
qed

theorem stop_can_return_witness:
  "\<exists>w w'. wk_stops w 0 = Waiting \<and>
     (worker_step {kafka_store False} default_bus_config Map.empty (\<lambda>_. False) (default_worker_config [''a'']))\<^sup>*\<^sup>* w w' \<and>
     wk_stops w' 0 = Stopped"
proof -
  let ?wc = "default_worker_config [''a'']"
  let ?init = "start_worker ?wc ()"
  let ?w = "?init\<lparr>wk_stop_closed := True, wk_stops := (wk_stops ?init)(0 := Waiting)\<rparr>"
  let ?step = "worker_step {kafka_store False} default_bus_config Map.empty (\<lambda>_. False) ?wc"
  have "wk_stops ?init 0 = NotCalled" by (simp add: start_worker_def)
  from worker_step.stop_call [OF this] have "?step ?init ?w" .
  then have run: "?step\<^sup>*\<^sup>* ?init ?w" by (rule r_into_rtranclp)
  have polls: "\<exists>n err s' ms. poll_once st default_bus_config Map.empty elapsed ty s = (Returns (n, err), s', ms)"
    if "st \<in> {kafka_store False}" for st elapsed ty and s :: unit
    using that by (simp add: poll_once_def kafka_store_def stub_store_def stub_call_def)
  have "wk_stops ?w 0 = Waiting" by simp
  from stop_can_return [OF _ polls run this] this show ?thesis by blast
qed

end
