(* ===== verification/Bus_Progress.thy ===== *)
theory Bus_Progress
  imports Event_Bus
begin

text \<open>
  Progress of the event bus over the in-memory store: a consumer that keeps polling a type gets
  rid of every event of it. The cycles are those of \<open>PollOnce\<close> (\<open>eventbus/application/usecase.go\<close>)
  and the backoff that of \<open>MarkFailed\<close> (\<open>eventbus/infrastructure/memory/store.go\<close>).
\<close>

section \<open>Repeated cycles\<close>

text \<open>One cycle, with the identifiers of the events that their handlers took; and a consumer that
  polls once in each environment.\<close>

definition cycle ::
  "bus_config \<Rightarrow> handler_registry \<Rightarrow> (domain_event \<Rightarrow> f64) \<Rightarrow> string \<Rightarrow> mem_env \<Rightarrow>
   mem_store \<times> string set \<Rightarrow> mem_store \<times> string set" where
  "cycle cfg reg elapsed ty env = (\<lambda>(s, acked).
     case poll_once (memory_store env) cfg reg elapsed ty s of
       (_, s', _) \<Rightarrow> (s', acked \<union> (case poll env ty 10 s of
          (Returns es, _) \<Rightarrow> ev_id ` {e \<in> set es. handled reg e}
        | _ \<Rightarrow> {})))"

definition run_cycles ::
  "bus_config \<Rightarrow> handler_registry \<Rightarrow> (domain_event \<Rightarrow> f64) \<Rightarrow> string \<Rightarrow> mem_env list \<Rightarrow>
   mem_store \<Rightarrow> mem_store \<times> string set" where
  "run_cycles cfg reg elapsed ty envs s = fold (cycle cfg reg elapsed ty) envs (s, {})"

text \<open>Cycles at least 18 seconds apart, which is more than the longest backoff.\<close>

fun spaced :: "time \<Rightarrow> mem_env list \<Rightarrow> bool" where
  "spaced t [] \<longleftrightarrow> True"
| "spaced t (env # envs) \<longleftrightarrow> t + 18 * second \<le> me_now env \<and> spaced (me_now env) envs"

text \<open>The events of the type that wait, and the attempts that an event has left.\<close>

definition waiting :: "string \<Rightarrow> mem_store \<Rightarrow> string set" where
  "waiting ty s = {i. \<exists>e. pending s i = Some e \<and> ev_type e = ty}"

definition attempts_left :: "bus_config \<Rightarrow> string \<Rightarrow> mem_store \<Rightarrow> string \<Rightarrow> nat" where
  "attempts_left cfg ty s i =
     (case pending s i of
        None \<Rightarrow> 0
      | Some e \<Rightarrow> if ev_type e = ty then nat (bc_max_retries cfg - ev_attempt e) else 0)"

text \<open>An open store whose waiting events become visible within 18 seconds of \<open>t\<close>, those leased to
  the current cycle apart.\<close>

definition prompt :: "time \<Rightarrow> string \<Rightarrow> string set \<Rightarrow> mem_store \<Rightarrow> bool" where
  "prompt t ty leased s \<longleftrightarrow> mem_ok s \<and> \<not> ms_closed s \<and>
     (\<forall>i se. ms_events s i = Some se \<longrightarrow> ev_type (se_event se) = ty \<longrightarrow>
        ev_dlq_at (se_event se) = None \<and> (i \<notin> leased \<longrightarrow> se_visible_at se \<le> t + 18 * second))"

definition attempts_counted :: "bus_config \<Rightarrow> string \<Rightarrow> mem_store \<Rightarrow> bool" where
  "attempts_counted cfg ty s \<longleftrightarrow>
     (\<forall>i e. pending s i = Some e \<longrightarrow> ev_type e = ty \<longrightarrow> 0 \<le> ev_attempt e \<and> ev_attempt e < bc_max_retries cfg)"

section \<open>A cycle leaves the waiting events visible in time\<close>

lemma promptD:
  assumes "prompt t ty leased s" "ms_events s i = Some se" "ev_type (se_event se) = ty"
  shows "ev_dlq_at (se_event se) = None" "i \<notin> leased \<Longrightarrow> se_visible_at se \<le> t + 18 * second"
  using assms by (auto simp: prompt_def)

lemma prompt_ok: "prompt t ty leased s \<Longrightarrow> mem_ok s" by (simp add: prompt_def)

lemma prompt_processed:
  assumes "prompt t ty (insert i leased) s" "ms_events s i \<noteq> None" "mark_processed i s = (r, s')"
  shows "r = Returns () \<and> prompt t ty leased s' \<and> (\<forall>j. j \<noteq> i \<longrightarrow> ms_events s' j = ms_events s j)"
  using assms by (auto simp: mark_processed_def prompt_def mem_ok_def split: if_splits)

lemma mark_failed_events:
  assumes "mem_ok s" "uniform (me_rnd env)" "ms_events s i = Some se"
  obtains s' v d where "mark_failed env i a err m s = (Returns (), s')" "ms_closed s' = ms_closed s"
    "ms_events s' = (ms_events s)(i := v)"
    "\<And>se'. v = Some se' \<Longrightarrow> se_visible_at se' < me_now env + 18 * second \<and>
       ev_dlq_at (se_event se') = ev_dlq_at (se_event se) \<and> ev_type (se_event se') = ev_type (se_event se)"
proof -
  have id: "ev_id (se_event se) = i" using assms(1,3) by (rule mem_ok_id)
  obtain d where d: "compute_delay default_retry_policy a (me_rnd env) = Returns d" "d < 18 * second"
    using default_delay [OF assms(2)] by blast
  obtain s' where s': "mark_failed env i a err m s = (Returns (), s')"
    using mark_failed_Some [OF assms] by blast
  have "ms_closed s' = ms_closed s \<and> ms_events s' = (ms_events s)(i := ms_events s' i) \<and>
    (\<forall>se'. ms_events s' i = Some se' \<longrightarrow> se_visible_at se' < me_now env + 18 * second \<and>
       ev_dlq_at (se_event se') = ev_dlq_at (se_event se) \<and> ev_type (se_event se') = ev_type (se_event se))"
    using s' assms(3) id d
    by (cases "m \<le> a"; cases err)
      (auto simp: mark_failed_def move_to_dlq_locked_def Let_def fun_eq_iff)
  with s' that show thesis by blast
qed

lemma prompt_failed:
  assumes "prompt (me_now env) ty (insert i leased) s" "ms_events s i \<noteq> None" "uniform (me_rnd env)"
    and "mark_failed env i a err m s = (r, s')"
  shows "r = Returns () \<and> prompt (me_now env) ty leased s' \<and> (\<forall>j. j \<noteq> i \<longrightarrow> ms_events s' j = ms_events s j)"
proof -
  obtain se where se: "ms_events s i = Some se" using assms(2) by blast
  have ok: "mem_ok s" using assms(1) by (rule prompt_ok)
  obtain s1 v where s1: "mark_failed env i a err m s = (Returns (), s1)" "ms_closed s1 = ms_closed s"
    "ms_events s1 = (ms_events s)(i := v)"
    "\<And>se'. v = Some se' \<Longrightarrow> se_visible_at se' < me_now env + 18 * second \<and>
       ev_dlq_at (se_event se') = ev_dlq_at (se_event se) \<and> ev_type (se_event se') = ev_type (se_event se)"
    by (rule mark_failed_events [OF ok assms(3) se]) blast
  have "mem_ok s1" using mark_failed_Some [OF ok assms(3) se, of a err m] s1(1) by auto
  moreover have "ev_dlq_at (se_event se1) = None \<and> (j \<notin> leased \<longrightarrow> se_visible_at se1 \<le> me_now env + 18 * second)"
    if "ms_events s1 j = Some se1" "ev_type (se_event se1) = ty" for j se1
    using that s1(3,4) promptD [OF assms(1)] se by (cases "j = i") (auto simp: less_imp_le)
  ultimately show ?thesis using assms(1,4) s1 by (auto simp: prompt_def)
qed

lemma prompt_consume:
  "consume_loop (memory_store env) cfg reg elapsed es n s ms = (r, s', ms') \<Longrightarrow>
   prompt (me_now env) ty (ev_id ` set es) s \<Longrightarrow> distinct (map ev_id es) \<Longrightarrow>
   (\<And>e. e \<in> set es \<Longrightarrow> ms_events s (ev_id e) \<noteq> None) \<Longrightarrow> handlers_keep reg \<Longrightarrow> uniform (me_rnd env) \<Longrightarrow>
   prompt (me_now env) ty {} s'"
proof (induction es arbitrary: n s ms)
  case (Cons e es)
  obtain x e1 where d: "dispatch reg e = (x, e1)" by fastforce
  with dispatch_keeps [OF Cons.prems(5) d] obtain err
    where x: "dispatch reg e = (Returns err, e1)" "ev_id e1 = ev_id e" "ev_attempt e1 = ev_attempt e"
    by auto
  have here: "ms_events s (ev_id e) \<noteq> None" and pr: "prompt (me_now env) ty (insert (ev_id e) (ev_id ` set es)) s"
    using Cons.prems(2,4) by simp_all
  have new: "ev_id e \<notin> ev_id ` set es" and dist: "distinct (map ev_id es)"
    using Cons.prems(3) by simp_all
  have rest: thesis if step: "prompt (me_now env) ty (ev_id ` set es) s1 \<and>
      (\<forall>j. j \<noteq> ev_id e \<longrightarrow> ms_events s1 j = ms_events s j)"
    and run: "consume_loop (memory_store env) cfg reg elapsed es n1 s1 ms1 = (r, s', ms')"
    and goal: "prompt (me_now env) ty {} s' \<Longrightarrow> thesis" for s1 n1 ms1 thesis
  proof -
    have "ms_events s1 (ev_id y) \<noteq> None" if "y \<in> set es" for y
      using step that new Cons.prems(4) [of y] by (metis imageI list.set_intros(2))
    with Cons.IH [OF run _ dist _ Cons.prems(5,6)] step goal show thesis by blast
  qed
  show ?case
  proof (cases err)
    case None
    obtain q s1 where mp: "mark_processed (ev_id e) s = (q, s1)" by fastforce
    from prompt_processed [OF pr here mp] Cons.prems(1) x None mp rest show ?thesis
      by (auto simp: Let_def memory_store_def)
  next
    case (Some msg)
    obtain q s1 where mf: "mark_failed env (ev_id e) (wrap64 (ev_attempt e + 1)) (Some msg)
        (bc_max_retries cfg) s = (q, s1)" by fastforce
    from prompt_failed [OF pr here Cons.prems(6) mf] Cons.prems(1) x Some mf rest show ?thesis
      by (auto simp: Let_def memory_store_def)
  qed
qed simp

section \<open>A cycle uses up attempts\<close>

lemma pending_dom: "dom (pending s) = dom (ms_events s)"
  by (auto simp: pending_def)

lemma finite_waiting: "dom (ms_events s) \<subseteq> set xs \<Longrightarrow> finite (waiting ty s)"
  by (rule finite_subset [of _ "set xs"]) (auto simp: waiting_def pending_def)

lemma attempts_countedD:
  assumes "attempts_counted cfg ty s" "pending s i = Some e" "ev_type e = ty"
  shows "0 \<le> ev_attempt e" "ev_attempt e < bc_max_retries cfg"
  using assms by (auto simp: attempts_counted_def)

lemma waiting_left: "attempts_counted cfg ty s \<Longrightarrow> i \<in> waiting ty s \<Longrightarrow> 0 < attempts_left cfg ty s i"
  by (auto simp: attempts_counted_def waiting_def attempts_left_def)

text \<open>What a cycle does to the events it was given and to the others.\<close>

lemma cycle_given:
  assumes "settled reg (bc_max_retries cfg) e (pending s' (ev_id e)) d0 d" "0 \<le> ev_attempt e"
    and "ev_attempt e < bc_max_retries cfg" "bc_max_retries cfg < 2 ^ 63"
    and "pending s (ev_id e) = Some e" "ev_type e = ty"
  shows "attempts_left cfg ty s' (ev_id e) < attempts_left cfg ty s (ev_id e)"
    "\<And>e'. pending s' (ev_id e) = Some e' \<Longrightarrow> ev_type e' = ty"
proof -
  have "wrap64 (ev_attempt e + 1) = ev_attempt e + 1"
    using assms(2-4) by (intro wrap64_id) (auto simp: int64_range_def)
  with assms show "attempts_left cfg ty s' (ev_id e) < attempts_left cfg ty s (ev_id e)"
    "\<And>e'. pending s' (ev_id e) = Some e' \<Longrightarrow> ev_type e' = ty"
    by (auto simp: settled_def Let_def attempts_left_def split: if_splits dest: content_id)
qed

text \<open>A cycle that runs when everything waiting is visible: it takes ten waiting events or all of
  them, and leaves the others to become visible in time.\<close>

lemma prompt_poll:
  assumes "prompt t ty {} s" "env_sane env" "dom (ms_events s) \<subseteq> set (me_order env)"
    and "t + 18 * second \<le> me_now env"
  obtains es s1 where "poll env ty 10 s = (Returns es, s1)" "distinct (map ev_id es)"
    "\<And>e. e \<in> set es \<Longrightarrow> pending s (ev_id e) = Some e \<and> ev_type e = ty"
    "length es = 10 \<or> ev_id ` set es = waiting ty s"
    "prompt (me_now env) ty (ev_id ` set es) s1" "dom (ms_events s1) = dom (ms_events s)"
proof -
  obtain evs res where "poll_loop (me_order env) (me_now env) ty 10 (ms_events s) [] = (evs, res)"
    by fastforce
  with assms(1) obtain es s1 where p: "poll env ty 10 s = (Returns es, s1)"
    by (simp add: prompt_def poll_def)
  obtain ts where ts: "set ts = ev_id ` set es" "distinct (map ev_id es)"
    "s1 = s\<lparr>ms_events := lease (me_now env) (set ts) (ms_events s)\<rparr>" "int (length es) \<le> max 1 10"
    "\<forall>e. e \<in> set es \<longrightarrow> (\<exists>se. ms_events s (ev_id e) = Some se \<and> se_event se = e \<and>
       eligible (me_now env) ty se)"
    "int (length es) < max 1 10 \<longrightarrow> (\<forall>k \<in> set (me_order env). \<forall>se. ms_events s k = Some se \<and>
       eligible (me_now env) ty se \<longrightarrow> k \<in> set ts)"
    by (rule poll_returns [OF p assms(2) prompt_ok [OF assms(1)]]) blast
  have given: "pending s (ev_id e) = Some e \<and> ev_type e = ty" if "e \<in> set es" for e
    using ts(5) that by (auto simp: pending_def eligible_def)
  have "i \<in> ev_id ` set es" if few: "length es < 10" and i: "i \<in> waiting ty s" for i
  proof -
    obtain se where se: "ms_events s i = Some se" "ev_type (se_event se) = ty"
      using i by (auto simp: waiting_def pending_def)
    then have "eligible (me_now env) ty se"
      using promptD [OF assms(1) se] assms(4) by (simp add: eligible_def)
    with se ts(1,6) few assms(3) show ?thesis by auto
  qed
  moreover have "ev_id ` set es \<subseteq> waiting ty s" using given by (auto simp: waiting_def)
  ultimately have "length es = 10 \<or> ev_id ` set es = waiting ty s" using ts(4) by fastforce
  moreover have "prompt (me_now env) ty (ev_id ` set es) s1"
    using assms(1,4) poll_keeps_ok [OF p assms(2)] ts(1,3)
    by (fastforce simp: prompt_def lease_def second_def split: if_splits)
  moreover have "dom (ms_events s1) = dom (ms_events s)" using ts(3) by simp
  ultimately show thesis using that p ts(2) given by blast
qed

lemma prompt_cycle:
  assumes "prompt (me_now env) ty (ev_id ` set es) s1" "poll env ty 10 s = (Returns es, s1)"
    and "distinct (map ev_id es)" "\<And>e. e \<in> set es \<Longrightarrow> pending s1 (ev_id e) = Some e"
    and "handlers_keep reg" "env_sane env"
    and "poll_once (memory_store env) cfg reg elapsed ty s = (r, s', ms)"
  shows "prompt (me_now env) ty {} s'"
proof (cases "es = []")
  case True
  with assms(1,2,7) show ?thesis by (simp add: poll_once_def memory_store_def)
next
  case False
  obtain r1 s2 ms2 where loop: "consume_loop (memory_store env) cfg reg elapsed es 0 s1 [] = (r1, s2, ms2)"
    by (metis prod_cases3)
  have here: "\<And>e. e \<in> set es \<Longrightarrow> ms_events s1 (ev_id e) \<noteq> None" using assms(4) by (force simp: pending_def)
  have "uniform (me_rnd env)" using assms(6) by (simp add: env_sane_def)
  from prompt_consume [OF loop assms(1,3) here assms(5) this] assms(2,7) loop False show ?thesis
    by (auto simp: poll_once_def memory_store_def)
qed

text \<open>What a cycle does to its batch, as the events' handlers decide.\<close>

lemma cycle_batch:
  assumes "prompt t ty {} s" "handlers_keep reg" "env_sane env" "dom (ms_events s) \<subseteq> set (me_order env)"
    and "t + 18 * second \<le> me_now env" "cycle cfg reg elapsed ty env (s, acked) = (s', acked')"
  obtains es where "distinct (map ev_id es)" "length es = 10 \<or> ev_id ` set es = waiting ty s"
    "\<And>e. e \<in> set es \<Longrightarrow> pending s (ev_id e) = Some e \<and> ev_type e = ty"
    "\<And>e. e \<in> set es \<Longrightarrow> settled reg (bc_max_retries cfg) e (pending s' (ev_id e))
       (ms_dlq s (ev_id e)) (ms_dlq s' (ev_id e))"
    "\<And>i. i \<notin> ev_id ` set es \<Longrightarrow> pending s' i = pending s i \<and> ms_dlq s' i = ms_dlq s i"
    "acked' = acked \<union> ev_id ` {e \<in> set es. handled reg e}" "prompt (me_now env) ty {} s'"
proof -
  obtain es s1 where p: "poll env ty 10 s = (Returns es, s1)" and dist: "distinct (map ev_id es)"
    and given: "\<And>e. e \<in> set es \<Longrightarrow> pending s (ev_id e) = Some e \<and> ev_type e = ty"
    and many: "length es = 10 \<or> ev_id ` set es = waiting ty s"
    and s1: "prompt (me_now env) ty (ev_id ` set es) s1"
    by (rule prompt_poll [OF assms(1,3,4,5)]) blast
  obtain r ms where run: "poll_once (memory_store env) cfg reg elapsed ty s = (r, s', ms)"
    and acked': "acked' = acked \<union> ev_id ` {e \<in> set es. handled reg e}"
    using assms(6) p by (auto simp: cycle_def split: prod.splits)
  have ok: "mem_ok s \<and> env_sane env" and p': "so_poll (memory_store env) ty 10 s = (Returns es, s1)"
    using prompt_ok [OF assms(1)] assms(3) p by (simp_all add: memory_store_def)
  have "prompt (me_now env) ty {} s'"
    using prompt_cycle [OF s1 p dist _ assms(2,3) run] memory.poll_law [OF ok p'] by auto
  with memory.poll_once_settles [OF ok assms(2) run p'] show thesis
    by (intro that [OF dist many given _ _ acked']) (auto simp: memory.batch_settled_def)
qed

lemma cycle_effect:
  assumes "prompt t ty {} s" "attempts_counted cfg ty s" "handlers_keep reg" "bc_max_retries cfg < 2 ^ 63"
    and "env_sane env" "dom (ms_events s) \<subseteq> set (me_order env)" "t + 18 * second \<le> me_now env"
    and "cycle cfg reg elapsed ty env (s, acked) = (s', acked')"
  obtains ks where "ks \<subseteq> waiting ty s" "card ks = 10 \<or> ks = waiting ty s"
    "\<And>i. i \<in> ks \<Longrightarrow> attempts_left cfg ty s' i < attempts_left cfg ty s i"
    "\<And>i. i \<notin> ks \<Longrightarrow> pending s' i = pending s i"
    "prompt (me_now env) ty {} s'" "attempts_counted cfg ty s'"
    "waiting ty s \<union> dom (ms_dlq s) \<union> acked \<subseteq> waiting ty s' \<union> dom (ms_dlq s') \<union> acked'"
proof -
  obtain es where dist: "distinct (map ev_id es)" and many: "length es = 10 \<or> ev_id ` set es = waiting ty s"
    and given: "\<And>e. e \<in> set es \<Longrightarrow> pending s (ev_id e) = Some e \<and> ev_type e = ty"
    and settled: "\<And>e. e \<in> set es \<Longrightarrow> settled reg (bc_max_retries cfg) e (pending s' (ev_id e))
       (ms_dlq s (ev_id e)) (ms_dlq s' (ev_id e))"
    and other: "\<And>i. i \<notin> ev_id ` set es \<Longrightarrow> pending s' i = pending s i \<and> ms_dlq s' i = ms_dlq s i"
    and acked': "acked' = acked \<union> ev_id ` {e \<in> set es. handled reg e}" and prompt': "prompt (me_now env) ty {} s'"
    by (rule cycle_batch [OF assms(1,3,5,6,7,8)]) blast
  note range = attempts_countedD [OF assms(2)]
  have effect: "attempts_left cfg ty s' (ev_id e) < attempts_left cfg ty s (ev_id e)"
    "\<And>e'. pending s' (ev_id e) = Some e' \<Longrightarrow>
       ev_type e' = ty \<and> 0 \<le> ev_attempt e' \<and> ev_attempt e' < bc_max_retries cfg"
    "handled reg e \<or> pending s' (ev_id e) \<noteq> None \<or> ms_dlq s' (ev_id e) \<noteq> None" if "e \<in> set es" for e
  proof -
    from given [OF that] have e: "pending s (ev_id e) = Some e" "ev_type e = ty" by auto
    note left = cycle_given [OF settled [OF that] range [OF e] assms(4) e]
    note bounds = settled_bounds [OF settled [OF that] range [OF e] assms(4)]
    show "attempts_left cfg ty s' (ev_id e) < attempts_left cfg ty s (ev_id e)"
      "\<And>e'. pending s' (ev_id e) = Some e' \<Longrightarrow>
         ev_type e' = ty \<and> 0 \<le> ev_attempt e' \<and> ev_attempt e' < bc_max_retries cfg"
      "handled reg e \<or> pending s' (ev_id e) \<noteq> None \<or> ms_dlq s' (ev_id e) \<noteq> None"
      using left bounds by auto
  qed
  have counted: "0 \<le> ev_attempt e' \<and> ev_attempt e' < bc_max_retries cfg"
    if "pending s' i = Some e'" "ev_type e' = ty" for i e'
    using that effect(2) other [of i] assms(2)
    by (cases "i \<in> ev_id ` set es") (auto simp: attempts_counted_def)
  have kept: "i \<in> waiting ty s' \<union> dom (ms_dlq s') \<union> acked'"
    if "i \<in> waiting ty s \<union> dom (ms_dlq s) \<union> acked" for i
  proof (cases "i \<in> ev_id ` set es")
    case True
    then obtain e where e: "e \<in> set es" "i = ev_id e" by blast
    with effect(2,3) [of e] acked' show ?thesis
      by (cases "pending s' i") (auto simp: waiting_def)
  next
    case False
    with other [OF this] that acked' show ?thesis by (auto simp: waiting_def dom_def)
  qed
  have "card (ev_id ` set es) = length es" using dist by (metis distinct_card length_map list.set_map)
  with many have card: "card (ev_id ` set es) = 10 \<or> ev_id ` set es = waiting ty s" by auto
  have sub: "ev_id ` set es \<subseteq> waiting ty s" using given by (auto simp: waiting_def)
  have left: "attempts_left cfg ty s' i < attempts_left cfg ty s i" if "i \<in> ev_id ` set es" for i
    using that effect(1) by auto
  have counted': "attempts_counted cfg ty s'" using counted by (simp add: attempts_counted_def)
  show thesis by (rule that [OF sub card left _ prompt' counted']) (use other kept in auto)
qed

section \<open>Every event settles\<close>

lemma sum_drop:
  fixes f g :: "'a \<Rightarrow> nat"
  assumes "finite W" "ks \<subseteq> W" "\<And>i. i \<in> ks \<Longrightarrow> g i < f i" "\<And>i. i \<notin> ks \<Longrightarrow> g i = f i"
  shows "sum g W + card ks \<le> sum f W"
proof -
  have "sum g W + card ks = (\<Sum>i\<in>W. g i + (if i \<in> ks then 1 else 0))"
    using assms(1,2) by (simp add: sum.distrib sum.If_cases Int_absorb1)
  also have "\<dots> \<le> sum f W"
  proof (rule sum_mono)
    fix i
    show "g i + (if i \<in> ks then 1 else 0) \<le> f i" using assms(3,4) [of i] by (cases "i \<in> ks") simp_all
  qed
  finally show ?thesis .
qed

text \<open>Events that a cycle did not take are as they were.\<close>

lemma untouched:
  assumes "ks \<subseteq> waiting ty s" "\<And>i. i \<notin> ks \<Longrightarrow> pending s' i = pending s i"
  shows "waiting ty s' \<subseteq> waiting ty s" "dom (ms_events s') \<subseteq> dom (ms_events s)"
    "\<And>i. i \<notin> ks \<Longrightarrow> attempts_left cfg ty s' i = attempts_left cfg ty s i"
proof -
  have sub: "ks \<subseteq> dom (pending s)" using assms(1) by (auto simp: waiting_def)
  show "waiting ty s' \<subseteq> waiting ty s"
  proof
    fix i assume "i \<in> waiting ty s'"
    with assms(1) assms(2) [of i] show "i \<in> waiting ty s" by (cases "i \<in> ks") (auto simp: waiting_def)
  qed
  have "i \<in> dom (pending s)" if "i \<in> dom (pending s')" for i
  proof (cases "i \<in> ks")
    case False
    with that show ?thesis unfolding domIff using assms(2) by simp
  qed (use sub in blast)
  then show "dom (ms_events s') \<subseteq> dom (ms_events s)" by (auto simp: pending_dom)
  show "attempts_left cfg ty s' i = attempts_left cfg ty s i" if "i \<notin> ks" for i
    using assms(2) [OF that] by (simp add: attempts_left_def)
qed

text \<open>The measure of the waiting events: the attempts they have left in all, and ten times a bound \<open>l\<close>
  of those of a single event. A cycle lowers it by ten: either it takes ten events, or all.\<close>

lemma measure_drop:
  assumes "finite W" "waiting ty s \<subseteq> W" "ks \<subseteq> waiting ty s" "card ks = 10 \<or> ks = waiting ty s"
    and "\<And>i. i \<in> ks \<Longrightarrow> attempts_left cfg ty s' i < attempts_left cfg ty s i"
    and "\<And>i. i \<notin> ks \<Longrightarrow> pending s' i = pending s i"
    and "\<And>i. i \<in> W \<Longrightarrow> attempts_left cfg ty s i \<le> l"
    and "sum (attempts_left cfg ty s) W + 10 * l \<le> 10 + 10 * n"
  obtains l' where "\<And>i. i \<in> W \<Longrightarrow> attempts_left cfg ty s' i \<le> l'"
    "sum (attempts_left cfg ty s') W + 10 * l' \<le> 10 * n"
proof -
  note other = untouched [OF assms(3,6)]
  have drop: "sum (attempts_left cfg ty s') W + card ks \<le> sum (attempts_left cfg ty s) W"
    using assms(1-3,5) other(3) by (intro sum_drop) auto
  show thesis
  proof (cases "card ks = 10")
    case True
    have "attempts_left cfg ty s' i \<le> l" if "i \<in> W" for i
      using assms(7) [OF that] assms(5) [of i] other(3) [of i] by (cases "i \<in> ks") simp_all
    with True drop assms(8) show thesis by (intro that [of l]) simp_all
  next
    case False
    have "attempts_left cfg ty s' i \<le> l - 1" if "i \<in> W" for i
    proof (cases "i \<in> ks")
      case True
      with assms(5) [OF this] assms(7) [OF that] show ?thesis by simp
    next
      case out: False
      then have "i \<notin> waiting ty s'" using other(1) assms(4) False by auto
      then show ?thesis by (auto simp: waiting_def attempts_left_def split: option.split)
    qed
    moreover have "sum (attempts_left cfg ty s) W = 0" if "l = 0" using assms(7) that by simp
    ultimately show thesis using drop assms(8) by (intro that [of "l - 1"]) (cases l; simp)+
  qed
qed

lemma cycles_drain:
  assumes "handlers_keep reg" "bc_max_retries cfg < 2 ^ 63" "finite W"
  shows "prompt t ty {} s \<Longrightarrow> attempts_counted cfg ty s \<Longrightarrow> spaced t envs \<Longrightarrow>
    (\<And>env. env \<in> set envs \<Longrightarrow> env_sane env \<and> dom (ms_events s) \<subseteq> set (me_order env)) \<Longrightarrow>
    waiting ty s \<subseteq> W \<Longrightarrow> (\<And>i. i \<in> W \<Longrightarrow> attempts_left cfg ty s i \<le> l) \<Longrightarrow>
    sum (attempts_left cfg ty s) W + 10 * l \<le> 10 * length envs \<Longrightarrow>
    fold (cycle cfg reg elapsed ty) envs (s, acked) = (s', acked') \<Longrightarrow>
    waiting ty s' = {} \<and> waiting ty s \<union> dom (ms_dlq s) \<union> acked \<subseteq> dom (ms_dlq s') \<union> acked'"
proof (induction envs arbitrary: s t l acked)
  case Nil
  then have "attempts_left cfg ty s i = 0" if "i \<in> W" for i using assms(3) that by simp
  with Nil have "waiting ty s = {}" using waiting_left [of cfg ty s] by fastforce
  with Nil show ?case by simp
next
  case (Cons env envs)
  obtain s1 acked1 where run: "cycle cfg reg elapsed ty env (s, acked) = (s1, acked1)" by fastforce
  have env: "env_sane env" "dom (ms_events s) \<subseteq> set (me_order env)" "t + 18 * second \<le> me_now env"
    using Cons.prems(3,4) by auto
  obtain ks where ks: "ks \<subseteq> waiting ty s" "card ks = 10 \<or> ks = waiting ty s"
    and left: "\<And>i. i \<in> ks \<Longrightarrow> attempts_left cfg ty s1 i < attempts_left cfg ty s i"
    and other: "\<And>i. i \<notin> ks \<Longrightarrow> pending s1 i = pending s i"
    and s1: "prompt (me_now env) ty {} s1" "attempts_counted cfg ty s1"
    and kept: "waiting ty s \<union> dom (ms_dlq s) \<union> acked \<subseteq> waiting ty s1 \<union> dom (ms_dlq s1) \<union> acked1"
    using cycle_effect [OF Cons.prems(1,2) assms(1,2) env run] by metis
  note same = untouched [OF ks(1) other]
  have envs: "env_sane e \<and> dom (ms_events s1) \<subseteq> set (me_order e)" if "e \<in> set envs" for e
    using Cons.prems(4) [of e] that same(2) by auto
  have "sum (attempts_left cfg ty s) W + 10 * l \<le> 10 + 10 * length envs" using Cons.prems(7) by simp
  then obtain l' where l': "\<And>i. i \<in> W \<Longrightarrow> attempts_left cfg ty s1 i \<le> l'"
    "sum (attempts_left cfg ty s1) W + 10 * l' \<le> 10 * length envs"
    using measure_drop [OF assms(3) Cons.prems(5) ks left other Cons.prems(6)] by blast
  have rest: "fold (cycle cfg reg elapsed ty) envs (s1, acked1) = (s', acked')"
    and sp: "spaced (me_now env) envs" and W: "waiting ty s1 \<subseteq> W"
    using Cons.prems(3,5,8) run same(1) by auto
  from Cons.IH [OF s1 sp envs W l' rest] kept show ?case by blast
qed

section \<open>Whose backoff it is\<close>

text \<open>The delays are those of the store: the backoff and the dead-letter suffix of the bus
  configuration have no effect on what a consumer does.\<close>

lemma consume_config:
  assumes "bc_max_retries cfg' = bc_max_retries cfg"
  shows "consume_loop st cfg' reg elapsed es n s ms = consume_loop st cfg reg elapsed es n s ms"
proof (induction es arbitrary: n s ms)
  case (Cons e es)
  show ?case unfolding consume_loop.simps Cons.IH assms by (rule refl)
qed simp

lemma config_backoff_unused:
  "poll_once st (cfg\<lparr>bc_initial_backoff := a, bc_max_backoff := b, bc_backoff_factor := f,
     bc_dlq_topic_suffix := x\<rparr>) reg elapsed ty s = poll_once st cfg reg elapsed ty s"
proof -
  let ?cfg = "cfg\<lparr>bc_initial_backoff := a, bc_max_backoff := b, bc_backoff_factor := f, bc_dlq_topic_suffix := x\<rparr>"
  have "bc_max_retries ?cfg = bc_max_retries cfg" by simp
  note config = consume_config [OF this]
  show ?thesis by (simp add: poll_once_def config split: outcome.split prod.split)
qed

section \<open>The property\<close>

text \<open>C7: A consumer that keeps polling gets rid of every event. When its cycles are at least 18 seconds
  apart, which is more than any backoff, and there are enough of them to give each of the \<open>n\<close>
  waiting events \<open>MaxRetries\<close> attempts in batches of ten, none is left waiting: each was taken by
  its handlers or is a dead letter, whatever the handlers answer.\<close>

theorem every_event_settles:
  assumes "prompt t ty {} s" "attempts_counted cfg ty s" "handlers_keep reg" "bc_max_retries cfg < 2 ^ 63"
    and "\<And>env. env \<in> set envs \<Longrightarrow> env_sane env \<and> dom (ms_events s) \<subseteq> set (me_order env)"
    and "spaced t envs" "(card (waiting ty s) + 10) * nat (bc_max_retries cfg) \<le> 10 * length envs"
    and "envs \<noteq> []"
    and "run_cycles cfg reg elapsed ty envs s = (s', acked)"
  shows "waiting ty s' = {} \<and> waiting ty s \<subseteq> dom (ms_dlq s') \<union> acked"
proof -
  let ?W = "waiting ty s" and ?m = "nat (bc_max_retries cfg)"
  obtain env where "env \<in> set envs" using assms(8) by (cases envs) auto
  then have fin: "finite ?W" using finite_waiting assms(5) by blast
  have left: "attempts_left cfg ty s i \<le> ?m" for i
  proof (cases "i \<in> ?W")
    case True
    then obtain e where "pending s i = Some e" "ev_type e = ty" by (auto simp: waiting_def)
    moreover from this assms(2) have "0 \<le> ev_attempt e" by (simp add: attempts_counted_def)
    ultimately show ?thesis by (simp add: attempts_left_def)
  qed (auto simp: waiting_def attempts_left_def split: option.split)
  then have "sum (attempts_left cfg ty s) ?W \<le> card ?W * ?m"
    using sum_bounded_above [of ?W "attempts_left cfg ty s" ?m] by simp
  with assms(7) have "sum (attempts_left cfg ty s) ?W + 10 * ?m \<le> 10 * length envs"
    by (simp add: algebra_simps)
  from cycles_drain [OF assms(3,4) fin assms(1,2,6,5) subset_refl left this] assms(9)
  show ?thesis by (auto simp: run_cycles_def)
qed

text \<open>Example: an event whose handler always fails, polled every 20 seconds.\<close>

theorem every_event_settles_witness:
  "''e1'' \<in> dom (ms_dlq (fst (run_cycles default_bus_config (demo_registry (Fails ''boom'')) (\<lambda>_. Some 0)
     ''order.placed'' (map (\<lambda>k. at_time (20 * k * second) [''e1'']) [1..6]) demo_mem))) \<union>
   snd (run_cycles default_bus_config (demo_registry (Fails ''boom'')) (\<lambda>_. Some 0)
     ''order.placed'' (map (\<lambda>k. at_time (20 * k * second) [''e1'']) [1..6]) demo_mem)"
proof -
  let ?envs = "map (\<lambda>k. at_time (20 * k * second) [''e1'']) [1..6]"
  have p: "pending demo_mem = [''e1'' \<mapsto> demo_event]" by (auto simp: pending_def demo_mem_def new_store_def)
  then have w: "waiting ''order.placed'' demo_mem = {''e1''}"
    by (auto simp: waiting_def demo_event_def split: if_splits)
  have pr: "prompt 0 ''order.placed'' {} demo_mem"
    using demo_mem_ok(1) by (auto simp: prompt_def demo_mem_def new_store_def demo_event_def empty_event_def
      second_def split: if_splits)
  have c: "attempts_counted default_bus_config ''order.placed'' demo_mem"
    by (auto simp: attempts_counted_def p demo_event_def empty_event_def default_bus_config_def split: if_splits)
  have sp: "spaced 0 ?envs" by (simp add: upto.simps at_time_def second_def)
  have e: "env_sane env \<and> dom (ms_events demo_mem) \<subseteq> set (me_order env)" if "env \<in> set ?envs" for env
    using that by (auto simp: at_time_def demo_mem_def new_store_def env_sane_def uniform_def split: if_splits)
  have k: "handlers_keep (demo_registry (Fails ''boom''))" by simp
  obtain s' acked where run: "run_cycles default_bus_config (demo_registry (Fails ''boom'')) (\<lambda>_. Some 0)
     ''order.placed'' ?envs demo_mem = (s', acked)" by fastforce
  have m: "bc_max_retries default_bus_config < 2 ^ 63"
    "(card (waiting ''order.placed'' demo_mem) + 10) * nat (bc_max_retries default_bus_config) \<le> 10 * length ?envs"
    by (simp_all add: w default_bus_config_def)
  have "?envs \<noteq> []" by simp
  from every_event_settles [OF pr c k m(1) e sp m(2) this run] w run show ?thesis by simp
qed

end
