(* ===== verification/Dead_Letters.thy ===== *)
theory Dead_Letters
  imports Event_Bus
begin

text \<open>
  The dead letters of the event bus: \<open>MoveToDLQ\<close> and \<open>ListDLQ\<close> of the storage port
  (\<open>eventbus/ports/ports.go\<close>) over the in-memory store, what they add to the contract of the port,
  and what a listing shows after a run of the bus.
\<close>

section \<open>The contract of the port, with its dead letters\<close>

text \<open>Moving an event removes it from the pending ones and keeps its content, that of the pending
  event if there is one; a listing gives distinct dead letters of the type asked for, or of all
  types, and changes nothing.\<close>

definition of_type :: "string \<Rightarrow> domain_event \<Rightarrow> bool" where
  "of_type ty e \<longleftrightarrow> ty = [] \<or> ev_type e = ty"

locale dead_letter_laws = event_store_laws +
  assumes move_law: "ok s \<Longrightarrow> so_move_to_dlq st e why s = (r, s') \<Longrightarrow>
      ok s' \<and>
      (if r = Returns ()
       then pending s' = (pending s)(ev_id e := None) \<and>
         (\<exists>e'. dead s' = (dead s)(ev_id e \<mapsto> e') \<and>
            content e' = content (case pending s (ev_id e) of None \<Rightarrow> e | Some p \<Rightarrow> p))
       else pending s' = pending s \<and> dead s' = dead s)"
    and list_law: "ok s \<Longrightarrow> so_list_dlq st ty n s = (p, s') \<Longrightarrow>
      ok s' \<and> pending s' = pending s \<and> dead s' = dead s \<and>
      (case p of
         Returns es \<Rightarrow> distinct (map ev_id es) \<and>
           (\<forall>e. e \<in> set es \<longrightarrow> of_type ty e \<and> dead s (ev_id e) = Some e)
       | _ \<Rightarrow> True)"
begin

lemma moved_not_pending:
  assumes "ok s" "so_move_to_dlq st e why s = (Returns (), s')"
  shows "pending s' (ev_id e) = None" "dead s' (ev_id e) \<noteq> None"
  using move_law [OF assms] by auto

text \<open>What a listing shows after a cycle was a dead letter before it, or was given to the cycle and
  used up its last attempt there.\<close>

lemma listed_after_cycle:
  assumes "ok s" "handlers_keep reg" "so_poll st ty 10 s = (Returns es, s1)"
    and "poll_once st cfg reg elapsed ty s = (r, s', ms)"
    and "so_list_dlq st ty' n s' = (Returns ds, s'')" "d \<in> set ds"
  shows "dead s (ev_id d) = Some d \<or>
    (\<exists>e \<in> set es. content d = content e \<and> \<not> handled reg e \<and>
       ev_attempt d = wrap64 (ev_attempt e + 1) \<and> bc_max_retries cfg \<le> ev_attempt d)"
proof -
  from poll_once_settles [OF assms(1,2,4,3)]
  have ok': "ok s'" and set: "batch_settled reg (bc_max_retries cfg) es s s'" by auto
  have d: "dead s' (ev_id d) = Some d" using list_law [OF ok' assms(5)] assms(6) by simp
  show ?thesis
  proof (cases "ev_id d \<in> ev_id ` set es")
    case True
    then obtain e where e: "e \<in> set es" "ev_id d = ev_id e" by blast
    with set d have "settled reg (bc_max_retries cfg) e (pending s' (ev_id e)) (dead s (ev_id e)) (Some d)"
      by (metis batch_settled_def)
    with e show ?thesis
      by (auto simp: settled_def Let_def split: if_splits)
  next
    case False
    with set d show ?thesis by (simp add: batch_settled_def)
  qed
qed

end

section \<open>The in-memory store keeps it\<close>

text \<open>Dead letters are kept under their identifiers, and each has a time of death, which the sorting of
  \<open>ListDLQ\<close> dereferences.\<close>

definition dlq_ok :: "mem_store \<Rightarrow> bool" where
  "dlq_ok s \<longleftrightarrow> (\<forall>i e. ms_dlq s i = Some e \<longrightarrow> ev_id e = i \<and> ev_dlq_at e \<noteq> None)"

definition dlq_env_ok :: "mem_env \<Rightarrow> bool" where
  "dlq_env_ok env \<longleftrightarrow> env_sane env \<and> distinct (me_dlq_order env) \<and>
     sorts_by (\<lambda>e. the (ev_dlq_at e)) (me_sort_dlq env)"

lemma env_ok_dlq: "env_ok env s \<Longrightarrow> dlq_env_ok env"
  by (simp add: env_ok_def dlq_env_ok_def env_sane_def)

text \<open>The loop of \<open>ListDLQ\<close> takes the dead letters of the type in map order, up to the limit.\<close>

lemma list_loop_eq:
  "int (length acc) < limit \<or> limit \<le> 0 \<Longrightarrow>
   list_loop ks ty limit dlq acc =
     acc @ (let l = filter (of_type ty) (List.map_filter dlq ks)
            in if limit \<le> 0 then l else take (nat limit - length acc) l)"
proof (induction ks arbitrary: acc)
  case (Cons k ks)
  show ?case
  proof (cases "dlq k")
    case None
    with Cons show ?thesis by (simp add: map_filter_simps)
  next
    case (Some e)
    show ?thesis
    proof (cases "of_type ty e")
      case False
      with Some Cons show ?thesis by (simp add: map_filter_simps of_type_def)
    next
      case True
      show ?thesis
      proof (cases "limit > 0 \<and> int (length (acc @ [e])) \<ge> limit")
        case full: True
        then have "nat limit - length acc = Suc 0" using Cons.prems by simp
        with full True Some show ?thesis by (auto simp: map_filter_simps of_type_def Let_def)
      next
        case more: False
        then have "int (length (acc @ [e])) < limit \<or> limit \<le> 0" by auto
        from Cons.IH [OF this] more True Some show ?thesis
          by (auto simp: map_filter_simps of_type_def Let_def take_Cons' not_le nat_diff_distrib)
      qed
    qed
  qed
qed (simp add: map_filter_simps Let_def)

lemma map_filter_ids:
  "dlq_ok s \<Longrightarrow> map ev_id (List.map_filter (ms_dlq s) ks) = filter (\<lambda>k. ms_dlq s k \<noteq> None) ks"
  by (induction ks) (auto simp: map_filter_simps dlq_ok_def)

lemma set_map_filter: "set (List.map_filter f xs) = {y. \<exists>x \<in> set xs. f x = Some y}"
  by (force simp: List.map_filter_def)

lemma list_dlq_spec:
  assumes "dlq_ok s" "dlq_env_ok env" "list_dlq env ty limit s = (r, s')"
  obtains es where "r = Returns es" "s' = s" "distinct (map ev_id es)"
    "sorted (map (\<lambda>e. the (ev_dlq_at e)) es)"
    "\<And>e. e \<in> set es \<Longrightarrow> of_type ty e \<and> ms_dlq s (ev_id e) = Some e"
    "limit > 0 \<Longrightarrow> int (length es) \<le> limit"
    "dom (ms_dlq s) \<subseteq> set (me_dlq_order env) \<Longrightarrow> limit \<le> 0 \<or> int (length es) < limit \<Longrightarrow>
       (\<And>i e. ms_dlq s i = Some e \<Longrightarrow> of_type ty e \<Longrightarrow> e \<in> set es)"
proof -
  let ?all = "filter (of_type ty) (List.map_filter (ms_dlq s) (me_dlq_order env))"
  let ?l = "if limit \<le> 0 then ?all else take (nat limit) ?all"
  let ?es = "me_sort_dlq env ?l"
  have sorts: "sorts_by (\<lambda>e. the (ev_dlq_at e)) (me_sort_dlq env)" "distinct (me_dlq_order env)"
    using assms(2) by (simp_all add: dlq_env_ok_def)
  have r: "r = Returns ?es" "s' = s"
    using assms(3) list_loop_eq [of "[]" limit "me_dlq_order env" ty "ms_dlq s"]
    by (auto simp: list_dlq_def Let_def)
  have "mset ?es = mset ?l" using sorts(1) by (simp only: sorts_by_def)
  then have set: "set ?es = set ?l" and len: "length ?es = length ?l"
    by (auto dest: mset_eq_setD mset_eq_length)
  have "distinct (map ev_id (List.map_filter (ms_dlq s) (me_dlq_order env)))"
    using sorts(2) by (simp add: map_filter_ids [OF assms(1)])
  then have "distinct (map ev_id ?all)" by (rule distinct_map_filter)
  then have "distinct (map ev_id ?l)" by (simp add: take_map [symmetric] del: take_map)
  then have dist: "distinct (map ev_id ?es)" by (simp add: sorts_by_distinct [OF sorts(1)])
  have sorted: "sorted (map (\<lambda>e. the (ev_dlq_at e)) ?es)" using sorts(1) by (simp add: sorts_by_def)
  have sub: "set ?l \<subseteq> set ?all" by (auto dest: in_set_takeD)
  have letter: "of_type ty e \<and> ms_dlq s (ev_id e) = Some e" if "e \<in> set ?es" for e
    using that set sub assms(1) by (auto simp: set_map_filter dlq_ok_def)
  have limit: "int (length ?es) \<le> limit" if "limit > 0" using that len by simp
  have complete: "e \<in> set ?es"
    if "dom (ms_dlq s) \<subseteq> set (me_dlq_order env)" "limit \<le> 0 \<or> int (length ?es) < limit"
      "ms_dlq s i = Some e" "of_type ty e" for i e
  proof -
    have "e \<in> set ?all" using that(1,3,4) by (force simp: set_map_filter)
    moreover have "?l = ?all" using that(2) len by (auto simp: min_def split: if_splits)
    ultimately show ?thesis using set by simp
  qed
  show thesis by (rule that [OF r dist sorted letter limit complete])
qed

text \<open>The letter that is kept: with a time of death, and the reason if it has no error yet.\<close>

definition bury :: "mem_env \<Rightarrow> string \<Rightarrow> domain_event \<Rightarrow> domain_event" where
  "bury env why e =
     (let e = (if ev_dlq_at e = None then e\<lparr>ev_dlq_at := Some (me_now env)\<rparr> else e)
      in if why \<noteq> [] \<and> ev_error e = [] then e\<lparr>ev_error := why\<rparr> else e)"

lemma bury_simps [simp]:
  "content (bury env why e) = content e" "ev_id (bury env why e) = ev_id e" "\<exists>t. ev_dlq_at (bury env why e) = Some t"
  by (simp_all add: bury_def Let_def)

lemma move_to_dlq_eq:
  "move_to_dlq_locked env e why s =
     (let p = (case pending s (ev_id e) of None \<Rightarrow> e | Some p \<Rightarrow> p)
      in (Returns (), s\<lparr>ms_events := (ms_events s)(ev_id e := None),
            ms_dlq := (ms_dlq s)(ev_id p \<mapsto> bury env why p)\<rparr>))"
proof (cases "ms_events s (ev_id e)")
  case None
  then have "(ms_events s)(ev_id e := None) = ms_events s" by auto
  with None show ?thesis by (simp add: move_to_dlq_locked_def pending_def bury_def Let_def)
qed (simp add: move_to_dlq_locked_def pending_def bury_def Let_def)

lemma move_to_dlq_keeps:
  assumes "mem_ok s" "dlq_ok s" "move_to_dlq_locked env e why s = (r, s')"
  shows "r = Returns () \<and> mem_ok s' \<and> dlq_ok s' \<and> pending s' = (pending s)(ev_id e := None) \<and>
    (\<exists>e'. ms_dlq s' = (ms_dlq s)(ev_id e \<mapsto> e') \<and>
       content e' = content (case pending s (ev_id e) of None \<Rightarrow> e | Some p \<Rightarrow> p))"
proof -
  let ?p = "case pending s (ev_id e) of None \<Rightarrow> e | Some p \<Rightarrow> p"
  have id: "ev_id ?p = ev_id e"
    using assms(1) by (auto simp: pending_def mem_ok_def split: option.split)
  with assms(3) have "r = Returns ()"
    "s' = s\<lparr>ms_events := (ms_events s)(ev_id e := None), ms_dlq := (ms_dlq s)(ev_id e \<mapsto> bury env why ?p)\<rparr>"
    by (simp_all add: move_to_dlq_eq Let_def)
  then show ?thesis
    using assms(1,2) id by (simp add: mem_ok_def dlq_ok_def pending_def fun_eq_iff)
qed

lemma mark_failed_dlq_ok:
  assumes "mem_ok s" "dlq_ok s" "mark_failed env i a err m s = (r, s')"
  shows "dlq_ok s'"
proof (cases "ms_events s i")
  case (Some se)
  define ev where "ev = (case err of None \<Rightarrow> (se_event se)\<lparr>ev_attempt := a\<rparr>
    | Some msg \<Rightarrow> (se_event se)\<lparr>ev_attempt := a, ev_error := msg\<rparr>)"
  have id: "ev_id ev = i" using mem_ok_id [OF assms(1) Some] by (simp add: ev_def split: option.split)
  show ?thesis
  proof (cases "m \<le> a")
    case True
    let ?ev = "ev\<lparr>ev_dlq_at := Some (me_now env), ev_error := ''max attempts exceeded: '' @ ev_error ev\<rparr>"
    let ?s = "s\<lparr>ms_events := (ms_events s)(i \<mapsto> se\<lparr>se_event := ?ev\<rparr>)\<rparr>"
    have "mem_ok ?s" "dlq_ok ?s" using assms(1,2) id by (simp_all add: mem_ok_def dlq_ok_def)
    moreover have "move_to_dlq_locked env ?ev [] ?s = (r, s')"
      using assms(3) Some True by (cases err) (simp_all add: mark_failed_def ev_def Let_def)
    ultimately show ?thesis using move_to_dlq_keeps by blast
  next
    case False
    then have "ms_dlq s' = ms_dlq s"
      using assms(3) Some by (auto simp: mark_failed_def Let_def split: outcome.splits)
    with assms(2) show ?thesis by (simp add: dlq_ok_def)
  qed
qed (use assms in \<open>simp add: mark_failed_def\<close>)

interpretation kept: event_store_laws "memory_store env" pending ms_dlq "\<lambda>s. mem_ok s \<and> dlq_ok s \<and> env_sane env"
  for env :: mem_env
proof unfold_locales
  fix s s' :: mem_store and i :: string and a m :: int and err :: "string option" and r :: "unit outcome"
  assume ok: "mem_ok s \<and> dlq_ok s \<and> env_sane env"
    and step: "so_mark_failed (memory_store env) i a err m s = (r, s')"
  then have "dlq_ok s'" using mark_failed_dlq_ok [of s env i a err m r s'] by (simp add: memory_store_def)
  with ok memory.failed_law [OF _ step] show "(mem_ok s' \<and> dlq_ok s' \<and> env_sane env) \<and>
      (case pending s i of
         None \<Rightarrow> r \<noteq> Returns () \<and> pending s' = pending s \<and> ms_dlq s' = ms_dlq s
       | Some e \<Rightarrow> r = Returns () \<and>
           (\<exists>e'. content e' = content e \<and> ev_attempt e' = a \<and>
              (if m \<le> a then pending s' = (pending s)(i := None) \<and> ms_dlq s' = (ms_dlq s)(i \<mapsto> e')
               else pending s' = (pending s)(i \<mapsto> e') \<and> ms_dlq s' = ms_dlq s)))"
    by simp
next
  fix s s' :: mem_store and e :: domain_event and r :: "unit outcome"
  assume ok: "mem_ok s \<and> dlq_ok s \<and> env_sane env" and step: "so_save (memory_store env) (Some e) s = (r, s')"
  show "(mem_ok s' \<and> dlq_ok s' \<and> env_sane env) \<and> ms_dlq s' = ms_dlq s \<and>
      (if r = Returns ()
       then \<exists>e'. content e' = content e \<and> ev_attempt e' = ev_attempt e \<and>
         pending s' = (pending s)(ev_id e \<mapsto> e')
       else pending s' = pending s)"
    using memory.save_law [OF _ step] ok by (simp add: dlq_ok_def)
next
  fix s s' :: mem_store and ty :: string and n :: int and p :: "domain_event list outcome"
  assume ok: "mem_ok s \<and> dlq_ok s \<and> env_sane env" and step: "so_poll (memory_store env) ty n s = (p, s')"
  show "(mem_ok s' \<and> dlq_ok s' \<and> env_sane env) \<and> pending s' = pending s \<and> ms_dlq s' = ms_dlq s \<and>
      (case p of
         Returns es \<Rightarrow> distinct (map ev_id es) \<and>
           (\<forall>e. e \<in> set es \<longrightarrow> ev_type e = ty \<and> pending s (ev_id e) = Some e)
       | _ \<Rightarrow> True)"
    using memory.poll_law [OF _ step] ok by (simp add: dlq_ok_def)
next
  fix s s' :: mem_store and i :: string and r :: "unit outcome"
  assume ok: "mem_ok s \<and> dlq_ok s \<and> env_sane env" and step: "so_mark_processed (memory_store env) i s = (r, s')"
  show "(mem_ok s' \<and> dlq_ok s' \<and> env_sane env) \<and> ms_dlq s' = ms_dlq s \<and>
      (if r = Returns () then pending s i \<noteq> None \<and> pending s' = (pending s)(i := None)
       else pending s i = None \<and> pending s' = pending s)"
    using memory.processed_law [OF _ step] ok by (simp add: dlq_ok_def)
qed

interpretation letters: dead_letter_laws "memory_store env" pending ms_dlq
    "\<lambda>s. (mem_ok s \<and> dlq_ok s \<and> env_sane env) \<and> dlq_env_ok env"
  for env :: mem_env
proof (intro dead_letter_laws.intro dead_letter_laws_axioms.intro)
  show "event_store_laws (memory_store env) pending ms_dlq
      (\<lambda>s. (mem_ok s \<and> dlq_ok s \<and> env_sane env) \<and> dlq_env_ok env)"
  proof (cases "dlq_env_ok env")
    case True
    with kept.event_store_laws_axioms [of env] show ?thesis by simp
  qed (unfold_locales, simp_all)
next
  fix s s' :: mem_store and ty :: string and n :: int and p :: "domain_event list outcome"
  assume ok: "(mem_ok s \<and> dlq_ok s \<and> env_sane env) \<and> dlq_env_ok env"
    and step: "so_list_dlq (memory_store env) ty n s = (p, s')"
  then have l: "list_dlq env ty n s = (p, s')" by (simp add: memory_store_def)
  from ok have "dlq_ok s" "dlq_env_ok env" by simp_all
  then obtain es where "p = Returns es" "s' = s" "distinct (map ev_id es)"
    "\<And>e. e \<in> set es \<Longrightarrow> of_type ty e \<and> ms_dlq s (ev_id e) = Some e"
    by (rule list_dlq_spec [OF _ _ l]) blast
  with ok show "((mem_ok s' \<and> dlq_ok s' \<and> env_sane env) \<and> dlq_env_ok env) \<and>
      pending s' = pending s \<and> ms_dlq s' = ms_dlq s \<and>
      (case p of
         Returns es \<Rightarrow> distinct (map ev_id es) \<and>
           (\<forall>e. e \<in> set es \<longrightarrow> of_type ty e \<and> ms_dlq s (ev_id e) = Some e)
       | _ \<Rightarrow> True)"
    by simp
next
  fix s s' :: mem_store and e :: domain_event and why :: string and r :: "unit outcome"
  assume ok: "(mem_ok s \<and> dlq_ok s \<and> env_sane env) \<and> dlq_env_ok env"
    and step: "so_move_to_dlq (memory_store env) e why s = (r, s')"
  then have m: "move_to_dlq_locked env e why s = (r, s')" by (simp add: memory_store_def move_to_dlq_def)
  from ok have "mem_ok s" "dlq_ok s" by simp_all
  from move_to_dlq_keeps [OF this m] ok show "((mem_ok s' \<and> dlq_ok s' \<and> env_sane env) \<and> dlq_env_ok env) \<and>
      (if r = Returns ()
       then pending s' = (pending s)(ev_id e := None) \<and>
         (\<exists>e'. ms_dlq s' = (ms_dlq s)(ev_id e \<mapsto> e') \<and>
            content e' = content (case pending s (ev_id e) of None \<Rightarrow> e | Some p \<Rightarrow> p))
       else pending s' = pending s \<and> ms_dlq s' = ms_dlq s)"
    by simp
qed

interpretation stub_letters: dead_letter_laws "stub_store name client" "\<lambda>_. Map.empty" "\<lambda>_. Map.empty" "\<lambda>_. True"
  for name :: string and client :: bool
  by unfold_locales (auto simp: stub_store_def stub_call_def split: if_splits)

section \<open>The listing after a run\<close>

lemma save_all_letters: "save_all (save env) ps s = (r, s') \<Longrightarrow> ms_dlq s' = ms_dlq s"
proof (induction ps arbitrary: s)
  case (Cons p ps)
  obtain r1 s1 where s1: "save env p s = (r1, s1)" by fastforce
  then have "ms_dlq s1 = ms_dlq s" by (auto simp: save_def Let_def split: option.splits if_splits)
  with Cons s1 show ?case by (cases r1) auto
qed simp

lemma publish_batch_letters:
  assumes "publish_batch (memory_store env) cfg fresh now elapsed es s = (r, s', ms)"
  shows "ms_dlq s' = ms_dlq s"
proof -
  obtain q t where "save_all (save env) (prepare_all fresh 0 now es) s = (q, t)" by fastforce
  with save_all_letters [OF this] assms show ?thesis
    by (cases q) (auto simp: publish_batch_def memory_store_def split: if_splits prod.splits)
qed

lemma bus_run_letters:
  assumes "bus_run cfg reg s work pub acked" "handlers_keep reg" "0 < bc_max_retries cfg" "bc_max_retries cfg < 2 ^ 63"
  shows "dlq_ok s"
  using assms(1)
proof (induction rule: bus_run.induct)
  case empty
  show ?case by (simp add: new_store_def dlq_ok_def)
next
  case (publishes s work pub acked env e fresh now elapsed r s' ms)
  then have "mem_ok s \<and> dlq_ok s \<and> env_sane env"
    using bus_run_accounted [OF publishes.hyps(1) assms(2-4)] by (simp add: accounted_def)
  from kept.publish_saves [OF this publishes.hyps(4)] show ?case by simp
next
  case publishes_batch
  then show ?case by (metis publish_batch_letters dlq_ok_def)
next
  case (polls s work pub acked env c ty es s')
  then have "mem_ok s \<and> dlq_ok s \<and> env_sane env" "so_poll (memory_store env) ty 10 s = (Returns es, s')"
    using bus_run_accounted [OF polls.hyps(1) assms(2-4)] by (simp_all add: accounted_def memory_store_def)
  from kept.poll_law [OF this] show ?case by simp
next
  case (handles s work pub acked env c e es elapsed_of n ms r s' ms')
  then have "mem_ok s \<and> dlq_ok s \<and> env_sane env"
    using bus_run_accounted [OF handles.hyps(1) assms(2-4)] by (simp add: accounted_def)
  from kept.consume_single [OF this assms(2) handles.hyps(4)] show ?case by simp
next
  case closes
  then show ?case by (simp add: dlq_ok_def close_store_def)
qed

text \<open>C33: An operator who lists the dead letters sees what happened. After any run of publishers and
  consumers, interleaved in any way, the listing returns without a panic; it holds dead letters of the type asked for,
  each once, in the order in which they died, each after exactly \<open>MaxRetries\<close> attempts; and if
  the limit does not cut it off, every event published with success is in it, or still pending,
  or was taken by its handlers, or is a dead letter of another type.\<close>

theorem dead_letters_listed:
  assumes "bus_run cfg reg s work pub acked" "handlers_keep reg"
    and "0 < bc_max_retries cfg" "bc_max_retries cfg < 2 ^ 63"
    and "env_ok env s" "list_dlq env ty limit s = (r, s')"
  shows "\<exists>es. r = Returns es \<and> s' = s \<and> distinct (map ev_id es) \<and>
    sorted (map (\<lambda>e. the (ev_dlq_at e)) es) \<and>
    (\<forall>e \<in> set es. of_type ty e \<and> ev_dlq_at e \<noteq> None \<and> ev_attempt e = bc_max_retries cfg) \<and>
    (limit > 0 \<longrightarrow> int (length es) \<le> limit) \<and>
    (limit \<le> 0 \<or> int (length es) < limit \<longrightarrow>
       (\<forall>i \<in> pub. i \<in> acked \<or> pending s i \<noteq> None \<or> i \<in> ev_id ` set es \<or>
          (\<exists>e. ms_dlq s i = Some e \<and> \<not> of_type ty e)))"
proof -
  have ok: "dlq_ok s" by (rule bus_run_letters [OF assms(1-4)])
  have acc: "accounted cfg s pub acked" using bus_run_accounted [OF assms(1-4)] by simp
  have cover: "dom (ms_dlq s) \<subseteq> set (me_dlq_order env)" using assms(5) by (simp add: env_ok_def)
  obtain es where es: "r = Returns es" "s' = s" "distinct (map ev_id es)"
    "sorted (map (\<lambda>e. the (ev_dlq_at e)) es)"
    and letter: "\<And>e. e \<in> set es \<Longrightarrow> of_type ty e \<and> ms_dlq s (ev_id e) = Some e"
    and limit: "limit > 0 \<Longrightarrow> int (length es) \<le> limit"
    and all: "\<And>i e. limit \<le> 0 \<or> int (length es) < limit \<Longrightarrow> ms_dlq s i = Some e \<Longrightarrow> of_type ty e \<Longrightarrow>
      e \<in> set es"
    by (rule list_dlq_spec [OF ok env_ok_dlq [OF assms(5)] assms(6)]) (use cover in blast)
  have "of_type ty e \<and> ev_dlq_at e \<noteq> None \<and> ev_attempt e = bc_max_retries cfg" if "e \<in> set es" for e
    using letter [OF that] ok acc by (auto simp: dlq_ok_def accounted_def)
  moreover have "i \<in> acked \<or> pending s i \<noteq> None \<or> i \<in> ev_id ` set es \<or> (\<exists>e. ms_dlq s i = Some e \<and> \<not> of_type ty e)"
    if "limit \<le> 0 \<or> int (length es) < limit" "i \<in> pub" for i
  proof (cases "ms_dlq s i")
    case (Some e)
    then have "ev_id e = i" using ok by (simp add: dlq_ok_def)
    with all [OF that(1) Some] Some show ?thesis by (cases "of_type ty e") auto
  next
    case None
    with acc that(2) show ?thesis by (auto simp: accounted_def)
  qed
  ultimately show ?thesis using es limit by (intro exI [of _ es]) blast
qed

theorem dead_letters_listed_witness:
  "\<exists>s es. bus_run (default_bus_config\<lparr>bc_max_retries := 1\<rparr>) (demo_registry (Fails ''boom'')) s (\<lambda>_. []) {''e1''} {} \<and>
     list_dlq (at_time 300 []\<lparr>me_dlq_order := [''e1'']\<rparr>) [] 0 s = (Returns es, s) \<and> ''e1'' \<in> ev_id ` set es"
proof -
  let ?cfg = "default_bus_config\<lparr>bc_max_retries := 1\<rparr>" and ?reg = "demo_registry (Fails ''boom'')"
  let ?e = "demo_event\<lparr>ev_version := ''1''\<rparr>" and ?env = "at_time 200 [''e1'']"
  let ?s = "new_store\<lparr>ms_events := [''e1'' \<mapsto> \<lparr>se_event = ?e, se_visible_at = 100\<rparr>]\<rparr>"
  have pub: "publish (memory_store (at_time 100 [])) ?cfg ''x'' 5 (Some 0) (Some demo_event) new_store
      = (Returns (), ?s, [])"
    by (simp add: publish_def Let_def memory_store_def save_def prepare_def new_store_def demo_event_def
        empty_event_def at_time_def zero_time_def compute_visible_at_def record_metrics_def default_bus_config_def)
  have "env_sane (at_time 100 [])" "ev_attempt demo_event = 0" by (simp_all add: demo_event_def empty_event_def)
  from bus_run.publishes [OF bus_run.empty this pub, of ?reg]
  have run1: "bus_run ?cfg ?reg ?s (\<lambda>_. []) {''e1''} {}" by (simp add: prepare_id demo_event_def)
  have sane: "env_sane ?env" by simp
  obtain s1 where poll: "poll ?env ''order.placed'' 10 ?s = (Returns [?e], s1)"
    by (simp add: poll_def new_store_def demo_event_def empty_event_def at_time_def)
  obtain r s ms where cyc: "poll_once (memory_store ?env) ?cfg ?reg (\<lambda>_. Some 0) ''order.placed'' ?s = (r, s, ms)"
    by (metis prod_cases3)
  have no: "\<not> handled ?reg ?e"
    by (simp add: handled_def dispatch_def demo_registry_def demo_event_def)
  then have none: "{e \<in> set [?e]. handled ?reg e} = {}" by auto
  have "mem_ok ?s \<and> env_sane ?env" using sane by (simp add: mem_ok_def demo_event_def new_store_def)
  moreover have "so_poll (memory_store ?env) ''order.placed'' 10 ?s = (Returns [?e], s1)"
    using poll by (simp add: memory_store_def)
  moreover have keep: "handlers_keep ?reg" by simp
  moreover have "mem_ok ?s" by (simp add: mem_ok_def demo_event_def new_store_def)
  from bus_cycle [OF run1 keep sane this refl poll cyc]
  have run: "bus_run ?cfg ?reg s (\<lambda>_. []) {''e1''} {}" unfolding none by simp
  ultimately have "memory.batch_settled ?reg 1 [?e] ?s s"
    using memory.poll_once_settles [OF _ keep cyc] by simp
  then have "settled ?reg 1 ?e (pending s ''e1'') None (ms_dlq s ''e1'')"
    and rest: "\<And>i. i \<noteq> ''e1'' \<Longrightarrow> pending s i = None \<and> ms_dlq s i = None"
    by (simp_all add: memory.batch_settled_def demo_event_def new_store_def pending_def)
  then have dead: "pending s ''e1'' = None" "ms_dlq s ''e1'' \<noteq> None"
    using no by (auto simp: settled_def demo_event_def empty_event_def wrap64_def)
  let ?ls = "at_time 300 []\<lparr>me_dlq_order := [''e1'']\<rparr>"
  have "pending s x = None" "ms_dlq s x \<noteq> None \<longleftrightarrow> x = ''e1''" for x
    using rest [of x] dead by (cases "x = ''e1''"; simp)+
  then have "dom (pending s) = {}" "dom (ms_dlq s) = {''e1''}" by (auto simp: dom_def)
  then have env: "env_ok ?ls s"
    by (simp add: env_ok_def at_time_def uniform_def pending_def dom_def)
  obtain l s2 where l: "list_dlq ?ls [] 0 s = (l, s2)" by fastforce
  have "0 < bc_max_retries ?cfg" "bc_max_retries ?cfg < 2 ^ 63" by simp_all
  from dead_letters_listed [OF run keep this env l] l run dead show ?thesis
    by (auto simp: of_type_def)
qed

text \<open>A dead letter that is published again does not come back: nothing clears its time of death, the
  store takes it, and no poll ever gives it.\<close>

lemma replayed_letter_stuck:
  assumes "mem_ok s" "env_sane env" "ev_dlq_at e \<noteq> None"
    and "publish (memory_store env) cfg fresh now elapsed (Some e) s = (Returns (), s1, ms)"
    and "env_sane env'" "poll env' ty n s1 = (Returns es, s2)"
  shows "pending s1 (ev_id (prepare fresh now e)) \<noteq> None \<and> ev_id (prepare fresh now e) \<notin> ev_id ` set es"
proof -
  let ?i = "ev_id (prepare fresh now e)"
  have dlq: "ev_dlq_at (prepare fresh now e) = ev_dlq_at e" by (simp add: prepare_def Let_def)
  obtain s0 where "save env (Some (prepare fresh now e)) s = (Returns (), s0)" "s1 = s0"
    using assms(4) by (auto simp: publish_def Let_def memory_store_def split: if_splits outcome.splits prod.splits)
  then obtain se where se: "ms_events s1 ?i = Some se" "ev_dlq_at (se_event se) = ev_dlq_at e" and ok: "mem_ok s1"
    using dlq assms(1) by (auto simp: save_def Let_def mem_ok_def split: if_splits)
  obtain ts where "\<forall>e. e \<in> set es \<longrightarrow> (\<exists>se. ms_events s1 (ev_id e) = Some se \<and> se_event se = e \<and>
      eligible (me_now env') ty se)"
    by (rule poll_returns [OF assms(6,5) ok]) blast
  with se assms(3) show ?thesis by (fastforce simp: eligible_def pending_def)
qed

text \<open>Closing an in-memory store is not without effect: it refuses to save and to poll, while the
  other operations go on.\<close>

lemma closed_store_refuses:
  "fst (save env p (close_store s)) = Fails ''memory store is closed'' \<and>
   fst (poll env ty n (close_store s)) = Fails ''memory store is closed'' \<and>
   fst (mark_processed i (close_store s)) = fst (mark_processed i s)"
  by (simp add: close_store_def save_def poll_def mark_processed_def)

end
