(* ===== verification/Bus_Metrics.thy ===== *)
theory Bus_Metrics
  imports Event_Bus
begin

text \<open>
  What the metrics of the event bus tell, \<open>eventbus/metrics/recorder.go\<close> as \<open>eventbus/application\<close>
  uses it: along a run, the counters of published, consumed and dead events account for every event
  that is pending.
\<close>

section \<open>A cycle\<close>

definition given_up :: "handler_registry \<Rightarrow> int \<Rightarrow> domain_event \<Rightarrow> bool" where
  "given_up reg max_retries e \<longleftrightarrow> \<not> handled reg e \<and> max_retries \<le> wrap64 (ev_attempt e + 1)"

text \<open>The metrics of a batch.\<close>

definition batch_told :: "handler_registry \<Rightarrow> int \<Rightarrow> domain_event list \<Rightarrow> metric_event list \<Rightarrow> bool" where
  "batch_told reg m es ms \<longleftrightarrow>
     tally ''eventbus.published'' ms = 0 \<and>
     tally ''eventbus.consumed'' ms = length (filter (handled reg) es) \<and>
     tally ''eventbus.failed'' ms = length (filter (\<lambda>e. \<not> handled reg e) es) \<and>
     tally ''eventbus.dlq'' ms = length (filter (given_up reg m) es) \<and>
     tally ''eventbus.retried'' ms = length (filter (\<lambda>e. \<not> handled reg e \<and> \<not> given_up reg m e) es)"

lemma batch_told_Nil: "batch_told reg m [] []"
  by (simp add: batch_told_def)

lemma batch_told_Cons: "told reg m e d \<Longrightarrow> batch_told reg m es ms \<Longrightarrow> batch_told reg m (e # es) (d @ ms)"
  by (simp add: batch_told_def told_def given_up_def Let_def)

context event_store_laws
begin

lemma consume_loop_told:
  assumes "ok s" "distinct (map ev_id es)" "\<And>e. e \<in> set es \<Longrightarrow> pending s (ev_id e) = Some e"
    and "handlers_keep reg" "consume_loop st cfg reg elapsed es n s ms = (r, s', ms')"
  shows "\<exists>d. ms' = ms @ d \<and> batch_told reg (bc_max_retries cfg) es d"
  using assms
proof (induction es arbitrary: n s ms)
  case Nil
  then show ?case by (simp add: batch_told_Nil)
next
  case (Cons e es)
  have "pending s (ev_id e) = Some e" using Cons.prems(3) by simp
  from consume_one [OF Cons.prems(1) this Cons.prems(4,5)] obtain s1 d
    where s1: "ok s1" "batch_settled reg (bc_max_retries cfg) [e] s s1" "told reg (bc_max_retries cfg) e d"
      "consume_loop st cfg reg elapsed es (if handled reg e then n + 1 else n) s1 (ms @ d) = (r, s', ms')" .
  have "pending s1 (ev_id x) = Some x" if "x \<in> set es" for x
  proof -
    have "ev_id x \<noteq> ev_id e" using Cons.prems(2) that by (metis distinct.simps(2) imageI list.set_map list.simps(9))
    with s1(2) Cons.prems(3) [of x] that show ?thesis by (simp add: batch_settled_def)
  qed
  with Cons.IH [OF s1(1) _ _ Cons.prems(4) s1(4)] Cons.prems(2) obtain d'
    where "ms' = (ms @ d) @ d'" "batch_told reg (bc_max_retries cfg) es d'" by auto
  with batch_told_Cons [OF s1(3)] show ?case by (intro exI [of _ "d @ d'"]) simp
qed

lemma poll_once_told:
  assumes "ok s" "handlers_keep reg" "bc_metrics_recorder cfg" "poll_once st cfg reg elapsed ty s = (r, s', ms)"
    and "so_poll st ty 10 s = (Returns es, s1)"
  shows "batch_told reg (bc_max_retries cfg) es ms"
proof (cases "es = []")
  case True
  with assms(4,5) show ?thesis by (simp add: poll_once_def batch_told_Nil)
next
  case False
  obtain r1 s2 ms2 where loop: "consume_loop st cfg reg elapsed es 0 s1 [] = (r1, s2, ms2)"
    by (metis prod_cases3)
  from poll_law [OF assms(1,5)] have law: "ok s1" "pending s1 = pending s" "distinct (map ev_id es)"
    "\<And>e. e \<in> set es \<Longrightarrow> pending s1 (ev_id e) = Some e" by auto
  from consume_loop_told [OF law(1,3,4) assms(2) loop] False assms(3-5) loop show ?thesis
    by (auto simp: poll_once_def record_metrics_def)
qed

text \<open>One event, whatever became of it in the store since the poll: it is counted as consumed or dead
  exactly when this took it from the pending ones.\<close>

lemma single_told:
  assumes "ok s" "handlers_keep reg" "consume_loop st cfg reg elapsed [e] n s [] = (r, s', d)"
  shows "tally ''eventbus.published'' d = 0 \<and> dom (pending s') \<subseteq> dom (pending s) \<and>
    dom (pending s) - dom (pending s') =
      (if tally ''eventbus.consumed'' d + tally ''eventbus.dlq'' d = 0 then {} else {ev_id e}) \<and>
    tally ''eventbus.consumed'' d + tally ''eventbus.dlq'' d \<le> 1"
proof -
  obtain x e1 where d: "dispatch reg e = (x, e1)" by fastforce
  with dispatch_keeps [OF assms(2) d] obtain err
    where x: "dispatch reg e = (Returns err, e1)" "ev_id e1 = ev_id e" "ev_attempt e1 = ev_attempt e" by auto
  show ?thesis
  proof (cases err)
    case None
    obtain q s1 where mp: "so_mark_processed st (ev_id e) s = (q, s1)" by fastforce
    show ?thesis
    proof (cases "q = Returns ()")
      case True
      then have "s' = s1" "tally ''eventbus.consumed'' d = 1" "tally ''eventbus.dlq'' d = 0"
        "tally ''eventbus.published'' d = 0"
        using assms(3) x mp None by (simp_all add: Let_def, auto simp: metric_names)
      moreover have "pending s (ev_id e) \<noteq> None" "pending s1 = (pending s)(ev_id e := None)"
        using processed_law [OF assms(1) mp] True by simp_all
      ultimately show ?thesis by (auto simp: domIff)
    next
      case False
      then have "s' = s1" "tally ''eventbus.consumed'' d = 0" "tally ''eventbus.dlq'' d = 0"
        "tally ''eventbus.published'' d = 0"
        using assms(3) x mp None by (cases q; auto simp: Let_def metric_names)+
      with processed_law [OF assms(1) mp] False show ?thesis by simp
    qed
  next
    case (Some msg)
    let ?a = "wrap64 (ev_attempt e + 1)"
    obtain q s1 where mf: "so_mark_failed st (ev_id e) ?a (Some msg) (bc_max_retries cfg) s = (q, s1)" by fastforce
    have told: "s' = s1" "tally ''eventbus.consumed'' d = 0" "tally ''eventbus.published'' d = 0"
      "tally ''eventbus.dlq'' d = (if q = Returns () \<and> bc_max_retries cfg \<le> ?a then 1 else 0)"
      using assms(3) x mf Some by (cases q; auto simp: Let_def metric_names split: if_splits)+
    with failed_law [OF assms(1) mf] show ?thesis
      by (cases "pending s (ev_id e)") (auto simp: domIff split: if_splits)
  qed
qed

end

section \<open>A run\<close>

text \<open>
  A run of publishers and consumers over the in-memory store, with a recorder, and the metric events it
  recorded so far. \<open>work c\<close> are the events that the consumer \<open>c\<close> polled and has not worked through: as in
  \<open>bus_run\<close> consumers and publishers act in any order, a handler may outlast the lease of its event, a
  consumer may crash and the store may be closed. A publisher uses an identifier that is not pending; a
  publication may fail, and a poll may find the store closed. Batches are left out: one that the store refuses
  halfway keeps the events before, which no metric tells.
\<close>

inductive metered_run ::
  "bus_config \<Rightarrow> handler_registry \<Rightarrow> mem_store \<Rightarrow> (nat \<Rightarrow> domain_event list) \<Rightarrow> metric_event list \<Rightarrow> bool"
  for cfg reg where
  metered_start: "metered_run cfg reg new_store (\<lambda>_. []) []"
| metered_publish: "metered_run cfg reg s work ms \<Longrightarrow> env_sane env \<Longrightarrow> pending s (ev_id (prepare fresh now e)) = None \<Longrightarrow>
    publish (memory_store env) cfg fresh now elapsed (Some e) s = (r, s', d) \<Longrightarrow> metered_run cfg reg s' work (ms @ d)"
| metered_poll: "metered_run cfg reg s work ms \<Longrightarrow> env_sane env \<Longrightarrow> work c = [] \<Longrightarrow> poll env ty 10 s = (p, s') \<Longrightarrow>
    metered_run cfg reg s' (work(c := (case p of Returns es \<Rightarrow> es | _ \<Rightarrow> []))) ms"
| metered_handle: "metered_run cfg reg s work ms \<Longrightarrow> env_sane env \<Longrightarrow> work c = e # es \<Longrightarrow>
    consume_loop (memory_store env) cfg reg elapsed_of [e] n s [] = (r, s', d) \<Longrightarrow>
    metered_run cfg reg s' (work(c := if goes_on r then es else [])) (ms @ d)"
| metered_crash: "metered_run cfg reg s work ms \<Longrightarrow> metered_run cfg reg s (work(c := [])) ms"
| metered_close: "metered_run cfg reg s work ms \<Longrightarrow> metered_run cfg reg (close_store s) work ms"

definition balanced :: "mem_store \<Rightarrow> metric_event list \<Rightarrow> bool" where
  "balanced s ms \<longleftrightarrow> finite (dom (pending s)) \<and>
     tally ''eventbus.published'' ms =
       tally ''eventbus.consumed'' ms + tally ''eventbus.dlq'' ms + card (dom (pending s))"

lemma balanced_start: "balanced new_store []"
  by (simp add: balanced_def new_store_def pending_def dom_def)

lemma balanced_publish:
  assumes "balanced s ms" "mem_ok s" "env_sane env" "bc_metrics_recorder cfg" "pending s (ev_id (prepare fresh now e)) = None"
    and run: "publish (memory_store env) cfg fresh now elapsed (Some e) s = (r, s', d)"
  shows "balanced s' (ms @ d) \<and> mem_ok s'"
proof -
  have told: "tally ''eventbus.published'' d = (if r = Returns () then 1 else 0)"
    "tally ''eventbus.consumed'' d = 0" "tally ''eventbus.dlq'' d = 0"
    using run assms(4) by (auto simp: publish_def record_metrics_def metric_names Let_def
        split: if_splits prod.splits outcome.splits)
  have law: "mem_ok s'" "if r = Returns () then \<exists>e'. pending s' = (pending s)(ev_id (prepare fresh now e) \<mapsto> e')
      else pending s' = pending s"
    using memory.publish_saves [OF conjI [OF assms(2,3)] run] by (auto split: if_splits)
  have "finite (dom (pending s')) \<and> card (dom (pending s')) = card (dom (pending s)) + (if r = Returns () then 1 else 0)"
  proof (cases "r = Returns ()")
    case True
    with law(2) obtain e' where "pending s' = (pending s)(ev_id (prepare fresh now e) \<mapsto> e')" by auto
    moreover have "ev_id (prepare fresh now e) \<notin> dom (pending s)" using assms(5) by (simp add: domIff)
    ultimately show ?thesis using True assms(1) by (simp add: balanced_def)
  next
    case False
    with law(2) assms(1) show ?thesis by (simp add: balanced_def)
  qed
  with told assms(1) law(1) show ?thesis by (simp add: balanced_def)
qed

lemma balanced_handle:
  assumes "balanced s ms" "mem_ok s" "env_sane env" "handlers_keep reg"
    and run: "consume_loop (memory_store env) cfg reg elapsed [e] n s [] = (r, s', d)"
  shows "balanced s' (ms @ d) \<and> mem_ok s'"
proof -
  have ok: "mem_ok s \<and> env_sane env" using assms(2,3) by simp
  let ?gone = "tally ''eventbus.consumed'' d + tally ''eventbus.dlq'' d"
  from memory.single_told [OF ok assms(4) run]
  have told: "tally ''eventbus.published'' d = 0" "dom (pending s') \<subseteq> dom (pending s)"
    "dom (pending s) - dom (pending s') = (if ?gone = 0 then {} else {ev_id e})" "?gone \<le> 1" by blast+
  have fin: "finite (dom (pending s))" using assms(1) by (simp add: balanced_def)
  then have fin': "finite (dom (pending s'))" using told(2) finite_subset by blast
  have "card (dom (pending s)) = card (dom (pending s')) + card (dom (pending s) - dom (pending s'))"
    using card_Diff_subset [OF fin' told(2)] card_mono [OF fin told(2)] by simp
  then have "card (dom (pending s)) = card (dom (pending s')) + ?gone"
  proof (cases "?gone = 0")
    case False
    with told(4) have "?gone = 1" by linarith
    with told(3) \<open>card (dom (pending s)) = _\<close> show ?thesis by simp
  qed (use told(3) in simp)
  moreover have "mem_ok s'" using memory.consume_single [OF ok assms(4) run] by blast
  ultimately show ?thesis using assms(1) told(1) fin' by (simp add: balanced_def)
qed

lemma balanced_same: "balanced s ms \<Longrightarrow> pending s' = pending s \<Longrightarrow> balanced s' ms"
  by (simp add: balanced_def)

text \<open>C34: The metrics account for the events. Along any run of publishers and consumers over the in-memory
  store, interleaved in any way, with crashes, leases that run out, failures of handlers and of the store, the counter of published events is the sum of
  the counters of consumed and of dead events and of the number of events that are pending.\<close>

theorem metrics_account_for_events:
  assumes "metered_run cfg reg s work ms" "bc_metrics_recorder cfg" "handlers_keep reg"
  shows "tally ''eventbus.published'' ms =
    tally ''eventbus.consumed'' ms + tally ''eventbus.dlq'' ms + card (dom (pending s))"
proof -
  have "balanced s ms \<and> mem_ok s"
    using assms(1)
  proof induction
    case metered_start
    then show ?case using balanced_start by (simp add: mem_ok_def new_store_def)
  next
    case metered_publish
    then show ?case using balanced_publish assms(2) by blast
  next
    case (metered_poll s work ms env c ty p s')
    then have "mem_ok s \<and> env_sane env" "so_poll (memory_store env) ty 10 s = (p, s')"
      by (simp_all add: memory_store_def)
    from memory.poll_law [OF this] metered_poll.IH balanced_same show ?case by blast
  next
    case metered_handle
    then show ?case using balanced_handle assms(3) by blast
  next
    case metered_close
    then show ?case by (simp add: balanced_def close_store_def mem_ok_def pending_def)
  qed
  then show ?thesis by (simp add: balanced_def)
qed

theorem metrics_account_for_events_witness:
  "\<exists>s ms. metered_run (default_bus_config\<lparr>bc_metrics_recorder := True\<rparr>) (demo_registry (Fails ''boom'')) s (\<lambda>_. []) ms \<and>
     tally ''eventbus.published'' ms = 1 \<and>
     1 = tally ''eventbus.consumed'' ms + tally ''eventbus.dlq'' ms + card (dom (pending s))"
proof -
  let ?cfg = "default_bus_config\<lparr>bc_metrics_recorder := True\<rparr>"
  let ?reg = "demo_registry (Fails ''boom'')" and ?env = "at_time 100 [''e1'']"
  obtain r s ms where pub: "publish (memory_store ?env) ?cfg ''x'' 5 (Some 0) (Some demo_event) new_store = (r, s, ms)"
    by (metis prod_cases3)
  then have told: "tally ''eventbus.published'' ms = 1"
    by (auto simp: publish_def Let_def memory_store_def save_def prepare_id new_store_def demo_event_def
      record_metrics_def metric_names)
  have "env_sane ?env" "pending new_store (ev_id (prepare ''x'' 5 demo_event)) = None"
    by (simp_all add: pending_def new_store_def)
  from metered_publish [OF metered_start this pub] have run: "metered_run ?cfg ?reg s (\<lambda>_. []) ms" by simp
  have "bc_metrics_recorder ?cfg" "handlers_keep ?reg" by simp_all
  from metrics_account_for_events [OF run this] run told show ?thesis by metis
qed

end
