(* ===== verification/Go_Numbers.thy ===== *)
theory Go_Numbers
  imports Float64
begin

text \<open>
  The number parsers of Go's library that the repository calls: \<open>strconv.Atoi\<close> on 64 bits and
  \<open>time.ParseDuration\<close>.
\<close>

definition digit :: "char \<Rightarrow> bool" where
  "digit c \<longleftrightarrow> 48 \<le> byte c \<and> byte c \<le> 57"

definition digit_val :: "char \<Rightarrow> nat" where
  "digit_val c = byte c - 48"

text \<open>The value of a string of digits.\<close>

fun digits_val :: "nat \<Rightarrow> string \<Rightarrow> nat" where
  "digits_val acc [] = acc"
| "digits_val acc (c # cs) = digits_val (10 * acc + digit_val c) cs"

definition atoi :: "string \<Rightarrow> int option" where
  "atoi s =
     (let neg = (s \<noteq> [] \<and> hd s = CHR ''-'');
          ds = (if s \<noteq> [] \<and> hd s \<in> {CHR ''-'', CHR ''+''} then tl s else s)
      in if ds = [] \<or> \<not> list_all digit ds then None
         else let n = (if neg then - int (digits_val 0 ds) else int (digits_val 0 ds))
              in if int64_range n then Some n else None)"

section \<open>Durations\<close>

text \<open>\<open>leadingInt\<close>: \<open>None\<close> on overflow.\<close>

fun leading_int :: "nat \<Rightarrow> string \<Rightarrow> (nat \<times> string) option" where
  "leading_int x [] = Some (x, [])"
| "leading_int x (c # cs) =
     (if \<not> digit c then Some (x, c # cs)
      else if x > 2 ^ 63 div 10 then None
      else let x = 10 * x + digit_val c in if x > 2 ^ 63 then None else leading_int x cs)"

text \<open>\<open>leadingFraction\<close>: digits that would overflow are read and dropped.\<close>

fun leading_fraction :: "nat \<Rightarrow> f64 \<Rightarrow> bool \<Rightarrow> string \<Rightarrow> nat \<times> f64 \<times> string" where
  "leading_fraction x scale over [] = (x, scale, [])"
| "leading_fraction x scale over (c # cs) =
     (if \<not> digit c then (x, scale, c # cs)
      else if over \<or> x > (2 ^ 63 - 1) div 10 then leading_fraction x scale True cs
      else let y = 10 * x + digit_val c
           in if y > 2 ^ 63 then leading_fraction x scale True cs
              else leading_fraction y (f64_mult scale (Some 10)) over cs)"

definition unit_map :: "string \<rightharpoonup> nat" where
  "unit_map =
     [''ns'' \<mapsto> 1, ''us'' \<mapsto> 1000, [CHR 0xC2, CHR 0xB5, CHR ''s''] \<mapsto> 1000,
      [CHR 0xCE, CHR 0xBC, CHR ''s''] \<mapsto> 1000, ''ms'' \<mapsto> 1000000, ''s'' \<mapsto> 1000000000,
      ''m'' \<mapsto> 60000000000, ''h'' \<mapsto> 3600000000000]"

definition unit_char :: "char \<Rightarrow> bool" where
  "unit_char c \<longleftrightarrow> \<not> (c = CHR ''.'' \<or> digit c)"

text \<open>The optional fraction: its digits, their scale, whether there were any, and the rest.\<close>

definition fraction_of :: "string \<Rightarrow> nat \<times> f64 \<times> bool \<times> string" where
  "fraction_of s =
     (if s \<noteq> [] \<and> hd s = CHR ''.''
      then let (f, scale, r) = leading_fraction 0 (Some 1) False (tl s)
           in (f, scale, length r \<noteq> length (tl s), r)
      else (0, Some 1, False, s))"

definition in_units :: "nat \<Rightarrow> nat \<Rightarrow> f64 \<Rightarrow> nat \<Rightarrow> nat option" where
  "in_units v f scale k =
     (if v > 2 ^ 63 div k then None
      else let v = v * k;
               v = (if f > 0
                    then v + nat (int64_of_f64 (f64_mult (f64_of_int (int f))
                           (f64_div (f64_of_int (int k)) scale)))
                    else v)
           in if v > 2 ^ 63 then None else Some v)"

text \<open>One number with its unit at the head of the string: its value and the rest.\<close>

definition duration_item :: "string \<Rightarrow> (nat \<times> string) option" where
  "duration_item s =
     (if s = [] \<or> unit_char (hd s) then None
      else case leading_int 0 s of
        None \<Rightarrow> None
      | Some (v, s1) \<Rightarrow>
          (case fraction_of s1 of (f, scale, post, s2) \<Rightarrow>
             let u = takeWhile unit_char s2
             in if length s1 = length s \<and> \<not> post then None
                else if u = [] then None
                else case unit_map u of
                       None \<Rightarrow> None
                     | Some k \<Rightarrow> map_option (\<lambda>v. (v, dropWhile unit_char s2)) (in_units v f scale k)))"

lemma leading_int_length: "leading_int x s = Some (v, r) \<Longrightarrow> length r \<le> length s"
  by (induction x s rule: leading_int.induct) (auto simp: Let_def split: if_splits)

lemma leading_fraction_length: "leading_fraction x scale over s = (f, sc, r) \<Longrightarrow> length r \<le> length s"
  by (induction x scale over s rule: leading_fraction.induct) (fastforce simp: Let_def split: if_splits)+

lemma duration_item_length:
  assumes "duration_item s = Some (v, r)"
  shows "length r < length s"
proof -
  obtain v1 s1 where s1: "leading_int 0 s = Some (v1, s1)"
    using assms by (auto simp: duration_item_def split: if_splits option.splits)
  obtain f scale post s2 where q: "fraction_of s1 = (f, scale, post, s2)" by (metis prod_cases4)
  have "length s2 \<le> length s1"
    using q unfolding fraction_of_def
    by (auto simp: Let_def split: if_splits prod.splits dest!: leading_fraction_length)
  moreover have "takeWhile unit_char s2 \<noteq> [] \<and> r = dropWhile unit_char s2"
    using assms s1 q unfolding duration_item_def by (auto simp: Let_def split: if_splits option.splits)
  moreover have "length (dropWhile unit_char s2) < length s2" if "takeWhile unit_char s2 \<noteq> []"
    using that by (metis length_append length_greater_0_conv less_add_same_cancel2 takeWhile_dropWhile_id)
  ultimately show ?thesis
    using leading_int_length [OF s1] by simp
qed

function duration_items :: "nat \<Rightarrow> string \<Rightarrow> nat option" where
  "duration_items d s =
     (if s = [] then Some d
      else case duration_item s of
             None \<Rightarrow> None
           | Some (v, r) \<Rightarrow> if d + v > 2 ^ 63 then None else duration_items (d + v) r)"
  by pat_completeness auto
termination
  by (relation "measure (\<lambda>(d, s). length s)") (auto dest: duration_item_length)

declare duration_items.simps [simp del]

definition parse_duration :: "string \<Rightarrow> duration option" where
  "parse_duration s =
     (let neg = (s \<noteq> [] \<and> hd s = CHR ''-'');
          s = (if s \<noteq> [] \<and> hd s \<in> {CHR ''-'', CHR ''+''} then tl s else s)
      in if s = ''0'' then Some 0
         else if s = [] then None
         else case duration_items 0 s of
                None \<Rightarrow> None
              | Some d \<Rightarrow>
                  if neg then Some (wrap64 (- int d))
                  else if d > 2 ^ 63 - 1 then None else Some (int d))"

lemma parse_duration_range: "parse_duration s = Some d \<Longrightarrow> int64_range d"
  by (auto simp: parse_duration_def Let_def int64_range_def split: if_splits option.splits
    intro: order_trans [of _ 0]) (auto simp: wrap64_def)

lemmas duration_eval =
  parse_duration_def duration_items.simps duration_item_def fraction_of_def in_units_def unit_map_def unit_char_def digit_def
  byte_def digit_val_def

lemma parse_duration_examples:
  "parse_duration ''1s'' = Some second" "parse_duration ''1m'' = Some minute"
  "parse_duration ''1h'' = Some (60 * minute)" "parse_duration ''1h30m'' = Some (90 * minute)"
  "parse_duration ''500us'' = Some 500000" "parse_duration ''1d'' = None" "parse_duration ''-1s'' = Some (- second)"
  by (simp_all add: duration_eval second_def minute_def wrap64_def)

lemma atoi_range: "atoi s = Some n \<Longrightarrow> int64_range n"
  by (auto simp: atoi_def Let_def split: if_splits)

section \<open>\<open>strconv.Itoa\<close>\<close>

fun nat_str :: "nat \<Rightarrow> string" where
  "nat_str n = (if n < 10 then [char_of (48 + n)] else nat_str (n div 10) @ [char_of (48 + n mod 10)])"

declare nat_str.simps [simp del]

definition itoa :: "int \<Rightarrow> string" where
  "itoa n = (if n < 0 then CHR ''-'' # nat_str (nat (- n)) else nat_str (nat n))"

lemma byte_of_digit [simp]: "d < 10 \<Longrightarrow> byte (char_of (48 + d)) = 48 + d"
  by (simp add: byte_def of_char_of)

lemma digits_val_append: "digits_val acc (xs @ ys) = digits_val (digits_val acc xs) ys"
  by (induction xs arbitrary: acc) auto

lemma nat_str_digits: "list_all digit (nat_str n) \<and> nat_str n \<noteq> []"
proof (induction n rule: nat_str.induct)
  case (1 n)
  have "digit (char_of (48 + d))" if "d < 10" for d :: nat using that by (simp add: digit_def)
  from this [of n] this [of "n mod 10"] 1 show ?case by (subst (1 2) nat_str.simps) auto
qed

lemma nat_str_val: "digits_val 0 (nat_str n) = n"
proof (induction n rule: nat_str.induct)
  case (1 n)
  then show ?case by (subst nat_str.simps) (simp add: digits_val_append digit_val_def)
qed

lemma nat_str_hd: "hd (nat_str n) \<notin> {CHR ''-'', CHR ''+''}"
proof -
  obtain c cs where c: "nat_str n = c # cs" "digit c" using nat_str_digits [of n] by (cases "nat_str n") auto
  then show ?thesis by (auto simp: digit_def byte_def)
qed

lemma atoi_itoa: "int64_range n \<Longrightarrow> atoi (itoa n) = Some n"
  using nat_str_digits [of "nat n"] nat_str_digits [of "nat (- n)"] nat_str_hd [of "nat n"]
  by (auto simp: atoi_def itoa_def nat_str_val Let_def)

end
