(* ===== verification/Rate_Limiter.thy ===== *)
theory Rate_Limiter
  imports Go_Numbers
begin

text \<open>
  The rate limiting engine, \<open>infrastructure/ratelimit\<close>: the rules of a plan and their normal form
  (\<open>rule.go\<close>), and the Redis limiter with its two Lua scripts (\<open>limiter.go\<close>).

  Redis is not part of the repository. The commands that the scripts call are the fields of
  \<open>redis\<close>, and \<open>redis_laws\<close> states what Redis documents of them. Times in the scripts are
  milliseconds; a Lua number stands for an integer below \<open>2 ^ 53\<close>, where doubles are exact.
  Redis expires keys by the clock of the requests.
\<close>

section \<open>Rules\<close>

definition AlgoSlidingWindow :: string where "AlgoSlidingWindow = ''sliding_window_counter''"
definition AlgoGCRA :: string where "AlgoGCRA = ''gcra''"

record raw_rule =
  rr_algorithm :: string
  rr_limit :: int
  rr_window :: string
  rr_rate :: string
  rr_burst :: int

record rule =
  ru_algorithm :: string
  ru_limit :: int
  ru_window :: duration
  ru_burst :: int

datatype rule_error =
    LimitRequired | BadWindow string | BadRate string | BadNumerator string | BadUnit string
  | UnknownAlgorithm string

text \<open>\<open>strings.SplitN(rate, "/", 2)\<close> cuts at the first separator.\<close>

definition cut_at :: "char \<Rightarrow> string \<Rightarrow> (string \<times> string) option" where
  "cut_at d s =
     (case dropWhile (\<lambda>c. c \<noteq> d) s of [] \<Rightarrow> None | _ # r \<Rightarrow> Some (takeWhile (\<lambda>c. c \<noteq> d) s, r))"

definition parse_rate :: "string \<Rightarrow> rule_error + int \<times> duration" where
  "parse_rate rate =
     (case cut_at CHR ''/'' rate of
        None \<Rightarrow> Inl (BadRate rate)
      | Some (num, unit) \<Rightarrow>
          (case atoi (trim_space num) of
             None \<Rightarrow> Inl (BadNumerator rate)
           | Some n \<Rightarrow>
               if n \<le> 0 then Inl (BadNumerator rate)
               else let unit = trim_space unit;
                        unit = (if unit = [] then ''s'' else unit)
                    in (case parse_duration (''1'' @ unit) of
                          None \<Rightarrow> Inl (BadUnit rate)
                        | Some win \<Rightarrow> if win \<le> 0 then Inl (BadUnit rate) else Inr (n, win))))"

definition parse_rule :: "raw_rule \<Rightarrow> rule_error + rule" where
  "parse_rule raw =
     (if rr_algorithm raw = AlgoSlidingWindow then
        (if rr_limit raw \<le> 0 then Inl LimitRequired
         else case parse_duration (rr_window raw) of
                None \<Rightarrow> Inl (BadWindow (rr_window raw))
              | Some win \<Rightarrow>
                  if win \<le> 0 then Inl (BadWindow (rr_window raw))
                  else Inr \<lparr>ru_algorithm = AlgoSlidingWindow, ru_limit = rr_limit raw,
                            ru_window = win, ru_burst = 0\<rparr>)
      else if rr_algorithm raw = AlgoGCRA then
        (case parse_rate (rr_rate raw) of
           Inl e \<Rightarrow> Inl e
         | Inr (limit, win) \<Rightarrow>
             let burst = (if rr_burst raw < 0 then 0 else rr_burst raw)
             in Inr \<lparr>ru_algorithm = AlgoGCRA, ru_limit = limit, ru_window = win, ru_burst = burst\<rparr>)
      else Inl (UnknownAlgorithm (rr_algorithm raw)))"

definition emission_interval :: "rule \<Rightarrow> duration" where
  "emission_interval r =
     (if ru_limit r \<le> 0 then ru_window r else go_div (ru_window r) (ru_limit r))"

section \<open>Redis\<close>

text \<open>\<open>None\<close> is an error reply, for a key of another type or an expiry that is not positive.\<close>

record 's redis =
  rd_expire :: "int \<Rightarrow> 's \<Rightarrow> 's"
  rd_zremrangebyscore :: "string \<Rightarrow> int \<Rightarrow> int \<Rightarrow> 's \<Rightarrow> 's option"
  rd_zcard :: "string \<Rightarrow> 's \<Rightarrow> int option"
  rd_zadd :: "string \<Rightarrow> int \<Rightarrow> string \<Rightarrow> 's \<Rightarrow> 's option"
  rd_zfirst :: "string \<Rightarrow> 's \<Rightarrow> (string \<times> int) option option"
  rd_pexpire :: "int \<Rightarrow> string \<Rightarrow> int \<Rightarrow> 's \<Rightarrow> 's"
  rd_get :: "string \<Rightarrow> 's \<Rightarrow> int option option"
  rd_set_px :: "int \<Rightarrow> string \<Rightarrow> int \<Rightarrow> int \<Rightarrow> 's \<Rightarrow> 's option"

section \<open>The scripts\<close>

text \<open>A script replies \<open>{allowed, remaining, retry_ms}\<close>; an error of a command is its error.\<close>

definition sliding_window_script ::
  "'s redis \<Rightarrow> string \<Rightarrow> int \<Rightarrow> int \<Rightarrow> int \<Rightarrow> string \<Rightarrow> 's \<Rightarrow> (int \<times> int \<times> int) option \<times> 's" where
  "sliding_window_script rd key now window limit member s =
     (case rd_zremrangebyscore rd key 0 (now - window) s of
        None \<Rightarrow> (None, s)
      | Some s \<Rightarrow>
     case rd_zcard rd key s of
        None \<Rightarrow> (None, s)
      | Some count \<Rightarrow>
     if count < limit then
       (case rd_zadd rd key now member s of
          None \<Rightarrow> (None, s)
        | Some s \<Rightarrow> (Some (1, limit - count - 1, 0), rd_pexpire rd now key window s))
     else
       (case rd_zfirst rd key s of
          None \<Rightarrow> (None, s)
        | Some oldest \<Rightarrow>
            (let retry = (case oldest of None \<Rightarrow> window | Some (m, score) \<Rightarrow> (score + window) - now)
             in (Some (0, 0, if retry < 0 then 0 else retry), s))))"

text \<open>\<open>div0\<close> is the integer that Redis makes of the quotient when \<open>emission\<close> is zero (an infinity
  or NaN in Lua).\<close>

definition gcra_script ::
  "'s redis \<Rightarrow> int \<Rightarrow> string \<Rightarrow> int \<Rightarrow> int \<Rightarrow> int \<Rightarrow> 's \<Rightarrow> (int \<times> int \<times> int) option \<times> 's" where
  "gcra_script rd div0 key now emission tolerance s =
     (case rd_get rd key s of
        None \<Rightarrow> (None, s)
      | Some v \<Rightarrow>
     let tat = (case v of None \<Rightarrow> now | Some t \<Rightarrow> t);
         allow_at = tat - tolerance
     in if now < allow_at then (Some (0, 0, allow_at - now), s)
        else let new_tat = max tat now + emission;
                 ttl = new_tat - now + tolerance
             in (case rd_set_px rd now key new_tat ttl s of
                   None \<Rightarrow> (None, s)
                 | Some s \<Rightarrow>
                     let remaining = (if emission = 0 then div0
                                      else (tolerance - (new_tat - now - emission)) div emission);
                         remaining = (if remaining < 0 then 0 else remaining)
                     in (Some (1, remaining, 0), s)))"

section \<open>The limiter\<close>

record decision =
  de_allowed :: bool
  de_limit :: int
  de_remaining :: int
  de_retry_after :: duration
  de_reset_after :: duration

text \<open>\<open>now\<close> in nanoseconds since the Unix epoch; \<open>up\<close> says whether the request reaches Redis,
  \<open>answered\<close> whether the answer of the script then reaches the service (it may be lost, or come after the
  client's timeout), and \<open>itoa\<close> is \<open>strconv.FormatInt\<close>. Redis expires keys by the same clock.\<close>

record redis_env =
  rl_up :: bool
  rl_answered :: bool
  rl_unix_nano :: int
  rl_div0 :: int
  rl_itoa :: "int \<Rightarrow> string"

definition unix_milli :: "redis_env \<Rightarrow> int" where
  "unix_milli env = rl_unix_nano env div millisecond"

definition to_millis :: "duration \<Rightarrow> int" where
  "to_millis d = go_div d millisecond"

definition decision_of :: "rule \<Rightarrow> duration \<Rightarrow> int \<times> int \<times> int \<Rightarrow> decision" where
  "decision_of r reset res =
     (case res of (allowed, remaining, retry) \<Rightarrow>
        \<lparr>de_allowed = (allowed = 1), de_limit = ru_limit r, de_remaining = remaining,
         de_retry_after = wrap64 (retry * millisecond), de_reset_after = reset\<rparr>)"

definition run_sliding_window ::
  "'s redis \<Rightarrow> redis_env \<Rightarrow> string \<Rightarrow> rule \<Rightarrow> 's \<Rightarrow> decision option \<times> 's" where
  "run_sliding_window rd env key r s =
     (if \<not> rl_up env then (None, s)
      else let now = unix_milli env; member = rl_itoa env (rl_unix_nano env)
           in case sliding_window_script rd key now (to_millis (ru_window r)) (ru_limit r) member
                     (rd_expire rd now s) of
                (res, s) \<Rightarrow>
                  (if rl_answered env then map_option (decision_of r (ru_window r)) res else None, s))"

definition run_gcra ::
  "'s redis \<Rightarrow> redis_env \<Rightarrow> string \<Rightarrow> rule \<Rightarrow> 's \<Rightarrow> decision option \<times> 's" where
  "run_gcra rd env key r s =
     (if \<not> rl_up env then (None, s)
      else let now = unix_milli env; emission = emission_interval r;
               tolerance = wrap64 (ru_burst r * emission)
           in case gcra_script rd (rl_div0 env) key now (to_millis emission) (to_millis tolerance)
                     (rd_expire rd now s) of
                (res, s) \<Rightarrow>
                  (if rl_answered env then map_option (decision_of r emission) res else None, s))"

definition redis_allow :: "'s redis \<Rightarrow> redis_env \<Rightarrow> string \<Rightarrow> rule \<Rightarrow> 's \<Rightarrow> decision option \<times> 's" where
  "redis_allow rd env key r s =
     (if ru_algorithm r = AlgoSlidingWindow then run_sliding_window rd env key r s
      else if ru_algorithm r = AlgoGCRA then run_gcra rd env key r s
      else (None, s))"

section \<open>Parsed rules\<close>

text \<open>Only sound rules come out of a plan. A rule that \<open>Parse\<close> accepts names one of the two
  algorithms and has a positive limit, a positive window and a burst that is not negative, all
  in 64 bits when the plan's numbers are; its interval between emissions never exceeds the window.\<close>

theorem parse_rule_sound:
  assumes "parse_rule raw = Inr r" "int64_range (rr_limit raw)" "int64_range (rr_burst raw)"
  shows "ru_algorithm r \<in> {AlgoSlidingWindow, AlgoGCRA} \<and> 0 < ru_limit r \<and> 0 < ru_window r \<and>
    0 \<le> ru_burst r \<and> int64_range (ru_limit r) \<and> int64_range (ru_window r) \<and> int64_range (ru_burst r) \<and>
    0 \<le> emission_interval r \<and> emission_interval r \<le> ru_window r"
proof -
  have r: "ru_algorithm r \<in> {AlgoSlidingWindow, AlgoGCRA} \<and> 0 < ru_limit r \<and> 0 < ru_window r \<and>
    0 \<le> ru_burst r \<and> int64_range (ru_limit r) \<and> int64_range (ru_window r) \<and> int64_range (ru_burst r)"
    using assms
    by (auto simp: parse_rule_def parse_rate_def Let_def split: if_splits option.splits sum.splits prod.splits
      dest: parse_duration_range atoi_range) (auto simp: int64_range_def)
  then have "emission_interval r = ru_window r div ru_limit r"
    by (simp add: emission_interval_def go_div_nonneg)
  then show ?thesis using r
    by (auto simp: pos_imp_zdiv_nonneg_iff intro: order_trans [OF zdiv_mono2 [of _ 1]])
qed

theorem parse_rule_sound_witness:
  "\<exists>r. parse_rule \<lparr>rr_algorithm = ''gcra'', rr_limit = 0, rr_window = [], rr_rate = ''10/s'', rr_burst = 5\<rparr> = Inr r \<and>
     0 < ru_limit r"
proof -
  let ?raw = "\<lparr>rr_algorithm = ''gcra'', rr_limit = 0, rr_window = [], rr_rate = ''10/s'', rr_burst = 5\<rparr>"
  let ?r = "\<lparr>ru_algorithm = ''gcra'', ru_limit = 10, ru_window = second, ru_burst = 5\<rparr>"
  have "cut_at CHR ''/'' ''10/s'' = Some (''10'', ''s'')" by (simp add: cut_at_def)
  moreover have "trim_space ''10'' = ''10''" "trim_space ''s'' = ''s''"
    by (simp_all add: graphic_def byte_def)
  moreover have "atoi ''10'' = Some 10" by (simp add: atoi_def digit_def byte_def digit_val_def int64_range_def)
  ultimately have p: "parse_rule ?raw = Inr ?r"
    by (simp add: parse_rule_def AlgoSlidingWindow_def AlgoGCRA_def parse_rate_def parse_duration_examples second_def)
  have "int64_range (rr_limit ?raw)" "int64_range (rr_burst ?raw)" by (simp_all add: int64_range_def)
  from parse_rule_sound [OF p this] p show ?thesis by blast
qed

section \<open>What Redis promises\<close>

text \<open>A key as the scripts see it: the sorted set it holds (no members if it is absent, \<open>None\<close> if it
  holds another type), the number it holds (likewise), and when it expires.\<close>

record redis_view =
  rv_zset :: "(string \<rightharpoonup> int) option"
  rv_num :: "int option option"
  rv_deadline :: "int option"

definition absent :: redis_view where
  "absent = \<lparr>rv_zset = Some Map.empty, rv_num = Some None, rv_deadline = None\<rparr>"

definition expired_view :: "int \<Rightarrow> redis_view \<Rightarrow> redis_view" where
  "expired_view t v = (case rv_deadline v of None \<Rightarrow> v | Some d \<Rightarrow> if d \<le> t then absent else v)"

definition drop_scores :: "int \<Rightarrow> int \<Rightarrow> (string \<rightharpoonup> int) \<Rightarrow> string \<rightharpoonup> int" where
  "drop_scores lo hi m = (\<lambda>x. case m x of None \<Rightarrow> None | Some v \<Rightarrow> if lo \<le> v \<and> v \<le> hi then None else Some v)"

locale redis_laws =
  fixes rd :: "'s redis" and view :: "'s \<Rightarrow> string \<Rightarrow> redis_view"
  assumes finite_law: "rv_zset (view s k) = Some m \<Longrightarrow> finite (dom m)"
    and expire_law: "view (rd_expire rd t s) k = expired_view t (view s k)"
    and zrem_law: "rv_zset (view s k) = Some m \<Longrightarrow> \<exists>s'. rd_zremrangebyscore rd k lo hi s = Some s' \<and>
      rv_zset (view s' k) = Some (drop_scores lo hi m) \<and> rv_deadline (view s' k) \<in> {None, rv_deadline (view s k)}"
    and zcard_law: "rv_zset (view s k) = Some m \<Longrightarrow> rd_zcard rd k s = Some (int (card (dom m)))"
    and zadd_law: "rv_zset (view s k) = Some m \<Longrightarrow> \<exists>s'. rd_zadd rd k v x s = Some s' \<and>
      rv_zset (view s' k) = Some (m(x \<mapsto> v)) \<and> rv_deadline (view s' k) = rv_deadline (view s k)"
    and zfirst_law: "rv_zset (view s k) = Some m \<Longrightarrow> \<exists>p. rd_zfirst rd k s = Some p \<and>
      (case p of None \<Rightarrow> m = Map.empty | Some (x, v) \<Rightarrow> m x = Some v \<and> (\<forall>w \<in> ran m. v \<le> w))"
    and pexpire_law: "rv_zset (view s k) = Some m \<Longrightarrow> m \<noteq> Map.empty \<Longrightarrow>
      view (rd_pexpire rd t k ms s) k =
        (if ms \<le> 0 then absent else (view s k)\<lparr>rv_deadline := Some (t + ms)\<rparr>)"
    and get_law: "rd_get rd k s = rv_num (view s k)"
    and set_px_law: "if ms \<le> 0 then rd_set_px rd t k n ms s = None
      else \<exists>s'. rd_set_px rd t k n ms s = Some s' \<and> rv_num (view s' k) = Some (Some n) \<and>
        rv_deadline (view s' k) = Some (t + ms)"
    and frame_law: "k' \<noteq> k \<Longrightarrow>
      (\<forall>lo hi s'. rd_zremrangebyscore rd k lo hi s = Some s' \<longrightarrow> view s' k' = view s k') \<and>
      (\<forall>v x s'. rd_zadd rd k v x s = Some s' \<longrightarrow> view s' k' = view s k') \<and>
      (\<forall>t ms. view (rd_pexpire rd t k ms s) k' = view s k') \<and>
      (\<forall>t n ms s'. rd_set_px rd t k n ms s = Some s' \<longrightarrow> view s' k' = view s k')"
begin

lemma other_key:
  assumes "redis_allow rd env k r s = (d, s')" "k' \<noteq> k"
  shows "view s' k' = (if rl_up env \<and> ru_algorithm r \<in> {AlgoSlidingWindow, AlgoGCRA}
                       then expired_view (unix_milli env) (view s k') else view s k')"
proof -
  let ?s = "rd_expire rd (unix_milli env) s"
  have slide: "view s2 k' = view s1 k'"
    if "sliding_window_script rd k t w n x s1 = (q, s2)" for t w n x s1 q s2
    using that assms(2) frame_law [OF assms(2)]
    by (auto simp: sliding_window_script_def Let_def split: option.splits if_splits)
  have gcra: "view s2 k' = view s1 k'" if "gcra_script rd z k t e tol s1 = (q, s2)" for z t e tol s1 q s2
    using that frame_law [OF assms(2)]
    by (auto simp: gcra_script_def Let_def split: option.splits if_splits)
  show ?thesis
    using assms(1) slide gcra expire_law
    by (auto simp: redis_allow_def run_sliding_window_def run_gcra_def Let_def split: if_splits prod.splits)
qed

end

section \<open>A store that keeps the laws\<close>

text \<open>The laws hold of a store of association lists with a deadline for each key.\<close>

datatype redis_value = RZSet "(string \<times> int) list" | RNum int

type_synonym redis_store = "string \<rightharpoonup> redis_value \<times> int option"

definition zset_at :: "redis_store \<Rightarrow> string \<Rightarrow> (string \<times> int) list option" where
  "zset_at s k = (case s k of None \<Rightarrow> Some [] | Some (RZSet m, _) \<Rightarrow> Some m | Some (RNum _, _) \<Rightarrow> None)"

definition put_zset :: "string \<Rightarrow> (string \<times> int) list \<Rightarrow> redis_store \<Rightarrow> redis_store" where
  "put_zset k m s =
     s(k := if m = [] then None else Some (RZSet m, case s k of None \<Rightarrow> None | Some (_, d) \<Rightarrow> d))"

definition store_redis :: "redis_store redis" where
  "store_redis =
     \<lparr> rd_expire = (\<lambda>t s k. case s k of Some (v, Some d) \<Rightarrow> if d \<le> t then None else s k | _ \<Rightarrow> s k),
       rd_zremrangebyscore = (\<lambda>k lo hi s.
         map_option (\<lambda>m. put_zset k (filter (\<lambda>(x, _). \<not> (lo \<le> the (map_of m x) \<and> the (map_of m x) \<le> hi)) m) s) (zset_at s k)),
       rd_zcard = (\<lambda>k s. map_option (\<lambda>m. int (length (remdups (map fst m)))) (zset_at s k)),
       rd_zadd = (\<lambda>k v x s. map_option (\<lambda>m. put_zset k ((x, v) # filter (\<lambda>(y, _). y \<noteq> x) m) s) (zset_at s k)),
       rd_zfirst = (\<lambda>k s. map_option (\<lambda>m. if m = [] then None
         else Some (hd (sort_key snd (map (\<lambda>(x, _). (x, the (map_of m x))) m)))) (zset_at s k)),
       rd_pexpire = (\<lambda>t k ms s. case s k of None \<Rightarrow> s
         | Some (v, _) \<Rightarrow> if ms \<le> 0 then s(k := None) else s(k \<mapsto> (v, Some (t + ms)))),
       rd_get = (\<lambda>k s. case s k of None \<Rightarrow> Some None | Some (RNum n, _) \<Rightarrow> Some (Some n) | _ \<Rightarrow> None),
       rd_set_px = (\<lambda>t k n ms s. if ms \<le> 0 then None else Some (s(k \<mapsto> (RNum n, Some (t + ms))))) \<rparr>"

definition store_view :: "redis_store \<Rightarrow> string \<Rightarrow> redis_view" where
  "store_view s k =
     \<lparr> rv_zset = map_option map_of (zset_at s k),
       rv_num = (case s k of None \<Rightarrow> Some None | Some (RNum n, _) \<Rightarrow> Some (Some n) | _ \<Rightarrow> None),
       rv_deadline = (case s k of None \<Rightarrow> None | Some (_, d) \<Rightarrow> d) \<rparr>"

lemma map_of_filter_keys: "map_of (filter (\<lambda>(x, _). P x) m) x = (if P x then map_of m x else None)"
  by (induction m) auto

lemma card_map_of: "length (remdups (map fst m)) = card (dom (map_of m))"
  by (metis dom_map_of_conv_image_fst length_remdups_card_conv list.set_map)

lemma put_zset_view [simp]:
  "rv_zset (store_view (put_zset k m s) k) = Some (map_of m)"
  "rv_deadline (store_view (put_zset k m s) k) = (if m = [] then None else rv_deadline (store_view s k))"
  "k' \<noteq> k \<Longrightarrow> store_view (put_zset k m s) k' = store_view s k'"
  by (auto simp: put_zset_def store_view_def zset_at_def split: option.splits)

lemma store_first:
  fixes m :: "(string \<times> int) list"
  assumes "m \<noteq> []"
  defines "p \<equiv> hd (sort_key snd (map (\<lambda>(x, _). (x, the (map_of m x))) m))"
  shows "map_of m (fst p) = Some (snd p) \<and> (\<forall>w \<in> ran (map_of m). snd p \<le> w)"
proof -
  let ?n = "map (\<lambda>(x, _). (x, the (map_of m x))) m"
  obtain q qs where q: "sort_key snd ?n = q # qs" using assms(1) by (cases "sort_key snd ?n") (auto dest: arg_cong [of _ _ length])
  have p: "p = q" using q by (simp add: p_def)
  have mem: "set (q # qs) = set ?n" using q by (metis set_sort)
  have "sorted (map snd (q # qs))" using q by (metis sorted_sort_key)
  then have least: "snd q \<le> snd r" if "r \<in> set ?n" for r using that mem by auto
  have "q \<in> set ?n" using mem by auto
  then obtain x v where x: "(x, v) \<in> set m" "q = (x, the (map_of m x))" by auto
  then have "map_of m x \<noteq> None" by (simp add: map_of_eq_None_iff image_iff) force
  then have "map_of m (fst q) = Some (snd q)" using x by auto
  moreover have "snd q \<le> w" if w: "w \<in> ran (map_of m)" for w
  proof -
    obtain y where y: "map_of m y = Some w" using w by (auto simp: ran_def)
    then have "(y, w) \<in> set m" by (rule map_of_SomeD)
    then have "(y, the (map_of m y)) \<in> set ?n" by force
    from least [OF this] y show ?thesis by simp
  qed
  ultimately show ?thesis using p by simp
qed

interpretation store: redis_laws store_redis store_view
proof unfold_locales
  fix s k m lo hi assume m: "rv_zset (store_view s k) = Some m"
  then obtain l where l: "zset_at s k = Some l" "m = map_of l" by (auto simp: store_view_def)
  let ?f = "filter (\<lambda>(x, _). \<not> (lo \<le> the (map_of l x) \<and> the (map_of l x) \<le> hi)) l"
  have "map_of ?f = drop_scores lo hi m"
    by (auto simp: l(2) drop_scores_def fun_eq_iff map_of_filter_keys split: option.splits)
  with l show "\<exists>s'. rd_zremrangebyscore store_redis k lo hi s = Some s' \<and>
      rv_zset (store_view s' k) = Some (drop_scores lo hi m) \<and>
      rv_deadline (store_view s' k) \<in> {None, rv_deadline (store_view s k)}"
    by (auto simp: store_redis_def)
next
  fix s k m v x assume m: "rv_zset (store_view s k) = Some m"
  then obtain l where l: "zset_at s k = Some l" "m = map_of l" by (auto simp: store_view_def)
  have "map_of ((x, v) # filter (\<lambda>(y, _). y \<noteq> x) l) = m(x \<mapsto> v)"
    by (auto simp: l(2) fun_eq_iff map_of_filter_keys)
  with l show "\<exists>s'. rd_zadd store_redis k v x s = Some s' \<and> rv_zset (store_view s' k) = Some (m(x \<mapsto> v)) \<and>
      rv_deadline (store_view s' k) = rv_deadline (store_view s k)"
    by (auto simp: store_redis_def)
next
  fix s k m assume m: "rv_zset (store_view s k) = Some m"
  then obtain l where l: "zset_at s k = Some l" "m = map_of l" by (auto simp: store_view_def)
  show "\<exists>p. rd_zfirst store_redis k s = Some p \<and>
      (case p of None \<Rightarrow> m = Map.empty | Some (x, v) \<Rightarrow> m x = Some v \<and> (\<forall>w \<in> ran m. v \<le> w))"
  proof (cases "l = []")
    case False
    from store_first [OF this] l False show ?thesis
      by (auto simp: store_redis_def split: prod.splits)
  qed (use l in \<open>simp add: store_redis_def\<close>)
  show "rd_zcard store_redis k s = Some (int (card (dom m)))"
    using l by (simp add: store_redis_def card_map_of)
  show "finite (dom m)" using l by (simp add: finite_dom_map_of)
  fix t ms assume "m \<noteq> Map.empty"
  with l show "store_view (rd_pexpire store_redis t k ms s) k =
      (if ms \<le> 0 then absent else store_view s k\<lparr>rv_deadline := Some (t + ms)\<rparr>)"
    by (auto simp: store_redis_def store_view_def zset_at_def absent_def split: option.splits redis_value.splits prod.splits)
qed (auto simp: store_redis_def store_view_def expired_view_def absent_def zset_at_def put_zset_def
  split: option.splits redis_value.splits prod.splits if_splits)

end
