(* ===== verification/Rate_Budget.thy ===== *)
theory Rate_Budget
  imports Rate_Limiter
begin

text \<open>
  What the Redis limiter guarantees over any sequence of requests, of all keys, against any
  Redis that keeps its laws: the sliding window is exactly a log of the last window, and GCRA is
  a meter with one theoretical arrival time.
\<close>

section \<open>Sequences of requests\<close>

type_synonym limited_request = "string \<times> rule \<times> redis_env"

text \<open>The time and the decision of each request of the key \<open>k\<close>.\<close>

fun decisions :: "'s redis \<Rightarrow> string \<Rightarrow> limited_request list \<Rightarrow> 's \<Rightarrow> (int \<times> decision option) list" where
  "decisions rd k [] s = []"
| "decisions rd k ((k', r, env) # qs) s =
     (case redis_allow rd env k' r s of
        (d, s) \<Rightarrow> (if k' = k then [(unix_milli env, d)] else []) @ decisions rd k qs s)"

definition admits :: "decision option \<Rightarrow> bool" where
  "admits d = (case d of None \<Rightarrow> False | Some d \<Rightarrow> de_allowed d)"

definition refuses :: "decision option \<Rightarrow> bool" where
  "refuses d = (case d of None \<Rightarrow> False | Some d \<Rightarrow> \<not> de_allowed d)"

text \<open>A request whose answer arrives, and what the script decides of each request of the key, whether or
  not the service hears of it. The service knows nothing of a request whose answer is lost.\<close>

definition heard :: "redis_env \<Rightarrow> redis_env" where
  "heard env = env\<lparr>rl_answered := True\<rparr>"

lemma heard_simps [simp]:
  "rl_up (heard env) = rl_up env" "rl_answered (heard env)" "unix_milli (heard env) = unix_milli env"
  "rl_unix_nano (heard env) = rl_unix_nano env" "rl_itoa (heard env) = rl_itoa env" "rl_div0 (heard env) = rl_div0 env"
  by (simp_all add: heard_def unix_milli_def)

fun rulings :: "'s redis \<Rightarrow> string \<Rightarrow> limited_request list \<Rightarrow> 's \<Rightarrow> (redis_env \<times> decision option) list" where
  "rulings rd k [] s = []"
| "rulings rd k ((k', r, env) # qs) s =
     (case redis_allow rd (heard env) k' r s of
        (d, s) \<Rightarrow> (if k' = k then [(env, d)] else []) @ rulings rd k qs s)"

definition as_heard :: "(redis_env \<times> decision option) list \<Rightarrow> (int \<times> decision option) list" where
  "as_heard rs = map (\<lambda>(env, d). (unix_milli env, if rl_answered env then d else None)) rs"

lemma allow_heard:
  "redis_allow rd env k r s =
     (if rl_answered env then fst (redis_allow rd (heard env) k r s) else None, snd (redis_allow rd (heard env) k r s))"
  by (simp add: redis_allow_def run_sliding_window_def run_gcra_def Let_def split: prod.split)

lemma decisions_rulings: "decisions rd k qs s = as_heard (rulings rd k qs s)"
proof (induction qs arbitrary: s)
  case (Cons q qs)
  obtain k' r env where q: "q = (k', r, env)" by (metis prod_cases3)
  obtain d s' where run: "redis_allow rd (heard env) k' r s = (d, s')" by fastforce
  have "redis_allow rd env k' r s = (if rl_answered env then d else None, s')"
    unfolding allow_heard [of rd env] run by simp
  with run Cons show ?case by (simp add: q as_heard_def)
qed (simp add: as_heard_def)

text \<open>The requests of a key that reach Redis, their times and members.\<close>

definition asked :: "string \<Rightarrow> limited_request list \<Rightarrow> redis_env list" where
  "asked k qs = [env. (k', r, env) \<leftarrow> qs, k' = k \<and> rl_up env]"

definition member :: "redis_env \<Rightarrow> string" where
  "member env = rl_itoa env (rl_unix_nano env)"

lemma member_heard [simp]: "member (heard env) = member env"
  by (simp add: member_def)

lemma asked_simps [simp]:
  "asked k [] = []"
  "asked k ((k', r, env) # qs) = (if k' = k \<and> rl_up env then env # asked k qs else asked k qs)"
  by (simp_all add: asked_def)

text \<open>The clock does not run backwards.\<close>

definition in_order :: "int \<Rightarrow> limited_request list \<Rightarrow> bool" where
  "in_order t0 qs \<longleftrightarrow> sorted (t0 # map (\<lambda>(k, r, env). unix_milli env) qs)"

lemma in_order_Cons:
  "in_order t0 ((k, r, env) # qs) \<longleftrightarrow> t0 \<le> unix_milli env \<and> in_order (unix_milli env) qs"
  by (auto simp: in_order_def)

section \<open>The reference limiters\<close>

text \<open>A log: \<open>adm\<close> are the times admitted so far.\<close>

fun window_admits :: "int \<Rightarrow> int \<Rightarrow> int list \<Rightarrow> int list \<Rightarrow> int list" where
  "window_admits w n adm [] = []"
| "window_admits w n adm (t # ts) =
     (if int (length (filter (\<lambda>a. t - w < a) adm)) < n
      then t # window_admits w n (adm @ [t]) ts else window_admits w n adm ts)"

text \<open>A meter with the theoretical arrival time \<open>tat\<close>.\<close>

fun gcra_admits :: "int \<Rightarrow> int \<Rightarrow> int \<Rightarrow> int list \<Rightarrow> int list" where
  "gcra_admits em tol tat [] = []"
| "gcra_admits em tol tat (t # ts) =
     (if t < tat - tol then gcra_admits em tol tat ts
      else t # gcra_admits em tol (max tat t + em) ts)"

lemma length_filter_mono: "(\<And>x. P x \<Longrightarrow> Q x) \<Longrightarrow> length (filter P xs) \<le> length (filter Q xs)"
  by (induction xs) auto

lemma window_admits_bound:
  assumes "\<And>u. int (length (filter (\<lambda>a. u - w < a \<and> a \<le> u) adm)) \<le> n"
  shows "int (length (filter (\<lambda>a. u - w < a \<and> a \<le> u) (adm @ window_admits w n adm ts))) \<le> n"
  using assms
proof (induction ts arbitrary: adm)
  case (Cons t ts)
  show ?case
  proof (cases "int (length (filter (\<lambda>a. t - w < a) adm)) < n")
    case True
    have "int (length (filter (\<lambda>a. u - w < a \<and> a \<le> u) (adm @ [t]))) \<le> n" for u
    proof (cases "t \<le> u")
      case le: True
      have "length (filter (\<lambda>a. u - w < a \<and> a \<le> u) adm) \<le> length (filter (\<lambda>a. t - w < a) adm)"
        using le by (intro length_filter_mono) auto
      with True show ?thesis by simp
    qed (use Cons.prems in simp)
    from Cons.IH [OF this] True show ?thesis by simp
  qed (use Cons in simp)
qed simp

lemma gcra_admits_meter:
  fixes em lo hi tol :: int
  assumes "0 < em" "lo \<le> hi" "0 \<le> tol"
  defines "count tat ts \<equiv> length (filter (\<lambda>a. lo \<le> a \<and> a \<le> hi) (gcra_admits em tol tat ts))"
  shows "0 < count tat ts \<Longrightarrow> max tat lo + (int (count tat ts) - 1) * em \<le> hi + tol"
proof (induction ts arbitrary: tat)
  case (Cons t ts)
  show ?case
  proof (cases "t < tat - tol")
    case True
    with Cons show ?thesis by (simp add: count_def)
  next
    case False
    let ?tat = "max tat t + em"
    have rest: "count tat (t # ts) = (if lo \<le> t \<and> t \<le> hi then Suc (count ?tat ts) else count ?tat ts)"
      using False by (simp add: count_def)
    show ?thesis
    proof (cases "count ?tat ts = 0")
      case True
      with rest Cons.prems have "lo \<le> t" "t \<le> hi" "count tat (t # ts) = 1" by (auto split: if_splits)
      with False assms(2,3) show ?thesis by auto
    next
      case pos: False
      then have IH: "max ?tat lo + (int (count ?tat ts) - 1) * em \<le> hi + tol"
        by (intro Cons.IH) simp
      show ?thesis
      proof (cases "lo \<le> t \<and> t \<le> hi")
        case True
        then have "max tat lo + em \<le> max ?tat lo" using assms(1) by auto
        with True rest IH show ?thesis by (simp add: algebra_simps)
      next
        case out: False
        have "max tat lo \<le> max ?tat lo" using assms(1) by auto
        with rest out IH show ?thesis by auto
      qed
    qed
  qed
qed (simp add: count_def)

lemma gcra_admits_bound:
  assumes "0 < em" "lo \<le> hi" "0 \<le> tol"
  shows "int (length (filter (\<lambda>a. lo \<le> a \<and> a \<le> hi) (gcra_admits em tol tat ts))) \<le> (hi - lo + tol) div em + 1"
    (is "int ?n \<le> _")
proof (cases "0 < ?n")
  case True
  from gcra_admits_meter [OF assms this] have "(int ?n - 1) * em \<le> hi - lo + tol"
    by (simp add: algebra_simps)
  then have "(int ?n - 1) * em div em \<le> (hi - lo + tol) div em"
    by (rule zdiv_mono1) (rule assms(1))
  then have "int ?n - 1 \<le> (hi - lo + tol) div em" using assms(1) by simp
  then show ?thesis by simp
next
  case False
  have "0 \<le> (hi - lo + tol) div em" using assms by (intro pos_imp_zdiv_nonneg_iff [THEN iffD2]) simp_all
  with False show ?thesis by simp
qed

section \<open>The limiter refines them\<close>

text \<open>The log in Redis: \<open>adm\<close> are the times and members admitted, \<open>t0\<close> the time of the last request.\<close>

definition log_inv :: "int \<Rightarrow> (int \<times> string) list \<Rightarrow> int \<Rightarrow> redis_view \<Rightarrow> bool" where
  "log_inv w adm t0 v \<longleftrightarrow> distinct (map snd adm) \<and> (\<forall>(a, x) \<in> set adm. 0 \<le> a \<and> a \<le> t0) \<and>
     (\<exists>m. rv_zset v = Some m \<and>
       (\<forall>x a. m x = Some a \<longrightarrow> (a, x) \<in> set adm) \<and>
       (\<forall>(a, x) \<in> set adm. t0 - w < a \<longrightarrow> m x = Some a) \<and>
       (\<forall>d. rv_deadline v = Some d \<longrightarrow> (\<forall>(a, x) \<in> set adm. a + w \<le> d)))"

lemma log_invE:
  assumes "log_inv w adm t0 v"
  obtains m where "rv_zset v = Some m" "distinct (map snd adm)" "\<And>a x. (a, x) \<in> set adm \<Longrightarrow> 0 \<le> a \<and> a \<le> t0"
    "\<And>x a. m x = Some a \<Longrightarrow> (a, x) \<in> set adm" "\<And>a x. (a, x) \<in> set adm \<Longrightarrow> t0 - w < a \<Longrightarrow> m x = Some a"
    "\<And>d a x. rv_deadline v = Some d \<Longrightarrow> (a, x) \<in> set adm \<Longrightarrow> a + w \<le> d"
  using assms unfolding log_inv_def by blast

lemma log_invI:
  "distinct (map snd adm) \<Longrightarrow> (\<And>a x. (a, x) \<in> set adm \<Longrightarrow> 0 \<le> a \<and> a \<le> t0) \<Longrightarrow> rv_zset v = Some m \<Longrightarrow>
   (\<And>x a. m x = Some a \<Longrightarrow> (a, x) \<in> set adm) \<Longrightarrow> (\<And>a x. (a, x) \<in> set adm \<Longrightarrow> t0 - w < a \<Longrightarrow> m x = Some a) \<Longrightarrow>
   (\<And>d a x. rv_deadline v = Some d \<Longrightarrow> (a, x) \<in> set adm \<Longrightarrow> a + w \<le> d) \<Longrightarrow> log_inv w adm t0 v"
  unfolding log_inv_def by blast

lemma log_inv_later:
  assumes "log_inv w adm t0 v" "t0 \<le> t"
  shows "log_inv w adm t v"
proof -
  obtain m where m: "rv_zset v = Some m" "distinct (map snd adm)" "\<And>a x. (a, x) \<in> set adm \<Longrightarrow> 0 \<le> a \<and> a \<le> t0"
    "\<And>x a. m x = Some a \<Longrightarrow> (a, x) \<in> set adm" "\<And>a x. (a, x) \<in> set adm \<Longrightarrow> t0 - w < a \<Longrightarrow> m x = Some a"
    "\<And>d a x. rv_deadline v = Some d \<Longrightarrow> (a, x) \<in> set adm \<Longrightarrow> a + w \<le> d"
    by (rule log_invE [OF assms(1)]) blast
  show ?thesis
    by (rule log_invI [OF m(2) _ m(1) m(4) _ m(6)]) (use m(3,5) assms(2) in \<open>force+\<close>)
qed

lemma log_inv_expired:
  assumes "log_inv w adm t0 v" "t0 \<le> t"
  shows "log_inv w adm t (expired_view t v)"
proof (cases "\<exists>d. rv_deadline v = Some d \<and> d \<le> t")
  case True
  then obtain d where d: "rv_deadline v = Some d" "d \<le> t" by blast
  then have v: "expired_view t v = absent" by (simp add: expired_view_def)
  obtain m where m: "distinct (map snd adm)" "\<And>a x. (a, x) \<in> set adm \<Longrightarrow> 0 \<le> a \<and> a \<le> t0"
    "\<And>d a x. rv_deadline v = Some d \<Longrightarrow> (a, x) \<in> set adm \<Longrightarrow> a + w \<le> d"
    by (rule log_invE [OF assms(1)]) blast
  have "\<not> t - w < a" if "(a, x) \<in> set adm" for a x using m(3) [OF d(1) that] d(2) by simp
  then show ?thesis
    unfolding v by (intro log_invI [where m = Map.empty]) (use m(1,2) assms(2) in \<open>force simp: absent_def\<close>)+
next
  case False
  then have "expired_view t v = v" by (auto simp: expired_view_def split: option.splits)
  with log_inv_later [OF assms] show ?thesis by simp
qed

text \<open>After the removal of the old members, the set holds exactly the members of the last window.\<close>

lemma log_inv_count:
  assumes "log_inv w adm t v" "rv_zset v = Some m"
  shows "card (dom (drop_scores 0 (t - w) m)) = length (filter (\<lambda>a. t - w < a) (map fst adm))"
    and "\<And>x. drop_scores 0 (t - w) m x = (case m x of Some a \<Rightarrow> if t - w < a then Some a else None | None \<Rightarrow> None)"
proof -
  have m: "distinct (map snd adm)" "\<And>a x. (a, x) \<in> set adm \<Longrightarrow> 0 \<le> a \<and> a \<le> t"
    "\<And>x a. m x = Some a \<Longrightarrow> (a, x) \<in> set adm" "\<And>a x. (a, x) \<in> set adm \<Longrightarrow> t - w < a \<Longrightarrow> m x = Some a"
    using assms unfolding log_inv_def by auto
  show drop: "drop_scores 0 (t - w) m x = (case m x of Some a \<Rightarrow> if t - w < a then Some a else None | None \<Rightarrow> None)" for x
    using m(2,3) by (fastforce simp: drop_scores_def split: option.splits)
  have "dom (drop_scores 0 (t - w) m) = snd ` set (filter (\<lambda>(a, x). t - w < a) adm)" (is "_ = ?S")
  proof
    show "dom (drop_scores 0 (t - w) m) \<subseteq> ?S"
      using m(3) by (force simp: drop split: option.splits if_splits)
    show "?S \<subseteq> dom (drop_scores 0 (t - w) m)"
      using m(4) by (force simp: drop split: option.splits if_splits)
  qed
  also have "card \<dots> = length (filter (\<lambda>(a, x). t - w < a) adm)"
    using distinct_map_filter [OF m(1)] by (metis distinct_card length_map list.set_map)
  also have "\<dots> = length (filter (\<lambda>a. t - w < a) (map fst adm))"
    by (simp add: filter_map comp_def case_prod_unfold)
  finally show "card (dom (drop_scores 0 (t - w) m)) = length (filter (\<lambda>a. t - w < a) (map fst adm))" .
qed

context redis_laws
begin

text \<open>An admitted request is a new member; the key then lives for a whole window.\<close>

lemma log_inv_admit:
  assumes "distinct (map snd adm)" "x \<notin> snd ` set adm" "\<And>a y. (a, y) \<in> set adm \<Longrightarrow> 0 \<le> a \<and> a \<le> t" "0 \<le> t"
    and "\<And>y a. m y = Some a \<Longrightarrow> (a, y) \<in> set adm" "\<And>y a. (a, y) \<in> set adm \<Longrightarrow> t - w < a \<Longrightarrow> m y = Some a"
    and "rv_zset v = Some (m(x \<mapsto> t))" "rv_deadline v = Some (t + w)"
  shows "log_inv w (adm @ [(t, x)]) t v"
proof (rule log_invI [where m = "m(x \<mapsto> t)"])
  show "distinct (map snd (adm @ [(t, x)]))" using assms(1,2) by auto
  show "rv_zset v = Some (m(x \<mapsto> t))" by (rule assms(7))
  show "(a, y) \<in> set (adm @ [(t, x)])" if "(m(x \<mapsto> t)) y = Some a" for y a
    using that assms(5) by (auto split: if_splits)
  show "(m(x \<mapsto> t)) y = Some a" if "(a, y) \<in> set (adm @ [(t, x)])" "t - w < a" for y a
    using that assms(2,6) by (force simp: image_iff)
  show "0 \<le> a \<and> a \<le> t" if "(a, y) \<in> set (adm @ [(t, x)])" for y a
    using that assms(3,4) by auto
  show "a + w \<le> d" if "rv_deadline v = Some d" "(a, y) \<in> set (adm @ [(t, x)])" for d a y
    using that assms(3) [of a y] assms(8) by auto
qed

lemma sliding_window_step:
  assumes "log_inv w adm t (view s k)" "0 < w" "0 \<le> t" "x \<notin> snd ` set adm"
    and "sliding_window_script rd k t w n x s = (res, s')"
  shows "\<exists>rem retry. res = Some (if int (length (filter (\<lambda>a. t - w < a) (map fst adm))) < n then 1 else 0, rem, retry) \<and>
    log_inv w (if int (length (filter (\<lambda>a. t - w < a) (map fst adm))) < n then adm @ [(t, x)] else adm) t (view s' k)"
proof -
  obtain m where m: "rv_zset (view s k) = Some m" "distinct (map snd adm)"
    "\<And>a x. (a, x) \<in> set adm \<Longrightarrow> 0 \<le> a \<and> a \<le> t"
    "\<And>x a. m x = Some a \<Longrightarrow> (a, x) \<in> set adm" "\<And>a x. (a, x) \<in> set adm \<Longrightarrow> t - w < a \<Longrightarrow> m x = Some a"
    "\<And>d a x. rv_deadline (view s k) = Some d \<Longrightarrow> (a, x) \<in> set adm \<Longrightarrow> a + w \<le> d"
    by (rule log_invE [OF assms(1)]) blast
  let ?m = "drop_scores 0 (t - w) m"
  let ?count = "int (length (filter (\<lambda>a. t - w < a) (map fst adm)))"
  note count = log_inv_count [OF assms(1) m(1)]
  obtain s1 where s1: "rd_zremrangebyscore rd k 0 (t - w) s = Some s1" "rv_zset (view s1 k) = Some ?m"
    "rv_deadline (view s1 k) \<in> {None, rv_deadline (view s k)}"
    using zrem_law [OF m(1)] by blast
  have card: "rd_zcard rd k s1 = Some ?count" using zcard_law [OF s1(2)] count(1) by simp
  have m1: "(a, y) \<in> set adm" if "?m y = Some a" for y a
    using m(4) that by (auto simp: count(2) split: option.splits if_splits)
  have m2: "?m y = Some a" if "(a, y) \<in> set adm" "t - w < a" for y a
    using m(5) [OF that] that by (simp add: count(2))
  show ?thesis
  proof (cases "?count < n")
    case True
    obtain s2 where s2: "rd_zadd rd k t x s1 = Some s2" "rv_zset (view s2 k) = Some (?m(x \<mapsto> t))"
      using zadd_law [OF s1(2)] by blast
    have run: "res = Some (1, n - ?count - 1, 0)" "s' = rd_pexpire rd t k w s2"
      using assms(5) s1(1) card True s2(1) by (simp_all add: sliding_window_script_def)
    have v: "view s' k = (view s2 k)\<lparr>rv_deadline := Some (t + w)\<rparr>"
      using pexpire_law [OF s2(2), of t w] assms(2) by (simp add: run(2))
    have "log_inv w (adm @ [(t, x)]) t (view s' k)"
      by (rule log_inv_admit [OF m(2) assms(4) m(3) assms(3) m1 m2]) (simp_all add: v s2(2))
    with run(1) True show ?thesis by simp
  next
    case False
    obtain p where "rd_zfirst rd k s1 = Some p" using zfirst_law [OF s1(2)] by blast
    with assms(5) s1(1) card False obtain rem retry where run: "res = Some (0, rem, retry)" "s' = s1"
      by (auto simp: sliding_window_script_def Let_def)
    have "log_inv w adm t (view s1 k)"
    proof (rule log_invI [OF m(2,3) s1(2) m1 m2])
      show "a + w \<le> d" if "rv_deadline (view s1 k) = Some d" "(a, y) \<in> set adm" for d a y
        using m(6) [OF _ that(2)] s1(3) that(1) by auto
    qed
    with run False show ?thesis by auto
  qed
qed

end

text \<open>The times of the requests that the script admits, and of those it decides.\<close>

definition admitted :: "'s redis \<Rightarrow> string \<Rightarrow> limited_request list \<Rightarrow> 's \<Rightarrow> int list" where
  "admitted rd k qs s = map (\<lambda>(env, d). unix_milli env) (filter (\<lambda>(env, d). admits d) (rulings rd k qs s))"

definition ruled_on :: "'s redis \<Rightarrow> string \<Rightarrow> limited_request list \<Rightarrow> 's \<Rightarrow> int list" where
  "ruled_on rd k qs s = map (\<lambda>(env, d). unix_milli env) (filter (\<lambda>(env, d). d \<noteq> None) (rulings rd k qs s))"

text \<open>All requests of the key are limited by one rule.\<close>

definition one_rule :: "string \<Rightarrow> rule \<Rightarrow> limited_request list \<Rightarrow> bool" where
  "one_rule k r qs \<longleftrightarrow> (\<forall>(k', r', env) \<in> set qs. k' = k \<longrightarrow> r' = r)"

lemma admitted_Cons:
  assumes "redis_allow rd (heard env) k' r s = (d, s')"
  shows "admitted rd k ((k', r, env) # qs) s =
      (if k' = k \<and> admits d then unix_milli env # admitted rd k qs s' else admitted rd k qs s')"
    "ruled_on rd k ((k', r, env) # qs) s =
      (if k' = k \<and> d \<noteq> None then unix_milli env # ruled_on rd k qs s' else ruled_on rd k qs s')"
  using assms by (simp_all add: admitted_def ruled_on_def)

lemma run_down: "\<not> rl_up env \<Longrightarrow> redis_allow rd env k r s = (None, s)"
  by (simp add: redis_allow_def run_sliding_window_def run_gcra_def)

context redis_laws
begin

lemma allow_sliding:
  assumes "ru_algorithm r = AlgoSlidingWindow" "rl_up env" "log_inv w adm t0 (view s k)"
    and "t0 \<le> unix_milli env" "0 \<le> t0" "w = to_millis (ru_window r)" "0 < w" "member env \<notin> snd ` set adm"
    and "redis_allow rd (heard env) k r s = (d, s')"
  shows "\<exists>x. d = Some x \<and>
    (de_allowed x \<longleftrightarrow> int (length (filter (\<lambda>a. unix_milli env - w < a) (map fst adm))) < ru_limit r) \<and>
    log_inv w (if de_allowed x then adm @ [(unix_milli env, member env)] else adm) (unix_milli env) (view s' k)"
proof -
  let ?t = "unix_milli env" and ?s = "rd_expire rd (unix_milli env) s"
  have inv: "log_inv w adm ?t (view ?s k)"
    using log_inv_expired [OF assms(3,4)] expire_law [of ?t s k] by simp
  obtain res s1 where run: "sliding_window_script rd k ?t w (ru_limit r) (member env) ?s = (res, s1)" by fastforce
  have d: "d = map_option (decision_of r (ru_window r)) res" "s' = s1"
    using assms(1,2,6,9) run by (simp_all add: redis_allow_def run_sliding_window_def Let_def member_def)
  have "0 \<le> ?t" using assms(4,5) by simp
  from sliding_window_step [OF inv assms(7) this assms(8) run] obtain rem retry where
    "res = Some (if int (length (filter (\<lambda>a. ?t - w < a) (map fst adm))) < ru_limit r then 1 else 0, rem, retry)"
    "log_inv w (if int (length (filter (\<lambda>a. ?t - w < a) (map fst adm))) < ru_limit r
       then adm @ [(?t, member env)] else adm) ?t (view s1 k)" by blast
  with d show ?thesis by (intro exI [of _ "the d"]) (simp add: decision_of_def split: if_splits)
qed

text \<open>A request of another key, or one that Redis did not answer, leaves the log as it is.\<close>

lemma log_inv_not_asked:
  assumes "redis_allow rd env k' r s = (d, s')" "k' \<noteq> k \<or> \<not> rl_up env" "log_inv w adm t0 (view s k)"
    and "t0 \<le> unix_milli env"
  shows "log_inv w adm (unix_milli env) (view s' k)"
proof (cases "k' = k")
  case True
  with assms(1,2) run_down [of env rd k' r s] have "s' = s" by simp
  with log_inv_later [OF assms(3,4)] show ?thesis by simp
next
  case False
  from other_key [OF assms(1), of k] False log_inv_later [OF assms(3,4)] log_inv_expired [OF assms(3,4)]
  show ?thesis by auto
qed

lemma sliding_run:
  assumes "ru_algorithm r = AlgoSlidingWindow" "w = to_millis (ru_window r)" "0 < w"
  shows "log_inv w adm t0 (view s k) \<Longrightarrow> in_order t0 qs \<Longrightarrow> 0 \<le> t0 \<Longrightarrow> one_rule k r qs \<Longrightarrow>
    distinct (map snd adm @ map member (asked k qs)) \<Longrightarrow>
    admitted rd k qs s = window_admits w (ru_limit r) (map fst adm) (map unix_milli (asked k qs)) \<and>
    ruled_on rd k qs s = map unix_milli (asked k qs)"
proof (induction qs arbitrary: adm t0 s)
  case Nil
  show ?case by (simp add: admitted_def ruled_on_def)
next
  case (Cons q qs)
  obtain k' r' env where q: "q = (k', r', env)" by (metis prod_cases3)
  obtain d s' where run: "redis_allow rd (heard env) k' r' s = (d, s')" by fastforce
  let ?t = "unix_milli env"
  have order: "t0 \<le> ?t" "in_order ?t qs" "0 \<le> ?t" using Cons.prems(2,3) by (auto simp: q in_order_Cons)
  have rule: "one_rule k r qs" using Cons.prems(4) by (simp add: one_rule_def)
  note adm_q = admitted_Cons [OF run, of k qs, folded q]
  show ?case
  proof (cases "k' = k \<and> rl_up env")
    case True
    then have r': "r' = r" using Cons.prems(4) by (simp add: one_rule_def q)
    have new: "member env \<notin> snd ` set adm" using Cons.prems(5) True by (auto simp: q)
    have run': "redis_allow rd (heard env) k r s = (d, s')" using run True r' by simp
    from True have up: "rl_up env" by simp
    from allow_sliding [OF assms(1) up Cons.prems(1) order(1) Cons.prems(3) assms(2,3) new run']
    obtain x where x: "d = Some x"
      "de_allowed x \<longleftrightarrow> int (length (filter (\<lambda>a. ?t - w < a) (map fst adm))) < ru_limit r"
      "log_inv w (if de_allowed x then adm @ [(?t, member env)] else adm) ?t (view s' k)" by blast
    have "distinct (map snd (if de_allowed x then adm @ [(?t, member env)] else adm) @ map member (asked k qs))"
      using Cons.prems(5) True by (auto simp: q)
    from Cons.IH [OF x(3) order(2,3) rule this] True x(1,2) adm_q show ?thesis
      by (auto simp: q admits_def)
  next
    case False
    then have none: "\<not> (k' = k \<and> admits d)" "\<not> (k' = k \<and> d \<noteq> None)" "asked k (q # qs) = asked k qs"
      using run run_down [of "heard env" rd k' r' s] by (auto simp: q admits_def)
    have "log_inv w adm ?t (view s' k)"
      using log_inv_not_asked [OF run, unfolded heard_simps, OF _ Cons.prems(1) order(1)] False by blast
    from Cons.IH [OF this order(2,3) rule] Cons.prems(5) none adm_q show ?thesis
      by simp
  qed
qed

end

text \<open>C12: The sliding window is exact. Against any Redis that keeps its laws, whatever requests of other
  keys come in between, whichever requests do not reach Redis, whichever answers are lost and whenever
  it expires the key, the requests of a key that the script admits are those of a log that admits a
  request when fewer than the limit were admitted in the window before it; so no window ever holds
  more than the limit. Every request that reaches Redis is decided, and the service decides as the
  script does, except that it knows nothing of a request whose answer is lost, which stays in the log if
  it was admitted. Times are in order and members, taken from the nanoseconds, are distinct.\<close>

theorem sliding_window_exact:
  assumes "redis_laws rd view" "view s k = absent" "ru_algorithm r = AlgoSlidingWindow"
    and "0 < to_millis (ru_window r)" "one_rule k r qs" "in_order 0 qs" "distinct (map member (asked k qs))"
  shows "admitted rd k qs s =
      window_admits (to_millis (ru_window r)) (ru_limit r) [] (map unix_milli (asked k qs)) \<and>
    ruled_on rd k qs s = map unix_milli (asked k qs) \<and>
    decisions rd k qs s = as_heard (rulings rd k qs s) \<and>
    (0 \<le> ru_limit r \<longrightarrow>
      (\<forall>u. int (length (filter (\<lambda>a. u - to_millis (ru_window r) < a \<and> a \<le> u) (admitted rd k qs s))) \<le> ru_limit r))"
proof -
  let ?w = "to_millis (ru_window r)"
  have "log_inv ?w [] 0 (view s k)" by (simp add: log_inv_def assms(2) absent_def)
  from redis_laws.sliding_run [OF assms(1,3) refl assms(4) this assms(6) order_refl assms(5)] assms(7)
  have exact: "admitted rd k qs s = window_admits ?w (ru_limit r) [] (map unix_milli (asked k qs))"
    "ruled_on rd k qs s = map unix_milli (asked k qs)" by simp_all
  have "int (length (filter (\<lambda>a. u - ?w < a \<and> a \<le> u) (admitted rd k qs s))) \<le> ru_limit r"
    if "0 \<le> ru_limit r" for u
    using window_admits_bound [of ?w "[]" "ru_limit r" u "map unix_milli (asked k qs)"] that
    by (simp add: exact)
  with exact decisions_rulings [of rd k qs s] show ?thesis by simp
qed

definition at_nano :: "int \<Rightarrow> redis_env" where
  "at_nano t = \<lparr>rl_up = True, rl_answered = True, rl_unix_nano = t, rl_div0 = 0,
     rl_itoa = (\<lambda>n. replicate (nat (n div (100 * millisecond))) CHR ''x'')\<rparr>"

definition requests_at :: "rule \<Rightarrow> int list \<Rightarrow> limited_request list" where
  "requests_at r ts = map (\<lambda>t. (''k'', r, at_nano t)) ts"

lemma store_view_empty: "store_view Map.empty k = absent"
  by (simp add: store_view_def zset_at_def absent_def)

lemma requests_at_simps [simp]:
  "requests_at r [] = []" "requests_at r (t # ts) = (''k'', r, at_nano t) # requests_at r ts"
  "rl_up (at_nano t)" "unix_milli (at_nano t) = t div millisecond"
  "one_rule ''k'' r (requests_at r ts)"
  by (auto simp: requests_at_def at_nano_def unix_milli_def one_rule_def)

theorem sliding_window_exact_witness:
  "admitted store_redis ''k''
     (requests_at \<lparr>ru_algorithm = AlgoSlidingWindow, ru_limit = 1, ru_window = second, ru_burst = 0\<rparr>
       [0, 900 * millisecond, 2 * second]) Map.empty = [0, 2000]"
proof -
  let ?r = "\<lparr>ru_algorithm = AlgoSlidingWindow, ru_limit = 1, ru_window = second, ru_burst = 0\<rparr>"
  let ?qs = "requests_at ?r [0, 900 * millisecond, 2 * second]"
  have w: "to_millis (ru_window ?r) = 1000" by (simp add: to_millis_def go_div_def second_def millisecond_def)
  have "ru_algorithm ?r = AlgoSlidingWindow" "0 < to_millis (ru_window ?r)" using w by simp_all
  moreover have "in_order 0 ?qs" by (simp add: in_order_def millisecond_def second_def)
  moreover have "distinct (map member (asked ''k'' ?qs))"
    by (simp add: member_def at_nano_def millisecond_def second_def)
  ultimately have "admitted store_redis ''k'' ?qs Map.empty =
      window_admits (to_millis (ru_window ?r)) (ru_limit ?r) [] (map unix_milli (asked ''k'' ?qs))"
    using sliding_window_exact [where rd = store_redis and view = store_view and s = Map.empty and k = "''k''", OF store.redis_laws_axioms store_view_empty] requests_at_simps(5) by blast
  then show ?thesis unfolding w by (simp add: millisecond_def second_def)
qed

section \<open>The meter\<close>

definition meter_inv :: "int \<Rightarrow> int \<Rightarrow> redis_view \<Rightarrow> bool" where
  "meter_inv tat t0 v \<longleftrightarrow>
     (rv_num v = Some (Some tat) \<and> (\<exists>d. rv_deadline v = Some d \<and> tat \<le> d)) \<or>
     (rv_num v = Some None \<and> rv_deadline v = None \<and> tat \<le> t0)"

lemma meter_inv_later: "meter_inv tat t0 v \<Longrightarrow> t0 \<le> t \<Longrightarrow> meter_inv tat t v"
  by (auto simp: meter_inv_def)

lemma meter_inv_expired:
  assumes "meter_inv tat t0 v" "t0 \<le> t"
  shows "meter_inv tat t (expired_view t v)"
  using assms by (auto simp: meter_inv_def expired_view_def absent_def split: if_splits)

context redis_laws
begin

lemma gcra_step:
  assumes "meter_inv tat t (view s k)" "0 < em" "0 \<le> tol"
    and "gcra_script rd z k t em tol s = (res, s')"
  shows "\<exists>rem retry. res = Some (if t < tat - tol then 0 else 1, rem, retry) \<and>
    meter_inv (if t < tat - tol then tat else max tat t + em) t (view s' k)"
proof -
  define v where "v = (if rv_num (view s k) = Some None then t else tat)"
  have get: "\<exists>o'. rd_get rd k s = Some o' \<and> (case o' of None \<Rightarrow> t | Some x \<Rightarrow> x) = v"
    using assms(1) get_law [of k s] by (auto simp: meter_inv_def v_def)
  have v: "(t < v - tol) = (t < tat - tol)" "max v t = max tat t"
    using assms(1,3) by (auto simp: meter_inv_def v_def)
  let ?new = "max v t + em"
  show ?thesis
  proof (cases "t < v - tol")
    case True
    then have "res = Some (0, 0, v - tol - t)" "s' = s"
      using assms(4) get by (auto simp: gcra_script_def Let_def)
    with True v assms(1) show ?thesis by simp
  next
    case False
    have ttl: "0 < ?new - t + tol" using assms(2,3) by auto
    then obtain s1 where s1: "rd_set_px rd t k ?new (?new - t + tol) s = Some s1"
      "rv_num (view s1 k) = Some (Some ?new)" "rv_deadline (view s1 k) = Some (t + (?new - t + tol))"
      using set_px_law [of "?new - t + tol" t k ?new s] by (auto simp: not_le [symmetric])
    have "\<exists>rem retry. res = Some (1, rem, retry) \<and> s' = s1"
      using assms(4) get False s1(1) by (auto simp: gcra_script_def Let_def)
    moreover have "meter_inv ?new t (view s1 k)" using s1(2,3) assms(3) by (simp add: meter_inv_def)
    ultimately show ?thesis using False v by auto
  qed
qed

lemma allow_gcra:
  assumes "ru_algorithm r = AlgoGCRA" "rl_up env" "meter_inv tat t0 (view s k)" "t0 \<le> unix_milli env"
    and "em = to_millis (emission_interval r)" "0 < em"
    and "tol = to_millis (wrap64 (ru_burst r * emission_interval r))" "0 \<le> tol"
    and "redis_allow rd (heard env) k r s = (d, s')"
  shows "\<exists>x. d = Some x \<and> (de_allowed x \<longleftrightarrow> \<not> unix_milli env < tat - tol) \<and>
    meter_inv (if de_allowed x then max tat (unix_milli env) + em else tat) (unix_milli env) (view s' k)"
proof -
  let ?t = "unix_milli env" and ?s = "rd_expire rd (unix_milli env) s"
  have inv: "meter_inv tat ?t (view ?s k)"
    using meter_inv_expired [OF assms(3,4)] expire_law [of ?t s k] by simp
  obtain res s1 where run: "gcra_script rd (rl_div0 env) k ?t em tol ?s = (res, s1)" by fastforce
  have "AlgoGCRA \<noteq> AlgoSlidingWindow" by (simp add: AlgoGCRA_def AlgoSlidingWindow_def)
  then have d: "d = map_option (decision_of r (emission_interval r)) res" "s' = s1"
    using assms(1,2,5,7,9) run by (simp_all add: redis_allow_def run_gcra_def Let_def)
  from gcra_step [OF inv assms(6,8) run] obtain rem retry where
    "res = Some (if ?t < tat - tol then 0 else 1, rem, retry)"
    "meter_inv (if ?t < tat - tol then tat else max tat ?t + em) ?t (view s1 k)" by blast
  with d show ?thesis by (intro exI [of _ "the d"]) (simp add: decision_of_def split: if_splits)
qed

lemma gcra_run:
  assumes "ru_algorithm r = AlgoGCRA" "em = to_millis (emission_interval r)" "0 < em"
    and "tol = to_millis (wrap64 (ru_burst r * emission_interval r))" "0 \<le> tol"
  shows "meter_inv tat t0 (view s k) \<Longrightarrow> in_order t0 qs \<Longrightarrow> one_rule k r qs \<Longrightarrow>
    admitted rd k qs s = gcra_admits em tol tat (map unix_milli (asked k qs)) \<and>
    ruled_on rd k qs s = map unix_milli (asked k qs)"
proof (induction qs arbitrary: tat t0 s)
  case Nil
  show ?case by (simp add: admitted_def ruled_on_def)
next
  case (Cons q qs)
  obtain k' r' env where q: "q = (k', r', env)" by (metis prod_cases3)
  obtain d s' where run: "redis_allow rd (heard env) k' r' s = (d, s')" by fastforce
  let ?t = "unix_milli env"
  have order: "t0 \<le> ?t" "in_order ?t qs" using Cons.prems(2) by (auto simp: q in_order_Cons)
  have rule: "one_rule k r qs" using Cons.prems(3) by (simp add: one_rule_def)
  note adm_q = admitted_Cons [OF run, of k qs, folded q]
  show ?case
  proof (cases "k' = k \<and> rl_up env")
    case True
    then have r': "r' = r" using Cons.prems(3) by (simp add: one_rule_def q)
    have run': "redis_allow rd (heard env) k r s = (d, s')" using run True r' by simp
    from True have up: "rl_up env" by simp
    from allow_gcra [OF assms(1) up Cons.prems(1) order(1) assms(2-5) run'] obtain x
      where x: "d = Some x" "de_allowed x \<longleftrightarrow> \<not> ?t < tat - tol"
      "meter_inv (if de_allowed x then max tat ?t + em else tat) ?t (view s' k)" by blast
    from Cons.IH [OF x(3) order(2) rule] True x(1,2) adm_q show ?thesis by (auto simp: q admits_def)
  next
    case False
    then have none: "\<not> (k' = k \<and> admits d)" "\<not> (k' = k \<and> d \<noteq> None)" "asked k (q # qs) = asked k qs"
      using run run_down [of "heard env" rd k' r' s] by (auto simp: q admits_def)
    have "meter_inv tat ?t (view s' k)"
    proof (cases "k' = k")
      case True
      with False run run_down [of "heard env" rd k' r' s] have "s' = s" by simp
      with meter_inv_later [OF Cons.prems(1) order(1)] show ?thesis by simp
    next
      case False
      from other_key [OF run, of k] False meter_inv_later [OF Cons.prems(1) order(1)]
        meter_inv_expired [OF Cons.prems(1) order(1)] show ?thesis by auto
    qed
    from Cons.IH [OF this order(2) rule] none adm_q show ?thesis by simp
  qed
qed

end

text \<open>C13: GCRA is a meter. Against any Redis that keeps its laws, whatever happens to other keys and
  whichever answers are lost, when the interval between emissions is at least a millisecond the
  requests of a key that the script admits are those of a meter with one theoretical arrival time;
  between two instants it admits at most one request for each emission that fits in the time between
  them plus the tolerance, and one more. Expiry of the key changes nothing. The service decides as the
  script does, but for the requests whose answer is lost.\<close>

theorem gcra_is_a_meter:
  assumes "redis_laws rd view" "view s k = absent" "ru_algorithm r = AlgoGCRA"
    and "em = to_millis (emission_interval r)" "0 < em"
    and "tol = to_millis (wrap64 (ru_burst r * emission_interval r))" "0 \<le> tol"
    and "one_rule k r qs" "in_order 0 qs"
  shows "admitted rd k qs s = gcra_admits em tol 0 (map unix_milli (asked k qs)) \<and>
    ruled_on rd k qs s = map unix_milli (asked k qs) \<and>
    decisions rd k qs s = as_heard (rulings rd k qs s) \<and>
    (\<forall>lo hi. lo \<le> hi \<longrightarrow>
       int (length (filter (\<lambda>a. lo \<le> a \<and> a \<le> hi) (admitted rd k qs s))) \<le> (hi - lo + tol) div em + 1)"
proof -
  have "meter_inv 0 0 (view s k)" by (simp add: meter_inv_def assms(2) absent_def)
  from redis_laws.gcra_run [OF assms(1,3-7) this assms(9,8)]
    gcra_admits_bound [OF assms(5) _ assms(7)] decisions_rulings show ?thesis by auto
qed

theorem gcra_is_a_meter_witness:
  "admitted store_redis ''k''
     (requests_at \<lparr>ru_algorithm = AlgoGCRA, ru_limit = 10, ru_window = second, ru_burst = 1\<rparr>
       [0, 1 * millisecond, 2 * millisecond, second]) Map.empty = [0, 1, 1000]"
proof -
  let ?r = "\<lparr>ru_algorithm = AlgoGCRA, ru_limit = 10, ru_window = second, ru_burst = 1\<rparr>"
  let ?qs = "requests_at ?r [0, 1 * millisecond, 2 * millisecond, second]"
  have em: "emission_interval ?r = 100 * millisecond"
    by (simp add: emission_interval_def go_div_def second_def millisecond_def)
  then have "wrap64 (ru_burst ?r * emission_interval ?r) = 100 * millisecond"
    by (simp add: wrap64_def millisecond_def)
  then have ms: "to_millis (emission_interval ?r) = 100" "to_millis (wrap64 (ru_burst ?r * emission_interval ?r)) = 100"
    unfolding em by (simp_all add: to_millis_def go_div_def millisecond_def)
  have "in_order 0 ?qs" by (simp add: in_order_def millisecond_def second_def)
  with gcra_is_a_meter [where rd = store_redis and view = store_view and s = Map.empty and k = "''k''", OF store.redis_laws_axioms store_view_empty _ ms(1) [symmetric] _ ms(2) [symmetric]
      _ requests_at_simps(5) this]
  have "admitted store_redis ''k'' ?qs Map.empty = gcra_admits 100 100 0 (map unix_milli (asked ''k'' ?qs))" by simp
  then show ?thesis by (simp add: millisecond_def second_def)
qed

section \<open>Rates beyond a request per millisecond\<close>

definition refused :: "'s redis \<Rightarrow> string \<Rightarrow> limited_request list \<Rightarrow> 's \<Rightarrow> int list" where
  "refused rd k qs s = map (\<lambda>(env, d). unix_milli env) (filter (\<lambda>(env, d). refuses d) (rulings rd k qs s))"

definition past_inv :: "int \<Rightarrow> redis_view \<Rightarrow> bool" where
  "past_inv t0 v \<longleftrightarrow> rv_num v = Some None \<or> (\<exists>x. rv_num v = Some (Some x) \<and> x \<le> t0)"

lemma past_inv_later: "past_inv t0 v \<Longrightarrow> t0 \<le> t \<Longrightarrow> past_inv t v"
  by (auto simp: past_inv_def)

lemma past_inv_expired: "past_inv t0 v \<Longrightarrow> t0 \<le> t \<Longrightarrow> past_inv t (expired_view t v)"
  by (auto simp: past_inv_def expired_view_def absent_def split: option.splits)

context redis_laws
begin

lemma gcra_zero_step:
  assumes "past_inv t (view s k)" "0 \<le> tol" "gcra_script rd z k t 0 tol s = (res, s')"
  shows "past_inv t (view s' k) \<and> (case res of None \<Rightarrow> True | Some (a, _) \<Rightarrow> a = 1) \<and> (tol = 0 \<longrightarrow> res = None)"
proof -
  obtain o' where get: "rd_get rd k s = Some o'" "(case o' of None \<Rightarrow> t | Some x \<Rightarrow> x) \<le> t"
    using assms(1) get_law [of k s] by (auto simp: past_inv_def)
  define v where "v = (case o' of None \<Rightarrow> t | Some x \<Rightarrow> x)"
  have v: "v \<le> t" using get(2) by (simp add: v_def)
  show ?thesis
  proof (cases "tol = 0")
    case True
    have "rd_set_px rd t k t 0 s = None" using set_px_law [of 0 t k t s] by simp
    with assms get(1) v True have "res = None" "s' = s"
      by (auto simp: gcra_script_def Let_def v_def [symmetric] max_absorb2)
    with assms(1) show ?thesis by simp
  next
    case False
    with assms(2) obtain s1 where s1: "rd_set_px rd t k t tol s = Some s1" "rv_num (view s1 k) = Some (Some t)"
      using set_px_law [of tol t k t s] by auto
    with assms get(1) v False have "\<exists>rem. res = Some (1, rem, 0)" "s' = s1"
      by (auto simp: gcra_script_def Let_def v_def [symmetric] max_absorb2)
    with s1(2) False show ?thesis by (auto simp: past_inv_def)
  qed
qed

lemma gcra_zero_run:
  assumes "ru_algorithm r = AlgoGCRA" "to_millis (emission_interval r) = 0"
    and "tol = to_millis (wrap64 (ru_burst r * emission_interval r))" "0 \<le> tol"
  shows "past_inv t0 (view s k) \<Longrightarrow> in_order t0 qs \<Longrightarrow> one_rule k r qs \<Longrightarrow>
    refused rd k qs s = [] \<and> (tol = 0 \<longrightarrow> ruled_on rd k qs s = [])"
proof (induction qs arbitrary: t0 s)
  case Nil
  show ?case by (simp add: refused_def ruled_on_def)
next
  case (Cons q qs)
  obtain k' r' env where q: "q = (k', r', env)" by (metis prod_cases3)
  obtain d s' where run: "redis_allow rd (heard env) k' r' s = (d, s')" by fastforce
  let ?t = "unix_milli env" and ?s = "rd_expire rd (unix_milli env) s"
  have order: "t0 \<le> ?t" "in_order ?t qs" using Cons.prems(2) by (auto simp: q in_order_Cons)
  have rule: "one_rule k r qs" using Cons.prems(3) by (simp add: one_rule_def)
  have "past_inv ?t (view s' k) \<and> (k' = k \<longrightarrow> \<not> refuses d \<and> (tol = 0 \<longrightarrow> d = None))"
  proof (cases "k' = k \<and> rl_up env")
    case True
    then have r': "k' = k" "r' = r" "rl_up env" using Cons.prems(3) by (simp_all add: one_rule_def q)
    obtain res s1 where gs: "gcra_script rd (rl_div0 env) k ?t 0 tol ?s = (res, s1)" by fastforce
    have "AlgoGCRA \<noteq> AlgoSlidingWindow" by (simp add: AlgoGCRA_def AlgoSlidingWindow_def)
    then have d: "d = map_option (decision_of r (emission_interval r)) res" "s' = s1"
      using assms(1-3) r' run gs by (simp_all add: redis_allow_def run_gcra_def Let_def)
    have "past_inv ?t (view ?s k)"
      using past_inv_expired [OF Cons.prems(1) order(1)] expire_law [of ?t s k] by simp
    from gcra_zero_step [OF this assms(4) gs] d show ?thesis
      by (auto simp: refuses_def decision_of_def split: option.splits)
  next
    case False
    then have "k' = k \<Longrightarrow> s' = s \<and> d = None" using run run_down [of "heard env" rd k' r' s] by simp
    with other_key [OF run, of k] past_inv_later [OF Cons.prems(1) order(1)]
      past_inv_expired [OF Cons.prems(1) order(1)] show ?thesis
      by (cases "k' = k") (auto simp: refuses_def)
  qed
  with Cons.IH [of ?t s'] order(2) rule run show ?case
    by (auto simp: refused_def ruled_on_def q)
qed

end

text \<open>A GCRA rule of more than a thousand requests a second limits nothing: its interval between
  emissions is zero milliseconds, no request is ever refused, and without a burst every request
  ends in an error of Redis, which the middleware lets pass by default.\<close>

theorem gcra_fast_rates_unlimited:
  assumes "redis_laws rd view" "view s k = absent" "ru_algorithm r = AlgoGCRA"
    and "0 < ru_window r" "ru_window r < ru_limit r * millisecond" "0 \<le> ru_burst r"
    and "int64_range (ru_burst r * emission_interval r)" "one_rule k r qs" "in_order 0 qs"
  shows "refused rd k qs s = [] \<and> (ru_burst r = 0 \<longrightarrow> ruled_on rd k qs s = [])"
proof -
  have lim: "0 < ru_limit r"
  proof (rule ccontr)
    assume "\<not> 0 < ru_limit r"
    then have "ru_limit r * millisecond \<le> 0" by (simp add: mult_nonpos_nonneg millisecond_def)
    with assms(4,5) show False by simp
  qed
  then have em_div: "emission_interval r = ru_window r div ru_limit r"
    using assms(4) by (simp add: emission_interval_def go_div_nonneg)
  have "ru_window r div ru_limit r * ru_limit r \<le> ru_window r"
    using lim by (simp add: minus_mod_eq_div_mult [symmetric])
  with assms(5) have "ru_window r div ru_limit r * ru_limit r < millisecond * ru_limit r"
    by (simp add: mult.commute)
  then have "ru_window r div ru_limit r < millisecond"
    by (rule mult_right_less_imp_less) (use lim in simp)
  moreover have em_nonneg: "0 \<le> emission_interval r" using lim assms(4) em_div by (simp add: pos_imp_zdiv_nonneg_iff)
  ultimately have zero: "to_millis (emission_interval r) = 0"
    by (simp add: to_millis_def go_div_nonneg millisecond_def em_div)
  have wrap: "wrap64 (ru_burst r * emission_interval r) = ru_burst r * emission_interval r"
    using assms(7) by (rule wrap64_id)
  have tol: "0 \<le> to_millis (wrap64 (ru_burst r * emission_interval r))"
    unfolding wrap using mult_nonneg_nonneg [OF assms(6) em_nonneg]
    by (simp add: to_millis_def go_div_nonneg millisecond_def pos_imp_zdiv_nonneg_iff)
  have "ru_burst r = 0 \<Longrightarrow> to_millis (wrap64 (ru_burst r * emission_interval r)) = 0"
    unfolding wrap by (simp add: to_millis_def go_div_def)
  moreover have "past_inv 0 (view s k)" by (simp add: past_inv_def assms(2) absent_def)
  ultimately show ?thesis
    using redis_laws.gcra_zero_run [OF assms(1,3) zero refl tol _ assms(9,8)] by blast
qed

theorem gcra_fast_rates_unlimited_witness:
  "refused store_redis ''k''
     (requests_at \<lparr>ru_algorithm = AlgoGCRA, ru_limit = 2000, ru_window = second, ru_burst = 0\<rparr> [0, 0, 0])
     Map.empty = []"
proof -
  let ?r = "\<lparr>ru_algorithm = AlgoGCRA, ru_limit = 2000, ru_window = second, ru_burst = 0\<rparr>"
  have "in_order 0 (requests_at ?r [0, 0, 0])" by (simp add: in_order_def)
  from gcra_fast_rates_unlimited [where rd = store_redis and view = store_view and s = Map.empty and k = "''k''", OF store.redis_laws_axioms store_view_empty _ _ _ _ _ requests_at_simps(5) this]
  show ?thesis by (simp add: second_def millisecond_def int64_range_def)
qed

end
