(* ===== verification/Seconds.thy ===== *)
theory Seconds
  imports Float64
begin

text \<open>
  The number of seconds that \<open>int(math.Ceil(d.Seconds()))\<close> makes of a duration of whole
  milliseconds: the two roundings of \<open>Duration.Seconds\<close> are too small to change it.
\<close>

section \<open>Rounding errors\<close>

lemma pow2_powi: "pow2 e = 2 powi e"
  by (simp add: pow2_def power_int_def inverse_eq_divide power_one_over)

lemma pow2_exponent:
  assumes "0 < q"
  shows "pow2 (exponent q) \<le> q"
proof -
  obtain n d where nd: "quotient_of q = (n, d)" by fastforce
  then have d: "0 < d" "q = of_int n / of_int d"
    using quotient_of_denom_pos [OF nd] quotient_of_div [OF nd] by auto
  then have n: "0 < n" using assms by (simp add: zero_less_divide_iff)
  define e where "e = int (bit_len (nat n)) - int (bit_len (nat d))"
  have e: "exponent q = (if pow2 e \<le> q then e else e - 1)"
    by (simp add: exponent_def nd e_def Let_def)
  have "0 < bit_len (nat n)" using n by (subst bit_len.simps) simp
  then have "2 ^ (bit_len (nat n) - 1) \<le> nat n" using bit_len_ge [of "bit_len (nat n) - 1" "nat n"] by simp
  then have N: "(2::rat) ^ (bit_len (nat n) - 1) \<le> of_int n"
    by (metis n nat_0_le less_imp_le of_int_le_iff of_int_numeral of_int_power of_nat_le_iff of_nat_numeral of_nat_power)
  have "\<not> 2 ^ bit_len (nat d) \<le> nat d" using bit_len_ge [of "bit_len (nat d)" "nat d"] by simp
  then have D: "of_int d < (2::rat) ^ bit_len (nat d)"
    by (metis d(1) nat_0_le less_imp_le not_le of_int_less_iff of_int_numeral of_int_power of_nat_less_iff of_nat_numeral of_nat_power)
  obtain p where p: "bit_len (nat n) = Suc p" using \<open>0 < bit_len (nat n)\<close> by (cases "bit_len (nat n)") auto
  have "pow2 (e - 1) = 2 powi (int p - int (bit_len (nat d)))" by (simp add: pow2_powi e_def p)
  also have "\<dots> = 2 ^ (bit_len (nat n) - 1) / 2 ^ bit_len (nat d)" by (simp add: power_int_diff p)
  also have "\<dots> \<le> of_int n / of_int d"
    using N D d(1) n by (intro frac_le) (auto simp: less_imp_le)
  finally show ?thesis using e d(2) by simp
qed

lemma pow2_le_iff: "pow2 a \<le> pow2 b \<longleftrightarrow> a \<le> b"
proof
  show "pow2 a \<le> pow2 b" if "a \<le> b" using that by (simp add: pow2_powi power_int_increasing)
  show "a \<le> b" if "pow2 a \<le> pow2 b"
  proof (rule ccontr)
    assume "\<not> a \<le> b"
    then have "pow2 b < pow2 a" unfolding pow2_powi by (intro power_int_strict_increasing) auto
    with that show False by simp
  qed
qed

lemma round_half_even_near: "\<bar>of_int (round_half_even q) - q\<bar> \<le> 1 / 2"
proof -
  define r where "r = q - of_int \<lfloor>q\<rfloor>"
  have r: "0 \<le> r" "r < 1" unfolding r_def by linarith+
  have q: "q = of_int \<lfloor>q\<rfloor> + r" by (simp add: r_def)
  show ?thesis
  proof (cases "r < 1 / 2 \<or> r = 1 / 2 \<and> even \<lfloor>q\<rfloor>")
    case True
    then have "of_int (round_half_even q) - q = - r" by (simp add: round_half_even_def r_def Let_def)
    with True r show ?thesis by auto
  next
    case False
    then have "of_int (round_half_even q) - q = 1 - r" by (simp add: round_half_even_def r_def Let_def)
    moreover have "1 / 2 \<le> r" using False by auto
    ultimately show ?thesis using r by auto
  qed
qed

lemma round_half_even_le:
  assumes "q \<le> of_int n"
  shows "round_half_even q \<le> n"
proof (cases "q = of_int n")
  case False
  with assms have "\<lfloor>q\<rfloor> < n" by (simp add: floor_less_iff)
  then show ?thesis by (auto simp: round_half_even_def Let_def)
qed (simp add: round_half_even_def)

lemma round_half_even_ge: "of_int n \<le> q \<Longrightarrow> n \<le> round_half_even q"
  using le_floor_iff [of n q] by (auto simp: round_half_even_def Let_def)

text \<open>Rounding to a grid of step \<open>u\<close> that the integers lie on.\<close>

lemma grid_round:
  fixes q u :: rat and m :: int
  assumes "0 < u" "1 / u = of_int m"
  defines "r \<equiv> of_int (round_half_even (q / u)) * u"
  shows "\<bar>r - q\<bar> \<le> u / 2" "q \<le> of_int n \<Longrightarrow> r \<le> of_int n" "of_int n \<le> q \<Longrightarrow> of_int n \<le> r"
proof -
  have "r - q = (of_int (round_half_even (q / u)) - q / u) * u" using assms(1) by (simp add: r_def algebra_simps)
  then have "\<bar>r - q\<bar> = \<bar>of_int (round_half_even (q / u)) - q / u\<bar> * u" using assms(1) by (simp add: abs_mult)
  also have "\<dots> \<le> 1 / 2 * u" using assms(1) round_half_even_near by (intro mult_right_mono) auto
  finally show "\<bar>r - q\<bar> \<le> u / 2" by simp
  have grid: "of_int n / u = of_int (n * m)" using assms(2) by (simp add: divide_inverse)
  then have on_grid: "of_int (n * m) * u = of_int n" using assms(1) by (metis less_irrefl nonzero_eq_divide_eq)
  show "r \<le> of_int n" if "q \<le> of_int n"
  proof -
    have "q / u \<le> of_int (n * m)" using that assms(1) grid divide_right_mono [of q "of_int n" u] by simp
    then have "round_half_even (q / u) \<le> n * m" by (rule round_half_even_le)
    then have "r \<le> of_int (n * m) * u" unfolding r_def using assms(1)
      by (intro mult_right_mono) (auto simp: of_int_le_iff simp del: of_int_mult)
    with on_grid show ?thesis by (simp only:)
  qed
  show "of_int n \<le> r" if "of_int n \<le> q"
  proof -
    have "of_int (n * m) \<le> q / u" using that assms(1) grid divide_right_mono [of "of_int n" q u] by simp
    then have "n * m \<le> round_half_even (q / u)" by (rule round_half_even_ge)
    then have "of_int (n * m) * u \<le> r" unfolding r_def using assms(1)
      by (intro mult_right_mono) (auto simp: of_int_le_iff simp del: of_int_mult)
    with on_grid show ?thesis by (simp only:)
  qed
qed

lemma f64_round_near:
  assumes "0 < q" "q < 2 ^ 43"
  obtains r where "f64_round q = Some r" "\<bar>r - q\<bar> \<le> 1 / 2048"
    "\<And>n. q \<le> of_int n \<Longrightarrow> r \<le> of_int n" "\<And>n. of_int n \<le> q \<Longrightarrow> of_int n \<le> r"
proof -
  define e where "e = max (exponent q) (- 1022) - 52"
  define u where "u = pow2 e"
  define r where "r = of_int (round_half_even (q / u)) * u"
  have "pow2 (exponent q) < pow2 43" using pow2_exponent [OF assms(1)] assms(2) by (simp add: pow2_nonneg)
  then have "exponent q < 43" using pow2_le_iff [of 43 "exponent q"] by simp
  then have e: "e \<le> - 10" by (simp add: e_def)
  have u: "0 < u" by (simp add: u_def)
  have "u \<le> pow2 (- 10)" unfolding u_def using e by (simp add: pow2_le_iff)
  then have u10: "u \<le> 1 / 1024" by (simp add: pow2_def)
  have inv: "1 / u = of_int (2 ^ nat (- e))" using e by (simp add: u_def pow2_def)
  note r = grid_round [OF u inv, where q = q, folded r_def]
  have "q < 8796093022208" using assms(2) by simp
  with r(1) u10 assms(1) have "\<bar>r\<bar> < 17592186044416" by linarith
  also have "\<dots> = (2::rat) ^ 44" by simp
  also have "\<dots> < (2::rat) ^ 1024" by (intro power_strict_increasing) auto
  finally have "f64_round q = Some r"
    using assms(1) by (simp add: f64_round_def Let_def r_def u_def e_def del: power_numeral)
  moreover have "\<bar>r - q\<bar> \<le> 1 / 2048" using r(1) u10 by linarith
  ultimately show ?thesis using that r(2,3) by blast
qed

section \<open>Seconds, rounded up\<close>

text \<open>The whole seconds of a number of milliseconds and what is left, both exact as doubles.\<close>

lemma seconds_parts:
  assumes "0 \<le> ms" "ms < 2 ^ 52"
  shows "go_div (ms * millisecond) second = ms div 1000"
    "go_mod (ms * millisecond) second = millisecond * (ms mod 1000)"
    "f64_of_int (ms div 1000) = Some (of_int (ms div 1000))"
    "f64_of_int (millisecond * (ms mod 1000)) = Some (of_int (millisecond * (ms mod 1000)))"
proof -
  let ?s = "ms div 1000" and ?k = "ms mod 1000"
  have ms: "ms = 1000 * ?s + ?k" by simp
  have d: "ms * millisecond = second * ?s + millisecond * ?k"
    unfolding millisecond_def second_def using ms by linarith
  have k: "0 \<le> ?k" "?k < 1000" "0 \<le> millisecond * ?k" "millisecond * ?k < second"
    by (simp_all add: millisecond_def second_def)
  have s: "0 \<le> ?s" "?s < 2 ^ 43 - 1" using assms by auto
  have "0 \<le> ms * millisecond" using assms by (simp add: millisecond_def)
  moreover have "(second * ?s + millisecond * ?k) div second = ?s"
    using k(3,4) by (simp add: div_mult_self4 second_def)
  ultimately show dv: "go_div (ms * millisecond) second = ?s"
    by (simp add: go_div_nonneg second_def d)
  show "go_mod (ms * millisecond) second = millisecond * ?k"
    unfolding go_mod_def dv by (simp add: d)
  show "f64_of_int ?s = Some (of_int ?s)" using s by (intro f64_of_int_small) auto
  show "f64_of_int (millisecond * ?k) = Some (of_int (millisecond * ?k))"
    using k by (intro f64_of_int_small) (auto simp: second_def)
qed

lemma ceil_seconds:
  assumes "0 \<le> ms" "ms < 2 ^ 52"
  shows "ceil_int (duration_seconds (ms * millisecond)) = (if ms mod 1000 = 0 then ms div 1000 else ms div 1000 + 1)"
proof -
  let ?s = "ms div 1000" and ?k = "ms mod 1000"
  note parts = seconds_parts [OF assms]
  have k: "0 \<le> ?k" "?k < 1000" by simp_all
  have s: "0 \<le> ?s" "?s < 2 ^ 43 - 1" using assms by auto
  show ?thesis
  proof (cases "?k = 0")
    case True
    have "f64_round (of_int ?s) = Some (of_int ?s)" using parts(3) by (simp add: f64_of_int_def)
    moreover have "int64_range ?s" using s by (simp add: int64_range_def)
    ultimately show ?thesis
      using True parts s(1) by (simp add: duration_seconds_def f64_of_int_def f64_div_def f64_round_def [of 0]
        f64_add_def ceil_int_def f64_to_int64_def)
  next
    case False
    define x where "x = (of_int (millisecond * ?k) :: rat) / 1000000000"
    have x: "1 / 1000 \<le> x" "x \<le> 1" using False k by (auto simp: x_def millisecond_def field_simps)
    obtain r where r: "f64_round x = Some r" "\<bar>r - x\<bar> \<le> 1 / 2048" "\<And>n. x \<le> of_int n \<Longrightarrow> r \<le> of_int n"
      by (rule f64_round_near [of x]) (use x in auto)
    have r1: "r \<le> 1" using r(3) [of 1] x(2) by simp
    have r0: "1 / 1000 - 1 / 2048 \<le> r" using r(2) x(1) by linarith
    define y where "y = of_int ?s + r"
    have y: "0 < y" "y < 2 ^ 43" using s r0 r1 by (auto simp: y_def)
    obtain z where z: "f64_round y = Some z" "\<bar>z - y\<bar> \<le> 1 / 2048" "\<And>n. y \<le> of_int n \<Longrightarrow> z \<le> of_int n"
      by (rule f64_round_near [OF y]) auto
    have "z \<le> of_int (?s + 1)" using z(3) [of "?s + 1"] r1 by (simp add: y_def)
    moreover have "of_int ?s < z" using z(2) r0 unfolding y_def by linarith
    ultimately have ceil: "\<lceil>z\<rceil> = ?s + 1" by (intro ceiling_unique) auto
    have "duration_seconds (ms * millisecond) = Some z"
      using parts r(1) z(1) by (simp add: duration_seconds_def f64_div_def f64_add_def x_def y_def)
    moreover have "int64_range (?s + 1)" using s by (simp add: int64_range_def)
    ultimately show ?thesis using False ceil s(1) by (simp add: ceil_int_def f64_to_int64_def)
  qed
qed

lemma ceil_seconds_covers:
  assumes "0 \<le> ms" "ms < 2 ^ 52"
  shows "ms * millisecond \<le> ceil_int (duration_seconds (ms * millisecond)) * second"
    "(ceil_int (duration_seconds (ms * millisecond)) - 1) * second < ms * millisecond"
proof -
  define c where "c = (if ms mod 1000 = 0 then ms div 1000 else ms div 1000 + 1)"
  have m: "ms = 1000 * (ms div 1000) + ms mod 1000" "0 \<le> ms mod 1000" "ms mod 1000 < 1000" by simp_all
  have "ms * 1000000 \<le> c * 1000000000 \<and> (c - 1) * 1000000000 < ms * 1000000"
  proof (cases "ms mod 1000 = 0")
    case True
    then have "c = ms div 1000" by (simp add: c_def)
    with True m(1) have "ms = 1000 * c" by linarith
    then show ?thesis by simp
  next
    case False
    then have "c = ms div 1000 + 1" by (simp add: c_def)
    with False m have "ms \<le> 1000 * c" "1000 * c - 1000 < ms" by linarith+
    then show ?thesis by (simp add: algebra_simps)
  qed
  then show "ms * millisecond \<le> ceil_int (duration_seconds (ms * millisecond)) * second"
    "(ceil_int (duration_seconds (ms * millisecond)) - 1) * second < ms * millisecond"
    unfolding ceil_seconds [OF assms, folded c_def] by (simp_all add: millisecond_def second_def)
qed

end
