(* ===== verification/Rate_Limit.thy ===== *)
theory Rate_Limit
  imports Middleware Rate_Limiter Seconds
begin

text \<open>
  The provider of the plan limits, \<open>infrastructure/ratelimit/provider.go\<close>, and the gin middleware
  that applies them, \<open>infrastructure/middleware/rate_limit.go\<close>.

  The provider's operations are functions of its state; what the fetch gives, the clock, and
  whether another goroutine holds the refresh lock are arguments. The middleware's limiter and
  provider are functions: the decision they come to for this request.
\<close>

section \<open>The refreshing provider\<close>

type_synonym matrix = "string \<rightharpoonup> (string \<rightharpoonup> rule)"

record provider =
  pr_ttl :: duration
  pr_matrix :: matrix
  pr_fetched_at :: time

text \<open>A fetch gives \<open>None\<close> if it fails or returns nil; \<open>now\<close> is the clock after it.\<close>

definition refresh_limits :: "bool \<Rightarrow> matrix option \<Rightarrow> time \<Rightarrow> provider \<Rightarrow> provider" where
  "refresh_limits busy fetched now p =
     (if busy then p
      else case fetched of
             None \<Rightarrow> if pr_fetched_at p = zero_time then p\<lparr>pr_fetched_at := now\<rparr> else p
           | Some m \<Rightarrow> p\<lparr>pr_matrix := m, pr_fetched_at := now\<rparr>)"

definition new_refreshing_provider :: "duration \<Rightarrow> matrix option \<Rightarrow> time \<Rightarrow> provider" where
  "new_refreshing_provider ttl fetched now =
     refresh_limits False fetched now \<lparr>pr_ttl = ttl, pr_matrix = Map.empty, pr_fetched_at = zero_time\<rparr>"

definition stale :: "time \<Rightarrow> provider \<Rightarrow> bool" where
  "stale now p \<longleftrightarrow> time_sub now (pr_fetched_at p) \<ge> pr_ttl p"

definition maybe_refresh :: "bool \<Rightarrow> matrix option \<Rightarrow> time \<Rightarrow> provider \<Rightarrow> provider" where
  "maybe_refresh busy fetched now p = (if stale now p then refresh_limits busy fetched now p else p)"

definition rule_for ::
  "bool \<Rightarrow> matrix option \<Rightarrow> time \<Rightarrow> string \<Rightarrow> string \<Rightarrow> provider \<Rightarrow> rule option \<times> provider" where
  "rule_for busy fetched now tier feature p =
     (let p = maybe_refresh busy fetched now p
      in (case pr_matrix p tier of None \<Rightarrow> None | Some by_feature \<Rightarrow> by_feature feature, p))"

section \<open>The middleware\<close>

definition PlanTierFree :: string where "PlanTierFree = ''FREE''"

record rate_limit_config =
  rc_limiter :: "(string \<Rightarrow> rule \<Rightarrow> decision option) option"
  rc_provider :: "(string \<Rightarrow> string \<Rightarrow> rule option) option"
  rc_feature :: string
  rc_key_prefix :: string
  rc_fail_closed :: bool
  rc_observe_only :: bool
  rc_on_backend_unavailable :: bool
  rc_on_limit_exceeded :: bool

text \<open>A decoded JSON object keeps the last value of a repeated key.\<close>

definition plan_tier_from_context :: "gin_ctx \<Rightarrow> string" where
  "plan_tier_from_context c =
     (case claims_from_context c of
        None \<Rightarrow> PlanTierFree
      | Some claims \<Rightarrow>
          (case claims ''plan'' of
             Some (JObj plan) \<Rightarrow>
               (case map_of (rev plan) ''tier'' of
                  Some (JStr tier) \<Rightarrow> if tier = [] then PlanTierFree else tier
                | _ \<Rightarrow> PlanTierFree)
           | _ \<Rightarrow> PlanTierFree))"

definition limit_key :: "rate_limit_config \<Rightarrow> string \<Rightarrow> string" where
  "limit_key cfg tenant_id =
     (if rc_key_prefix cfg = [] then ''ratelimit:'' @ tenant_id @ '':'' @ rc_feature cfg
      else rc_key_prefix cfg @ '':'' @ tenant_id @ '':ratelimit:'' @ rc_feature cfg)"

definition set_rate_limit_headers :: "decision \<Rightarrow> gin_handler" where
  "set_rate_limit_headers d c =
     (let c = ctx_header ''RateLimit-Limit'' (itoa (de_limit d)) c;
          c = ctx_header ''RateLimit-Remaining'' (itoa (de_remaining d)) c;
          reset = ceil_int (duration_seconds (de_reset_after d));
          reset = (if reset < 0 then 0 else reset)
      in ctx_header ''RateLimit-Reset'' (itoa reset) c)"

definition retry_seconds :: "decision \<Rightarrow> int" where
  "retry_seconds d =
     (let retry = ceil_int (duration_seconds (de_retry_after d)) in if retry < 1 then 1 else retry)"

definition rate_limit :: "rate_limit_config \<Rightarrow> gin_handler" where
  "rate_limit cfg c =
     (case (rc_limiter cfg, rc_provider cfg) of
        (Some limiter, Some provider) \<Rightarrow>
          if rc_feature cfg = [] then c
          else
          let tenant_id = get_string c ''tenant_id'' in
          if tenant_id = [] then c
          else (case provider (plan_tier_from_context c) (rc_feature cfg) of
            None \<Rightarrow> c
          | Some r \<Rightarrow>
              (case limiter (limit_key cfg tenant_id) r of
                 None \<Rightarrow>
                   let c = call_if (rc_on_backend_unavailable cfg) OnBackendUnavailable c
                   in if rc_fail_closed cfg then ctx_abort 503 ''rate limiter unavailable'' c else c
               | Some d \<Rightarrow>
                   let c = set_rate_limit_headers d c
                   in if de_allowed d then c
                      else
                      let c = call_if (rc_on_limit_exceeded cfg) (OnLimitExceeded (rc_feature cfg)) c
                      in if rc_observe_only cfg then c
                         else ctx_abort 429 ''rate limit exceeded''
                                (ctx_header ''Retry-After'' (itoa (retry_seconds d)) c)))
      | _ \<Rightarrow> c)"

section \<open>The provider\<close>

definition limit_in :: "matrix \<Rightarrow> string \<Rightarrow> string \<Rightarrow> rule option" where
  "limit_in m tier feature = (case m tier of None \<Rightarrow> None | Some by_feature \<Rightarrow> by_feature feature)"

text \<open>A sequence of lookups: what each finds when it fetches, whether the refresh lock is taken, and
  the clock.\<close>

type_synonym lookup = "bool \<times> matrix option \<times> time \<times> string \<times> string"

fun lookups :: "lookup list \<Rightarrow> provider \<Rightarrow> rule option list \<times> provider" where
  "lookups [] p = ([], p)"
| "lookups ((busy, fetched, now, tier, feature) # ls) p =
     (case rule_for busy fetched now tier feature p of
        (r, p) \<Rightarrow> (case lookups ls p of (rs, p) \<Rightarrow> (r # rs, p)))"

lemma rule_for_cases:
  assumes "rule_for busy fetched now tier feature p = (r, p')"
  shows "r = limit_in (pr_matrix p') tier feature \<and> pr_ttl p' = pr_ttl p \<and>
    (if \<not> busy \<and> stale now p \<and> fetched \<noteq> None
     then pr_matrix p' = the fetched \<and> pr_fetched_at p' = now
     else pr_matrix p' = pr_matrix p \<and> (pr_fetched_at p \<noteq> zero_time \<longrightarrow> p' = p))"
  using assms
  by (auto simp: rule_for_def maybe_refresh_def refresh_limits_def Let_def limit_in_def split: option.splits if_splits)

text \<open>C40: An outage of iam loses no limit. While every fetch fails, and whoever else refreshes, all
  lookups answer from the matrix last fetched; its age is no longer bounded, and since the time
  of the last fetch does not move, every lookup after the expiry fetches again. Once a fetch
  that is not held up succeeds, the answer is from the new matrix; in between, a matrix younger
  than the time to live is not fetched again.\<close>

theorem outage_keeps_limits:
  assumes "\<forall>(busy, fetched, now, tier, feature) \<in> set ls. fetched = None" "pr_fetched_at p \<noteq> zero_time"
    and "lookups ls p = (rs, p1)" "rule_for False (Some m) now tier feature p1 = (r, p2)"
  shows "rs = map (\<lambda>(busy, fetched, now, tier, feature). limit_in (pr_matrix p) tier feature) ls \<and> p1 = p \<and>
    r = limit_in (if stale now p then m else pr_matrix p) tier feature \<and>
    time_sub now (pr_fetched_at p2) < max 1 (pr_ttl p)"
proof -
  have "rs = map (\<lambda>(busy, fetched, now, tier, feature). limit_in (pr_matrix p) tier feature) ls \<and> p1 = p"
    using assms(1,3)
  proof (induction ls arbitrary: rs)
    case (Cons l ls)
    obtain busy fetched now tier feature where l: "l = (busy, fetched, now, tier, feature)" by (metis prod_cases5)
    have none: "fetched = None" using Cons.prems(1) l by simp
    obtain r' p' where run: "rule_for busy fetched now tier feature p = (r', p')" by fastforce
    from rule_for_cases [OF run] none assms(2) have p': "p' = p" "r' = limit_in (pr_matrix p) tier feature" by auto
    obtain rs' q where rest: "lookups ls p = (rs', q)" by fastforce
    have "rs = r' # rs'" "p1 = q" using Cons.prems(2) run rest p' by (simp_all add: l)
    with Cons.IH [of rs'] Cons.prems(1) rest p' show ?case by (simp add: l)
  qed simp
  moreover from this rule_for_cases [OF assms(4)] assms(2)
  have "r = limit_in (if stale now p then m else pr_matrix p) tier feature"
    "time_sub now (pr_fetched_at p2) < max 1 (pr_ttl p)"
    by (auto simp: stale_def time_sub_def split: if_splits)
  ultimately show ?thesis by blast
qed

theorem outage_keeps_limits_witness:
  "\<exists>m r p2. rule_for False (Some m) 100 ''PRO'' ''ai'' \<lparr>pr_ttl = 10, pr_matrix = Map.empty, pr_fetched_at = 1\<rparr> = (r, p2) \<and>
     r = limit_in m ''PRO'' ''ai'' \<and> r \<noteq> None"
proof -
  let ?r = "\<lparr>ru_algorithm = AlgoGCRA, ru_limit = 10, ru_window = second, ru_burst = 1\<rparr>"
  let ?m = "[''PRO'' \<mapsto> [''ai'' \<mapsto> ?r]]"
  let ?p = "\<lparr>pr_ttl = 10, pr_matrix = Map.empty, pr_fetched_at = 1\<rparr>"
  obtain r p2 where run: "rule_for False (Some ?m) 100 ''PRO'' ''ai'' ?p = (r, p2)" by fastforce
  have "\<forall>(busy, fetched, now, tier, feature) \<in> set []. fetched = None" "pr_fetched_at ?p \<noteq> zero_time"
    "lookups [] ?p = ([], ?p)" by (simp_all add: zero_time_def)
  from outage_keeps_limits [OF this run] have "r = limit_in (if stale 100 ?p then ?m else Map.empty) ''PRO'' ''ai''" by simp
  moreover have "stale 100 ?p" by (simp add: stale_def time_sub_def)
  ultimately show ?thesis using run by (intro exI [of _ ?m] exI [of _ r] exI [of _ p2]) (simp add: limit_in_def)
qed

section \<open>The middleware\<close>

text \<open>The limit that applies to a request: \<open>None\<close> if there is none, otherwise what the limiter says.\<close>

definition limit_decision :: "rate_limit_config \<Rightarrow> gin_ctx \<Rightarrow> decision option option" where
  "limit_decision cfg c =
     (case (rc_limiter cfg, rc_provider cfg) of
        (Some limiter, Some provider) \<Rightarrow>
          if rc_feature cfg = [] \<or> get_string c ''tenant_id'' = [] then None
          else map_option (limiter (limit_key cfg (get_string c ''tenant_id'')))
                 (provider (plan_tier_from_context c) (rc_feature cfg))
      | _ \<Rightarrow> None)"

lemma abort_simps [simp]:
  "gc_abort (ctx_header k v c) = gc_abort c" "gc_abort (call_if b e c) = gc_abort c"
  "gc_abort (set_rate_limit_headers d c) = gc_abort c" "gc_abort (ctx_abort code body c) = Some (code, body)"
  by (simp_all add: ctx_defs call_if_def set_rate_limit_headers_def Let_def)

lemma header_simps [simp]:
  "gc_headers (ctx_header k v c) = (gc_headers c)(k \<mapsto> v)" "gc_headers (call_if b e c) = gc_headers c"
  "gc_headers (ctx_abort code body c) = gc_headers c"
  by (simp_all add: ctx_defs call_if_def)

lemma rate_limit_result:
  "rate_limit cfg c =
     (case limit_decision cfg c of
        None \<Rightarrow> c
      | Some None \<Rightarrow>
          let c = call_if (rc_on_backend_unavailable cfg) OnBackendUnavailable c
          in if rc_fail_closed cfg then ctx_abort 503 ''rate limiter unavailable'' c else c
      | Some (Some d) \<Rightarrow>
          let c = set_rate_limit_headers d c
          in if de_allowed d then c
             else let c = call_if (rc_on_limit_exceeded cfg) (OnLimitExceeded (rc_feature cfg)) c
                  in if rc_observe_only cfg then c
                     else ctx_abort 429 ''rate limit exceeded'' (ctx_header ''Retry-After'' (itoa (retry_seconds d)) c))"
  by (auto simp: rate_limit_def limit_decision_def Let_def split: option.splits)

lemma retry_covers:
  assumes "de_retry_after d = ms * millisecond" "0 \<le> ms" "ms < 2 ^ 52"
  shows "1 \<le> retry_seconds d" "ms * millisecond \<le> retry_seconds d * second"
    "0 < ms \<Longrightarrow> (retry_seconds d - 1) * second < ms * millisecond" "int64_range (retry_seconds d)"
proof -
  note c = ceil_seconds_covers [OF assms(2,3)] ceil_seconds [OF assms(2,3)]
  have nn: "0 \<le> ms * millisecond" using assms(2) by (simp add: millisecond_def)
  show "1 \<le> retry_seconds d" by (simp add: retry_seconds_def Let_def)
  show "ms * millisecond \<le> retry_seconds d * second"
    using c(1) nn by (auto simp: retry_seconds_def Let_def assms(1) second_def)
  show "(retry_seconds d - 1) * second < ms * millisecond" if "0 < ms"
    using c(2) that by (auto simp: retry_seconds_def Let_def assms(1) second_def millisecond_def)
  show "int64_range (retry_seconds d)"
    using c(3) assms(2,3) by (auto simp: retry_seconds_def Let_def assms(1) int64_range_def)
qed

text \<open>The headers and the callbacks of a request under a limit, as the configuration and the decision
  ask for them.\<close>

definition seconds_up :: "duration \<Rightarrow> int" where
  "seconds_up d = max 0 (ceil_int (duration_seconds d))"

lemma seconds_up_covers:
  assumes "d = ms * millisecond" "0 \<le> ms" "ms < 2 ^ 52"
  shows "atoi (itoa (seconds_up d)) = Some (seconds_up d) \<and> d \<le> seconds_up d * second \<and>
    (0 < d \<longrightarrow> (seconds_up d - 1) * second < d)"
proof -
  note c = ceil_seconds_covers [OF assms(2,3)] ceil_seconds [OF assms(2,3)]
  have "0 < d \<Longrightarrow> 0 < ms" using assms(1,2) by (simp add: millisecond_def zero_less_mult_iff)
  moreover have "int64_range (seconds_up d)"
    using c(3) assms(2,3) by (auto simp: seconds_up_def assms(1) int64_range_def)
  moreover have "d \<le> seconds_up d * second"
    using c(1) assms(2) by (auto simp: seconds_up_def assms(1) second_def millisecond_def max_def)
  ultimately show ?thesis
    using c(2) by (auto simp: seconds_up_def assms(1) second_def millisecond_def max_def atoi_itoa)
qed

definition limit_headers :: "decision \<Rightarrow> bool \<Rightarrow> string \<rightharpoonup> string" where
  "limit_headers d refused =
     [''RateLimit-Limit'' \<mapsto> itoa (de_limit d), ''RateLimit-Remaining'' \<mapsto> itoa (de_remaining d),
      ''RateLimit-Reset'' \<mapsto> itoa (seconds_up (de_reset_after d))] ++
     (if refused then [''Retry-After'' \<mapsto> itoa (max 1 (seconds_up (de_retry_after d)))] else Map.empty)"

lemma rate_limit_headers:
  "gc_headers (set_rate_limit_headers d c) = gc_headers c ++ limit_headers d False"
  "(h ++ limit_headers d False)(''Retry-After'' \<mapsto> itoa (retry_seconds d)) = h ++ limit_headers d True"
proof -
  have "retry_seconds d = max 1 (seconds_up (de_retry_after d))"
    by (simp add: retry_seconds_def seconds_up_def Let_def)
  moreover have "(let r = ceil_int (duration_seconds (de_reset_after d)) in if r < 0 then 0 else r) =
      seconds_up (de_reset_after d)" by (simp add: seconds_up_def Let_def)
  ultimately show "gc_headers (set_rate_limit_headers d c) = gc_headers c ++ limit_headers d False"
    "(h ++ limit_headers d False)(''Retry-After'' \<mapsto> itoa (retry_seconds d)) = h ++ limit_headers d True"
    by (simp_all add: set_rate_limit_headers_def limit_headers_def Let_def)
qed

lemma rate_limit_events [simp]:
  "gc_events (set_rate_limit_headers d c) = gc_events c" "gc_events (ctx_abort code body c) = gc_events c"
  "gc_events (ctx_header k v c) = gc_events c"
  "gc_events (call_if b e c) = gc_events c @ (if b then [e] else [])"
  "gc_keys (set_rate_limit_headers d c) = gc_keys c" "gc_keys (ctx_abort code body c) = gc_keys c"
  "gc_keys (ctx_header k v c) = gc_keys c" "gc_keys (call_if b e c) = gc_keys c"
  by (simp_all add: ctx_defs call_if_def set_rate_limit_headers_def Let_def)

text \<open>C29: The middleware decides as configured, on every branch, and says so. A request passes untouched
  when no limit applies. When the backend fails it passes, or is refused with 503 if configured to
  fail closed; no header is set and the callback for it runs if there is one. Otherwise it gets the
  three \<open>RateLimit\<close> headers of the decision; it passes exactly when the limiter admits it or the
  middleware only observes, and is else refused with 429 and a \<open>Retry-After\<close>; no other header
  changes, and the callback for an exceeded limit runs exactly when the limiter refused. The seconds
  in \<open>RateLimit-Reset\<close> and \<open>Retry-After\<close> read back as the least number that covers the duration, for
  \<open>Retry-After\<close> at least one, if the duration is one of whole milliseconds, as the waits of the limiter are.\<close>

theorem rate_limit_decides:
  assumes "gc_abort c = None"
  shows "case limit_decision cfg c of
      None \<Rightarrow> rate_limit cfg c = c
    | Some None \<Rightarrow> gc_headers (rate_limit cfg c) = gc_headers c \<and> gc_keys (rate_limit cfg c) = gc_keys c \<and>
        gc_events (rate_limit cfg c) =
          gc_events c @ (if rc_on_backend_unavailable cfg then [OnBackendUnavailable] else []) \<and>
        gc_abort (rate_limit cfg c) =
          (if rc_fail_closed cfg then Some (503, ''rate limiter unavailable'') else None)
    | Some (Some d) \<Rightarrow>
        (let refused = (\<not> de_allowed d \<and> \<not> rc_observe_only cfg) in
         gc_abort (rate_limit cfg c) = (if refused then Some (429, ''rate limit exceeded'') else None) \<and>
         gc_headers (rate_limit cfg c) = gc_headers c ++ limit_headers d refused \<and>
         gc_keys (rate_limit cfg c) = gc_keys c \<and>
         gc_events (rate_limit cfg c) =
           gc_events c @ (if \<not> de_allowed d \<and> rc_on_limit_exceeded cfg then [OnLimitExceeded (rc_feature cfg)] else [])) \<and>
        (\<forall>ms. de_retry_after d = ms * millisecond \<and> 0 \<le> ms \<and> ms < 2 ^ 52 \<longrightarrow>
           (\<exists>n. atoi (the (limit_headers d True ''Retry-After'')) = Some n \<and> 1 \<le> n \<and>
              de_retry_after d \<le> n * second \<and> (0 < de_retry_after d \<longrightarrow> (n - 1) * second < de_retry_after d))) \<and>
        (\<forall>ms. de_reset_after d = ms * millisecond \<and> 0 \<le> ms \<and> ms < 2 ^ 52 \<longrightarrow>
           (\<exists>n. atoi (the (limit_headers d True ''RateLimit-Reset'')) = Some n \<and>
              de_reset_after d \<le> n * second \<and> (0 < de_reset_after d \<longrightarrow> (n - 1) * second < de_reset_after d)))"
proof (cases "limit_decision cfg c")
  case None
  then show ?thesis by (simp add: rate_limit_result)
next
  case (Some q)
  show ?thesis
  proof (cases q)
    case None
    with Some show ?thesis by (simp add: rate_limit_result assms Let_def)
  next
    case d: (Some d)
    have "\<exists>n. atoi (the (limit_headers d True ''Retry-After'')) = Some n \<and> 1 \<le> n \<and>
        de_retry_after d \<le> n * second \<and> (0 < de_retry_after d \<longrightarrow> (n - 1) * second < de_retry_after d)"
      if ms: "de_retry_after d = ms * millisecond" "0 \<le> ms" "ms < 2 ^ 52" for ms
    proof (cases "seconds_up (de_retry_after d) = 0")
      case True
      with seconds_up_covers [OF ms] ms(1,2) show ?thesis
        by (intro exI [of _ 1]) (auto simp: limit_headers_def atoi_itoa int64_range_def millisecond_def second_def)
    next
      case False
      then have "max 1 (seconds_up (de_retry_after d)) = seconds_up (de_retry_after d)"
        by (auto simp: seconds_up_def)
      with seconds_up_covers [OF ms] show ?thesis
        by (intro exI [of _ "seconds_up (de_retry_after d)"]) (auto simp: limit_headers_def)
    qed
    moreover have "\<exists>n. atoi (the (limit_headers d True ''RateLimit-Reset'')) = Some n \<and>
        de_reset_after d \<le> n * second \<and> (0 < de_reset_after d \<longrightarrow> (n - 1) * second < de_reset_after d)"
      if ms: "de_reset_after d = ms * millisecond" "0 \<le> ms" "ms < 2 ^ 52" for ms
      using seconds_up_covers [OF ms] by (auto simp: limit_headers_def)
    moreover have "(let refused = (\<not> de_allowed d \<and> \<not> rc_observe_only cfg) in
        gc_abort (rate_limit cfg c) = (if refused then Some (429, ''rate limit exceeded'') else None) \<and>
        gc_headers (rate_limit cfg c) = gc_headers c ++ limit_headers d refused \<and>
        gc_keys (rate_limit cfg c) = gc_keys c \<and>
        gc_events (rate_limit cfg c) =
          gc_events c @ (if \<not> de_allowed d \<and> rc_on_limit_exceeded cfg then [OnLimitExceeded (rc_feature cfg)] else []))"
      unfolding rate_limit_result Some d option.case Let_def
      using assms by (auto simp: rate_limit_headers)
    ultimately show ?thesis using Some d by auto
  qed
qed

definition demo_limits :: "decision option \<Rightarrow> rate_limit_config" where
  "demo_limits d =
     \<lparr>rc_limiter = Some (\<lambda>key r. d), rc_provider = Some (\<lambda>tier feature. Some
        \<lparr>ru_algorithm = AlgoGCRA, ru_limit = 10, ru_window = second, ru_burst = 1\<rparr>),
      rc_feature = ''ai'', rc_key_prefix = ''mc'', rc_fail_closed = False, rc_observe_only = False,
      rc_on_backend_unavailable = False, rc_on_limit_exceeded = False\<rparr>"

definition demo_refusal :: decision where
  "demo_refusal = \<lparr>de_allowed = False, de_limit = 10, de_remaining = 0, de_retry_after = 1500 * millisecond,
     de_reset_after = second\<rparr>"

definition demo_tenant_ctx :: gin_ctx where
  "demo_tenant_ctx = (fresh_ctx \<lparr>rq_headers = Map.empty, rq_path = [], rq_full_path = [], rq_client_ip = []\<rparr>)
     \<lparr>gc_keys := [''tenant_id'' \<mapsto> CStr ''t1'']\<rparr>"

theorem rate_limit_decides_witness:
  "gc_abort (rate_limit (demo_limits (Some demo_refusal)) demo_tenant_ctx) = Some (429, ''rate limit exceeded'') \<and>
   gc_headers (rate_limit (demo_limits (Some demo_refusal)) demo_tenant_ctx) = Map.empty ++ limit_headers demo_refusal True \<and>
   (\<exists>n. atoi (the (limit_headers demo_refusal True ''Retry-After'')) = Some n \<and> 1500 * millisecond \<le> n * second)"
proof -
  let ?cfg = "demo_limits (Some demo_refusal)"
  have d: "limit_decision ?cfg demo_tenant_ctx = Some (Some demo_refusal)"
    by (simp add: limit_decision_def demo_limits_def demo_tenant_ctx_def get_string_def)
  have c: "gc_abort demo_tenant_ctx = None" "gc_headers demo_tenant_ctx = Map.empty"
    by (simp_all add: demo_tenant_ctx_def fresh_ctx_def)
  have "\<not> de_allowed demo_refusal" "\<not> rc_observe_only ?cfg" "de_retry_after demo_refusal = 1500 * millisecond"
    by (simp_all add: demo_refusal_def demo_limits_def)
  with rate_limit_decides [where cfg = ?cfg, OF c(1)] d c(2) show ?thesis
    by (auto simp: Let_def)
qed

section \<open>Behind TenantValidation\<close>

lemma leave_user_keys:
  "str_claim m ''tenant_id'' \<noteq> [] \<Longrightarrow>
   get_string (leave_user m c) ''tenant_id'' = str_claim m ''tenant_id'' \<and>
   claims_from_context (leave_user m c) = Some m"
  by (auto simp: leave_user_def Let_def ctx_set_def get_string_def claims_from_context_def)

definition plan_tier :: "map_claims \<Rightarrow> string" where
  "plan_tier m =
     (case m ''plan'' of
        Some (JObj plan) \<Rightarrow>
          (case map_of (rev plan) ''tier'' of
             Some (JStr tier) \<Rightarrow> if tier = [] then PlanTierFree else tier
           | _ \<Rightarrow> PlanTierFree)
      | _ \<Rightarrow> PlanTierFree)"

text \<open>Behind \<open>TenantValidation\<close> a request is charged to the tenant that its verified token names, under
  the rule of the plan tier that the same token names, or the free tier: whatever the request's
  headers say, no request spends the budget of another tenant.\<close>

theorem rate_limit_charges_signed_tenant:
  assumes "c = tenant_validation_handler L now ring cfg (fresh_ctx rq)" "gc_abort c = None"
    and "limit_decision rcfg c = Some q"
  shows "\<exists>m limiter provider r. user_token L now ring False (fresh_ctx rq) m \<and> str_claim m ''tenant_id'' \<noteq> [] \<and>
    rc_limiter rcfg = Some limiter \<and> rc_provider rcfg = Some provider \<and>
    provider (plan_tier m) (rc_feature rcfg) = Some r \<and>
    q = limiter (limit_key rcfg (str_claim m ''tenant_id'')) r"
proof -
  from assms(3) have tenant: "get_string c ''tenant_id'' \<noteq> []"
    by (auto simp: limit_decision_def split: option.splits if_splits)
  have "\<exists>m. user_token L now ring False (fresh_ctx rq) m \<and> c = leave_user m (fresh_ctx rq)"
  proof -
    have "c \<noteq> fresh_ctx rq" using tenant by (auto simp: get_string_def fresh_ctx_def)
    with tenant_validation_cases [of L now ring cfg "fresh_ctx rq"] assms(1,2) show ?thesis
      by (auto simp: Let_def split: if_splits)
  qed
  then obtain m where m: "user_token L now ring False (fresh_ctx rq) m" "c = leave_user m (fresh_ctx rq)" by blast
  have named: "str_claim m ''tenant_id'' \<noteq> []"
    using tenant m(2) by (auto simp: leave_user_def get_string_def fresh_ctx_def)
  from leave_user_keys [OF this, of "fresh_ctx rq"] m(2)
  have keys: "get_string c ''tenant_id'' = str_claim m ''tenant_id''" "plan_tier_from_context c = plan_tier m"
    by (simp_all add: plan_tier_from_context_def plan_tier_def)
  from assms(3) show ?thesis
    using m(1) named by (auto simp: limit_decision_def keys split: option.splits if_splits)
qed

theorem rate_limit_charges_signed_tenant_witness:
  "\<exists>m limiter r. user_token (sample_both_lib ts) sample_now sample_ring False (fresh_ctx sample_user_request) m \<and>
     rc_limiter (demo_limits None) = Some limiter \<and>
     (None :: decision option) = limiter (limit_key (demo_limits None) (str_claim m ''tenant_id'')) r"
proof -
  let ?c = "tenant_validation_handler (sample_both_lib ts) sample_now sample_ring sample_tenant_config
    (fresh_ctx sample_user_request)"
  have t: "str_claim sample_user ''tenant_id'' = ''t1''" by (simp add: sample_user_def str_claim_def)
  have ab: "gc_abort ?c = None"
    unfolding sample_validation by (simp add: leave_user_def Let_def ctx_set_def fresh_ctx_def)
  have "get_string ?c ''tenant_id'' = ''t1''"
    using leave_user_keys [of sample_user "fresh_ctx sample_user_request"] t by (simp add: sample_validation)
  then have "limit_decision (demo_limits None) ?c = Some None"
    by (simp add: limit_decision_def demo_limits_def)
  from rate_limit_charges_signed_tenant [OF refl ab this] show ?thesis by blast
qed

end
