(* ===== verification/Retry_After.thy ===== *)
theory Retry_After
  imports Rate_Budget Rate_Limit
begin

text \<open>
  The \<open>Retry-After\<close> header of \<open>infrastructure/middleware/rate_limit.go\<close> over the Redis limiter of
  \<open>infrastructure/ratelimit/limiter.go\<close>: the contract of the \<open>Limiter\<close> interface that the header
  rests on, that both scripts keep it, and what a client that waits as it was told can expect.
\<close>

section \<open>What a refusal announces\<close>

lemma fewer_filtered:
  assumes "y \<in> set xs" "Q y" "\<not> P y" "\<And>x. x \<in> set xs \<Longrightarrow> P x \<Longrightarrow> Q x"
  shows "length (filter P xs) < length (filter Q xs)"
proof -
  have "filter P xs = filter P (filter Q xs)" using assms(4) by (auto intro: filter_cong)
  moreover have "y \<in> set (filter Q xs)" using assms(1,2) by simp
  ultimately show ?thesis using assms(3) length_filter_less [of y "filter Q xs" P] by simp
qed

context redis_laws
begin

text \<open>The sliding window announces when its oldest member leaves it.\<close>

lemma sliding_refusal:
  assumes "log_inv w adm t (view s k)" "0 < w" "0 < n"
    and "sliding_window_script rd k t w n x s = (Some (0, rem, retry), s')"
  shows "0 < retry \<and> retry \<le> w \<and> (\<forall>u \<ge> t + retry.
    length (filter (\<lambda>a. u - w < a) (map fst adm)) < length (filter (\<lambda>a. t - w < a) (map fst adm)))"
proof -
  obtain m where m: "rv_zset (view s k) = Some m" "\<And>a x. (a, x) \<in> set adm \<Longrightarrow> 0 \<le> a \<and> a \<le> t"
    "\<And>x a. m x = Some a \<Longrightarrow> (a, x) \<in> set adm"
    by (rule log_invE [OF assms(1)]) blast
  let ?m = "drop_scores 0 (t - w) m"
  let ?count = "int (length (filter (\<lambda>a. t - w < a) (map fst adm)))"
  note count = log_inv_count [OF assms(1) m(1)]
  obtain s1 where s1: "rd_zremrangebyscore rd k 0 (t - w) s = Some s1" "rv_zset (view s1 k) = Some ?m"
    using zrem_law [OF m(1)] by blast
  have card: "rd_zcard rd k s1 = Some ?count" using zcard_law [OF s1(2)] count(1) by simp
  obtain p where p: "rd_zfirst rd k s1 = Some p"
    "case p of None \<Rightarrow> ?m = Map.empty | Some (x, v) \<Rightarrow> ?m x = Some v \<and> (\<forall>w \<in> ran ?m. v \<le> w)"
    using zfirst_law [OF s1(2)] by blast
  have full: "\<not> ?count < n" using assms(4) s1(1) card by (auto simp: sliding_window_script_def split: option.splits)
  then have "?m \<noteq> Map.empty" using count(1) assms(3) by auto
  with p obtain y v where y: "p = Some (y, v)" "?m y = Some v" by (cases p) auto
  then have v: "t - w < v" "(v, y) \<in> set adm" using m(3) by (auto simp: count(2) split: option.splits if_splits)
  have "v \<le> t" using m(2) [OF v(2)] by simp
  have retry: "retry = v + w - t"
    using assms(4) s1(1) card full p(1) y(1) v(1) by (auto simp: sliding_window_script_def Let_def)
  have "length (filter (\<lambda>a. u - w < a) (map fst adm)) < length (filter (\<lambda>a. t - w < a) (map fst adm))"
    if "t + retry \<le> u" for u
  proof (rule fewer_filtered [of v])
    show "v \<in> set (map fst adm)" using v(2) by force
    show "t - w < v" by (rule v(1))
    show "\<not> u - w < v" using that retry by simp
    show "t - w < a" if "u - w < a" for a using that \<open>t + retry \<le> u\<close> retry v(1) by simp
  qed
  with retry v(1) \<open>v \<le> t\<close> show ?thesis by simp
qed

text \<open>The meter announces when its theoretical arrival time comes into the tolerance.\<close>

lemma gcra_refusal:
  assumes "meter_inv tat t (view s k)" "0 \<le> tol"
    and "gcra_script rd z k t em tol s = (Some (0, rem, retry), s')"
  shows "retry = tat - tol - t \<and> 0 < retry"
proof -
  have "rd_get rd k s = Some None \<and> tat \<le> t \<or> rd_get rd k s = Some (Some tat)"
    using assms(1) get_law [of k s] by (auto simp: meter_inv_def)
  then show ?thesis
    using assms(2,3) by (auto simp: gcra_script_def Let_def split: if_splits option.splits)
qed

end

section \<open>The budget of a key\<close>

text \<open>
  The accounts of a key under a rule: at \<open>t\<close>, the time of the last request, the key holds what a log
  or a meter holds, and from \<open>tf\<close> on it is in budget, up to \<open>over\<close> requests too many. The members of
  a log are the nanoseconds of requests up to \<open>n\<close>, printed by \<open>print\<close>.
\<close>

definition log_budget ::
  "redis_view \<Rightarrow> rule \<Rightarrow> (int \<Rightarrow> string) \<Rightarrow> int \<Rightarrow> int \<Rightarrow> int \<Rightarrow> int \<Rightarrow> bool" where
  "log_budget v r print t n tf over \<longleftrightarrow>
     (\<exists>adm. log_inv (to_millis (ru_window r)) adm t v \<and>
        snd ` set adm \<subseteq> print ` {i. int64_range i \<and> i \<le> n} \<and>
        (\<forall>u \<ge> tf. int (length (filter (\<lambda>a. u - to_millis (ru_window r) < a) (map fst adm))) < ru_limit r + over))"

definition meter_tolerance :: "rule \<Rightarrow> int" where
  "meter_tolerance r = to_millis (wrap64 (ru_burst r * emission_interval r))"

definition meter_budget :: "redis_view \<Rightarrow> rule \<Rightarrow> int \<Rightarrow> int \<Rightarrow> int \<Rightarrow> bool" where
  "meter_budget v r t tf over \<longleftrightarrow>
     (\<exists>tat. meter_inv tat t v \<and> tat \<le> tf + meter_tolerance r + over * to_millis (emission_interval r))"

definition budget ::
  "redis_view \<Rightarrow> rule \<Rightarrow> (int \<Rightarrow> string) \<Rightarrow> int \<Rightarrow> int \<Rightarrow> int \<Rightarrow> int \<Rightarrow> bool" where
  "budget v r print t n tf over \<longleftrightarrow>
     (if ru_algorithm r = AlgoSlidingWindow then log_budget v r print t n tf over
      else meter_budget v r t tf over)"

text \<open>Rules that come out of a plan, with an interval of a millisecond at least.\<close>

definition rule_ok :: "rule \<Rightarrow> bool" where
  "rule_ok r \<longleftrightarrow> 0 < ru_limit r \<and> 0 < ru_window r \<and> int64_range (ru_window r) \<and>
     (ru_algorithm r = AlgoSlidingWindow \<and> 0 < to_millis (ru_window r) \<or>
      ru_algorithm r = AlgoGCRA \<and> 0 < to_millis (emission_interval r) \<and> 0 \<le> meter_tolerance r)"

lemma algorithms_differ [simp]: "AlgoGCRA \<noteq> AlgoSlidingWindow" "AlgoSlidingWindow \<noteq> AlgoGCRA"
  by (simp_all add: AlgoGCRA_def AlgoSlidingWindow_def)

lemma to_millis_bound:
  assumes "0 \<le> d" "d \<le> e" "int64_range e" "ms \<le> to_millis d"
  shows "ms < 2 ^ 52 \<and> ms * millisecond \<le> e"
proof -
  have m: "to_millis d = d div millisecond" using assms(1) by (simp add: to_millis_def go_div_nonneg millisecond_def)
  have "ms * millisecond \<le> d div millisecond * millisecond"
    using assms(4) m by (simp add: millisecond_def)
  also have "\<dots> \<le> d" using assms(1) by (simp add: millisecond_def)
  finally have "ms * millisecond \<le> e" using assms(2) by simp
  with assms(3) show ?thesis by (auto simp: int64_range_def millisecond_def)
qed

lemma rule_ok_interval: "rule_ok r \<Longrightarrow> 0 \<le> emission_interval r \<and> emission_interval r \<le> ru_window r"
  by (auto simp: rule_ok_def emission_interval_def go_div_nonneg pos_imp_zdiv_nonneg_iff
      intro: order_trans [OF zdiv_mono2 [of _ 1]])

lemma budget_logI:
  assumes "ru_algorithm r = AlgoSlidingWindow" "log_inv (to_millis (ru_window r)) adm t v"
    and "snd ` set adm \<subseteq> print ` {i. int64_range i \<and> i \<le> n}"
    and "\<And>u. tf \<le> u \<Longrightarrow>
      int (length (filter (\<lambda>a. u - to_millis (ru_window r) < a) (map fst adm))) < ru_limit r + over"
  shows "budget v r print t n tf over"
  using assms unfolding budget_def log_budget_def by metis

lemma budget_logE:
  assumes "budget v r print t n tf over" "ru_algorithm r = AlgoSlidingWindow"
  obtains adm where "log_inv (to_millis (ru_window r)) adm t v"
    "snd ` set adm \<subseteq> print ` {i. int64_range i \<and> i \<le> n}"
    "\<And>u. tf \<le> u \<Longrightarrow>
      int (length (filter (\<lambda>a. u - to_millis (ru_window r) < a) (map fst adm))) < ru_limit r + over"
  using assms unfolding budget_def log_budget_def by metis

lemma budget_meterI:
  assumes "ru_algorithm r \<noteq> AlgoSlidingWindow" "meter_inv tat t v"
    and "tat \<le> tf + meter_tolerance r + over * to_millis (emission_interval r)"
  shows "budget v r print t n tf over"
  using assms unfolding budget_def meter_budget_def by metis

lemma budget_meterE:
  assumes "budget v r print t n tf over" "ru_algorithm r \<noteq> AlgoSlidingWindow"
  obtains tat where "meter_inv tat t v" "tat \<le> tf + meter_tolerance r + over * to_millis (emission_interval r)"
  using assms unfolding budget_def meter_budget_def by metis

lemma budget_later:
  assumes "budget v r print t0 n0 tf over" "t0 \<le> t" "n0 \<le> n" "tf \<le> tf'"
  shows "budget v r print t n tf' over"
proof (cases "ru_algorithm r = AlgoSlidingWindow")
  case True
  then show ?thesis
  proof (rule budget_logE [OF assms(1)])
    fix adm
    assume adm: "log_inv (to_millis (ru_window r)) adm t0 v" "snd ` set adm \<subseteq> print ` {i. int64_range i \<and> i \<le> n0}"
      and fit: "\<And>u. tf \<le> u \<Longrightarrow>
        int (length (filter (\<lambda>a. u - to_millis (ru_window r) < a) (map fst adm))) < ru_limit r + over"
    show ?thesis
    proof (rule budget_logI [OF True log_inv_later [OF adm(1) assms(2)]])
      have "print ` {i. int64_range i \<and> i \<le> n0} \<subseteq> print ` {i. int64_range i \<and> i \<le> n}"
        using assms(3) by (intro image_mono) auto
      with adm(2) show "snd ` set adm \<subseteq> print ` {i. int64_range i \<and> i \<le> n}" by (rule subset_trans)
      show "int (length (filter (\<lambda>a. u - to_millis (ru_window r) < a) (map fst adm))) < ru_limit r + over"
        if "tf' \<le> u" for u using that assms(4) by (intro fit) simp
    qed
  qed
next
  case False
  with assms(1) obtain tat where "meter_inv tat t0 v"
    "tat \<le> tf + meter_tolerance r + over * to_millis (emission_interval r)"
    by (rule budget_meterE)
  with assms(4) show ?thesis by (intro budget_meterI [OF False meter_inv_later [OF _ assms(2)]]) auto
qed

lemma budget_expired:
  assumes "budget v r print t0 n tf over" "t0 \<le> t"
  shows "budget (expired_view t v) r print t n tf over"
proof (cases "ru_algorithm r = AlgoSlidingWindow")
  case True
  with assms(1) show ?thesis
    by (rule budget_logE) (rule budget_logI [OF True log_inv_expired [OF _ assms(2)]])
next
  case False
  with assms(1) show ?thesis
    by (rule budget_meterE) (rule budget_meterI [OF False meter_inv_expired [OF _ assms(2)]])
qed

lemma budget_absent: "rule_ok r \<Longrightarrow> budget absent r print 0 n 0 1"
  by (auto simp: rule_ok_def budget_def log_budget_def meter_budget_def log_inv_def meter_inv_def absent_def
      intro!: exI [of _ "[]"] exI [of _ 0])

section \<open>Both scripts keep the budget\<close>

definition asks :: "(int \<Rightarrow> string) \<Rightarrow> redis_env \<Rightarrow> bool" where
  "asks print e \<longleftrightarrow> rl_up e \<and> rl_itoa e = print \<and> int64_range (rl_unix_nano e)"

definition prints :: "(int \<Rightarrow> string) \<Rightarrow> bool" where
  "prints print \<longleftrightarrow> inj_on print {i. int64_range i}"

lemma new_member:
  assumes "prints print" "asks print e" "n < rl_unix_nano e" "M \<subseteq> print ` {i. int64_range i \<and> i \<le> n}"
  shows "member e \<notin> M"
proof
  assume "member e \<in> M"
  with assms(4) have "member e \<in> print ` {i. int64_range i \<and> i \<le> n}" by blast
  then obtain i where i: "print (rl_unix_nano e) = print i" "int64_range i" "i \<le> n"
    using assms(2) by (auto simp: member_def asks_def)
  have "rl_unix_nano e = i"
    by (rule inj_onD [OF assms(1) [unfolded prints_def] i(1)]) (use assms(2) i(2) in \<open>simp_all add: asks_def\<close>)
  with i(3) assms(3) show False by simp
qed

text \<open>The outcome of a request that is in budget: it is answered, the key stays in budget, and a
  refusal says in whole milliseconds when the next request will be admitted.\<close>

definition outcome_ok ::
  "redis_view \<Rightarrow> rule \<Rightarrow> (int \<Rightarrow> string) \<Rightarrow> redis_env \<Rightarrow> decision \<Rightarrow> bool" where
  "outcome_ok v r print e x \<longleftrightarrow>
     budget v r print (unix_milli e) (rl_unix_nano e) (unix_milli e) 1 \<and>
     (\<not> de_allowed x \<longrightarrow> (\<exists>ms. de_retry_after x = ms * millisecond \<and> 0 < ms \<and> ms < 2 ^ 52 \<and>
        budget v r print (unix_milli e) (rl_unix_nano e) (unix_milli e + ms) 0))"

lemma whole_retry:
  assumes "0 < ms" "ms \<le> to_millis d" "0 \<le> d" "d \<le> e" "int64_range e"
  shows "ms < 2 ^ 52" "wrap64 (ms * millisecond) = ms * millisecond"
proof -
  from to_millis_bound [OF assms(3-5,2)] have "ms < 2 ^ 52" "ms * millisecond \<le> e" by auto
  moreover have "0 < ms * millisecond" using assms(1) by (simp add: millisecond_def)
  ultimately show "ms < 2 ^ 52" "wrap64 (ms * millisecond) = ms * millisecond"
    using assms(5) by (auto simp: int64_range_def intro!: wrap64_id)
qed

context redis_laws
begin

lemma sliding_run_script:
  assumes "ru_algorithm r = AlgoSlidingWindow" "rl_up e" "redis_allow rd (heard e) k r s = (d, s')"
  obtains res where "sliding_window_script rd k (unix_milli e) (to_millis (ru_window r)) (ru_limit r) (member e)
      (rd_expire rd (unix_milli e) s) = (res, s')" "d = map_option (decision_of r (ru_window r)) res"
  using assms by (auto simp: redis_allow_def run_sliding_window_def member_def Let_def split: prod.splits)

lemma gcra_run_script:
  assumes "ru_algorithm r = AlgoGCRA" "rl_up e" "redis_allow rd (heard e) k r s = (d, s')"
  obtains res where "gcra_script rd (rl_div0 e) k (unix_milli e) (to_millis (emission_interval r)) (meter_tolerance r)
      (rd_expire rd (unix_milli e) s) = (res, s')" "d = map_option (decision_of r (emission_interval r)) res"
  using assms by (auto simp: redis_allow_def run_gcra_def meter_tolerance_def Let_def split: prod.splits)

text \<open>A refusal of the sliding window: its wait, in whole milliseconds, ends when the log has shrunk.\<close>

lemma sliding_told:
  assumes r: "ru_algorithm r = AlgoSlidingWindow" "rule_ok r" and up: "rl_up e"
    and log: "log_inv (to_millis (ru_window r)) adm t0 (view s k)" and t: "0 \<le> t0" "t0 \<le> unix_milli e"
    and new: "member e \<notin> snd ` set adm"
    and run: "redis_allow rd (heard e) k r s = (Some x, s')" and refused: "\<not> de_allowed x"
  shows "\<exists>ms. de_retry_after x = ms * millisecond \<and> 0 < ms \<and> ms < 2 ^ 52 \<and> (\<forall>u \<ge> unix_milli e + ms.
    length (filter (\<lambda>a. u - to_millis (ru_window r) < a) (map fst adm)) <
    length (filter (\<lambda>a. unix_milli e - to_millis (ru_window r) < a) (map fst adm)))"
proof -
  let ?w = "to_millis (ru_window r)" and ?t = "unix_milli e" and ?s = "rd_expire rd (unix_milli e) s"
  have w: "0 < ?w" "0 < ru_limit r" "0 \<le> ru_window r" "int64_range (ru_window r)" and "0 \<le> ?t"
    using r t by (auto simp: rule_ok_def)
  obtain res where res: "sliding_window_script rd k ?t ?w (ru_limit r) (member e) ?s = (res, s')"
    "Some x = map_option (decision_of r (ru_window r)) res"
    by (rule sliding_run_script [OF r(1) up run])
  have inv: "log_inv ?w adm ?t (view ?s k)"
    using log_inv_expired [OF log t(2)] expire_law [of ?t s k] by simp
  from sliding_window_step [OF inv w(1) \<open>0 \<le> ?t\<close> new res(1)] res(2) refused
  obtain rem retry where reply: "res = Some (0, rem, retry)" by (auto simp: decision_of_def split: if_splits)
  from sliding_refusal [OF inv w(1,2) res(1) [unfolded reply]]
  have "0 < retry" "retry \<le> ?w" "\<forall>u \<ge> ?t + retry.
    length (filter (\<lambda>a. u - ?w < a) (map fst adm)) < length (filter (\<lambda>a. ?t - ?w < a) (map fst adm))" by auto
  with whole_retry [OF this(1,2) w(3) order_refl w(4)] res(2) reply show ?thesis
    by (intro exI [of _ retry]) (auto simp: decision_of_def)
qed

lemma sliding_request:
  assumes r: "ru_algorithm r = AlgoSlidingWindow" "rule_ok r" and p: "prints print" "asks print e"
    and b: "budget (view s k) r print t0 n0 t0 1" and t: "0 \<le> t0" "t0 \<le> unix_milli e" "n0 < rl_unix_nano e"
    and run: "redis_allow rd (heard e) k r s = (d, s')"
  shows "\<exists>x. d = Some x \<and> outcome_ok (view s' k) r print e x"
proof -
  let ?w = "to_millis (ru_window r)" and ?t = "unix_milli e"
  let ?count = "\<lambda>u adm. int (length (filter (\<lambda>a. u - ?w < a) (map fst adm)))"
  have w: "0 < ?w" and up: "rl_up e"
    using r p(2) by (auto simp: rule_ok_def asks_def)
  obtain adm where adm: "log_inv ?w adm t0 (view s k)" "snd ` set adm \<subseteq> print ` {i. int64_range i \<and> i \<le> n0}"
    and fit: "\<And>u. t0 \<le> u \<Longrightarrow> ?count u adm < ru_limit r + 1"
    using budget_logE [OF b r(1)] by metis
  have new: "member e \<notin> snd ` set adm" by (rule new_member [OF p t(3) adm(2)])
  have "print ` {i. int64_range i \<and> i \<le> n0} \<subseteq> print ` {i. int64_range i \<and> i \<le> rl_unix_nano e}"
    using t(3) by (intro image_mono) auto
  with adm(2) have old: "snd ` set adm \<subseteq> print ` {i. int64_range i \<and> i \<le> rl_unix_nano e}" by blast
  obtain x where x: "d = Some x" "de_allowed x \<longleftrightarrow> ?count ?t adm < ru_limit r"
    "log_inv ?w (if de_allowed x then adm @ [(?t, member e)] else adm) ?t (view s' k)"
    using allow_sliding [OF r(1) up adm(1) t(2,1) refl w new run] by blast
  have antitone: "?count u adm \<le> ?count ?t adm" if "?t \<le> u" for u
    using length_filter_mono [of "\<lambda>a. u - ?w < a" "\<lambda>a. ?t - ?w < a" "map fst adm"] that by simp
  show ?thesis
  proof (cases "de_allowed x")
    case True
    have "budget (view s' k) r print ?t (rl_unix_nano e) ?t 1"
    proof (rule budget_logI [OF r(1)])
      show "log_inv ?w (adm @ [(?t, member e)]) ?t (view s' k)" using x(3) True by simp
      show "snd ` set (adm @ [(?t, member e)]) \<subseteq> print ` {i. int64_range i \<and> i \<le> rl_unix_nano e}"
        using old p(2) by (auto simp: member_def asks_def)
      show "?count u (adm @ [(?t, member e)]) < ru_limit r + 1" if "?t \<le> u" for u
        using antitone [OF that] x(2) True by simp
    qed
    with True x(1) show ?thesis by (simp add: outcome_ok_def)
  next
    case False
    obtain retry where xr: "de_retry_after x = retry * millisecond" "0 < retry" "retry < 2 ^ 52"
      and retry: "\<And>u. ?t + retry \<le> u \<Longrightarrow> ?count u adm < ?count ?t adm"
      using sliding_told [OF r up adm(1) t(1,2) new run [unfolded x(1)] False] by auto
    have log: "log_inv ?w adm ?t (view s' k)" using x(3) False by simp
    have "budget (view s' k) r print ?t (rl_unix_nano e) ?t 1"
      by (rule budget_logI [OF r(1) log old]) (use fit t(2) in auto)
    moreover have "budget (view s' k) r print ?t (rl_unix_nano e) (?t + retry) 0"
      by (rule budget_logI [OF r(1) log old]) (use retry fit [OF t(2)] in fastforce)
    ultimately show ?thesis using x(1) xr by (auto simp: outcome_ok_def)
  qed
qed

lemma gcra_request:
  assumes r: "ru_algorithm r = AlgoGCRA" "rule_ok r" and p: "asks print e"
    and b: "budget (view s k) r print t0 n0 t0 1" and t: "t0 \<le> unix_milli e"
    and run: "redis_allow rd (heard e) k r s = (d, s')"
  shows "\<exists>x. d = Some x \<and> outcome_ok (view s' k) r print e x"
proof -
  let ?em = "to_millis (emission_interval r)" and ?tol = "meter_tolerance r"
  let ?t = "unix_milli e" and ?s = "rd_expire rd (unix_milli e) s"
  have em: "0 < ?em" "0 \<le> ?tol" "int64_range (ru_window r)" and up: "rl_up e" and alg: "ru_algorithm r \<noteq> AlgoSlidingWindow"
    using r p by (auto simp: rule_ok_def asks_def)
  obtain tat where tat: "meter_inv tat t0 (view s k)" "tat \<le> t0 + ?tol + ?em"
    using budget_meterE [OF b alg] by (metis mult_1)
  obtain x where x: "d = Some x" "de_allowed x \<longleftrightarrow> \<not> ?t < tat - ?tol"
    "meter_inv (if de_allowed x then max tat ?t + ?em else tat) ?t (view s' k)"
    using allow_gcra [OF r(1) up tat(1) t refl em(1) meter_tolerance_def em(2) run] by blast
  show ?thesis
  proof (cases "de_allowed x")
    case True
    have "budget (view s' k) r print ?t (rl_unix_nano e) ?t 1"
      by (rule budget_meterI [OF alg]) (use x(2,3) True em(2) in auto)
    with True x(1) show ?thesis by (simp add: outcome_ok_def)
  next
    case False
    obtain res where res: "gcra_script rd (rl_div0 e) k ?t ?em ?tol ?s = (res, s')"
      "d = map_option (decision_of r (emission_interval r)) res"
      by (rule gcra_run_script [OF r(1) up run])
    have inv: "meter_inv tat ?t (view ?s k)"
      using meter_inv_expired [OF tat(1) t] expire_law [of ?t s k] by simp
    from gcra_step [OF inv em(1,2) res(1)] x(1,2) res(2) False
    obtain rem retry where reply: "res = Some (0, rem, retry)" by auto
    from gcra_refusal [OF inv em(2) res(1) [unfolded reply]]
    have retry: "retry = tat - ?tol - ?t" "0 < retry" by auto
    then have "retry \<le> ?em" using tat(2) t by simp
    note whole = whole_retry [OF retry(2) this _ _ em(3)]
    have xr: "de_retry_after x = retry * millisecond" "retry < 2 ^ 52"
      using whole rule_ok_interval [OF r(2)] x(1) res(2) reply by (auto simp: decision_of_def)
    have meter: "meter_inv tat ?t (view s' k)" using x(3) False by simp
    have "budget (view s' k) r print ?t (rl_unix_nano e) ?t 1"
      by (rule budget_meterI [OF alg meter]) (use tat(2) t in auto)
    moreover have "budget (view s' k) r print ?t (rl_unix_nano e) (?t + retry) 0"
      by (rule budget_meterI [OF alg meter]) (use retry(1) in auto)
    ultimately show ?thesis using x(1) xr retry(2) by (auto simp: outcome_ok_def)
  qed
qed

lemma request_ok:
  assumes "rule_ok r" "prints print" "asks print e" "budget (view s k) r print t0 n0 t0 1"
    and "0 \<le> t0" "t0 \<le> unix_milli e" "n0 < rl_unix_nano e" "redis_allow rd (heard e) k r s = (d, s')"
  shows "\<exists>x. d = Some x \<and> outcome_ok (view s' k) r print e x"
  using sliding_request [OF _ assms] gcra_request [OF _ assms(1,3,4,6,8)] assms(1)
  by (auto simp: rule_ok_def)

text \<open>A key that is within its budget admits the next request.\<close>

lemma in_budget_admitted:
  assumes "rule_ok r" "prints print" "asks print e" "budget (view s k) r print t0 n0 tf 0"
    and "0 \<le> t0" "t0 \<le> unix_milli e" "tf \<le> unix_milli e" "n0 < rl_unix_nano e"
    and "redis_allow rd (heard e) k r s = (d, s')"
  shows "\<exists>x. d = Some x \<and> de_allowed x"
proof (cases "ru_algorithm r = AlgoSlidingWindow")
  case True
  let ?w = "to_millis (ru_window r)"
  have w: "0 < ?w" and up: "rl_up e" using True assms(1,3) by (auto simp: rule_ok_def asks_def)
  obtain adm where adm: "log_inv ?w adm t0 (view s k)" "snd ` set adm \<subseteq> print ` {i. int64_range i \<and> i \<le> n0}"
    and fit: "\<And>u. tf \<le> u \<Longrightarrow> int (length (filter (\<lambda>a. u - ?w < a) (map fst adm))) < ru_limit r + 0"
    using budget_logE [OF assms(4) True] by metis
  have "member e \<notin> snd ` set adm" by (rule new_member [OF assms(2,3,8) adm(2)])
  from allow_sliding [OF True up adm(1) assms(6,5) refl w this assms(9)] fit [OF assms(7)]
  show ?thesis by auto
next
  case False
  then have r: "ru_algorithm r = AlgoGCRA" "0 < to_millis (emission_interval r)" "0 \<le> meter_tolerance r" and up: "rl_up e"
    using assms(1,3) by (auto simp: rule_ok_def asks_def)
  obtain tat where tat: "meter_inv tat t0 (view s k)" "tat \<le> tf + meter_tolerance r"
    using budget_meterE [OF assms(4) False] by (metis add_0_right mult_zero_left)
  from allow_gcra [OF r(1) up tat(1) assms(6) refl r(2) meter_tolerance_def r(3) assms(9)] tat(2) assms(7)
  show ?thesis by auto
qed

text \<open>So does every refusal of the key leave the budget as it is: the log gets no member, the meter does
  not move.\<close>

lemma budget_refused:
  assumes "rule_ok r" "prints print" "asks print e" "budget (view s k) r print t0 n0 tf over"
    and "0 \<le> t0" "t0 \<le> unix_milli e" "n0 < rl_unix_nano e"
    and "redis_allow rd (heard e) k r s = (d, s')" "\<not> admits d"
  shows "budget (view s' k) r print (unix_milli e) (rl_unix_nano e) tf over"
proof (cases "ru_algorithm r = AlgoSlidingWindow")
  case True
  let ?w = "to_millis (ru_window r)"
  have w: "0 < ?w" and up: "rl_up e" using True assms(1,3) by (auto simp: rule_ok_def asks_def)
  obtain adm where adm: "log_inv ?w adm t0 (view s k)" "snd ` set adm \<subseteq> print ` {i. int64_range i \<and> i \<le> n0}"
    and fit: "\<And>u. tf \<le> u \<Longrightarrow> int (length (filter (\<lambda>a. u - ?w < a) (map fst adm))) < ru_limit r + over"
    using budget_logE [OF assms(4) True] by metis
  have "print ` {i. int64_range i \<and> i \<le> n0} \<subseteq> print ` {i. int64_range i \<and> i \<le> rl_unix_nano e}"
    using assms(7) by (intro image_mono) auto
  with adm(2) have old: "snd ` set adm \<subseteq> print ` {i. int64_range i \<and> i \<le> rl_unix_nano e}" by blast
  have "member e \<notin> snd ` set adm" by (rule new_member [OF assms(2,3,7) adm(2)])
  from allow_sliding [OF True up adm(1) assms(6,5) refl w this assms(8)] assms(9)
  have "log_inv ?w adm (unix_milli e) (view s' k)" by (auto simp: admits_def)
  from budget_logI [OF True this old fit] show ?thesis .
next
  case False
  then have r: "ru_algorithm r = AlgoGCRA" "0 < to_millis (emission_interval r)" "0 \<le> meter_tolerance r" and up: "rl_up e"
    using assms(1,3) by (auto simp: rule_ok_def asks_def)
  obtain tat where tat: "meter_inv tat t0 (view s k)"
    "tat \<le> tf + meter_tolerance r + over * to_millis (emission_interval r)"
    using budget_meterE [OF assms(4) False] by metis
  from allow_gcra [OF r(1) up tat(1) assms(6) refl r(2) meter_tolerance_def r(3) assms(8)] assms(9)
  have "meter_inv tat (unix_milli e) (view s' k)" by (auto simp: admits_def)
  from budget_meterI [OF False this tat(2)] show ?thesis .
qed

text \<open>Requests of other keys, and those that do not reach Redis, leave the budget alone.\<close>

lemma budget_not_asked:
  assumes "redis_allow rd (heard e) k' r' s = (d, s')" "k' \<noteq> k \<or> \<not> rl_up e" "budget (view s k) r print t0 n tf over"
    and "t0 \<le> unix_milli e"
  shows "budget (view s' k) r print (unix_milli e) n tf over"
proof (cases "k' = k")
  case True
  with assms(1,2) run_down [of "heard e" rd k' r' s] have "s' = s" by simp
  with budget_later [OF assms(3,4)] show ?thesis by simp
next
  case False
  from other_key [OF assms(1), of k] False budget_later [OF assms(3,4)] budget_expired [OF assms(3,4)]
  show ?thesis by (auto split: if_splits)
qed

end

section \<open>The contract of a limiter, and what the middleware makes of it\<close>

text \<open>
  The contract that the header rests on, for an implementation of \<open>Limiter\<close> in an environment \<open>'e\<close>
  (clock, connection) over a state: a key that is \<open>in_use\<close> gets an answer; the wait of a refusal is in
  whole milliseconds; and who has \<open>waited\<close> that long, while nobody else was admitted, is admitted.
\<close>

locale limiter_laws =
  fixes allow :: "'e \<Rightarrow> string \<Rightarrow> rule \<Rightarrow> 's \<Rightarrow> decision option \<times> 's"
    and in_use :: "string \<Rightarrow> rule \<Rightarrow> 'e \<Rightarrow> 's \<Rightarrow> bool"
    and waited :: "string \<Rightarrow> rule \<Rightarrow> 'e \<Rightarrow> 's \<Rightarrow> duration \<Rightarrow> 'e \<Rightarrow> 's \<Rightarrow> bool"
  assumes answer_law: "in_use k r e s \<Longrightarrow> allow e k r s = (d, s1) \<Longrightarrow>
      \<exists>x. d = Some x \<and>
        (\<not> de_allowed x \<longrightarrow> (\<exists>ms. de_retry_after x = ms * millisecond \<and> 0 < ms \<and> ms < 2 ^ 52))"
    and retry_law: "in_use k r e s \<Longrightarrow> allow e k r s = (Some x, s1) \<Longrightarrow> \<not> de_allowed x \<Longrightarrow>
      waited k r e s1 (de_retry_after x) e' s' \<Longrightarrow> allow e' k r s' = (d', s2) \<Longrightarrow>
      \<exists>x'. d' = Some x' \<and> de_allowed x'"
    and wait_law: "waited k r e s w e' s' \<Longrightarrow> w' \<le> w \<Longrightarrow> waited k r e s w' e' s'"

text \<open>The middleware with that limiter, and the key and rule that apply to a request.\<close>

definition limited ::
  "('e \<Rightarrow> string \<Rightarrow> rule \<Rightarrow> 's \<Rightarrow> decision option \<times> 's) \<Rightarrow> 'e \<Rightarrow> 's \<Rightarrow> rate_limit_config \<Rightarrow>
   rate_limit_config" where
  "limited allow e s cfg = cfg\<lparr>rc_limiter := Some (\<lambda>k r. fst (allow e k r s))\<rparr>"

definition limit_applies :: "rate_limit_config \<Rightarrow> gin_ctx \<Rightarrow> (string \<times> rule) option" where
  "limit_applies cfg c =
     (case rc_provider cfg of
        None \<Rightarrow> None
      | Some provider \<Rightarrow>
          if rc_feature cfg = [] \<or> get_string c ''tenant_id'' = [] then None
          else map_option (Pair (limit_key cfg (get_string c ''tenant_id'')))
                 (provider (plan_tier_from_context c) (rc_feature cfg)))"

lemma limited_decision:
  "limit_decision (limited allow e s cfg) c =
     map_option (\<lambda>(k, r). fst (allow e k r s)) (limit_applies cfg c)"
  by (auto simp: limit_decision_def limited_def limit_applies_def limit_key_def option.map_comp comp_def
      split: option.split)

lemma limited_simps [simp]:
  "rc_observe_only (limited allow e s cfg) = rc_observe_only cfg"
  "rc_fail_closed (limited allow e s cfg) = rc_fail_closed cfg"
  by (simp_all add: limited_def)

context limiter_laws
begin

lemma told_retry:
  assumes "limit_applies cfg c = Some (k, r)" "in_use k r e s" "gc_abort c = None"
    and "allow e k r s = (d, s1)" "gc_abort (rate_limit (limited allow e s cfg) c) = Some a"
  shows "a = (429, ''rate limit exceeded'') \<and>
    (\<exists>v n. gc_headers (rate_limit (limited allow e s cfg) c) ''Retry-After'' = Some v \<and> atoi v = Some n \<and> 1 \<le> n \<and>
       (\<forall>e' s'. waited k r e s1 (n * second) e' s' \<longrightarrow>
          gc_abort (rate_limit (limited allow e' s' cfg) c) = None))"
proof -
  obtain x where x: "d = Some x"
    "\<not> de_allowed x \<Longrightarrow> \<exists>ms. de_retry_after x = ms * millisecond \<and> 0 < ms \<and> ms < 2 ^ 52"
    using answer_law [OF assms(2,4)] by blast
  have dec: "limit_decision (limited allow e s cfg) c = Some (Some x)"
    using assms(1,4) x(1) by (simp add: limited_decision)
  have refused: "\<not> de_allowed x" "\<not> rc_observe_only cfg" and a: "a = (429, ''rate limit exceeded'')"
    and hd: "gc_headers (rate_limit (limited allow e s cfg) c) ''Retry-After'' = Some (itoa (retry_seconds x))"
    using assms(3,5) by (auto simp: rate_limit_result dec Let_def split: if_splits)
  from x(2) [OF refused(1)] obtain ms where ms: "de_retry_after x = ms * millisecond" "0 < ms" "ms < 2 ^ 52" by blast
  note covers = retry_covers [OF ms(1) less_imp_le [OF ms(2)] ms(3)]
  have "gc_abort (rate_limit (limited allow e' s' cfg) c) = None"
    if w: "waited k r e s1 (retry_seconds x * second) e' s'" for e' s'
  proof -
    have "waited k r e s1 (de_retry_after x) e' s'" using wait_law [OF w] covers(2) ms(1) by simp
    moreover obtain d' s2 where d': "allow e' k r s' = (d', s2)" by fastforce
    ultimately obtain x' where "d' = Some x'" "de_allowed x'"
      using retry_law [OF assms(2) _ refused(1)] assms(4) x(1) by blast
    then have "limit_decision (limited allow e' s' cfg) c = Some (Some x')"
      using assms(1) d' by (simp add: limited_decision)
    then show ?thesis using \<open>de_allowed x'\<close> assms(3) by (simp add: rate_limit_result Let_def)
  qed
  then show ?thesis
    using a hd covers(1) atoi_itoa [OF covers(4)]
    by (intro conjI exI [of _ "itoa (retry_seconds x)"] exI [of _ "retry_seconds x"]) auto
qed

end

section \<open>Redis keeps the contract\<close>

text \<open>The state after a sequence of requests, of any keys, and their clock: each has a nanosecond of its
  own.\<close>

fun after_requests :: "'s redis \<Rightarrow> limited_request list \<Rightarrow> 's \<Rightarrow> 's" where
  "after_requests rd [] s = s"
| "after_requests rd ((k, r, e) # qs) s = after_requests rd qs (snd (redis_allow rd e k r s))"

fun timed :: "int \<Rightarrow> limited_request list \<Rightarrow> bool" where
  "timed n [] \<longleftrightarrow> True"
| "timed n ((k, r, e) # qs) \<longleftrightarrow> n < rl_unix_nano e \<and> timed (rl_unix_nano e) qs"

fun last_nano :: "int \<Rightarrow> limited_request list \<Rightarrow> int" where
  "last_nano n [] = n"
| "last_nano n ((k, r, e) # qs) = last_nano (rl_unix_nano e) qs"

definition asks_all :: "(int \<Rightarrow> string) \<Rightarrow> string \<Rightarrow> rule \<Rightarrow> limited_request list \<Rightarrow> bool" where
  "asks_all print k r qs \<longleftrightarrow> one_rule k r qs \<and> (\<forall>e \<in> set (asked k qs). asks print e)"

lemma asks_all_Cons:
  "asks_all print k r ((k', r', e) # qs) \<longleftrightarrow>
     (k' = k \<longrightarrow> r' = r) \<and> (k' = k \<and> rl_up e \<longrightarrow> asks print e) \<and> asks_all print k r qs"
  by (auto simp: asks_all_def one_rule_def)

lemma timed_append: "timed n (qs @ qs') \<longleftrightarrow> timed n qs \<and> timed (last_nano n qs) qs'"
  by (induction n qs rule: timed.induct) auto

lemma after_requests_heard:
  "after_requests rd ((k, r, e) # qs) s = after_requests rd qs (snd (redis_allow rd (heard e) k r s))"
  using allow_heard [of rd e k r s] by simp

lemma admitted_run:
  assumes "redis_allow rd (heard e) k' r s = (d, s')" "admitted rd k ((k', r, e) # qs) s = []"
  shows "admitted rd k qs s' = []" "k' = k \<Longrightarrow> \<not> admits d"
  using assms by (simp_all add: admitted_Cons split: if_splits)

lemma after_requests_append: "after_requests rd (qs @ qs') s = after_requests rd qs' (after_requests rd qs s)"
  by (induction rd qs s rule: after_requests.induct) auto

lemma asked_append: "asked k (qs @ qs') = asked k qs @ asked k qs'"
  by (simp add: asked_def)

lemma asks_all_append: "asks_all print k r (qs @ qs') \<longleftrightarrow> asks_all print k r qs \<and> asks_all print k r qs'"
  by (auto simp: asks_all_def one_rule_def asked_append)

lemma last_nano_mono: "timed n qs \<Longrightarrow> n \<le> last_nano n qs"
  by (induction n qs rule: timed.induct) auto

lemma unix_milli_mono: "n < rl_unix_nano e \<Longrightarrow> n div millisecond \<le> unix_milli e"
  by (auto simp: unix_milli_def millisecond_def intro: zdiv_mono1)

text \<open>When a request for the key may come, and how its client waits: other keys may be asked for, and
  this one too, by the client or others, as long as none of these requests is admitted.\<close>

definition key_in_use :: "('s \<Rightarrow> string \<Rightarrow> redis_view) \<Rightarrow> string \<Rightarrow> rule \<Rightarrow> redis_env \<Rightarrow> 's \<Rightarrow> bool" where
  "key_in_use view k r e s \<longleftrightarrow> rule_ok r \<and> prints (rl_itoa e) \<and> asks (rl_itoa e) e \<and> rl_answered e \<and>
     (\<exists>n. 0 \<le> n \<and> n < rl_unix_nano e \<and>
        budget (view s k) r (rl_itoa e) (n div millisecond) n (n div millisecond) 1)"

definition waits ::
  "'s redis \<Rightarrow> string \<Rightarrow> rule \<Rightarrow> redis_env \<Rightarrow> 's \<Rightarrow> duration \<Rightarrow> redis_env \<Rightarrow> 's \<Rightarrow> bool" where
  "waits rd k r e s w e' s' \<longleftrightarrow> asks (rl_itoa e) e' \<and> rl_answered e' \<and> rl_unix_nano e + w \<le> rl_unix_nano e' \<and>
     (\<exists>others. asks_all (rl_itoa e) k r others \<and> timed (rl_unix_nano e) (others @ [(k, r, e')]) \<and>
        admitted rd k others s = [] \<and> s' = after_requests rd others s)"

context redis_laws
begin

lemma budget_others:
  assumes "rule_ok r" "prints print"
  shows "asks_all print k r qs \<Longrightarrow> timed n qs \<Longrightarrow> 0 \<le> n \<Longrightarrow> admitted rd k qs s = [] \<Longrightarrow>
    budget (view s k) r print (n div millisecond) n tf over \<Longrightarrow>
    budget (view (after_requests rd qs s) k) r print (last_nano n qs div millisecond) (last_nano n qs) tf over"
proof (induction n qs arbitrary: s rule: timed.induct)
  case (2 n k' r' e qs)
  obtain d s' where run: "redis_allow rd (heard e) k' r' s = (d, s')" by fastforce
  have n: "n < rl_unix_nano e" and later: "n div millisecond \<le> unix_milli e"
    using "2.prems"(2) unix_milli_mono by auto
  have none: "admitted rd k qs s' = []" "k' = k \<Longrightarrow> \<not> admits d"
    by (rule admitted_run [OF run "2.prems"(4)], rule admitted_run(2) [OF run "2.prems"(4)])
  have "budget (view s' k) r print (unix_milli e) (rl_unix_nano e) tf over"
  proof (cases "k' = k \<and> rl_up e")
    case True
    with "2.prems"(1) have "asks print e" "r' = r" by (auto simp: asks_all_Cons)
    moreover have "0 \<le> n div millisecond" using "2.prems"(3) by (simp add: millisecond_def pos_imp_zdiv_nonneg_iff)
    ultimately show ?thesis
      using budget_refused [OF assms _ "2.prems"(5) _ later n, of d s'] run none(2) True by simp
  next
    case False
    then have "k' \<noteq> k \<or> \<not> rl_up e" by blast
    from budget_not_asked [OF run this "2.prems"(5) later] show ?thesis
      by (rule budget_later [OF _ order_refl less_imp_le [OF n] order_refl])
  qed
  then have "budget (view s' k) r print (rl_unix_nano e div millisecond) (rl_unix_nano e) tf over"
    by (simp add: unix_milli_def)
  with "2.IH" [of s'] "2.prems"(1-3) n none(1) run show ?case by (simp add: asks_all_Cons after_requests_heard del: after_requests.simps)
qed simp

lemma budget_run:
  assumes "rule_ok r" "prints print"
  shows "asks_all print k r qs \<Longrightarrow> timed n qs \<Longrightarrow> 0 \<le> n \<Longrightarrow>
    budget (view s k) r print (n div millisecond) n (n div millisecond) 1 \<Longrightarrow>
    budget (view (after_requests rd qs s) k) r print (last_nano n qs div millisecond) (last_nano n qs)
      (last_nano n qs div millisecond) 1"
proof (induction n qs arbitrary: s rule: timed.induct)
  case (2 n k' r' e qs)
  obtain d s' where run: "redis_allow rd (heard e) k' r' s = (d, s')" by fastforce
  have n: "n < rl_unix_nano e" and later: "n div millisecond \<le> unix_milli e"
    using "2.prems"(2) unix_milli_mono by auto
  have "budget (view s' k) r print (unix_milli e) (rl_unix_nano e) (unix_milli e) 1"
  proof (cases "k' = k \<and> rl_up e")
    case True
    with "2.prems"(1) have "asks print e" "r' = r" by (auto simp: asks_all_Cons)
    moreover have "0 \<le> n div millisecond" using "2.prems"(3) by (simp add: millisecond_def pos_imp_zdiv_nonneg_iff)
    ultimately show ?thesis
      using request_ok [OF assms _ "2.prems"(4) _ later n, of d s'] run True by (auto simp: outcome_ok_def)
  next
    case False
    then have "k' \<noteq> k \<or> \<not> rl_up e" by blast
    from budget_not_asked [OF run this "2.prems"(4) later] show ?thesis
      by (rule budget_later [OF _ order_refl less_imp_le [OF n] later])
  qed
  with "2.IH" [of s'] "2.prems"(1-3) run show ?case
    by (simp add: asks_all_Cons unix_milli_def after_requests_heard del: after_requests.simps)
qed simp

lemma heard_answered: "rl_answered e \<Longrightarrow> heard e = e"
  by (simp add: heard_def)

lemma in_use_outcome:
  assumes "key_in_use view k r e s" "redis_allow rd e k r s = (d, s1)"
  obtains x where "d = Some x" "outcome_ok (view s1 k) r (rl_itoa e) e x" "0 \<le> rl_unix_nano e"
    "rule_ok r" "prints (rl_itoa e)"
proof -
  obtain n where n: "0 \<le> n" "n < rl_unix_nano e"
    "budget (view s k) r (rl_itoa e) (n div millisecond) n (n div millisecond) 1"
    and ok: "rule_ok r" "prints (rl_itoa e)" "asks (rl_itoa e) e" and "heard e = e"
    using assms(1) by (auto simp: key_in_use_def heard_answered)
  have "0 \<le> n div millisecond" using n(1) by (simp add: millisecond_def pos_imp_zdiv_nonneg_iff)
  have "redis_allow rd (heard e) k r s = (d, s1)" using assms(2) \<open>heard e = e\<close> by simp
  from request_ok [OF ok n(3) \<open>0 \<le> n div millisecond\<close> unix_milli_mono [OF n(2)] n(2) this] n(1,2) ok(1,2) that
  show thesis by auto
qed

end

sublocale redis_laws \<subseteq> limiter: limiter_laws "redis_allow rd" "key_in_use view" "waits rd"
proof
  fix k r e s d s1
  assume "key_in_use view k r e s" "redis_allow rd e k r s = (d, s1)"
  then show "\<exists>x. d = Some x \<and>
      (\<not> de_allowed x \<longrightarrow> (\<exists>ms. de_retry_after x = ms * millisecond \<and> 0 < ms \<and> ms < 2 ^ 52))"
    by (rule in_use_outcome) (auto simp: outcome_ok_def)
next
  fix k r e s x s1 e' s' d' s2
  assume use: "key_in_use view k r e s" and run: "redis_allow rd e k r s = (Some x, s1)"
    and refused: "\<not> de_allowed x" and wait: "waits rd k r e s1 (de_retry_after x) e' s'"
    and run': "redis_allow rd e' k r s' = (d', s2)"
  have out: "outcome_ok (view s1 k) r (rl_itoa e) e x" "0 \<le> rl_unix_nano e" "rule_ok r" "prints (rl_itoa e)"
    using in_use_outcome [OF use run] by auto
  obtain ms where ms: "de_retry_after x = ms * millisecond"
    "budget (view s1 k) r (rl_itoa e) (unix_milli e) (rl_unix_nano e) (unix_milli e + ms) 0"
    using out(1) refused by (auto simp: outcome_ok_def)
  obtain others where others: "asks_all (rl_itoa e) k r others" "timed (rl_unix_nano e) (others @ [(k, r, e')])"
    "admitted rd k others s1 = []" "s' = after_requests rd others s1"
    and e': "asks (rl_itoa e) e'" "rl_unix_nano e + ms * millisecond \<le> rl_unix_nano e'" "heard e' = e'"
    using wait ms(1) by (auto simp: waits_def heard_answered)
  let ?m = "last_nano (rl_unix_nano e) others"
  have m: "rl_unix_nano e \<le> ?m" "?m < rl_unix_nano e'"
    using others(2) last_nano_mono [of "rl_unix_nano e" others] by (auto simp: timed_append)
  have "timed (rl_unix_nano e) others" using others(2) by (simp add: timed_append)
  from budget_others [OF out(3,4) others(1) this out(2) others(3) ms(2) [unfolded unix_milli_def]]
  have b: "budget (view s' k) r (rl_itoa e) (?m div millisecond) ?m (unix_milli e + ms) 0"
    by (simp add: others(4) unix_milli_def)
  have "(rl_unix_nano e + ms * millisecond) div millisecond \<le> rl_unix_nano e' div millisecond"
    using e'(2) by (rule zdiv_mono1) (simp add: millisecond_def)
  then have tf: "unix_milli e + ms \<le> unix_milli e'" by (simp add: unix_milli_def millisecond_def)
  have "0 \<le> ?m div millisecond" using m(1) out(2) by (simp add: millisecond_def pos_imp_zdiv_nonneg_iff)
  moreover have "redis_allow rd (heard e') k r s' = (d', s2)" using run' e'(3) by simp
  ultimately have "\<exists>x'. d' = Some x' \<and> de_allowed x'"
    by (intro in_budget_admitted [OF out(3,4) e'(1) b _ unix_milli_mono [OF m(2)] tf m(2)])
  then
  show "\<exists>x'. d' = Some x' \<and> de_allowed x'" .
qed (auto simp: waits_def)

context redis_laws
begin

lemma honest_header:
  assumes "view s0 k = absent" "rule_ok r" "prints (rl_itoa e)"
    and "asks_all (rl_itoa e) k r (qs @ [(k, r, e)])" "timed 0 (qs @ [(k, r, e)])" "rl_up e" "rl_answered e"
    and "limit_applies cfg c = Some (k, r)" "gc_abort c = None"
    and "gc_abort (rate_limit (limited (redis_allow rd) e (after_requests rd qs s0) cfg) c) = Some a"
  shows "a = (429, ''rate limit exceeded'') \<and>
    (\<exists>v n. gc_headers (rate_limit (limited (redis_allow rd) e (after_requests rd qs s0) cfg) c) ''Retry-After'' = Some v \<and>
       atoi v = Some n \<and> 1 \<le> n \<and>
       (\<forall>e' s'. waits rd k r e (after_requests rd (qs @ [(k, r, e)]) s0) (n * second) e' s' \<longrightarrow>
          gc_abort (rate_limit (limited (redis_allow rd) e' s' cfg) c) = None))"
proof -
  let ?s = "after_requests rd qs s0" and ?n = "last_nano 0 qs"
  obtain d s1 where run: "redis_allow rd e k r ?s = (d, s1)" by fastforce
  have s1: "after_requests rd (qs @ [(k, r, e)]) s0 = s1"
    using run by (simp add: after_requests_append)
  have qs: "asks_all (rl_itoa e) k r qs" "asks (rl_itoa e) e" "timed 0 qs" "?n < rl_unix_nano e"
    using assms(4-6) by (auto simp: asks_all_append asks_all_Cons timed_append)
  have "budget (view s0 k) r (rl_itoa e) (0 div millisecond) 0 (0 div millisecond) 1"
    using budget_absent [OF assms(2)] assms(1) by simp
  from budget_run [OF assms(2,3) qs(1,3) order_refl this]
  have "budget (view ?s k) r (rl_itoa e) (?n div millisecond) ?n (?n div millisecond) 1" .
  then have "key_in_use view k r e ?s"
    using assms(2,3,7) qs(2,4) last_nano_mono [OF qs(3)] by (auto simp: key_in_use_def)
  from limiter.told_retry [OF assms(8) this assms(9) run assms(10)]
  show ?thesis unfolding s1 .
qed

end

text \<open>C14: The \<open>Retry-After\<close> header can be relied on. Whatever requests came before, of this key and
  others, answered or not: when the rate limit refuses a request, the header is a number of
  seconds, and a request of the same tenant and feature that comes at least that much later passes, provided
  that no other request of this tenant and feature was admitted in between (others may come and be
  refused, may fail to reach Redis or go to other keys) and that Redis answers it. This holds against any Redis
  that keeps its laws and under both algorithms, while one rule is in force, with an interval of a millisecond at least, and
  for a clock in order. Without the proviso it is false: another client of the tenant may take the place
  that became free.\<close>

theorem retry_after_is_honest:
  assumes "redis_laws rd view" "view s0 k = absent" "rule_ok r" "prints (rl_itoa e)"
    and "asks_all (rl_itoa e) k r (qs @ [(k, r, e)])" "timed 0 (qs @ [(k, r, e)])" "rl_up e" "rl_answered e"
    and "limit_applies cfg c = Some (k, r)" "gc_abort c = None"
    and "gc_abort (rate_limit (limited (redis_allow rd) e (after_requests rd qs s0) cfg) c) = Some a"
  shows "a = (429, ''rate limit exceeded'') \<and>
    (\<exists>v n. gc_headers (rate_limit (limited (redis_allow rd) e (after_requests rd qs s0) cfg) c) ''Retry-After'' = Some v \<and>
       atoi v = Some n \<and> 1 \<le> n \<and>
       (\<forall>e' s'. waits rd k r e (after_requests rd (qs @ [(k, r, e)]) s0) (n * second) e' s' \<longrightarrow>
          gc_abort (rate_limit (limited (redis_allow rd) e' s' cfg) c) = None))"
  by (rule redis_laws.honest_header [OF assms])

text \<open>A limit of one request a second: half a second after a first request the second one is told to wait
  for one second, and passes then.\<close>

definition clock :: "int \<Rightarrow> redis_env" where
  "clock t = \<lparr>rl_up = True, rl_answered = True, rl_unix_nano = t, rl_div0 = 0, rl_itoa = itoa\<rparr>"

definition demo_rule :: rule where
  "demo_rule = \<lparr>ru_algorithm = AlgoSlidingWindow, ru_limit = 1, ru_window = second, ru_burst = 0\<rparr>"

definition demo_window :: rate_limit_config where
  "demo_window = (demo_limits None)\<lparr>rc_provider := Some (\<lambda>tier feature. Some demo_rule)\<rparr>"

definition demo_key :: string where
  "demo_key = ''mc:t1:ratelimit:ai''"

definition demo_first :: "limited_request list" where
  "demo_first = [(demo_key, demo_rule, clock second)]"

lemma itoa_prints: "prints itoa"
  unfolding prints_def by (rule inj_onI) (metis atoi_itoa mem_Collect_eq option.inject)

lemma demo_applies: "limit_applies demo_window demo_tenant_ctx = Some (demo_key, demo_rule)"
  by code_simp


lemma demo_rule_sliding:
  "redis_allow rd e k demo_rule s = run_sliding_window rd e k demo_rule s"
  "to_millis 1000000000 = 1000" "ru_limit demo_rule = 1" "ru_window demo_rule = second"
  by (simp_all add: redis_allow_def demo_rule_def to_millis_def go_div_def second_def millisecond_def)

definition demo_log :: redis_store where
  "demo_log = [demo_key \<mapsto> (RZSet [(itoa second, 1000)], Some 2000)]"

lemma demo_first_admitted: "after_requests store_redis demo_first Map.empty = demo_log"
  by (simp add: demo_first_def demo_log_def demo_rule_sliding run_sliding_window_def sliding_window_script_def
      store_redis_def clock_def unix_milli_def zset_at_def put_zset_def second_def millisecond_def Let_def)

definition demo_told :: decision where
  "demo_told = \<lparr>de_allowed = False, de_limit = 1, de_remaining = 0, de_retry_after = 500 * millisecond,
     de_reset_after = second\<rparr>"

lemma demo_second_refused:
  "redis_allow store_redis (clock (1500 * millisecond)) demo_key demo_rule demo_log = (Some demo_told, demo_log)"
  by (simp add: demo_told_def demo_log_def demo_rule_sliding run_sliding_window_def sliding_window_script_def
      store_redis_def clock_def unix_milli_def zset_at_def put_zset_def second_def millisecond_def
      decision_of_def wrap64_def fun_eq_iff Let_def)

theorem retry_after_is_honest_witness:
  "gc_headers (rate_limit (limited (redis_allow store_redis) (clock (1500 * millisecond)) demo_log demo_window) demo_tenant_ctx)
     ''Retry-After'' = Some (itoa 1) \<and>
   gc_abort (rate_limit (limited (redis_allow store_redis) (clock (2500 * millisecond)) demo_log demo_window) demo_tenant_ctx) = None"
proof -
  let ?e = "clock (1500 * millisecond)"
  let ?here = "rate_limit (limited (redis_allow store_redis) ?e demo_log demo_window) demo_tenant_ctx"
  have c: "gc_abort demo_tenant_ctx = None" by (simp add: demo_tenant_ctx_def fresh_ctx_def)
  have told: "limit_decision (limited (redis_allow store_redis) ?e demo_log demo_window) demo_tenant_ctx = Some (Some demo_told)"
    by (simp add: limited_decision demo_applies demo_second_refused)
  have "retry_seconds demo_told = 1"
    using retry_covers(1-3) [of demo_told 500] by (simp add: demo_told_def second_def millisecond_def)
  then have abort: "gc_abort ?here = Some (429, ''rate limit exceeded'')"
    and header: "gc_headers ?here ''Retry-After'' = Some (itoa 1)"
    unfolding rate_limit_result told using c
    by (simp_all add: demo_told_def demo_window_def demo_limits_def Let_def ctx_abort_def ctx_header_def)
  have r: "rule_ok demo_rule"
    by (simp add: rule_ok_def demo_rule_sliding int64_range_def second_def) (simp add: demo_rule_def)
  have qs: "asks_all itoa demo_key demo_rule (demo_first @ [(demo_key, demo_rule, ?e)])"
    "timed 0 (demo_first @ [(demo_key, demo_rule, ?e)])"
    by (simp_all add: asks_all_def one_rule_def asks_def demo_first_def clock_def second_def millisecond_def int64_range_def)
  have e: "rl_itoa ?e = itoa" "rl_up ?e" "rl_answered ?e" by (simp_all add: clock_def)
  have s1: "after_requests store_redis (demo_first @ [(demo_key, demo_rule, ?e)]) Map.empty = demo_log"
    by (simp add: after_requests_append demo_first_admitted demo_second_refused)
  note abort header
  moreover have "waits store_redis demo_key demo_rule ?e demo_log (1 * second) (clock (2500 * millisecond)) demo_log"
    by (auto simp: waits_def asks_def asks_all_def one_rule_def admitted_def clock_def second_def millisecond_def
        int64_range_def intro!: exI [of _ "[]"])
  ultimately show ?thesis
    using retry_after_is_honest [where rd = store_redis and view = store_view and ?s0.0 = Map.empty
        and qs = demo_first and e = ?e, OF store.redis_laws_axioms store_view_empty r _ _ qs(2) e(2,3) demo_applies c]
      itoa_prints qs(1) atoi_itoa [of 1]
    unfolding demo_first_admitted s1 e(1) by (auto simp: int64_range_def)
qed

text \<open>The proviso is needed: when another client is admitted after two seconds, the one that was told at one
  and a half to wait for a second is refused again at two and a half.\<close>

definition demo_taken :: redis_store where
  "demo_taken = [demo_key \<mapsto> (RZSet [(itoa (2 * second), 2000)], Some 3000)]"

lemma another_takes_the_place:
  "de_retry_after demo_told \<le> 1 * second \<and>
   redis_allow store_redis (clock (1500 * millisecond)) demo_key demo_rule demo_log = (Some demo_told, demo_log) \<and>
   (\<exists>b. redis_allow store_redis (clock (2 * second)) demo_key demo_rule demo_log = (Some b, demo_taken) \<and> de_allowed b) \<and>
   (\<exists>a. redis_allow store_redis (clock (2500 * millisecond)) demo_key demo_rule demo_taken = (Some a, demo_taken) \<and>
      \<not> de_allowed a)"
proof (intro conjI)
  show "\<exists>b. redis_allow store_redis (clock (2 * second)) demo_key demo_rule demo_log = (Some b, demo_taken) \<and> de_allowed b"
    by (simp add: demo_taken_def demo_log_def demo_rule_sliding run_sliding_window_def sliding_window_script_def
        store_redis_def clock_def unix_milli_def zset_at_def put_zset_def second_def millisecond_def
        decision_of_def Let_def fun_eq_iff)
  show "\<exists>a. redis_allow store_redis (clock (2500 * millisecond)) demo_key demo_rule demo_taken = (Some a, demo_taken) \<and>
      \<not> de_allowed a"
    by (simp add: demo_taken_def demo_rule_sliding run_sliding_window_def sliding_window_script_def
        store_redis_def clock_def unix_milli_def zset_at_def put_zset_def second_def millisecond_def
        decision_of_def fun_eq_iff Let_def)
qed (simp_all add: demo_second_refused, simp add: demo_told_def second_def millisecond_def)

end
