(* ===== verification/Go_Value.thy ===== *)
theory Go_Value
  imports Prelude
begin

text \<open>
  Values of type \<open>interface{}\<close>: nil, or a value of one of the kinds that the code tells apart, with
  the name of its dynamic type. A floating-point value here is finite and not negative zero.
  \<open>GOther\<close> is a value of any other kind (a struct, a pointer, a time), of which only equality is
  known; number 0 is the zero value of the type. A nil slice and an empty one differ, as they do for
  \<open>reflect.DeepEqual\<close>.
\<close>

datatype goval =
    GNil
  | GBool string bool
  | GInt string int
  | GUint string nat
  | GFloat string rat
  | GString string string
  | GSlice string "goval list option"
  | GOther string nat

abbreviation go_string :: "string \<Rightarrow> goval" where "go_string s \<equiv> GString ''string'' s"
abbreviation go_bool :: "bool \<Rightarrow> goval" where "go_bool b \<equiv> GBool ''bool'' b"

text \<open>The type assertions \<open>v.(string)\<close>, \<open>v.(bool)\<close> and \<open>v.([]interface{})\<close>.\<close>

definition as_string :: "goval \<Rightarrow> string option" where
  "as_string v = (case v of GString ty s \<Rightarrow> if ty = ''string'' then Some s else None | _ \<Rightarrow> None)"

definition as_bool :: "goval \<Rightarrow> bool option" where
  "as_bool v = (case v of GBool ty b \<Rightarrow> if ty = ''bool'' then Some b else None | _ \<Rightarrow> None)"

definition as_any_slice :: "goval \<Rightarrow> goval list option" where
  "as_any_slice v =
     (case v of
        GSlice ty vs \<Rightarrow>
          if ty = ''[]interface {}'' then Some (case vs of None \<Rightarrow> [] | Some xs \<Rightarrow> xs) else None
      | _ \<Rightarrow> None)"

end
