(* ===== verification/Criteria.thy ===== *)
theory Criteria
  imports Go_Numbers Go_Value Seconds
begin

text \<open>
  Search criteria: \<open>criteria/operators.go\<close>, \<open>criteria.go\<close>, \<open>builder.go\<close>, \<open>validator.go\<close>,
  \<open>repository.go\<close> and \<open>gin_helper.go\<close>.

  The lists of filters and of orders are lists: the code never tells their nil from their empty
  value.
\<close>

section \<open>Operators and directions\<close>

definition OpEqual :: string where "OpEqual = ''=''"
definition OpNotEqual :: string where "OpNotEqual = ''!=''"
definition OpGreaterThan :: string where "OpGreaterThan = ''>''"
definition OpGreaterThanOrEqual :: string where "OpGreaterThanOrEqual = ''>=''"
definition OpLessThan :: string where "OpLessThan = ''<''"
definition OpLessThanOrEqual :: string where "OpLessThanOrEqual = ''<=''"
definition OpLike :: string where "OpLike = ''LIKE''"
definition OpNotLike :: string where "OpNotLike = ''NOT LIKE''"
definition OpIn :: string where "OpIn = ''IN''"
definition OpNotIn :: string where "OpNotIn = ''NOT IN''"
definition OpIsNull :: string where "OpIsNull = ''IS NULL''"
definition OpIsNotNull :: string where "OpIsNotNull = ''IS NOT NULL''"
definition OpContains :: string where "OpContains = ''CONTAINS''"
definition OpNotContains :: string where "OpNotContains = ''NOT CONTAINS''"
definition OpArrayContains :: string where "OpArrayContains = ''ARRAY_CONTAINS''"

definition OrderAsc :: string where "OrderAsc = ''ASC''"
definition OrderDesc :: string where "OrderDesc = ''DESC''"

lemmas operator_defs =
  OpEqual_def OpNotEqual_def OpGreaterThan_def OpGreaterThanOrEqual_def OpLessThan_def
  OpLessThanOrEqual_def OpLike_def OpNotLike_def OpIn_def OpNotIn_def OpIsNull_def OpIsNotNull_def
  OpContains_def OpNotContains_def OpArrayContains_def OrderAsc_def OrderDesc_def

section \<open>Criteria\<close>

record field_filter =
  fl_field :: string
  fl_operator :: string
  fl_value :: goval

record sort_order =
  od_field :: string
  od_direction :: string

record pagination =
  pg_page :: int
  pg_page_size :: int
  pg_limit :: int
  pg_offset :: int

record criteria =
  cr_filters :: "field_filter list"
  cr_orders :: "sort_order list"
  cr_pagination :: pagination

definition new_filter :: "string \<Rightarrow> string \<Rightarrow> goval \<Rightarrow> field_filter" where
  "new_filter field operator value = \<lparr>fl_field = field, fl_operator = operator, fl_value = value\<rparr>"

definition new_order :: "string \<Rightarrow> string \<Rightarrow> sort_order" where
  "new_order field direction =
     \<lparr>od_field = field,
       od_direction = (if direction \<noteq> OrderAsc \<and> direction \<noteq> OrderDesc then OrderDesc else direction)\<rparr>"

definition new_pagination :: "int \<Rightarrow> int \<Rightarrow> pagination" where
  "new_pagination page page_size =
     (let page = (if page < 1 then 1 else page);
          page_size = (if page_size < 1 then 10 else page_size);
          page_size = (if page_size > 100 then 100 else page_size);
          offset = wrap64 (wrap64 (page - 1) * page_size)
      in \<lparr>pg_page = page, pg_page_size = page_size, pg_limit = page_size, pg_offset = offset\<rparr>)"

definition new_criteria :: "field_filter list \<Rightarrow> sort_order list \<Rightarrow> pagination \<Rightarrow> criteria" where
  "new_criteria filters orders p = \<lparr>cr_filters = filters, cr_orders = orders, cr_pagination = p\<rparr>"

definition pagination_empty :: "pagination \<Rightarrow> bool" where
  "pagination_empty p \<longleftrightarrow> pg_limit p = 0"

definition criteria_empty :: "criteria \<Rightarrow> bool" where
  "criteria_empty c \<longleftrightarrow> cr_filters c = [] \<and> cr_orders c = [] \<and> pg_limit (cr_pagination c) = 0"

definition order_empty :: "sort_order \<Rightarrow> bool" where
  "order_empty d \<longleftrightarrow> od_field d = []"

definition filters_add :: "field_filter \<Rightarrow> field_filter list \<Rightarrow> field_filter list" where
  "filters_add f fs = fs @ [f]"

definition filters_count :: "field_filter list \<Rightarrow> int" where
  "filters_count fs = int (length fs)"

definition filters_empty :: "field_filter list \<Rightarrow> bool" where
  "filters_empty fs \<longleftrightarrow> length fs = 0"

definition primary_order :: "criteria \<Rightarrow> sort_order" where
  "primary_order c = (case cr_orders c of [] \<Rightarrow> \<lparr>od_field = [], od_direction = []\<rparr> | o1 # _ \<Rightarrow> o1)"

definition total_pages :: "int \<Rightarrow> pagination \<Rightarrow> int" where
  "total_pages total_count p =
     (if pg_page_size p = 0 then 0
      else ceil_int (f64_div (f64_of_int total_count) (f64_of_int (pg_page_size p))))"

record 'a list_response =
  lr_items :: "'a list"
  lr_total_count :: int
  lr_page :: int
  lr_page_size :: int
  lr_total_pages :: int

definition new_list_response :: "'a list \<Rightarrow> int \<Rightarrow> pagination \<Rightarrow> 'a list_response" where
  "new_list_response items total_count p =
     \<lparr>lr_items = items, lr_total_count = total_count, lr_page = pg_page p, lr_page_size = pg_page_size p,
      lr_total_pages = total_pages total_count p\<rparr>"

definition new_list_response_from_criteria :: "'a list \<Rightarrow> int \<Rightarrow> criteria \<Rightarrow> 'a list_response" where
  "new_list_response_from_criteria items total_count c = new_list_response items total_count (cr_pagination c)"

text \<open>\<open>BaseListRepository.ListByCriteria\<close> over a repository's search and count.\<close>

definition list_by_criteria ::
  "(criteria \<Rightarrow> string + 'a list) \<Rightarrow> (criteria \<Rightarrow> string + int) \<Rightarrow> criteria \<Rightarrow> string + 'a list_response" where
  "list_by_criteria search count c =
     (case search c of
        Inl e \<Rightarrow> Inl e
      | Inr items \<Rightarrow>
          (case count c of
             Inl e \<Rightarrow> Inl e
           | Inr total_count \<Rightarrow> Inr (new_list_response_from_criteria items total_count c)))"

section \<open>Validation\<close>

datatype field_error = EmptyFieldName | InvalidFieldName string

datatype criteria_error =
    FilterError field_error
  | OperatorNeedsValue string
  | OrderError field_error
  | InvalidDirection string
  | BadLimit
  | BadOffset

definition field_start :: "char \<Rightarrow> bool" where
  "field_start c \<longleftrightarrow> is_lower c \<or> is_upper c \<or> c = CHR ''_''"

definition field_char :: "char \<Rightarrow> bool" where
  "field_char c \<longleftrightarrow> is_lower c \<or> is_upper c \<or> is_digit c \<or> c = CHR ''_'' \<or> c = CHR ''.''"

definition validate_field_name :: "string \<Rightarrow> field_error option" where
  "validate_field_name field =
     (case field of
        [] \<Rightarrow> Some EmptyFieldName
      | c # cs \<Rightarrow> if field_start c \<and> list_all field_char cs then None else Some (InvalidFieldName field))"

definition requires_value :: "string list" where
  "requires_value =
     [OpEqual, OpNotEqual, OpGreaterThan, OpGreaterThanOrEqual, OpLessThan, OpLessThanOrEqual,
      OpLike, OpNotLike, OpIn, OpNotIn, OpContains, OpNotContains, OpArrayContains]"

fun first_error :: "('a \<Rightarrow> 'e option) \<Rightarrow> 'a list \<Rightarrow> 'e option" where
  "first_error f [] = None"
| "first_error f (x # xs) = (case f x of Some e \<Rightarrow> Some e | None \<Rightarrow> first_error f xs)"

definition filter_error :: "field_filter \<Rightarrow> criteria_error option" where
  "filter_error f =
     (case validate_field_name (fl_field f) of
        Some e \<Rightarrow> Some (FilterError e)
      | None \<Rightarrow>
          first_error
            (\<lambda>op. if fl_operator f = op \<and> fl_value f = GNil then Some (OperatorNeedsValue op) else None)
            requires_value)"

definition order_error :: "sort_order \<Rightarrow> criteria_error option" where
  "order_error d =
     (case validate_field_name (od_field d) of
        Some e \<Rightarrow> Some (OrderError e)
      | None \<Rightarrow>
          if od_direction d \<noteq> OrderAsc \<and> od_direction d \<noteq> OrderDesc
          then Some (InvalidDirection (od_direction d)) else None)"

definition pagination_error :: "pagination \<Rightarrow> criteria_error option" where
  "pagination_error p =
     (if pagination_empty p then None
      else if pg_limit p \<le> 0 then Some BadLimit
      else if pg_offset p < 0 then Some BadOffset
      else None)"

definition validate :: "criteria \<Rightarrow> criteria_error option" where
  "validate c =
     (case first_error filter_error (cr_filters c) of
        Some e \<Rightarrow> Some e
      | None \<Rightarrow>
          (case first_error order_error (cr_orders c) of
             Some e \<Rightarrow> Some e
           | None \<Rightarrow> pagination_error (cr_pagination c)))"

definition sanitize :: "criteria \<Rightarrow> string list \<Rightarrow> criteria" where
  "sanitize c allowed =
     (if allowed = [] then c
      else let valid_filters = filter (\<lambda>f. fl_field f \<in> set allowed) (cr_filters c);
               valid_orders = filter (\<lambda>d. od_field d \<noteq> [] \<and> od_field d \<in> set allowed) (cr_orders c);
               valid_orders = (if valid_orders = [] \<and> cr_orders c \<noteq> []
                               then [new_order ''created_at'' OrderDesc] else valid_orders)
           in new_criteria valid_filters valid_orders (cr_pagination c))"

definition validate_and_sanitize :: "criteria \<Rightarrow> string list \<Rightarrow> criteria_error + criteria" where
  "validate_and_sanitize c allowed =
     (case validate c of Some e \<Rightarrow> Inl e | None \<Rightarrow> Inr (sanitize c allowed))"

section \<open>The builder\<close>

record builder =
  bd_filters :: "field_filter list"
  bd_orders :: "sort_order list"
  bd_page :: int
  bd_page_size :: int
  bd_order_field :: string
  bd_order_dir :: string

definition new_builder :: builder where
  "new_builder =
     \<lparr>bd_filters = [], bd_orders = [], bd_page = 1, bd_page_size = 10, bd_order_field = ''created_at'',
      bd_order_dir = OrderDesc\<rparr>"

definition with_filter :: "string \<Rightarrow> string \<Rightarrow> goval \<Rightarrow> builder \<Rightarrow> builder" where
  "with_filter field operator value b = b\<lparr>bd_filters := bd_filters b @ [new_filter field operator value]\<rparr>"

text \<open>\<open>url.Values.Get\<close>.\<close>

definition query_get :: "(string \<rightharpoonup> string list) \<Rightarrow> string \<Rightarrow> string" where
  "query_get values key = (case values key of Some (v # _) \<Rightarrow> v | _ \<Rightarrow> [])"

text \<open>
  \<open>FromURLValues\<close>: \<open>keys\<close> is the order in which the iteration over the map visits its keys, and
  \<open>to_upper\<close> is \<open>strings.ToUpper\<close>.
\<close>

fun url_filters :: "(string \<rightharpoonup> string list) \<Rightarrow> string list \<Rightarrow> field_filter list \<Rightarrow> field_filter list" where
  "url_filters values [] acc = acc"
| "url_filters values (key # keys) acc =
     (case values key of
        Some (v # _) \<Rightarrow>
          if prefix ''filter_'' key \<and> v \<noteq> []
          then url_filters values keys (acc @ [new_filter (trim_prefix key ''filter_'') OpEqual (go_string v)])
          else url_filters values keys acc
      | _ \<Rightarrow> url_filters values keys acc)"

definition from_url_values ::
  "(string \<Rightarrow> string) \<Rightarrow> string list \<Rightarrow> (string \<rightharpoonup> string list) \<Rightarrow> builder \<Rightarrow> builder" where
  "from_url_values to_upper keys values b =
     (let b = (case atoi (query_get values ''page'') of
                 Some p \<Rightarrow> if p > 0 then b\<lparr>bd_page := p\<rparr> else b
               | None \<Rightarrow> b);
          b = (case atoi (query_get values ''page_size'') of
                 Some ps \<Rightarrow> if ps > 0 \<and> ps \<le> 100 then b\<lparr>bd_page_size := ps\<rparr> else b
               | None \<Rightarrow> b);
          sort_by = query_get values ''sort_by'';
          b = (if sort_by \<noteq> [] then b\<lparr>bd_order_field := sort_by\<rparr> else b);
          sort_dir = query_get values ''sort_dir'';
          b = (if sort_dir \<noteq> []
               then b\<lparr>bd_order_dir := (if to_upper sort_dir = ''ASC'' then OrderAsc else OrderDesc)\<rparr>
               else b)
      in b\<lparr>bd_filters := url_filters values keys (bd_filters b)\<rparr>)"

definition with_order :: "string \<Rightarrow> string \<Rightarrow> builder \<Rightarrow> builder" where
  "with_order field direction b = b\<lparr>bd_orders := bd_orders b @ [new_order field direction]\<rparr>"

definition with_pagination :: "int \<Rightarrow> int \<Rightarrow> builder \<Rightarrow> builder" where
  "with_pagination page page_size b =
     (let b = (if page > 0 then b\<lparr>bd_page := page\<rparr> else b)
      in if page_size > 0 \<and> page_size \<le> 100 then b\<lparr>bd_page_size := page_size\<rparr> else b)"

definition add_equal_filter :: "string \<Rightarrow> goval \<Rightarrow> builder \<Rightarrow> builder" where
  "add_equal_filter field value b =
     (if as_string value = Some [] then b else with_filter field OpEqual value b)"

definition add_not_equal_filter :: "string \<Rightarrow> goval \<Rightarrow> builder \<Rightarrow> builder" where
  "add_not_equal_filter field value b = with_filter field OpNotEqual value b"

definition add_greater_than_filter :: "string \<Rightarrow> goval \<Rightarrow> builder \<Rightarrow> builder" where
  "add_greater_than_filter field value b = with_filter field OpGreaterThan value b"

definition add_greater_than_or_equal_filter :: "string \<Rightarrow> goval \<Rightarrow> builder \<Rightarrow> builder" where
  "add_greater_than_or_equal_filter field value b = with_filter field OpGreaterThanOrEqual value b"

definition add_less_than_filter :: "string \<Rightarrow> goval \<Rightarrow> builder \<Rightarrow> builder" where
  "add_less_than_filter field value b = with_filter field OpLessThan value b"

definition add_less_than_or_equal_filter :: "string \<Rightarrow> goval \<Rightarrow> builder \<Rightarrow> builder" where
  "add_less_than_or_equal_filter field value b = with_filter field OpLessThanOrEqual value b"

definition add_array_contains_filter :: "string \<Rightarrow> goval \<Rightarrow> builder \<Rightarrow> builder" where
  "add_array_contains_filter field value b = with_filter field OpArrayContains value b"

definition add_like_filter :: "string \<Rightarrow> goval \<Rightarrow> builder \<Rightarrow> builder" where
  "add_like_filter field value b =
     (case as_string value of
        Some s \<Rightarrow>
          if s = [] then b
          else let value = (if \<not> str_contains s ''%'' then go_string (''%'' @ s @ ''%'') else value)
               in with_filter field OpLike value b
      | None \<Rightarrow> b)"

text \<open>The list of values is a slice of \<open>interface{}\<close>.\<close>

definition add_in_filter :: "string \<Rightarrow> goval list \<Rightarrow> builder \<Rightarrow> builder" where
  "add_in_filter field values b =
     (if length values > 0 then with_filter field OpIn (GSlice ''[]interface {}'' (Some values)) b else b)"

text \<open>\<open>uuid.Parse\<close> belongs to a package: \<open>parses\<close> says what it accepts.\<close>

definition add_uuid_filter :: "(string \<Rightarrow> bool) \<Rightarrow> string \<Rightarrow> goval \<Rightarrow> builder \<Rightarrow> builder" where
  "add_uuid_filter parses field value b =
     (case as_string value of
        Some s \<Rightarrow> if s \<noteq> [] \<and> parses s then with_filter field OpEqual (go_string s) b else b
      | None \<Rightarrow> b)"

definition add_bool_filter :: "string \<Rightarrow> goval \<Rightarrow> builder \<Rightarrow> builder" where
  "add_bool_filter field value b =
     (if as_string value = Some ''true'' then with_filter field OpEqual (go_bool True) b
      else if as_string value = Some ''false'' then with_filter field OpEqual (go_bool False) b
      else case as_bool value of Some v \<Rightarrow> with_filter field OpEqual (go_bool v) b | None \<Rightarrow> b)"

definition set_order :: "string \<Rightarrow> string \<Rightarrow> builder \<Rightarrow> builder" where
  "set_order field direction b =
     (if field \<noteq> [] then b\<lparr>bd_order_field := field, bd_order_dir := direction\<rparr> else b)"

definition build :: "builder \<Rightarrow> criteria" where
  "build b =
     (let orders = (if bd_orders b \<noteq> [] then bd_orders b
                    else if bd_order_field b \<noteq> [] then [new_order (bd_order_field b) (bd_order_dir b)]
                    else [new_order ''created_at'' OrderDesc])
      in new_criteria (bd_filters b) orders (new_pagination (bd_page b) (bd_page_size b)))"

text \<open>\<open>GinHelper.BuildCriteriaFromURLValues\<close>, and \<open>BuildCriteriaFromQuery\<close> on a request's query.\<close>

definition build_criteria_from_url_values ::
  "(string \<Rightarrow> string) \<Rightarrow> string list \<Rightarrow> (string \<rightharpoonup> string list) \<Rightarrow> builder" where
  "build_criteria_from_url_values to_upper keys values = from_url_values to_upper keys values new_builder"

text \<open>Names kept for older callers, and \<open>EntityCriteriaHelper\<close>; the query of a gin context is its \<open>url.Values\<close>.\<close>

definition set_pagination :: "int \<Rightarrow> int \<Rightarrow> builder \<Rightarrow> builder" where
  "set_pagination page page_size b = with_pagination page page_size b"

definition add_filter :: "string \<Rightarrow> string \<Rightarrow> goval \<Rightarrow> builder \<Rightarrow> builder" where
  "add_filter field operator value b = with_filter field operator value b"

definition build_criteria_from_query ::
  "(string \<Rightarrow> string) \<Rightarrow> string list \<Rightarrow> (string \<rightharpoonup> string list) \<Rightarrow> builder" where
  "build_criteria_from_query to_upper keys query = from_url_values to_upper keys query new_builder"

definition build_base_from_context ::
  "(string \<Rightarrow> string) \<Rightarrow> string list \<Rightarrow> (string \<rightharpoonup> string list) \<Rightarrow> builder" where
  "build_base_from_context to_upper keys query = build_criteria_from_query to_upper keys query"

definition validate_and_sanitize_criteria :: "criteria \<Rightarrow> string list \<Rightarrow> criteria" where
  "validate_and_sanitize_criteria c allowed = sanitize c allowed"

section \<open>What the builder builds\<close>

text \<open>The builders that the methods make of a new one; an \<open>int\<close> argument has 64 bits.\<close>

inductive built :: "builder \<Rightarrow> bool" where
  New: "built new_builder"
| FromURLValues: "built b \<Longrightarrow> built (from_url_values to_upper keys values b)"
| WithFilter: "built b \<Longrightarrow> built (with_filter field operator value b)"
| WithOrder: "built b \<Longrightarrow> built (with_order field direction b)"
| WithPagination:
    "built b \<Longrightarrow> int64_range page \<Longrightarrow> int64_range page_size \<Longrightarrow> built (with_pagination page page_size b)"
| AddEqualFilter: "built b \<Longrightarrow> built (add_equal_filter field value b)"
| AddLikeFilter: "built b \<Longrightarrow> built (add_like_filter field value b)"
| AddInFilter: "built b \<Longrightarrow> built (add_in_filter field vs b)"
| AddUUIDFilter: "built b \<Longrightarrow> built (add_uuid_filter parses field value b)"
| AddBoolFilter: "built b \<Longrightarrow> built (add_bool_filter field value b)"
| SetOrder: "built b \<Longrightarrow> built (set_order field direction b)"

definition builder_ok :: "builder \<Rightarrow> bool" where
  "builder_ok b \<longleftrightarrow>
     1 \<le> bd_page b \<and> int64_range (bd_page b) \<and> 1 \<le> bd_page_size b \<and> bd_page_size b \<le> 100 \<and>
     list_all (\<lambda>d. od_direction d = OrderAsc \<or> od_direction d = OrderDesc) (bd_orders b)"

lemma new_order_direction [simp]:
  "od_direction (new_order f d) = OrderAsc \<or> od_direction (new_order f d) = OrderDesc"
  by (auto simp: new_order_def)

lemma new_order_field [simp]: "od_field (new_order f d) = f"
  by (simp add: new_order_def)

lemma with_filter_ok [simp]: "builder_ok (with_filter field operator value b) = builder_ok b"
  by (simp add: builder_ok_def with_filter_def)

lemma from_url_values_ok: "builder_ok b \<Longrightarrow> builder_ok (from_url_values to_upper keys values b)"
  by (auto simp: from_url_values_def builder_ok_def Let_def dest: atoi_range split: option.splits)

lemma built_ok: "built b \<Longrightarrow> builder_ok b"
proof (induction rule: built.induct)
  case New
  show ?case by (simp add: new_builder_def builder_ok_def int64_range_def)
next
  case (WithOrder b field direction)
  then show ?case using new_order_direction [of field direction] by (simp add: with_order_def builder_ok_def)
next
  case (WithPagination b page page_size)
  then show ?case by (auto simp: with_pagination_def builder_ok_def Let_def)
next
  case (SetOrder b field direction)
  then show ?case by (simp add: set_order_def builder_ok_def)
qed (auto simp: from_url_values_ok add_equal_filter_def add_like_filter_def add_in_filter_def
    add_uuid_filter_def add_bool_filter_def Let_def split: option.splits)

lemma first_error_None: "first_error f xs = None \<longleftrightarrow> list_all (\<lambda>x. f x = None) xs"
  by (induction xs) (auto split: option.splits)

lemma new_pagination_simps [simp]:
  assumes "1 \<le> page" "int64_range page" "1 \<le> ps" "ps \<le> 100"
  shows "new_pagination page ps =
    \<lparr>pg_page = page, pg_page_size = ps, pg_limit = ps, pg_offset = wrap64 ((page - 1) * ps)\<rparr>"
proof -
  have "int64_range (page - 1)" using assms by (simp add: int64_range_def)
  then show ?thesis using assms by (simp add: new_pagination_def Let_def wrap64_id)
qed

lemma build_parts:
  assumes "builder_ok b"
  shows "cr_filters (build b) = bd_filters b"
    and "cr_pagination (build b) =
      \<lparr>pg_page = bd_page b, pg_page_size = bd_page_size b, pg_limit = bd_page_size b,
       pg_offset = wrap64 ((bd_page b - 1) * bd_page_size b)\<rparr>"
    and "cr_orders (build b) \<noteq> []"
    and "d \<in> set (cr_orders (build b)) \<Longrightarrow> od_direction d = OrderAsc \<or> od_direction d = OrderDesc"
  using assms new_order_direction
  by (auto simp: build_def new_criteria_def Let_def builder_ok_def list_all_iff split: if_splits)

lemma validate_None:
  "validate c = None \<longleftrightarrow>
     list_all (\<lambda>f. filter_error f = None) (cr_filters c) \<and>
     list_all (\<lambda>d. order_error d = None) (cr_orders c) \<and> pagination_error (cr_pagination c) = None"
  unfolding validate_def first_error_None [symmetric] by (auto split: option.splits)

lemma filter_error_None:
  "filter_error f = None \<longleftrightarrow>
     validate_field_name (fl_field f) = None \<and> (fl_value f = GNil \<longrightarrow> fl_operator f \<notin> set requires_value)"
  by (auto simp: filter_error_def first_error_None list_all_iff split: option.splits)

text \<open>C37: Whatever the methods of the builder are called with, and whatever the query of a request
  says, the criteria they build have a page of 1 to 100 items, at least one order, and only the
  directions ASC and DESC. They are valid exactly if the field names are well formed, every operator
  that needs a value has one, and the offset, which is computed in 64 bits, is not negative; if the
  product does not overflow, the offset is that of the page.\<close>

theorem built_criteria_valid:
  assumes "built b"
  shows "let c = build b; p = cr_pagination c in
    1 \<le> pg_limit p \<and> pg_limit p \<le> 100 \<and> 1 \<le> pg_page p \<and> cr_orders c \<noteq> [] \<and>
    list_all (\<lambda>d. od_direction d \<in> {OrderAsc, OrderDesc}) (cr_orders c) \<and>
    (validate c = None \<longleftrightarrow>
       list_all (\<lambda>f. validate_field_name (fl_field f) = None \<and>
                     (fl_value f = GNil \<longrightarrow> fl_operator f \<notin> set requires_value)) (cr_filters c) \<and>
       list_all (\<lambda>d. validate_field_name (od_field d) = None) (cr_orders c) \<and> 0 \<le> pg_offset p) \<and>
    ((pg_page p - 1) * pg_limit p < 2 ^ 63 \<longrightarrow> pg_offset p = (pg_page p - 1) * pg_limit p)"
proof -
  define c where "c = build b"
  note ok = built_ok [OF assms]
  note parts = build_parts [OF ok, folded c_def]
  have d: "order_error d = None \<longleftrightarrow> validate_field_name (od_field d) = None" if "d \<in> set (cr_orders c)" for d
    using parts(4) [OF that] by (auto simp: order_error_def split: option.splits)
  have v: "validate c = None \<longleftrightarrow>
      list_all (\<lambda>f. validate_field_name (fl_field f) = None \<and>
                    (fl_value f = GNil \<longrightarrow> fl_operator f \<notin> set requires_value)) (cr_filters c) \<and>
      list_all (\<lambda>d. validate_field_name (od_field d) = None) (cr_orders c) \<and> 0 \<le> pg_offset (cr_pagination c)"
    using d ok by (auto simp: validate_None filter_error_None list_all_iff pagination_error_def
        pagination_empty_def parts(2) builder_ok_def)
  have o: "pg_offset (cr_pagination c) = (bd_page b - 1) * bd_page_size b"
    if "(bd_page b - 1) * bd_page_size b < 2 ^ 63"
  proof -
    have "0 \<le> (bd_page b - 1) * bd_page_size b" using ok by (simp add: builder_ok_def)
    with that have "int64_range ((bd_page b - 1) * bd_page_size b)" by (simp add: int64_range_def)
    then show ?thesis by (simp add: parts(2) wrap64_id)
  qed
  show ?thesis
    using v o ok parts(3,4) by (auto simp: Let_def c_def [symmetric] parts(2) builder_ok_def list_all_iff)
qed

theorem built_criteria_valid_witness:
  "let b = build_criteria_from_url_values id [''page'', ''filter_name'']
             [''page'' \<mapsto> [''3''], ''filter_name'' \<mapsto> [''ana'']];
       c = build b
   in validate c = None \<and> pg_offset (cr_pagination c) = 20 \<and>
      list_all (\<lambda>d. od_direction d \<in> {OrderAsc, OrderDesc}) (cr_orders c)"
proof -
  define b where "b = build_criteria_from_url_values id [''page'', ''filter_name'']
    [''page'' \<mapsto> [''3''], ''filter_name'' \<mapsto> [''ana'']]"
  have "built b" unfolding b_def build_criteria_from_url_values_def by (intro built.intros)
  note valid = built_criteria_valid [OF this, unfolded Let_def]
  have b: "b = \<lparr>bd_filters = [new_filter ''name'' OpEqual (go_string ''ana'')], bd_orders = [], bd_page = 3,
      bd_page_size = 10, bd_order_field = ''created_at'', bd_order_dir = OrderDesc\<rparr>"
    by (simp add: b_def build_criteria_from_url_values_def from_url_values_def new_builder_def query_get_def
        atoi_def digit_def byte_def digit_val_def int64_range_def trim_prefix_def)
  have p: "cr_pagination (build b) = \<lparr>pg_page = 3, pg_page_size = 10, pg_limit = 10, pg_offset = 20\<rparr>"
    by (simp add: b build_def new_criteria_def int64_range_def wrap64_def)
  have n: "validate_field_name ''name'' = None" "validate_field_name ''created_at'' = None"
    by (simp_all add: validate_field_name_def field_start_def field_char_def is_lower_def is_upper_def is_digit_def byte_def)
  have "validate (build b) = None"
    using n p valid by (auto simp: b build_def new_criteria_def new_filter_def new_order_def Let_def)
  with p valid show ?thesis by (simp add: b_def Let_def)
qed

section \<open>Sanitising\<close>

lemma created_at_valid: "order_error (new_order ''created_at'' OrderDesc) = None"
  by (simp add: order_error_def new_order_def validate_field_name_def field_start_def field_char_def
      is_lower_def is_upper_def is_digit_def byte_def)

lemma sanitize_parts:
  assumes "allowed \<noteq> []"
  defines "kept \<equiv> filter (\<lambda>d. od_field d \<noteq> [] \<and> od_field d \<in> set allowed)"
  shows "cr_filters (sanitize c allowed) = filter (\<lambda>f. fl_field f \<in> set allowed) (cr_filters c)"
    and "cr_pagination (sanitize c allowed) = cr_pagination c"
    and "cr_orders (sanitize c allowed) =
      (if kept (cr_orders c) = [] \<and> cr_orders c \<noteq> [] then [new_order ''created_at'' OrderDesc]
       else kept (cr_orders c))"
  using assms(1) by (auto simp: sanitize_def new_criteria_def Let_def kept_def)

text \<open>What \<open>ValidateAndSanitize\<close> returns under a list of allowed fields is valid, filters and
  orders by allowed fields only (or, if no order is left, by \<open>created_at\<close>), keeps every filter on an
  allowed field in its place, and does not change when it is sanitised again. It fails exactly on
  criteria that are not valid.\<close>

theorem sanitized_criteria_allowed:
  assumes "allowed \<noteq> []"
  shows "case validate_and_sanitize c allowed of
      Inl e \<Rightarrow> validate c = Some e
    | Inr c' \<Rightarrow>
        validate c' = None \<and> fl_field ` set (cr_filters c') \<subseteq> set allowed \<and>
        (od_field ` set (cr_orders c') \<subseteq> set allowed \<or> cr_orders c' = [new_order ''created_at'' OrderDesc]) \<and>
        (cr_orders c' = [] \<longleftrightarrow> cr_orders c = []) \<and>
        cr_filters c' = filter (\<lambda>f. fl_field f \<in> set allowed) (cr_filters c) \<and>
        cr_pagination c' = cr_pagination c \<and> sanitize c' allowed = c'"
proof (cases "validate c")
  case None
  let ?c = "sanitize c allowed"
  note parts = sanitize_parts [OF assms]
  have orders: "set (cr_orders ?c) \<subseteq> set (cr_orders c) \<or> cr_orders ?c = [new_order ''created_at'' OrderDesc]"
    using parts(3) [of c] by auto
  have "validate ?c = None"
    using None parts(1,2) [of c] orders created_at_valid
    by (auto simp: validate_None list_all_iff)
  moreover have "cr_orders (sanitize ?c allowed) = cr_orders ?c"
    using parts(3) [of ?c] parts(3) [of c] by (auto simp: filter_empty_conv)
  then have "sanitize ?c allowed = ?c"
    using parts(1,2) [of ?c] parts(1,2) [of c] by (intro criteria.equality) auto
  ultimately show ?thesis
    using None parts(1,2) [of c] parts(3) [of c] by (auto simp: validate_and_sanitize_def)
qed (simp add: validate_and_sanitize_def)

theorem sanitized_criteria_allowed_witness:
  "let c = new_criteria [new_filter ''name'' OpEqual (go_string ''ana''), new_filter ''secret'' OpIsNull GNil]
             [new_order ''secret'' OrderAsc] (new_pagination 1 10)
   in case validate_and_sanitize c [''name''] of
        Inl e \<Rightarrow> False
      | Inr c' \<Rightarrow> cr_filters c' = [new_filter ''name'' OpEqual (go_string ''ana'')] \<and> sanitize c' [''name''] = c'"
proof -
  define c where "c = new_criteria [new_filter ''name'' OpEqual (go_string ''ana''), new_filter ''secret'' OpIsNull GNil]
    [new_order ''secret'' OrderAsc] (new_pagination 1 10)"
  have "validate c = None"
    by (simp add: c_def validate_None filter_error_None order_error_def new_criteria_def new_filter_def
        new_order_def validate_field_name_def field_start_def field_char_def is_lower_def is_upper_def is_digit_def
        byte_def requires_value_def operator_defs pagination_error_def pagination_empty_def int64_range_def wrap64_def)
  moreover have "filter (\<lambda>f. fl_field f \<in> set [''name'']) (cr_filters c) =
      [new_filter ''name'' OpEqual (go_string ''ana'')]"
    by (simp add: c_def new_criteria_def new_filter_def)
  ultimately show ?thesis
    using sanitized_criteria_allowed [of "[''name'']" c]
    by (simp add: c_def [symmetric] Let_def split: sum.splits)
qed

section \<open>The number of pages\<close>

lemma f64_of_small_nat: "0 \<le> n \<Longrightarrow> n < 2 ^ 43 \<Longrightarrow> f64_of_int n = Some (of_int n)"
  by (rule f64_of_int_small) auto

text \<open>Up to \<open>2 ^ 43\<close> items, the division in floating point gives the quotient rounded up.\<close>

lemma div_up_bounds:
  fixes n k :: int
  assumes "0 < n" "1 \<le> k"
  shows "n \<le> (n + k - 1) div k * k" "((n + k - 1) div k - 1) * k + 1 \<le> n"
    "0 \<le> (n + k - 1) div k" "(n + k - 1) div k \<le> n"
proof -
  have c: "(n + k - 1) div k * k = n + k - 1 - (n + k - 1) mod k" by (simp add: minus_mod_eq_div_mult)
  have m: "0 \<le> (n + k - 1) mod k" "(n + k - 1) mod k < k"
    using assms(2) by simp_all
  from c m show "n \<le> (n + k - 1) div k * k" by linarith
  from c m have "(n + k - 1) div k * k \<le> n + k - 1" by linarith
  then show "((n + k - 1) div k - 1) * k + 1 \<le> n" by (simp add: left_diff_distrib)
  show "0 \<le> (n + k - 1) div k" using assms by (simp add: pos_imp_zdiv_nonneg_iff)
  have "0 \<le> (n - 1) * (k - 1)" using assms by (intro mult_nonneg_nonneg) simp_all
  then have "n + k - 1 \<le> n * k" by (simp add: algebra_simps)
  then have "(n + k - 1) div k \<le> n * k div k" using assms(2) by (intro zdiv_mono1) simp_all
  then show "(n + k - 1) div k \<le> n" using assms(2) by simp
qed

lemma total_pages_exact:
  assumes "0 \<le> n" "n < 2 ^ 43" "1 \<le> pg_page_size p" "pg_page_size p \<le> 100"
  shows "total_pages n p = (n + pg_page_size p - 1) div pg_page_size p"
proof (cases "n = 0")
  case True
  then show ?thesis
    using assms by (simp add: total_pages_def f64_of_small_nat f64_div_def f64_round_def ceil_int_def f64_to_int64_def
        int64_range_def)
next
  case False
  let ?k = "pg_page_size p"
  let ?c = "(n + ?k - 1) div ?k"
  define q where "q = (of_int n / of_int ?k :: rat)"
  have pos: "0 < n" using False assms(1) by simp
  note c = div_up_bounds [OF pos assms(3)]
  have q: "0 < q" "q \<le> of_int n"
    using pos assms(3) by (auto simp: q_def divide_le_eq mult_le_cancel_left1)
  have "(of_int n :: rat) < 2 ^ 43" using assms(2) by (metis of_int_less_iff of_int_numeral of_int_power)
  with q obtain r where r: "f64_round q = Some r" "\<bar>r - q\<bar> \<le> 1 / 2048"
      "\<And>m. q \<le> of_int m \<Longrightarrow> r \<le> of_int m" "\<And>m. of_int m \<le> q \<Longrightarrow> of_int m \<le> r"
    using f64_round_near [of q] by (metis order_le_less_trans)
  have "q \<le> of_int ?c"
    using c(1) assms(3) unfolding q_def by (simp add: divide_le_eq flip: of_int_mult)
  then have up: "r \<le> of_int ?c" by (rule r(3))
  have "(of_int ((?c - 1) * ?k + 1) :: rat) \<le> of_int n" using c(2) by (simp only: of_int_le_iff)
  then have "of_int ((?c - 1) * ?k + 1) / of_int ?k \<le> q"
    unfolding q_def using assms(3) by (intro divide_right_mono) auto
  moreover have "of_int ((?c - 1) * ?k + 1) / of_int ?k = (of_int (?c - 1) + 1 / of_int ?k :: rat)"
    using assms(3) by (simp add: add_divide_distrib)
  moreover have "1 / 100 \<le> (1 / of_int ?k :: rat)" using assms(3,4) by (simp add: field_simps)
  ultimately have "of_int (?c - 1) < r" using r(2) by linarith
  with up have "\<lceil>r\<rceil> = ?c" by (intro ceiling_unique) auto
  then have "ceil_int (Some r) = ?c"
    using c(3,4) assms(2) by (simp add: ceil_int_def f64_to_int64_def int64_range_def)
  then show ?thesis
    using r(1) assms by (simp add: total_pages_def f64_of_small_nat f64_div_def q_def)
qed

section \<open>The helper for entities\<close>

text \<open>\<open>ValidateAndSanitizeCriteria\<close> does not validate, whatever its name says. On valid criteria it
  agrees with \<open>ValidateAndSanitize\<close>; on others it rejects nothing and keeps the page as it is: the query
  \<open>page=922337203685477582\<close> of a request, which \<open>ValidateAndSanitize\<close> refuses for any list of allowed
  fields, comes through with a negative offset.\<close>

theorem entity_helper_skips_validation:
  "(case validate_and_sanitize c allowed of
      Inr c' \<Rightarrow> validate_and_sanitize_criteria c allowed = c'
    | Inl e \<Rightarrow> cr_pagination (validate_and_sanitize_criteria c allowed) = cr_pagination c) \<and>
   (let c = build (build_base_from_context id [''page''] [''page'' \<mapsto> [''922337203685477582'']])
    in validate_and_sanitize c allowed = Inl BadOffset \<and>
       pg_offset (cr_pagination (validate_and_sanitize_criteria c allowed)) < 0)"
proof -
  have b: "build_base_from_context id [''page''] [''page'' \<mapsto> [''922337203685477582'']] =
      \<lparr>bd_filters = [], bd_orders = [], bd_page = 922337203685477582,
      bd_page_size = 10, bd_order_field = ''created_at'', bd_order_dir = OrderDesc\<rparr>"
    by (simp add: build_base_from_context_def build_criteria_from_query_def from_url_values_def new_builder_def query_get_def
        atoi_def digit_def byte_def digit_val_def int64_range_def trim_prefix_def)
  have "sanitize c [] = c" "cr_pagination (sanitize c allowed) = cr_pagination c" for c
    by (simp_all add: sanitize_def new_criteria_def Let_def)
  then show ?thesis
    by (simp add: validate_and_sanitize_def validate_and_sanitize_criteria_def b split: option.split)
       (simp add: build_def new_criteria_def validate_def new_order_def order_error_def validate_field_name_def
        field_start_def field_char_def is_lower_def is_upper_def is_digit_def byte_def pagination_error_def
        pagination_empty_def int64_range_def wrap64_def Let_def operator_defs)
qed

end
