(* ===== verification/Criteria_SQL.thy ===== *)
theory Criteria_SQL
  imports Criteria
begin

text \<open>
  The conversion of criteria into PostgreSQL queries with parameters, \<open>criteria/sql_converter.go\<close>,
  and its meaning: the query with its parameters stands for the query in which every value is
  written where its placeholder is.
\<close>

section \<open>The converter\<close>

definition placeholder :: "int \<Rightarrow> string" where
  "placeholder i = CHR ''$'' # itoa i"

text \<open>The wildcards that the four kinds of LIKE put around a string without any.\<close>

definition like_pattern :: "goval \<Rightarrow> goval" where
  "like_pattern v =
     (case as_string v of
        Some s \<Rightarrow> if \<not> str_contains s ''%'' then go_string (''%'' @ s @ ''%'') else v
      | None \<Rightarrow> v)"

definition process_filter :: "field_filter \<Rightarrow> int \<Rightarrow> string \<times> goval" where
  "process_filter f i =
     (let field = fl_field f; op = fl_operator f; v = fl_value f in
      if op \<in> {OpEqual, OpNotEqual, OpGreaterThan, OpGreaterThanOrEqual, OpLessThan, OpLessThanOrEqual}
      then (field @ '' '' @ op @ '' '' @ placeholder i, v)
      else if op = OpLike then (field @ '' ILIKE '' @ placeholder i, like_pattern v)
      else if op = OpNotLike then (field @ '' NOT ILIKE '' @ placeholder i, like_pattern v)
      else if op = OpIsNull then (field @ '' IS NULL'', GNil)
      else if op = OpIsNotNull then (field @ '' IS NOT NULL'', GNil)
      else if op = OpContains then (field @ '' ILIKE '' @ placeholder i, like_pattern v)
      else if op = OpNotContains then (field @ '' NOT ILIKE '' @ placeholder i, like_pattern v)
      else if op = OpArrayContains then (field @ '' @> ARRAY['' @ placeholder i @ '']'', v)
      else (field @ '' = '' @ placeholder i, v))"

text \<open>
  The loop of \<open>buildWhereClause\<close>. Of a filter with IN or NOT IN the value has to be a slice of
  \<open>interface{}\<close> with elements; otherwise it adds no condition. The index counts parameters, so it
  does not overflow.
\<close>

fun where_loop :: "field_filter list \<Rightarrow> int \<Rightarrow> string list \<Rightarrow> goval list \<Rightarrow> string list \<times> goval list" where
  "where_loop [] i conditions params = (conditions, params)"
| "where_loop (f # fs) i conditions params =
     (if fl_operator f = OpIn \<or> fl_operator f = OpNotIn
      then case as_any_slice (fl_value f) of
             Some values \<Rightarrow>
               if length values > 0
               then let placeholders = map (\<lambda>k. placeholder (i + int k)) [0..<length values];
                        op = (if fl_operator f = OpNotIn then ''NOT IN'' else ''IN'');
                        condition = fl_field f @ '' '' @ op @ '' ('' @ join '', '' placeholders @ '')''
                    in where_loop fs (i + int (length values)) (conditions @ [condition]) (params @ values)
               else where_loop fs i conditions params
           | None \<Rightarrow> where_loop fs i conditions params
      else let (condition, value) = process_filter f i
           in if value \<noteq> GNil then where_loop fs (i + 1) (conditions @ [condition]) (params @ [value])
              else where_loop fs i (conditions @ [condition]) params)"

definition build_where_clause :: "field_filter list \<Rightarrow> string \<times> goval list" where
  "build_where_clause filters =
     (let (conditions, params) = where_loop filters 1 [] []
      in if length conditions > 0 then (''WHERE '' @ join '' AND '' conditions, params) else ([], params))"

definition build_order_clause :: "sort_order list \<Rightarrow> string" where
  "build_order_clause orders =
     (if orders = [] then []
      else ''ORDER BY '' @ join '', '' (map (\<lambda>d. od_field d @ '' '' @ od_direction d) orders))"

definition build_limit_clause :: "pagination \<Rightarrow> string" where
  "build_limit_clause p = ''LIMIT '' @ itoa (pg_limit p) @ '' OFFSET '' @ itoa (pg_offset p)"

definition to_select_sql :: "string \<Rightarrow> criteria \<Rightarrow> criteria_error + string \<times> goval list" where
  "to_select_sql base c =
     (case validate c of
        Some e \<Rightarrow> Inl e
      | None \<Rightarrow>
          let (where_parts, params) =
                (if cr_filters c \<noteq> []
                 then let (clause, params) = build_where_clause (cr_filters c) in ([clause], params)
                 else ([], []));
              order_parts = (if cr_orders c \<noteq> [] then [build_order_clause (cr_orders c)] else []);
              limit_parts = (if \<not> pagination_empty (cr_pagination c)
                             then [build_limit_clause (cr_pagination c)] else [])
          in Inr (join '' '' ([base] @ where_parts @ order_parts @ limit_parts), params))"

definition to_count_sql :: "string \<Rightarrow> criteria \<Rightarrow> criteria_error + string \<times> goval list" where
  "to_count_sql base c =
     (case validate c of
        Some e \<Rightarrow> Inl e
      | None \<Rightarrow>
          let (where_parts, params) =
                (if cr_filters c \<noteq> []
                 then let (clause, params) = build_where_clause (cr_filters c) in ([clause], params)
                 else ([], []))
          in Inr (join '' '' ([base] @ where_parts), params))"

section \<open>What a query means\<close>

text \<open>A query with its parameters written in: \<open>lit\<close> says how a value is written.\<close>

function substitute :: "(string \<Rightarrow> string) \<Rightarrow> string \<Rightarrow> string" where
  "substitute \<sigma> [] = []"
| "substitute \<sigma> (c # cs) =
     (if c = CHR ''$'' then \<sigma> (takeWhile digit cs) @ substitute \<sigma> (dropWhile digit cs)
      else c # substitute \<sigma> cs)"
  by pat_completeness auto
termination
  by (relation "measure (\<lambda>(\<sigma>, s). length s)") (auto intro: le_imp_less_Suc length_dropWhile_le)

definition bound :: "(goval \<Rightarrow> string) \<Rightarrow> goval list \<Rightarrow> string \<Rightarrow> string" where
  "bound lit params ds = lit (params ! (digits_val 0 ds - 1))"

text \<open>The condition that a filter states, and the query that criteria state, without placeholders.\<close>

definition condition_of :: "(goval \<Rightarrow> string) \<Rightarrow> field_filter \<Rightarrow> string option" where
  "condition_of lit f =
     (let field = fl_field f; op = fl_operator f; v = fl_value f in
      if op = OpIn \<or> op = OpNotIn
      then case as_any_slice v of
             Some (x # xs) \<Rightarrow>
               Some (field @ (if op = OpIn then '' IN ('' else '' NOT IN ('') @ join '', '' (map lit (x # xs)) @ '')'')
           | _ \<Rightarrow> None
      else Some (field @
        (if op = OpIsNull then '' IS NULL''
         else if op = OpIsNotNull then '' IS NOT NULL''
         else if op \<in> {OpLike, OpContains} then '' ILIKE '' @ lit (like_pattern v)
         else if op \<in> {OpNotLike, OpNotContains} then '' NOT ILIKE '' @ lit (like_pattern v)
         else if op = OpArrayContains then '' @> ARRAY['' @ lit v @ '']''
         else if op \<in> {OpNotEqual, OpGreaterThan, OpGreaterThanOrEqual, OpLessThan, OpLessThanOrEqual}
         then '' '' @ op @ '' '' @ lit v
         else '' = '' @ lit v)))"

definition where_of :: "(goval \<Rightarrow> string) \<Rightarrow> field_filter list \<Rightarrow> string" where
  "where_of lit fs =
     (let conditions = List.map_filter (condition_of lit) fs
      in if conditions = [] then [] else ''WHERE '' @ join '' AND '' conditions)"

definition query_of :: "(goval \<Rightarrow> string) \<Rightarrow> string \<Rightarrow> criteria \<Rightarrow> string" where
  "query_of lit base c =
     join '' '' ([base] @ (if cr_filters c = [] then [] else [where_of lit (cr_filters c)]) @
       (if cr_orders c = [] then [] else [build_order_clause (cr_orders c)]) @
       (if pagination_empty (cr_pagination c) then [] else [build_limit_clause (cr_pagination c)]))"

section \<open>Substitution through a text\<close>

definition ends_number :: "string \<Rightarrow> bool" where
  "ends_number y \<longleftrightarrow> y = [] \<or> \<not> digit (hd y)"

lemma ends_number_simps [simp]: "ends_number []" "ends_number (c # cs) = (\<not> digit c)"
  by (simp_all add: ends_number_def)

lemma not_digits [simp]:
  "\<not> digit CHR '' ''" "\<not> digit CHR '',''" "\<not> digit CHR '')''" "\<not> digit CHR '']''"
  by (simp_all add: digit_def byte_def)

lemma substitute_clean [simp]: "CHR ''$'' \<notin> set s \<Longrightarrow> substitute \<sigma> (s @ y) = s @ substitute \<sigma> y"
  by (induction s) auto

text \<open>In any context that does not continue a number, the text \<open>s\<close> becomes \<open>t\<close>.\<close>

definition means :: "(string \<Rightarrow> string) \<Rightarrow> string \<Rightarrow> string \<Rightarrow> bool" where
  "means \<sigma> s t \<longleftrightarrow> (\<forall>y. ends_number y \<longrightarrow> substitute \<sigma> (s @ y) = t @ substitute \<sigma> y)"

lemma means_clean: "CHR ''$'' \<notin> set s \<Longrightarrow> means \<sigma> s s"
  by (simp add: means_def)

lemma means_prefix: "CHR ''$'' \<notin> set s \<Longrightarrow> means \<sigma> x t \<Longrightarrow> means \<sigma> (s @ x) (s @ t)"
  by (simp add: means_def)

lemma means_suffix: "means \<sigma> x t \<Longrightarrow> ends_number s \<Longrightarrow> CHR ''$'' \<notin> set s \<Longrightarrow> means \<sigma> (x @ s) (t @ s)"
  by (cases "s = []") (simp_all add: means_def ends_number_def)

lemma itoa_digits: "0 \<le> i \<Longrightarrow> list_all digit (itoa i) \<and> digits_val 0 (itoa i) = nat i"
  using nat_str_digits [of "nat i"] by (simp add: itoa_def nat_str_val)

lemma takeWhile_number:
  "list_all digit ds \<Longrightarrow> ends_number y \<Longrightarrow> takeWhile digit (ds @ y) = ds \<and> dropWhile digit (ds @ y) = y"
  by (cases y) (simp_all add: list_all_iff)

lemma means_placeholder: "0 \<le> i \<Longrightarrow> means \<sigma> (placeholder i) (\<sigma> (itoa i))"
  using itoa_digits [of i] by (simp add: means_def placeholder_def takeWhile_number)

lemma means_join:
  assumes "list_all2 (means \<sigma>) xs ts" "CHR ''$'' \<notin> set sep" "ends_number sep" "sep \<noteq> []"
  shows "means \<sigma> (join sep xs) (join sep ts)"
  using assms(1)
proof (induction xs ts rule: list_all2_induct)
  case (Cons x xs t ts)
  show ?case
  proof (cases xs)
    case Nil
    then show ?thesis using Cons by (simp add: list_all2_Nil)
  next
    case (Cons x' xs')
    moreover from this obtain t' ts' where "ts = t' # ts'" using Cons.hyps(2) by (auto simp: list_all2_Cons1)
    moreover have "ends_number (sep @ y)" for y using assms(3,4) by (simp add: ends_number_def)
    ultimately show ?thesis
      using Cons.hyps(1) Cons.IH assms(2) by (simp add: means_def)
  qed
qed (simp add: means_clean)

section \<open>The parameters are those of the conditions\<close>

definition operators :: "string list" where
  "operators = requires_value @ [OpIsNull, OpIsNotNull]"

definition filter_ok :: "field_filter \<Rightarrow> bool" where
  "filter_ok f \<longleftrightarrow>
     filter_error f = None \<and> (fl_operator f \<in> set operators \<or> fl_value f \<noteq> GNil)"

lemma like_pattern_nil [simp]: "like_pattern v = GNil \<longleftrightarrow> v = GNil"
  by (cases v) (auto simp: like_pattern_def as_string_def)

lemma field_clean: "validate_field_name s = None \<Longrightarrow> CHR ''$'' \<notin> set s"
  by (auto simp: validate_field_name_def list_all_iff field_start_def field_char_def is_lower_def
      is_upper_def is_digit_def byte_def split: list.splits if_splits)

lemma parameter_means:
  assumes "CHR ''$'' \<notin> set pre" "ends_number post" "CHR ''$'' \<notin> set post" "0 \<le> i" "\<sigma> (itoa i) = lit"
  shows "means \<sigma> (pre @ placeholder i @ post) (pre @ lit @ post)"
  using assms means_placeholder [of i \<sigma>] by (intro means_prefix means_suffix) simp_all

text \<open>A condition with a parameter is the field, an operator, the placeholder and what closes it.\<close>

lemma parameter_condition:
  assumes "fl_operator f \<notin> {OpIn, OpNotIn, OpIsNull, OpIsNotNull}" "fl_value f \<noteq> GNil"
  obtains pre post v where "process_filter f i = (fl_field f @ pre @ placeholder i @ post, v)"
    "condition_of lit f = Some (fl_field f @ pre @ lit v @ post)"
    "CHR ''$'' \<notin> set pre" "post \<in> {[], '']''}" "v \<noteq> GNil"
proof (cases "fl_operator f = OpArrayContains")
  case True
  then show thesis
    using that [of "'' @> ARRAY[''" "'']''" "fl_value f"] assms(2)
    by (simp add: process_filter_def condition_of_def operator_defs Let_def)
next
  case False
  consider "fl_operator f \<in> {OpLike, OpContains}" | "fl_operator f \<in> {OpNotLike, OpNotContains}"
    | "fl_operator f \<in> {OpNotEqual, OpGreaterThan, OpGreaterThanOrEqual, OpLessThan, OpLessThanOrEqual}"
    | "fl_operator f \<notin> {OpLike, OpContains, OpNotLike, OpNotContains, OpNotEqual, OpGreaterThan,
         OpGreaterThanOrEqual, OpLessThan, OpLessThanOrEqual}" by blast
  then show thesis
  proof cases
    case 1
    then show thesis using that [of "'' ILIKE ''" "[]" "like_pattern (fl_value f)"] assms(2)
      by (auto simp: process_filter_def condition_of_def operator_defs Let_def)
  next
    case 2
    then show thesis using that [of "'' NOT ILIKE ''" "[]" "like_pattern (fl_value f)"] assms(2)
      by (auto simp: process_filter_def condition_of_def operator_defs Let_def)
  next
    case 3
    then show thesis using that [of "'' '' @ fl_operator f @ '' ''" "[]" "fl_value f"] assms(2)
      by (auto simp: process_filter_def condition_of_def operator_defs Let_def)
  next
    case 4
    then show thesis using that [of "'' = ''" "[]" "fl_value f"] assms(1,2) False
      by (auto simp: process_filter_def condition_of_def operator_defs Let_def)
  qed
qed

lemma process_filter_means:
  assumes "filter_ok f" "fl_operator f \<noteq> OpIn" "fl_operator f \<noteq> OpNotIn" "1 \<le> i"
    and "process_filter f i = (s, v)" and "v \<noteq> GNil \<Longrightarrow> \<sigma> (itoa i) = lit v"
  shows "\<exists>t. condition_of lit f = Some t \<and> means \<sigma> s t"
proof -
  have clean: "CHR ''$'' \<notin> set (fl_field f)" using assms(1) by (simp add: filter_ok_def filter_error_None field_clean)
  show ?thesis
  proof (cases "fl_operator f \<in> {OpIsNull, OpIsNotNull}")
    case True
    then have s: "s = fl_field f @ (if fl_operator f = OpIsNull then '' IS NULL'' else '' IS NOT NULL'')"
      using assms(5) by (auto simp: process_filter_def Let_def operator_defs)
    have "means \<sigma> s s" unfolding s using clean by (intro means_clean) simp
    moreover have "condition_of lit f = Some s"
      using True unfolding s by (auto simp: condition_of_def Let_def operator_defs)
    ultimately show ?thesis by blast
  next
    case False
    then have op: "fl_operator f \<notin> {OpIn, OpNotIn, OpIsNull, OpIsNotNull}" "fl_value f \<noteq> GNil"
      using assms(1-3) by (auto simp: filter_ok_def filter_error_None operators_def)
    obtain pre post w where
      f: "process_filter f i = (fl_field f @ pre @ placeholder i @ post, w)"
      "condition_of lit f = Some (fl_field f @ pre @ lit w @ post)"
      "CHR ''$'' \<notin> set pre" "post \<in> {[], '']''}" "w \<noteq> GNil"
      by (rule parameter_condition [OF op])
    have "means \<sigma> ((fl_field f @ pre) @ placeholder i @ post) ((fl_field f @ pre) @ lit w @ post)"
      using clean f assms(4-6) by (intro parameter_means) (auto simp: ends_number_def)
    with f assms(5) show ?thesis by simp
  qed
qed

lemma placeholders_mean:
  assumes "\<And>k. k < length vs \<Longrightarrow> \<sigma> (itoa (i + int k)) = lit (vs ! k)" "1 \<le> i"
  shows "list_all2 (means \<sigma>) (map (\<lambda>k. placeholder (i + int k)) [0..<length vs]) (map lit vs)"
proof (rule list_all2_all_nthI)
  fix k assume "k < length (map (\<lambda>k. placeholder (i + int k)) [0..<length vs])"
  then show "means \<sigma> (map (\<lambda>k. placeholder (i + int k)) [0..<length vs] ! k) (map lit vs ! k)"
    using assms means_placeholder [of "i + int k" \<sigma>] by simp
qed simp

lemma in_filter_means:
  assumes "filter_ok f" "fl_operator f \<in> {OpIn, OpNotIn}" "as_any_slice (fl_value f) = Some vs" "vs \<noteq> []" "1 \<le> i"
    and "\<And>k. k < length vs \<Longrightarrow> \<sigma> (itoa (i + int k)) = lit (vs ! k)"
  defines "s \<equiv> fl_field f @ '' '' @ (if fl_operator f = OpNotIn then ''NOT IN'' else ''IN'') @ '' ('' @
    join '', '' (map (\<lambda>k. placeholder (i + int k)) [0..<length vs]) @ '')''"
  shows "\<exists>t. condition_of lit f = Some t \<and> means \<sigma> s t"
proof -
  have clean: "CHR ''$'' \<notin> set (fl_field f)" using assms(1) by (simp add: filter_ok_def filter_error_None field_clean)
  let ?m = "join '', '' (map (\<lambda>k. placeholder (i + int k)) [0..<length vs])"
  have "means \<sigma> ?m (join '', '' (map lit vs))"
    using placeholders_mean [where i = i and vs = vs, OF _ assms(5)] assms(6) by (intro means_join) auto
  then have m: "means \<sigma> (?m @ '')'') (join '', '' (map lit vs) @ '')'')" by (intro means_suffix) auto
  have "condition_of lit f = Some ((fl_field f @ '' '' @ (if fl_operator f = OpNotIn then ''NOT IN'' else ''IN'') @ '' ('') @
      join '', '' (map lit vs) @ '')'')"
    using assms(2-4) by (cases vs) (auto simp: condition_of_def Let_def operator_defs)
  moreover have "means \<sigma> ((fl_field f @ '' '' @ (if fl_operator f = OpNotIn then ''NOT IN'' else ''IN'') @ '' ('') @ ?m @ '')'')
      ((fl_field f @ '' '' @ (if fl_operator f = OpNotIn then ''NOT IN'' else ''IN'') @ '' ('') @ join '', '' (map lit vs) @ '')'')"
    using clean m by (intro means_prefix) simp_all
  ultimately show ?thesis by (simp add: s_def)
qed

lemma list_all2_single_filter:
  "\<exists>t. g x = Some t \<and> R s t \<Longrightarrow> list_all2 R [s] (List.map_filter g [x])"
  by (auto simp: map_filter_simps)

text \<open>One filter: the conditions \<open>C\<close> and parameters \<open>P\<close> that it adds, at most one condition.\<close>

lemma where_loop_step:
  assumes "filter_ok f" "1 \<le> i" "where_loop (f # fs) i cs ps = r"
  shows "\<exists>C P. where_loop fs (i + int (length P)) (cs @ C) (ps @ P) = r \<and>
    (\<forall>\<sigma>. (\<forall>k < length P. \<sigma> (itoa (i + int k)) = lit (P ! k)) \<longrightarrow>
         list_all2 (means \<sigma>) C (List.map_filter (condition_of lit) [f]))"
proof (cases "fl_operator f \<in> {OpIn, OpNotIn}")
  case in_op: True
  show ?thesis
  proof (cases "as_any_slice (fl_value f) = None \<or> as_any_slice (fl_value f) = Some []")
    case True
    then have "where_loop fs i cs ps = r" using assms(3) in_op by auto
    moreover have "condition_of lit f = None" using True in_op by (auto simp: condition_of_def Let_def)
    ultimately show ?thesis by (intro exI [of _ "[]"]) (simp add: map_filter_simps)
  next
    case False
    then obtain vs where vs: "as_any_slice (fl_value f) = Some vs" "vs \<noteq> []" by auto
    let ?s = "fl_field f @ '' '' @ (if fl_operator f = OpNotIn then ''NOT IN'' else ''IN'') @ '' ('' @
      join '', '' (map (\<lambda>k. placeholder (i + int k)) [0..<length vs]) @ '')''"
    have "where_loop fs (i + int (length vs)) (cs @ [?s]) (ps @ vs) = r"
      using assms(3) in_op vs by (auto simp: Let_def)
    moreover have "\<exists>t. condition_of lit f = Some t \<and> means \<sigma> ?s t"
      if "\<forall>k < length vs. \<sigma> (itoa (i + int k)) = lit (vs ! k)" for \<sigma>
      using that by (intro in_filter_means [OF assms(1) in_op vs assms(2)]) blast
    ultimately show ?thesis
      by (intro exI [of _ "[?s]"] exI [of _ vs] conjI allI impI) (blast intro: list_all2_single_filter)+
  qed
next
  case False
  obtain s v where sv: "process_filter f i = (s, v)" by fastforce
  have head: "list_all2 (means \<sigma>) [s] (List.map_filter (condition_of lit) [f])"
    if "v \<noteq> GNil \<Longrightarrow> \<sigma> (itoa i) = lit v" for \<sigma>
    using False that
    by (intro list_all2_single_filter process_filter_means [OF assms(1) _ _ assms(2) sv]) auto
  show ?thesis
  proof (cases "v = GNil")
    case True
    then have "where_loop fs i (cs @ [s]) ps = r" using assms(3) False sv by simp
    with head True show ?thesis by (intro exI [of _ "[s]"] exI [of _ "[]"]) simp
  next
    case nn: False
    then have "where_loop fs (i + 1) (cs @ [s]) (ps @ [v]) = r" using assms(3) False sv by simp
    with head show ?thesis by (intro exI [of _ "[s]"] exI [of _ "[v]"]) simp
  qed
qed

lemma where_loop_means:
  assumes "list_all filter_ok fs" "where_loop fs i cs ps = (cs', ps')" "i = int (length ps) + 1"
  shows "\<exists>C P. cs' = cs @ C \<and> ps' = ps @ P \<and>
    list_all2 (means (bound lit ps')) C (List.map_filter (condition_of lit) fs)"
  using assms
proof (induction fs arbitrary: i cs ps)
  case Nil
  then show ?case by (simp add: map_filter_simps)
next
  case (Cons f fs)
  obtain C1 P1 where
    one: "where_loop fs (i + int (length P1)) (cs @ C1) (ps @ P1) = (cs', ps')"
      "\<forall>\<sigma>. (\<forall>k < length P1. \<sigma> (itoa (i + int k)) = lit (P1 ! k)) \<longrightarrow>
         list_all2 (means \<sigma>) C1 (List.map_filter (condition_of lit) [f])"
    using where_loop_step [of f i fs cs ps "(cs', ps')" lit] Cons.prems by auto
  then obtain C P where rest: "cs' = (cs @ C1) @ C" "ps' = (ps @ P1) @ P"
      "list_all2 (means (bound lit ps')) C (List.map_filter (condition_of lit) fs)"
    using Cons.IH [of "i + int (length P1)" "cs @ C1" "ps @ P1"] Cons.prems by auto
  have "bound lit ps' (itoa (i + int k)) = lit (P1 ! k)" if "k < length P1" for k
    using itoa_digits [of "i + int k"] Cons.prems(3) rest(2) that
    by (simp add: bound_def nat_add_distrib nth_append)
  with one(2) have "list_all2 (means (bound lit ps')) C1 (List.map_filter (condition_of lit) [f])" by blast
  from list_all2_appendI [OF this rest(3)]
  have "list_all2 (means (bound lit ps')) (C1 @ C) (List.map_filter (condition_of lit) (f # fs))"
    by (simp add: map_filter_simps split: option.splits)
  with rest(1,2) show ?case by auto
qed

lemma where_clause_means:
  assumes "list_all filter_ok fs" "build_where_clause fs = (clause, params)"
  shows "means (bound lit params) clause (where_of lit fs)"
proof -
  obtain C where C: "where_loop fs 1 [] [] = (C, params)"
      "clause = (if C = [] then [] else ''WHERE '' @ join '' AND '' C)"
    using assms(2) by (auto simp: build_where_clause_def split: prod.splits if_splits)
  let ?ts = "List.map_filter (condition_of lit) fs"
  have ts: "list_all2 (means (bound lit params)) C ?ts"
    using where_loop_means [OF assms(1) C(1)] by simp
  then have "means (bound lit params) (join '' AND '' C) (join '' AND '' ?ts)"
    by (intro means_join) auto
  moreover have "C = [] \<longleftrightarrow> ?ts = []" using list_all2_lengthD [OF ts] by auto
  ultimately show ?thesis
    by (auto simp: C(2) where_of_def Let_def means_clean means_prefix [of "''WHERE ''", simplified])
qed

lemma clean_join: "CHR ''$'' \<notin> set sep \<Longrightarrow> \<forall>x \<in> set xs. CHR ''$'' \<notin> set x \<Longrightarrow> CHR ''$'' \<notin> set (join sep xs)"
  by (induction sep xs rule: join.induct) auto

lemma order_error_None:
  "order_error d = None \<longleftrightarrow>
     validate_field_name (od_field d) = None \<and> (od_direction d = OrderAsc \<or> od_direction d = OrderDesc)"
  by (auto simp: order_error_def split: option.splits)

lemma order_clause_clean:
  assumes "list_all (\<lambda>d. order_error d = None) ds"
  shows "CHR ''$'' \<notin> set (build_order_clause ds)"
proof -
  have "CHR ''$'' \<notin> set (od_field d @ '' '' @ od_direction d)" if "d \<in> set ds" for d
    using assms that field_clean [of "od_field d"]
    by (auto simp: list_all_iff order_error_None OrderAsc_def OrderDesc_def)
  then have "CHR ''$'' \<notin> set (join '', '' (map (\<lambda>d. od_field d @ '' '' @ od_direction d) ds))"
    by (intro clean_join) auto
  then show ?thesis by (simp add: build_order_clause_def)
qed

lemma limit_clause_clean: "CHR ''$'' \<notin> set (build_limit_clause p)"
proof -
  have "CHR ''$'' \<notin> set (itoa n)" for n
    using nat_str_digits [of "nat n"] nat_str_digits [of "nat (- n)"]
    by (auto simp: itoa_def list_all_iff digit_def byte_def)
  then show ?thesis by (simp add: build_limit_clause_def)
qed

text \<open>C10: The query and its parameters are right together: with every placeholder \<open>$k\<close> replaced by
  the \<open>k\<close>th parameter, however values are written, the text is the query of the criteria with each
  value written in its own condition, LIKE patterns in their wildcards and IN lists in their order.
  This needs valid criteria, a base query without placeholders, and a value for every filter with an
  operator that the package does not define.\<close>

theorem select_binds_values:
  assumes "to_select_sql base c = Inr (query, params)" and "CHR ''$'' \<notin> set base"
    and "list_all (\<lambda>f. fl_operator f \<in> set operators \<or> fl_value f \<noteq> GNil) (cr_filters c)"
  shows "substitute (bound lit params) query = query_of lit base c"
proof -
  have v: "list_all (\<lambda>f. filter_error f = None) (cr_filters c)" "list_all (\<lambda>d. order_error d = None) (cr_orders c)"
    using assms(1) validate_None [of c] by (auto simp: to_select_sql_def split: option.splits)
  then have ok: "list_all filter_ok (cr_filters c)" using assms(3) by (auto simp: list_all_iff filter_ok_def)
  let ?m = "means (bound lit params)"
  let ?ol = "(if cr_orders c = [] then [] else [build_order_clause (cr_orders c)]) @
    (if pagination_empty (cr_pagination c) then [] else [build_limit_clause (cr_pagination c)])"
  have ol: "list_all2 ?m ?ol ?ol"
    using order_clause_clean [OF v(2)] limit_clause_clean by (simp add: means_clean)
  have b: "?m base base" using assms(2) by (rule means_clean)
  have "?m query (query_of lit base c)"
  proof (cases "cr_filters c = []")
    case True
    then have "query = join '' '' (base # ?ol)"
      using assms(1) by (auto simp: to_select_sql_def Let_def split: option.splits)
    moreover have "?m (join '' '' (base # ?ol)) (join '' '' (base # ?ol))"
      using b ol by (intro means_join) simp_all
    ultimately show ?thesis using True by (simp add: query_of_def)
  next
    case False
    obtain w where w: "build_where_clause (cr_filters c) = (w, params)"
        and q: "query = join '' '' (base # w # ?ol)"
      using assms(1) False by (auto simp: to_select_sql_def Let_def split: option.splits prod.splits)
    have "?m (join '' '' (base # w # ?ol)) (join '' '' (base # where_of lit (cr_filters c) # ?ol))"
      using b ol where_clause_means [OF ok w, of lit] by (intro means_join) (simp_all add: list_all2_appendI)
    then show ?thesis using False q by (simp add: query_of_def)
  qed
  then have "substitute (bound lit params) (query @ []) = query_of lit base c @ substitute (bound lit params) []"
    unfolding means_def by (rule allE [of _ "[]"]) simp
  then show ?thesis by simp
qed

section \<open>Nothing of a request gets into the text\<close>

definition sql_char :: "char \<Rightarrow> bool" where
  "sql_char c \<longleftrightarrow> is_lower c \<or> is_upper c \<or> is_digit c \<or> c \<in> set '' $_.,()[]=!<>@''"

lemma safe_join: "list_all sql_char sep \<Longrightarrow> list_all (list_all sql_char) xs \<Longrightarrow> list_all sql_char (join sep xs)"
  by (induction sep xs rule: join.induct) auto

lemma safe_field: "validate_field_name s = None \<Longrightarrow> list_all sql_char s"
  by (auto simp: validate_field_name_def list_all_iff field_start_def field_char_def sql_char_def
      split: list.splits if_splits)

lemma safe_itoa: "0 \<le> n \<Longrightarrow> list_all sql_char (itoa n)"
  using nat_str_digits [of "nat n"] by (auto simp: itoa_def list_all_iff digit_def is_digit_def sql_char_def)

lemma safe_literals:
  "list_all (list_all sql_char) ['' IN ('', '' NOT IN ('', '' IS NULL'', '' IS NOT NULL'', '' ILIKE '', '' NOT ILIKE '',
     '' @> ARRAY['', '']'', '' = '', '' '', '')'', '', '', '' AND '', ''WHERE '', ''ORDER BY '', ''LIMIT '', '' OFFSET '',
     ''$'', ''IN'', ''NOT IN'', '' ('']"
  "list_all (list_all sql_char) [OpEqual, OpNotEqual, OpGreaterThan, OpGreaterThanOrEqual, OpLessThan, OpLessThanOrEqual,
     OrderAsc, OrderDesc]"
  by (simp_all add: sql_char_def is_lower_def is_upper_def is_digit_def byte_def operator_defs)

lemmas safe_texts [simp] = safe_literals [simplified]

lemma safe_placeholder: "0 \<le> i \<Longrightarrow> list_all sql_char (placeholder i)"
  using safe_itoa [of i] by (simp add: placeholder_def)

lemma safe_process_filter:
  "list_all sql_char (fl_field f) \<Longrightarrow> 0 \<le> i \<Longrightarrow> list_all sql_char (fst (process_filter f i))"
  using safe_placeholder [of i] by (auto simp: process_filter_def Let_def)

lemma safe_where_loop:
  "list_all (\<lambda>f. list_all sql_char (fl_field f)) fs \<Longrightarrow> 0 \<le> i \<Longrightarrow> list_all (list_all sql_char) cs \<Longrightarrow>
   list_all (list_all sql_char) (fst (where_loop fs i cs ps))"
proof (induction fs arbitrary: i cs ps)
  case (Cons f fs)
  have safe: "list_all sql_char (fl_field f)" "list_all (\<lambda>f. list_all sql_char (fl_field f)) fs"
    using Cons.prems(1) by simp_all
  have "list_all sql_char (join '', '' (map (\<lambda>k. placeholder (i + int k)) [0..<n]))" for n
  proof (intro safe_join)
    have "list_all sql_char (placeholder (i + int k))" for k using Cons.prems(2) by (intro safe_placeholder) simp
    then show "list_all (list_all sql_char) (map (\<lambda>k. placeholder (i + int k)) [0..<n])" by (simp add: list_all_iff)
  qed simp
  moreover have "list_all sql_char (fst (process_filter f i))"
    using safe(1) Cons.prems(2) by (rule safe_process_filter)
  ultimately show ?case
    using safe Cons.prems Cons.IH by (auto simp: Let_def split: option.splits prod.splits)
qed simp

lemma safe_where_clause:
  assumes "list_all (\<lambda>f. filter_error f = None) fs"
  shows "list_all sql_char (fst (build_where_clause fs))"
proof -
  have "list_all (\<lambda>f. list_all sql_char (fl_field f)) fs"
    using assms by (auto simp: list_all_iff filter_error_None dest!: safe_field)
  then have "list_all (list_all sql_char) (fst (where_loop fs 1 [] []))" by (intro safe_where_loop) auto
  then have "list_all sql_char (join '' AND '' (fst (where_loop fs 1 [] [])))" by (intro safe_join) auto
  then show ?thesis by (auto simp: build_where_clause_def split: prod.splits)
qed

lemma safe_order_clause:
  assumes "list_all (\<lambda>d. order_error d = None) ds"
  shows "list_all sql_char (build_order_clause ds)"
proof -
  have "list_all sql_char (od_field d @ '' '' @ od_direction d)" if "d \<in> set ds" for d
  proof -
    have "validate_field_name (od_field d) = None" "od_direction d = OrderAsc \<or> od_direction d = OrderDesc"
      using assms that by (auto simp: list_all_iff order_error_None)
    then show ?thesis by (auto simp: safe_field)
  qed
  then have "list_all sql_char (join '', '' (map (\<lambda>d. od_field d @ '' '' @ od_direction d) ds))"
    by (intro safe_join) (auto simp: list_all_iff)
  then show ?thesis by (simp add: build_order_clause_def)
qed

lemma safe_limit_clause:
  "pagination_error p = None \<Longrightarrow> \<not> pagination_empty p \<Longrightarrow> list_all sql_char (build_limit_clause p)"
  using safe_itoa [of "pg_limit p"] safe_itoa [of "pg_offset p"]
  by (auto simp: pagination_error_def build_limit_clause_def split: if_splits)

text \<open>All of a value that the text depends on, and all of the criteria.\<close>

definition value_shape :: "goval \<Rightarrow> bool \<times> nat option" where
  "value_shape v = (v = GNil, map_option length (as_any_slice v))"

definition filter_shape :: "field_filter \<Rightarrow> string \<times> string \<times> bool \<times> nat option" where
  "filter_shape f = (fl_field f, fl_operator f, value_shape (fl_value f))"

definition criteria_shape ::
  "criteria \<Rightarrow> (string \<times> string \<times> bool \<times> nat option) list \<times> sort_order list \<times> pagination" where
  "criteria_shape c = (map filter_shape (cr_filters c), cr_orders c, cr_pagination c)"

lemma filter_shape_eq:
  assumes "filter_shape f = filter_shape f'"
  shows "fl_field f = fl_field f'" "fl_operator f = fl_operator f'" "fl_value f = GNil \<longleftrightarrow> fl_value f' = GNil"
    "map_option length (as_any_slice (fl_value f)) = map_option length (as_any_slice (fl_value f'))"
  using assms by (auto simp: filter_shape_def value_shape_def)

lemma process_filter_shape:
  assumes "filter_shape f = filter_shape f'"
  shows "fst (process_filter f i) = fst (process_filter f' i)"
    "snd (process_filter f i) = GNil \<longleftrightarrow> snd (process_filter f' i) = GNil"
  using filter_shape_eq [OF assms] by (simp_all add: process_filter_def Let_def)

lemma where_loop_shape:
  "map filter_shape fs = map filter_shape fs' \<Longrightarrow> fst (where_loop fs i cs ps) = fst (where_loop fs' i cs ps')"
proof (induction fs arbitrary: fs' i cs ps ps')
  case (Cons f fs)
  then obtain g gs where fs': "fs' = g # gs" "filter_shape f = filter_shape g" "map filter_shape fs = map filter_shape gs"
    by (auto simp: Cons_eq_map_conv)
  note same = filter_shape_eq [OF fs'(2)] process_filter_shape [OF fs'(2), of i]
  show ?case
  proof (cases "fl_operator g \<in> {OpIn, OpNotIn}")
    case True
    show ?thesis
    proof (cases "as_any_slice (fl_value g)")
      case None
      then show ?thesis using True same fs' Cons.IH [OF fs'(3)] by auto
    next
      case (Some vs)
      then obtain us where "as_any_slice (fl_value f) = Some us" "length us = length vs"
        using same(4) by (cases "as_any_slice (fl_value f)") auto
      then show ?thesis using Some True same fs' Cons.IH [OF fs'(3)] by (auto simp: Let_def)
    qed
  next
    case False
    then show ?thesis
      using same fs' Cons.IH [OF fs'(3)]
      by (cases "process_filter f i"; cases "process_filter g i") auto
  qed
qed simp

lemma validate_shape: "criteria_shape c' = criteria_shape c \<Longrightarrow> validate c' = validate c"
proof -
  assume shape: "criteria_shape c' = criteria_shape c"
  have e: "filter_error f = filter_error g" if "filter_shape f = filter_shape g" for f g
    unfolding filter_error_def filter_shape_eq(1-3) [OF that] ..
  have "first_error filter_error fs = first_error filter_error gs" if "map filter_shape fs = map filter_shape gs" for fs gs
    using that
  proof (induction fs arbitrary: gs)
    case (Cons f fs)
    then obtain g gs' where gs: "gs = g # gs'" "filter_shape f = filter_shape g" "map filter_shape fs = map filter_shape gs'"
      by (auto simp: Cons_eq_map_conv)
    show ?case using Cons.IH [OF gs(3)] e [OF gs(2)] by (simp add: gs(1) split: option.split)
  qed simp
  from this [of "cr_filters c'" "cr_filters c"]
  have "first_error filter_error (cr_filters c') = first_error filter_error (cr_filters c)"
    using shape by (simp add: criteria_shape_def)
  then show ?thesis using shape by (simp add: validate_def criteria_shape_def split: option.split)
qed

lemma join_Cons: "join sep (x # xs) = x @ concat (map ((@) sep) xs)"
  by (induction xs arbitrary: x) auto

definition text_parts :: "criteria \<Rightarrow> string list" where
  "text_parts c =
     (if cr_filters c = [] then [] else [fst (build_where_clause (cr_filters c))]) @
     (if cr_orders c = [] then [] else [build_order_clause (cr_orders c)]) @
     (if pagination_empty (cr_pagination c) then [] else [build_limit_clause (cr_pagination c)])"

lemma select_text:
  "to_select_sql base c = (case validate c of
     Some e \<Rightarrow> Inl e
   | None \<Rightarrow> Inr (join '' '' (base # text_parts c),
                 if cr_filters c = [] then [] else snd (build_where_clause (cr_filters c))))"
proof (cases "validate c")
  case None
  obtain w p where w: "build_where_clause (cr_filters c) = (w, p)" by fastforce
  show ?thesis
    unfolding to_select_sql_def None text_parts_def w by (simp only: Let_def prod.case option.case fst_conv snd_conv split: if_split) simp
qed (simp add: to_select_sql_def)

text \<open>The count query is the select query of the same filters without order and page: it has the
  same conditions and the same parameters.\<close>

theorem count_matches_select:
  assumes "validate c = None"
  shows "to_count_sql base c = to_select_sql base (c\<lparr>cr_orders := [], cr_pagination := (cr_pagination c)\<lparr>pg_limit := 0\<rparr>\<rparr>)"
proof -
  let ?c = "c\<lparr>cr_orders := [], cr_pagination := (cr_pagination c)\<lparr>pg_limit := 0\<rparr>\<rparr>"
  have "validate ?c = None"
    using assms by (simp add: validate_None pagination_error_def pagination_empty_def)
  then show ?thesis
    using assms by (simp add: to_count_sql_def to_select_sql_def pagination_empty_def Let_def split: prod.splits)
qed

text \<open>The text of the two queries: its characters, and what it depends on.\<close>

definition safe_text :: "(string \<Rightarrow> criteria \<Rightarrow> criteria_error + string \<times> goval list) \<Rightarrow> string \<Rightarrow> criteria \<Rightarrow> bool" where
  "safe_text conv base c \<longleftrightarrow> (\<exists>query params. conv base c = Inr (query, params) \<and>
     (\<exists>rest. query = base @ rest \<and> list_all sql_char rest) \<and>
     (\<forall>c'. criteria_shape c' = criteria_shape c \<longrightarrow> (\<exists>params'. conv base c' = Inr (query, params'))))"

lemma text_parts_shape:
  assumes "criteria_shape c' = criteria_shape c"
  shows "text_parts c' = text_parts c"
proof -
  have "fst (where_loop (cr_filters c') 1 [] []) = fst (where_loop (cr_filters c) 1 [] [])"
    using assms by (intro where_loop_shape) (simp add: criteria_shape_def)
  then have "fst (build_where_clause (cr_filters c')) = fst (build_where_clause (cr_filters c))"
    by (auto simp: build_where_clause_def split: prod.splits)
  moreover have "cr_filters c' = [] \<longleftrightarrow> cr_filters c = []" using assms by (auto simp: criteria_shape_def)
  ultimately show ?thesis using assms by (simp add: text_parts_def criteria_shape_def)
qed

lemma select_safe:
  assumes valid: "validate c = None"
  shows "safe_text to_select_sql base c"
proof -
  have v: "list_all (\<lambda>f. filter_error f = None) (cr_filters c)" "list_all (\<lambda>d. order_error d = None) (cr_orders c)"
      "pagination_error (cr_pagination c) = None"
    using valid validate_None [of c] by auto
  have "list_all (list_all sql_char) (text_parts c)"
    using safe_where_clause [OF v(1)] safe_order_clause [OF v(2)] safe_limit_clause [OF v(3)] by (simp add: text_parts_def)
  then have "\<exists>rest. join '' '' (base # text_parts c) = base @ rest \<and> list_all sql_char rest"
    unfolding join_Cons by (auto simp: list_all_iff)
  moreover have "\<exists>params'. to_select_sql base c' = Inr (join '' '' (base # text_parts c), params')"
    if "criteria_shape c' = criteria_shape c" for c'
    using valid validate_shape [OF that] text_parts_shape [OF that] by (simp add: select_text)
  ultimately show ?thesis using valid by (auto simp: safe_text_def select_text)
qed

lemma count_safe:
  assumes valid: "validate c = None"
  shows "safe_text to_count_sql base c"
proof -
  let ?count = "\<lambda>c. c\<lparr>cr_orders := [], cr_pagination := (cr_pagination c)\<lparr>pg_limit := 0\<rparr>\<rparr>"
  have "validate (?count c) = None"
    using valid by (simp add: validate_None pagination_error_def pagination_empty_def)
  from select_safe [OF this, of base] obtain query params rest where
    q: "to_select_sql base (?count c) = Inr (query, params)" "query = base @ rest" "list_all sql_char rest"
    and same: "\<And>c'. criteria_shape c' = criteria_shape (?count c) \<Longrightarrow> \<exists>params'. to_select_sql base c' = Inr (query, params')"
    unfolding safe_text_def by blast
  have "\<exists>params'. to_count_sql base c' = Inr (query, params')" if "criteria_shape c' = criteria_shape c" for c'
  proof -
    have "validate c' = None" using validate_shape [OF that] valid by simp
    moreover have "criteria_shape (?count c') = criteria_shape (?count c)" using that by (simp add: criteria_shape_def)
    ultimately show ?thesis using same by (simp add: count_matches_select)
  qed
  with q valid show ?thesis by (auto simp: safe_text_def count_matches_select)
qed

text \<open>C9: Whatever fields, operators, orders, values and pages a request asks for, the text that the
  converter puts after the base query, in the select query and in the count query, holds letters, digits and
  \<open>_ $ . , ( ) [ ] = ! < > @\<close> and spaces
  only: no quote, no semicolon, no comment. And no value gets into it: two criteria with the same
  fields, operators, orders and page, whose values agree in being nil and in the length of a slice of
  \<open>interface{}\<close>, give the same text. Both converters give a text exactly for the valid criteria.\<close>

theorem sql_text_safe:
  assumes "conv \<in> {to_select_sql, to_count_sql}"
  shows "((\<exists>query params. conv base c = Inr (query, params)) \<longleftrightarrow> validate c = None) \<and>
    (\<forall>query params. conv base c = Inr (query, params) \<longrightarrow>
       (\<exists>rest. query = base @ rest \<and> list_all sql_char rest) \<and>
       (\<forall>c'. criteria_shape c' = criteria_shape c \<longrightarrow> (\<exists>params'. conv base c' = Inr (query, params'))))"
proof (cases "validate c")
  case None
  have "safe_text conv base c" using assms select_safe [OF None] count_safe [OF None] by blast
  with None show ?thesis unfolding safe_text_def by fastforce
next
  case (Some e)
  have "conv base c = Inl e" using assms Some by (auto simp: to_select_sql_def to_count_sql_def)
  with Some show ?thesis by simp
qed

section \<open>Examples\<close>

definition demo_criteria :: criteria where
  "demo_criteria =
     new_criteria
       [new_filter ''name'' OpLike (go_string ''ana''),
        new_filter ''state'' OpIn (GSlice ''[]interface {}'' (Some [go_string ''new'', go_string ''done'']))]
       [new_order ''age'' OrderAsc] (new_pagination 2 5)"

lemma demo_criteria_valid: "validate demo_criteria = None"
  by (simp add: demo_criteria_def validate_None filter_error_None order_error_None new_criteria_def new_filter_def
      new_order_def validate_field_name_def field_start_def field_char_def is_lower_def is_upper_def is_digit_def
      byte_def operator_defs requires_value_def pagination_error_def pagination_empty_def int64_range_def wrap64_def)

lemma demo_select:
  "to_select_sql ''SELECT * FROM t'' demo_criteria =
     Inr (''SELECT * FROM t WHERE name ILIKE $1 AND state IN ($2, $3) ORDER BY age ASC LIMIT 5 OFFSET 5'',
          [go_string ''%ana%'', go_string ''new'', go_string ''done''])"
proof -
  have "to_select_sql ''SELECT * FROM t'' demo_criteria =
      Inr (join '' '' (''SELECT * FROM t'' # text_parts demo_criteria), snd (build_where_clause (cr_filters demo_criteria)))"
    by (simp add: select_text demo_criteria_valid) (simp add: demo_criteria_def new_criteria_def)
  then show ?thesis
    by (simp add: text_parts_def demo_criteria_def new_criteria_def new_filter_def new_order_def build_where_clause_def
        process_filter_def like_pattern_def as_string_def as_any_slice_def str_contains_def operator_defs placeholder_def
        itoa_def nat_str.simps build_order_clause_def build_limit_clause_def pagination_empty_def int64_range_def wrap64_def
        upt_rec char_of_def bit_0)
qed

theorem select_binds_values_witness:
  "substitute (bound (\<lambda>v. case v of GString _ s \<Rightarrow> CHR 0x27 # s @ [CHR 0x27] | _ \<Rightarrow> [])
       [go_string ''%ana%'', go_string ''new'', go_string ''done''])
     ''SELECT * FROM t WHERE name ILIKE $1 AND state IN ($2, $3) ORDER BY age ASC LIMIT 5 OFFSET 5'' =
   query_of (\<lambda>v. case v of GString _ s \<Rightarrow> CHR 0x27 # s @ [CHR 0x27] | _ \<Rightarrow> []) ''SELECT * FROM t'' demo_criteria"
  by (rule select_binds_values [OF demo_select])
    (simp_all add: demo_criteria_def new_criteria_def new_filter_def operators_def requires_value_def)

theorem sql_text_safe_witness:
  "list_all sql_char '' WHERE name ILIKE $1 AND state IN ($2, $3) ORDER BY age ASC LIMIT 5 OFFSET 5'' \<and>
   (\<exists>query params. to_count_sql ''SELECT COUNT(*) FROM t'' demo_criteria = Inr (query, params))"
proof -
  obtain rest where
    "''SELECT * FROM t WHERE name ILIKE $1 AND state IN ($2, $3) ORDER BY age ASC LIMIT 5 OFFSET 5'' =
       ''SELECT * FROM t'' @ rest" "list_all sql_char rest"
    using sql_text_safe [of to_select_sql "''SELECT * FROM t''" demo_criteria] demo_select by blast
  moreover have "\<exists>query params. to_count_sql ''SELECT COUNT(*) FROM t'' demo_criteria = Inr (query, params)"
    using sql_text_safe [of to_count_sql "''SELECT COUNT(*) FROM t''" demo_criteria] demo_criteria_valid by blast
  ultimately show ?thesis by simp
qed

theorem count_matches_select_witness:
  "\<exists>params. to_count_sql ''SELECT COUNT(*) FROM t'' demo_criteria =
     Inr (''SELECT COUNT(*) FROM t WHERE name ILIKE $1 AND state IN ($2, $3)'', params)"
proof -
  let ?c = "demo_criteria\<lparr>cr_orders := [], cr_pagination := (cr_pagination demo_criteria)\<lparr>pg_limit := 0\<rparr>\<rparr>"
  have "validate ?c = None"
    using demo_criteria_valid by (simp add: validate_None pagination_error_def pagination_empty_def)
  moreover have "join '' '' (''SELECT COUNT(*) FROM t'' # text_parts ?c) =
      ''SELECT COUNT(*) FROM t WHERE name ILIKE $1 AND state IN ($2, $3)''"
    by (simp add: text_parts_def demo_criteria_def new_criteria_def new_filter_def build_where_clause_def
        process_filter_def like_pattern_def as_string_def as_any_slice_def str_contains_def operator_defs placeholder_def
        itoa_def nat_str.simps pagination_empty_def upt_rec char_of_def bit_0)
  ultimately show ?thesis
    unfolding count_matches_select [OF demo_criteria_valid] by (simp add: select_text del: join.simps)
qed

end
