(* ===== verification/Criteria_Memory.thy ===== *)
theory Criteria_Memory
  imports Criteria_SQL "HOL-Library.Multiset"
begin

text \<open>
  Criteria on slices in memory, \<open>criteria/memory_filter.go\<close>.

  An item is what reflection sees of it: a struct (or a pointer to one) with its fields, each with
  its name, its JSON tag and its value, or something else. Only exported fields are modelled; on an
  unexported one that a criterion names, \<open>Interface\<close> panics.

  The parts of the library that depend on Unicode tables are arguments: \<open>lower\<close> is
  \<open>strings.ToLower\<close> and \<open>fold\<close> is \<open>strings.EqualFold\<close>. So is \<open>sort_slice\<close>, which is \<open>sort.Slice\<close>: its
  documentation leaves open where it puts items that compare equal.
\<close>

section \<open>Items and their fields\<close>

record struct_field =
  sf_name :: string
  sf_json :: string
  sf_value :: goval

datatype item = Struct "struct_field list" | NoStruct

record unicode =
  to_lower :: "string \<Rightarrow> string"
  equal_fold :: "string \<Rightarrow> string \<Rightarrow> bool"

fun field_by_tag :: "struct_field list \<Rightarrow> string \<Rightarrow> goval option" where
  "field_by_tag [] name = None"
| "field_by_tag (f # fs) name =
     (if sf_json f \<noteq> [] \<and> hd (str_split CHR '','' (sf_json f)) = name then Some (sf_value f)
      else if sf_name f = name then Some (sf_value f)
      else field_by_tag fs name)"

fun field_by_fold :: "unicode \<Rightarrow> struct_field list \<Rightarrow> string \<Rightarrow> goval option" where
  "field_by_fold u [] name = None"
| "field_by_fold u (f # fs) name =
     (if equal_fold u (sf_name f) name then Some (sf_value f) else field_by_fold u fs name)"

definition get_field_value :: "unicode \<Rightarrow> item \<Rightarrow> string \<Rightarrow> goval option" where
  "get_field_value u v name =
     (case v of
        NoStruct \<Rightarrow> None
      | Struct fs \<Rightarrow>
          (case field_by_tag fs name of Some x \<Rightarrow> Some x | None \<Rightarrow> field_by_fold u fs name))"

section \<open>Operators\<close>

text \<open>\<open>reflect.Value.IsZero\<close>, of a value that is not nil.\<close>

definition is_zero :: "goval \<Rightarrow> bool" where
  "is_zero v =
     (case v of
        GNil \<Rightarrow> False | GBool _ b \<Rightarrow> \<not> b | GInt _ n \<Rightarrow> n = 0 | GUint _ n \<Rightarrow> n = 0 | GFloat _ q \<Rightarrow> q = 0
      | GString _ s \<Rightarrow> s = [] | GSlice _ xs \<Rightarrow> xs = None | GOther _ n \<Rightarrow> n = 0)"

definition value_string :: "goval \<Rightarrow> string option" where
  "value_string v = (case v of GString _ s \<Rightarrow> Some s | _ \<Rightarrow> None)"

definition to_float :: "goval \<Rightarrow> rat option" where
  "to_float v =
     (case v of
        GInt _ n \<Rightarrow> f64_of_int n
      | GUint _ n \<Rightarrow> f64_of_int (int n)
      | GFloat _ q \<Rightarrow> Some q
      | _ \<Rightarrow> None)"

text \<open>\<open>strings.Trim\<close> of spaces.\<close>

definition trim_spaces :: "string \<Rightarrow> string" where
  "trim_spaces s = rev (dropWhile (\<lambda>c. c = CHR '' '') (rev (dropWhile (\<lambda>c. c = CHR '' '') s)))"

definition match_like :: "unicode \<Rightarrow> goval \<Rightarrow> goval \<Rightarrow> bool" where
  "match_like u field_val pattern =
     (case (value_string field_val, value_string pattern) of
        (Some fs, Some ps) \<Rightarrow>
          let clean = trim_spaces (filter (\<lambda>c. c \<noteq> CHR ''%'') ps)
          in if clean = [] then True else str_contains (to_lower u fs) (to_lower u clean)
      | _ \<Rightarrow> False)"

definition match_in :: "goval \<Rightarrow> goval \<Rightarrow> bool" where
  "match_in field_val filter_val =
     (case filter_val of
        GSlice _ None \<Rightarrow> False
      | GSlice _ (Some vs) \<Rightarrow> list_ex (\<lambda>v. field_val = v) vs
      | _ \<Rightarrow> field_val = filter_val)"

definition compare_numeric :: "string \<Rightarrow> goval \<Rightarrow> goval \<Rightarrow> bool" where
  "compare_numeric op a b =
     (case (to_float a, to_float b) of
        (Some x, Some y) \<Rightarrow>
          if op = OpGreaterThan then x > y
          else if op = OpGreaterThanOrEqual then x \<ge> y
          else if op = OpLessThan then x < y
          else if op = OpLessThanOrEqual then x \<le> y
          else False
      | _ \<Rightarrow> False)"

definition apply_operator :: "unicode \<Rightarrow> string \<Rightarrow> goval \<Rightarrow> goval \<Rightarrow> bool" where
  "apply_operator u op field_val filter_val =
     (if op = OpEqual then field_val = filter_val
      else if op = OpNotEqual then field_val \<noteq> filter_val
      else if op = OpLike then match_like u field_val filter_val
      else if op = OpNotLike then \<not> match_like u field_val filter_val
      else if op = OpIsNull then field_val = GNil \<or> is_zero field_val
      else if op = OpIsNotNull then field_val \<noteq> GNil \<and> \<not> is_zero field_val
      else if op = OpIn then match_in field_val filter_val
      else if op = OpNotIn then \<not> match_in field_val filter_val
      else if op = OpContains then match_like u field_val filter_val
      else if op = OpNotContains then \<not> match_like u field_val filter_val
      else if op \<in> {OpGreaterThan, OpGreaterThanOrEqual, OpLessThan, OpLessThanOrEqual}
      then compare_numeric op field_val filter_val
      else field_val = filter_val)"

fun matches_filter :: "unicode \<Rightarrow> item \<Rightarrow> field_filter list \<Rightarrow> bool" where
  "matches_filter u v [] = True"
| "matches_filter u v (f # fs) =
     (case get_field_value u v (fl_field f) of
        None \<Rightarrow> matches_filter u v fs
      | Some x \<Rightarrow>
          if \<not> apply_operator u (fl_operator f) x (fl_value f) then False else matches_filter u v fs)"

section \<open>Order\<close>

text \<open>\<open>strings.Compare\<close>: by bytes.\<close>

fun str_compare :: "string \<Rightarrow> string \<Rightarrow> int" where
  "str_compare [] [] = 0"
| "str_compare [] (c # cs) = - 1"
| "str_compare (c # cs) [] = 1"
| "str_compare (c # cs) (d # ds) =
     (if byte c < byte d then - 1 else if byte d < byte c then 1 else str_compare cs ds)"

definition compare_values :: "unicode \<Rightarrow> goval \<Rightarrow> goval \<Rightarrow> int" where
  "compare_values u a b =
     (case (to_float a, to_float b) of
        (Some x, Some y) \<Rightarrow> if x < y then - 1 else if x > y then 1 else 0
      | _ \<Rightarrow>
          (case (value_string a, value_string b) of
             (Some s, Some t) \<Rightarrow> str_compare (to_lower u s) (to_lower u t)
           | _ \<Rightarrow> 0))"

fun less_by_orders :: "unicode \<Rightarrow> item \<Rightarrow> item \<Rightarrow> sort_order list \<Rightarrow> bool" where
  "less_by_orders u a b [] = False"
| "less_by_orders u a b (d # ds) =
     (case (get_field_value u a (od_field d), get_field_value u b (od_field d)) of
        (Some x, Some y) \<Rightarrow>
          let cmp = compare_values u x y
          in if cmp \<noteq> 0 then (if od_direction d = OrderAsc then cmp < 0 else cmp > 0)
             else less_by_orders u a b ds
      | _ \<Rightarrow> less_by_orders u a b ds)"

section \<open>The whole\<close>

text \<open>A slice expression with bounds out of range, or out of order, panics.\<close>

definition apply_in_memory ::
  "unicode \<Rightarrow> ((item \<Rightarrow> item \<Rightarrow> bool) \<Rightarrow> item list \<Rightarrow> item list) \<Rightarrow> item list \<Rightarrow> criteria \<Rightarrow> (item list \<times> int) outcome"
where
  "apply_in_memory u sort_slice items c =
     (if length items = 0 then Returns (items, 0)
      else let filtered = filter (\<lambda>v. matches_filter u v (cr_filters c)) items;
               total_count = int (length filtered);
               filtered = (if cr_orders c \<noteq> []
                           then sort_slice (\<lambda>a b. less_by_orders u a b (cr_orders c)) filtered else filtered);
               p = cr_pagination c
           in if \<not> pagination_empty p \<and> pg_limit p > 0
              then let offset = pg_offset p
                   in if offset \<ge> int (length filtered) then Returns ([], total_count)
                      else let end' = wrap64 (offset + pg_limit p);
                               end' = (if end' > int (length filtered) then int (length filtered) else end')
                           in if offset < 0 \<or> end' < offset then Panics
                              else Returns (take (nat (end' - offset)) (drop (nat offset) filtered), total_count)
              else Returns (filtered, total_count))"

section \<open>The order is an order\<close>

text \<open>
  What \<open>sort.Interface\<close> asks of \<open>Less\<close>, a strict order with transitive ties, and what \<open>sort.Slice\<close> then gives: a permutation, in which
  no item is less than one before it.
\<close>

definition ordering_on :: "'a set \<Rightarrow> ('a \<Rightarrow> 'a \<Rightarrow> bool) \<Rightarrow> bool" where
  "ordering_on A lt \<longleftrightarrow>
     (\<forall>a\<in>A. \<not> lt a a) \<and>
     (\<forall>a\<in>A. \<forall>b\<in>A. \<forall>c\<in>A.
        (lt a b \<and> lt b c \<longrightarrow> lt a c) \<and> (\<not> lt a b \<and> \<not> lt b c \<longrightarrow> \<not> lt a c))"

definition sorts :: "(('a \<Rightarrow> 'a \<Rightarrow> bool) \<Rightarrow> 'a list \<Rightarrow> 'a list) \<Rightarrow> bool" where
  "sorts sort_slice \<longleftrightarrow>
     (\<forall>lt xs. mset (sort_slice lt xs) = mset xs \<and>
        (ordering_on (set xs) lt \<longrightarrow> sorted_wrt (\<lambda>a b. \<not> lt b a) (sort_slice lt xs)))"

text \<open>A comparison that orders the items up to ties.\<close>

definition comparison_on :: "'a set \<Rightarrow> ('a \<Rightarrow> 'a \<Rightarrow> int) \<Rightarrow> bool" where
  "comparison_on A cmp \<longleftrightarrow>
     (\<forall>a\<in>A. \<forall>b\<in>A. cmp a b = - cmp b a) \<and>
     (\<forall>a\<in>A. \<forall>b\<in>A. \<forall>c\<in>A. cmp a b \<le> 0 \<and> cmp b c \<le> 0 \<longrightarrow> cmp a c \<le> 0)"

lemma comparison_onI:
  assumes "\<And>a b. a \<in> A \<Longrightarrow> b \<in> A \<Longrightarrow> cmp a b = - cmp b a"
    and "\<And>a b c. a \<in> A \<Longrightarrow> b \<in> A \<Longrightarrow> c \<in> A \<Longrightarrow> cmp a b \<le> 0 \<Longrightarrow> cmp b c \<le> 0 \<Longrightarrow> cmp a c \<le> 0"
  shows "comparison_on A cmp"
  using assms unfolding comparison_on_def by blast

lemma comparison_onD:
  assumes "comparison_on A cmp" "a \<in> A" "b \<in> A"
  shows "cmp a b = - cmp b a" and "c \<in> A \<Longrightarrow> cmp a b \<le> 0 \<Longrightarrow> cmp b c \<le> 0 \<Longrightarrow> cmp a c \<le> 0"
  using assms unfolding comparison_on_def by blast+

lemma comparison_zero: "comparison_on A (\<lambda>_ _. 0)"
  by (rule comparison_onI) auto

lemma comparison_flip:
  assumes c: "comparison_on A cmp"
  shows "comparison_on A (\<lambda>a b. - cmp a b)"
proof (rule comparison_onI)
  show "- cmp a b = - (- cmp b a)" if "a \<in> A" "b \<in> A" for a b
    using comparison_onD(1) [OF c that] by simp
  show "- cmp a e \<le> 0" if "a \<in> A" "b \<in> A" "e \<in> A" "- cmp a b \<le> 0" "- cmp b e \<le> 0" for a b e
    using comparison_onD(1) [OF c that(1,2)] comparison_onD(1) [OF c that(2,3)] comparison_onD(1) [OF c that(1,3)]
      comparison_onD(2) [OF c that(3,2,1)] that(4,5) by simp
qed

lemma comparison_lex:
  assumes c: "comparison_on A c" and d: "comparison_on A d"
  shows "comparison_on A (\<lambda>a b. if c a b \<noteq> 0 then c a b else d a b)"
proof (rule comparison_onI)
  fix a b assume in_A: "a \<in> A" "b \<in> A"
  show "(if c a b \<noteq> 0 then c a b else d a b) = - (if c b a \<noteq> 0 then c b a else d b a)"
    using comparison_onD(1) [OF c in_A] comparison_onD(1) [OF d in_A] by simp
next
  fix a b e assume in_A: "a \<in> A" "b \<in> A" "e \<in> A"
    and le: "(if c a b \<noteq> 0 then c a b else d a b) \<le> 0" "(if c b e \<noteq> 0 then c b e else d b e) \<le> 0"
  have cab: "c a b \<le> 0" "c b e \<le> 0" using le by (auto split: if_splits)
  then have "c a e \<le> 0" using comparison_onD(2) [OF c in_A(1,2,3)] by simp
  moreover have "d a e \<le> 0" if "c a e = 0"
  proof -
    have ea: "c e a = 0" using comparison_onD(1) [OF c in_A(3,1)] that by simp
    have "c e b \<le> 0" using comparison_onD(2) [OF c in_A(3,1,2)] ea cab(1) by simp
    then have be: "c b e = 0" using cab(2) comparison_onD(1) [OF c in_A(2,3)] by simp
    have "c b a \<le> 0" using comparison_onD(2) [OF c in_A(2,3,1)] ea cab(2) by simp
    then have "c a b = 0" using cab(1) comparison_onD(1) [OF c in_A(1,2)] by simp
    with be show ?thesis using le comparison_onD(2) [OF d in_A(1,2,3)] by simp
  qed
  ultimately show "(if c a e \<noteq> 0 then c a e else d a e) \<le> 0" by simp
qed

lemma ordering_of_comparison:
  assumes c: "comparison_on A cmp"
  shows "ordering_on A (\<lambda>a b. cmp a b < 0)"
  unfolding ordering_on_def
proof (intro ballI conjI impI)
  show "\<not> cmp a a < 0" if "a \<in> A" for a using comparison_onD(1) [OF c that that] by simp
  fix a b e assume in_A: "a \<in> A" "b \<in> A" "e \<in> A"
  note sym = comparison_onD(1) [OF c in_A(1,2)] comparison_onD(1) [OF c in_A(2,3)] comparison_onD(1) [OF c in_A(1,3)]
  show "cmp a e < 0" if "cmp a b < 0 \<and> cmp b e < 0"
  proof (rule ccontr)
    assume "\<not> cmp a e < 0"
    then have "cmp e a \<le> 0" using sym by linarith
    then have "cmp b a \<le> 0" using comparison_onD(2) [OF c in_A(2,3,1)] that by simp
    then show False using that sym by linarith
  qed
  show "\<not> cmp a e < 0" if "\<not> cmp a b < 0 \<and> \<not> cmp b e < 0"
  proof -
    have "cmp e b \<le> 0" "cmp b a \<le> 0" using sym that by linarith+
    then have "cmp e a \<le> 0" by (rule comparison_onD(2) [OF c in_A(3,2,1)])
    then show ?thesis using sym by linarith
  qed
qed

text \<open>Comparing strings is such a comparison, and so is comparing the values of one column.\<close>

lemma str_compare_flip: "str_compare s t = - str_compare t s"
  by (induction s t rule: str_compare.induct) auto

lemma str_compare_trans: "str_compare s t \<le> 0 \<Longrightarrow> str_compare t r \<le> 0 \<Longrightarrow> str_compare s r \<le> 0"
proof (induction s arbitrary: t r)
  case Nil
  then show ?case by (cases r) auto
next
  case (Cons c cs)
  then obtain d ds where t: "t = d # ds" by (cases t) auto
  with Cons.prems obtain e es where r: "r = e # es" by (cases r) auto
  show ?case using Cons.prems Cons.IH [of ds es] by (simp add: t r split: if_splits)
qed

definition column :: "unicode \<Rightarrow> item set \<Rightarrow> string \<Rightarrow> (goval \<Rightarrow> bool) \<Rightarrow> bool" where
  "column u A name P \<longleftrightarrow> (\<forall>v\<in>A. \<exists>x. get_field_value u v name = Some x \<and> P x)"

text \<open>
  One column in all items: numbers, strings, or values that are neither; or a field that none has.
\<close>

definition homogeneous :: "unicode \<Rightarrow> item set \<Rightarrow> string \<Rightarrow> bool" where
  "homogeneous u A name \<longleftrightarrow>
     column u A name (\<lambda>x. to_float x \<noteq> None) \<or>
     column u A name (\<lambda>x. to_float x = None \<and> value_string x \<noteq> None) \<or>
     column u A name (\<lambda>x. to_float x = None \<and> value_string x = None) \<or>
     (\<forall>v\<in>A. get_field_value u v name = None)"

definition order_cmp :: "unicode \<Rightarrow> sort_order \<Rightarrow> item \<Rightarrow> item \<Rightarrow> int" where
  "order_cmp u d a b =
     (case (get_field_value u a (od_field d), get_field_value u b (od_field d)) of
        (Some x, Some y) \<Rightarrow> if od_direction d = OrderAsc then compare_values u x y else - compare_values u x y
      | _ \<Rightarrow> 0)"

fun orders_cmp :: "unicode \<Rightarrow> sort_order list \<Rightarrow> item \<Rightarrow> item \<Rightarrow> int" where
  "orders_cmp u [] a b = 0"
| "orders_cmp u (d # ds) a b = (if order_cmp u d a b \<noteq> 0 then order_cmp u d a b else orders_cmp u ds a b)"

lemma less_by_orders_cmp: "less_by_orders u a b ds \<longleftrightarrow> orders_cmp u ds a b < 0"
  by (induction ds) (auto simp: order_cmp_def Let_def split: option.splits)

lemma comparison_column:
  assumes "homogeneous u A name"
  shows "comparison_on A (\<lambda>a b. case (get_field_value u a name, get_field_value u b name) of
    (Some x, Some y) \<Rightarrow> compare_values u x y | _ \<Rightarrow> 0)" (is "comparison_on A ?c")
proof -
  let ?v = "\<lambda>a. the (get_field_value u a name)"
  consider (num) "column u A name (\<lambda>x. to_float x \<noteq> None)"
    | (str) "column u A name (\<lambda>x. to_float x = None \<and> value_string x \<noteq> None)"
    | (tie) "\<And>a b. a \<in> A \<Longrightarrow> b \<in> A \<Longrightarrow> ?c a b = 0"
    using assms unfolding homogeneous_def column_def
    by (fastforce simp: compare_values_def split: option.splits)
  then show ?thesis
  proof cases
    case num
    then have "?c a b = (if the (to_float (?v a)) < the (to_float (?v b)) then - 1
        else if the (to_float (?v a)) > the (to_float (?v b)) then 1 else 0)" if "a \<in> A" "b \<in> A" for a b
      using that unfolding column_def by (fastforce simp: compare_values_def split: option.splits)
    then show ?thesis by (intro comparison_onI) (auto split: if_splits)
  next
    case str
    then have "?c a b = str_compare (to_lower u (the (value_string (?v a)))) (to_lower u (the (value_string (?v b))))"
      if "a \<in> A" "b \<in> A" for a b
      using that unfolding column_def by (fastforce simp: compare_values_def split: option.splits)
    then show ?thesis
      by (intro comparison_onI) (simp_all, rule str_compare_flip, erule (1) str_compare_trans)
  next
    case tie
    then show ?thesis by (intro comparison_onI) auto
  qed
qed

lemma comparison_order: "homogeneous u A (od_field d) \<Longrightarrow> comparison_on A (order_cmp u d)"
proof -
  assume h: "homogeneous u A (od_field d)"
  let ?c = "\<lambda>a b. case (get_field_value u a (od_field d), get_field_value u b (od_field d)) of
    (Some x, Some y) \<Rightarrow> compare_values u x y | _ \<Rightarrow> 0"
  have "order_cmp u d = (if od_direction d = OrderAsc then ?c else (\<lambda>a b. - ?c a b))"
    by (intro ext) (simp add: order_cmp_def split: option.splits)
  then show ?thesis
    using comparison_column [OF h] comparison_flip [OF comparison_column [OF h]] by simp
qed

lemma ordering_by_orders:
  assumes "list_all (\<lambda>d. homogeneous u A (od_field d)) ds"
  shows "ordering_on A (\<lambda>a b. less_by_orders u a b ds)"
proof -
  have "comparison_on A (orders_cmp u ds)"
    using assms
  proof (induction ds)
    case Nil
    have "orders_cmp u [] = (\<lambda>_ _. 0)" by (intro ext) simp
    then show ?case using comparison_zero by simp
  next
    case (Cons d ds)
    then have "comparison_on A (\<lambda>a b. if order_cmp u d a b \<noteq> 0 then order_cmp u d a b else orders_cmp u ds a b)"
      by (intro comparison_lex comparison_order) simp_all
    moreover have "orders_cmp u (d # ds) = (\<lambda>a b. if order_cmp u d a b \<noteq> 0 then order_cmp u d a b else orders_cmp u ds a b)"
      by (intro ext) simp
    ultimately show ?case by simp
  qed
  then show ?thesis by (simp add: less_by_orders_cmp ordering_of_comparison)
qed

section \<open>Pages\<close>

text \<open>The items that match, in the order that the criteria ask for.\<close>

definition matching ::
  "unicode \<Rightarrow> ((item \<Rightarrow> item \<Rightarrow> bool) \<Rightarrow> item list \<Rightarrow> item list) \<Rightarrow> item list \<Rightarrow> criteria \<Rightarrow> item list" where
  "matching u sort_slice items c =
     (let found = filter (\<lambda>v. matches_filter u v (cr_filters c)) items
      in if cr_orders c \<noteq> [] then sort_slice (\<lambda>a b. less_by_orders u a b (cr_orders c)) found else found)"

lemma sorts_length [simp]: "sorts srt \<Longrightarrow> length (srt lt xs) = length xs"
  unfolding sorts_def by (metis size_mset)

lemma matching_length:
  "sorts srt \<Longrightarrow> length (matching u srt items c) = length (filter (\<lambda>v. matches_filter u v (cr_filters c)) items)"
  by (simp add: matching_def Let_def)

lemma matching_mset:
  "sorts srt \<Longrightarrow> mset (matching u srt items c) = filter_mset (\<lambda>v. matches_filter u v (cr_filters c)) (mset items)"
  by (simp add: matching_def Let_def sorts_def)

lemma matching_Nil [simp]: "sorts srt \<Longrightarrow> matching u srt [] c = []"
  using matching_length [of srt u "[]" c] by simp

text \<open>The pages of the builder: a limit of 1 to 100.\<close>

lemma apply_in_memory_matching:
  fixes u :: unicode
  assumes "sorts srt" "1 \<le> pg_limit (cr_pagination c)" "items \<noteq> []"
  defines "m \<equiv> matching u srt items c" and "offset \<equiv> pg_offset (cr_pagination c)"
  shows "apply_in_memory u srt items c =
    (if int (length m) \<le> offset then Returns ([], int (length m))
     else let e = wrap64 (offset + pg_limit (cr_pagination c)); e = (if e > int (length m) then int (length m) else e)
          in if offset < 0 \<or> e < offset then Panics
             else Returns (take (nat (e - offset)) (drop (nat offset) m), int (length m)))"
proof -
  have len: "length (filter (\<lambda>v. matches_filter u v (cr_filters c)) items) = length m"
    using matching_length [OF assms(1)] by (simp add: m_def)
  have m: "(if cr_orders c \<noteq> [] then srt (\<lambda>a b. less_by_orders u a b (cr_orders c))
      (filter (\<lambda>v. matches_filter u v (cr_filters c)) items)
    else filter (\<lambda>v. matches_filter u v (cr_filters c)) items) = m"
    by (simp add: matching_def m_def)
  show ?thesis
    using assms(2,3) unfolding apply_in_memory_def Let_def m len by (simp add: pagination_empty_def offset_def)
qed

lemma apply_in_memory_page:
  assumes "sorts srt" "1 \<le> pg_limit (cr_pagination c)" "pg_limit (cr_pagination c) \<le> 100"
    and "length items < 2 ^ 62"
  shows "apply_in_memory u srt items c =
    (let m = matching u srt items c; offset = pg_offset (cr_pagination c); limit = pg_limit (cr_pagination c) in
     if items = [] then Returns ([], 0)
     else if int (length m) \<le> offset then Returns ([], int (length m))
     else if offset < 0 then Panics
     else Returns (take (nat limit) (drop (nat offset) m), int (length m)))"
proof (cases "items = []")
  case False
  let ?m = "matching u srt items c" and ?o = "pg_offset (cr_pagination c)" and ?l = "pg_limit (cr_pagination c)"
  have "length ?m \<le> length items" by (simp add: matching_length [OF assms(1)])
  then have short: "int (length ?m) < 2 ^ 62" using assms(4) by simp
  note eq = apply_in_memory_matching [OF assms(1,2) False, of u]
  show ?thesis
  proof (cases "int (length ?m) \<le> ?o \<or> ?o < 0")
    case True
    then show ?thesis using False by (auto simp: eq Let_def)
  next
    case in_range: False
    then have w: "wrap64 (?o + ?l) = ?o + ?l"
      using short assms(2,3) by (intro wrap64_id) (simp add: int64_range_def)
    show ?thesis
    proof (cases "?o + ?l > int (length ?m)")
      case True
      then have "take (nat (int (length ?m) - ?o)) (drop (nat ?o) ?m) = drop (nat ?o) ?m"
          "take (nat ?l) (drop (nat ?o) ?m) = drop (nat ?o) ?m"
        using in_range by (simp_all add: nat_diff_distrib)
      then show ?thesis using in_range False True by (simp add: eq Let_def w)
    next
      case fits: False
      then show ?thesis using in_range False assms(2) by (simp add: eq Let_def w)
    qed
  qed
qed (simp add: apply_in_memory_def)

lemma concat_pages: "concat (map (\<lambda>k. take m (drop (k * m) xs)) [0..<n]) = take (n * m) xs"
proof (induction n)
  case (Suc n)
  then show ?case using take_add [of "n * m" m xs] by (simp add: add.commute)
qed simp

lemma ordering_on_subset: "ordering_on A lt \<Longrightarrow> B \<subseteq> A \<Longrightarrow> ordering_on B lt"
  unfolding ordering_on_def by blast

lemma matching_pagination [simp]: "matching u srt items (c\<lparr>cr_pagination := p\<rparr>) = matching u srt items c"
  by (simp add: matching_def Let_def cong: if_cong)

lemma matching_sorted:
  assumes "sorts srt" "list_all (\<lambda>d. homogeneous u (set items) (od_field d)) (cr_orders c)"
  shows "sorted_wrt (\<lambda>a b. \<not> less_by_orders u b a (cr_orders c)) (matching u srt items c)"
proof (cases "cr_orders c = []")
  case True
  then show ?thesis by (simp add: matching_def sorted_wrt_iff_nth_less)
next
  case False
  have "ordering_on (set (filter (\<lambda>v. matches_filter u v (cr_filters c)) items)) (\<lambda>a b. less_by_orders u a b (cr_orders c))"
    using ordering_by_orders [OF assms(2)] by (rule ordering_on_subset) auto
  with assms(1) False show ?thesis by (simp add: sorts_def matching_def Let_def)
qed

lemma page_count:
  assumes "0 \<le> n" "n < 2 ^ 43" "1 \<le> ps" "ps \<le> 100"
  defines "pages \<equiv> nat (total_pages n (new_pagination 1 ps))"
  shows "n \<le> int pages * ps" and "k < pages \<Longrightarrow> int k * ps < n"
proof -
  have t: "int pages = (n + ps - 1) div ps"
    using assms total_pages_exact [of n "new_pagination 1 ps"] by (simp add: int64_range_def pos_imp_zdiv_nonneg_iff)
  have e: "int pages * ps = n + ps - 1 - (n + ps - 1) mod ps" unfolding t by (simp add: minus_mod_eq_div_mult)
  have r: "0 \<le> (n + ps - 1) mod ps" "(n + ps - 1) mod ps < ps" using assms(3) by simp_all
  show "n \<le> int pages * ps" using e r by linarith
  assume "k < pages"
  then have "(int k + 1) * ps \<le> int pages * ps" using assms(3) by (intro mult_right_mono) auto
  then show "int k * ps < n" using e r by (simp add: algebra_simps)
qed

text \<open>The page of the request with number \<open>k + 1\<close>, while its first item exists.\<close>

lemma page_exact:
  assumes "1 \<le> ps" "ps \<le> 100" "int k * ps < 2 ^ 43"
  shows "new_pagination (int k + 1) ps =
    \<lparr>pg_page = int k + 1, pg_page_size = ps, pg_limit = ps, pg_offset = int k * ps\<rparr>"
proof -
  have "int k * 1 \<le> int k * ps" using assms(1) by (intro mult_left_mono) auto
  then have "int64_range (int k + 1)" "int64_range (int k * ps)"
    using assms(3) by (auto simp: int64_range_def)
  then show ?thesis using assms by (simp add: wrap64_id)
qed

lemma one_page:
  assumes "sorts srt" "1 \<le> ps" "ps \<le> 100" "int (length (matching u srt items c)) < 2 ^ 43"
    and "int k * ps < int (length (matching u srt items c))" "length items < 2 ^ 62"
  shows "take (nat ps) (drop (k * nat ps) (matching u srt items c)) \<noteq> [] \<and>
    apply_in_memory u srt items (c\<lparr>cr_pagination := new_pagination (int k + 1) ps\<rparr>) =
      Returns (take (nat ps) (drop (k * nat ps) (matching u srt items c)), int (length (matching u srt items c)))"
proof -
  let ?m = "matching u srt items c"
  have p: "new_pagination (int k + 1) ps =
      \<lparr>pg_page = int k + 1, pg_page_size = ps, pg_limit = ps, pg_offset = int k * ps\<rparr>"
    using assms(2-5) by (intro page_exact) auto
  have nonneg: "0 \<le> int k * ps" using assms(2) by simp
  then have notneg: "\<not> int k * ps < 0" by linarith
  have "items \<noteq> []" using assms(5) nonneg assms(1) by auto
  moreover have "nat (int k * ps) = k * nat ps" using assms(2) by (simp add: nat_mult_distrib)
  moreover have "int (k * nat ps) < int (length ?m)" using assms(2,5) by simp
  then have "k * nat ps < length ?m" by (simp only: of_nat_less_iff)
  ultimately show ?thesis
    using assms notneg by (simp add: apply_in_memory_page p Let_def)
qed

text \<open>C23: The pages cover the result exactly once: as many pages as the list response announces, each
  of them not empty and with the total number of matches, make up, one after the other, all the items
  that match, in the order asked for. This holds up to \<open>2 ^ 43\<close> items, for what the documentation
  of \<open>sort.Slice\<close> promises, if every field to order by holds values of one kind.\<close>

theorem pages_partition:
  assumes "sorts srt" "1 \<le> ps" "ps \<le> 100" "int (length items) < 2 ^ 43"
    and "list_all (\<lambda>d. homogeneous u (set items) (od_field d)) (cr_orders c)"
  shows "\<exists>pages.
    mset (concat pages) = filter_mset (\<lambda>v. matches_filter u v (cr_filters c)) (mset items) \<and>
    sorted_wrt (\<lambda>a b. \<not> less_by_orders u b a (cr_orders c)) (concat pages) \<and>
    int (length pages) = total_pages (int (length (concat pages))) (new_pagination 1 ps) \<and>
    (\<forall>k < length pages. pages ! k \<noteq> [] \<and>
       apply_in_memory u srt items (c\<lparr>cr_pagination := new_pagination (int k + 1) ps\<rparr>) =
         Returns (pages ! k, int (length (concat pages))))"
proof -
  let ?m = "matching u srt items c" and ?ps = "nat ps"
  let ?n = "nat (total_pages (int (length ?m)) (new_pagination 1 ps))"
  define pages where "pages = map (\<lambda>k. take ?ps (drop (k * ?ps) ?m)) [0..<?n]"
  have "int (length ?m) \<le> int (length items)"
    using matching_length [OF assms(1), of u items c] by (simp add: length_filter_le)
  then have len: "int (length ?m) < 2 ^ 43" using assms(4) by linarith
  note count = page_count [OF _ len assms(2,3)]
  have "length ?m \<le> ?n * ?ps" using count(1) assms(2) by (simp add: zle_int [symmetric])
  then have all: "concat pages = ?m" unfolding pages_def concat_pages by simp
  have pos: "0 \<le> total_pages (int (length ?m)) (new_pagination 1 ps)"
    using total_pages_exact [OF _ len, of "new_pagination 1 ps"] assms(2,3)
    by (simp add: int64_range_def pos_imp_zdiv_nonneg_iff)
  have page: "pages ! k \<noteq> [] \<and>
      apply_in_memory u srt items (c\<lparr>cr_pagination := new_pagination (int k + 1) ps\<rparr>) =
        Returns (pages ! k, int (length ?m))" if "k < length pages" for k
  proof -
    have k: "k < ?n" using that by (simp add: pages_def)
    then have "int k * ps < int (length ?m)" using count(2) by simp
    from one_page [OF assms(1-3) len this] assms(4) k show ?thesis by (simp add: pages_def)
  qed
  show ?thesis
    using matching_mset [OF assms(1)] matching_sorted [OF assms(1,5)] page pos
    by (intro exI [of _ pages]) (simp add: all, simp add: pages_def)
qed

text \<open>C38: A request whose query asks for a large page makes the listing in memory panic: with criteria
  that the builder made, whatever they are, \<open>ApplyInMemory\<close> on a slice with items panics exactly if the
  offset, computed in 64 bits, came out negative; \<open>Validate\<close> rejects such criteria, but nothing in
  the package calls it on this path. Otherwise it returns at most one page, of items that match, with
  the number of all that do.\<close>

theorem built_criteria_in_memory:
  assumes "sorts srt" "built b" "length items < 2 ^ 62"
  shows "(apply_in_memory u srt items (build b) = Panics \<longleftrightarrow> items \<noteq> [] \<and> pg_offset (cr_pagination (build b)) < 0) \<and>
    (pg_offset (cr_pagination (build b)) < 0 \<longrightarrow> validate (build b) \<noteq> None) \<and>
    (\<forall>page n. apply_in_memory u srt items (build b) = Returns (page, n) \<longrightarrow>
       int (length page) \<le> pg_limit (cr_pagination (build b)) \<and>
       n = int (length (filter (\<lambda>v. matches_filter u v (cr_filters (build b))) items)) \<and>
       mset page \<subseteq># filter_mset (\<lambda>v. matches_filter u v (cr_filters (build b))) (mset items))"
proof -
  let ?c = "build b" and ?m = "matching u srt items (build b)"
  let ?o = "pg_offset (cr_pagination ?c)" and ?l = "pg_limit (cr_pagination ?c)"
  have lim: "1 \<le> ?l" "?l \<le> 100"
    using built_ok [OF assms(2)] by (simp_all add: build_parts builder_ok_def)
  note eq = apply_in_memory_page [OF assms(1) lim assms(3), of u, unfolded Let_def]
  have sub: "mset (take i (drop j ?m)) \<subseteq># mset ?m" for i j
    by (metis append_take_drop_id mset_append mset_subset_eq_add_left mset_subset_eq_add_right subset_mset.order_trans)
  have "validate ?c \<noteq> None" if "?o < 0"
    using that lim by (simp add: validate_None pagination_error_def pagination_empty_def)
  moreover have "apply_in_memory u srt items ?c = Panics \<longleftrightarrow> items \<noteq> [] \<and> ?o < 0"
    unfolding eq by auto
  moreover have "int (length page) \<le> ?l \<and> n = int (length ?m) \<and> mset page \<subseteq># mset ?m"
    if "apply_in_memory u srt items ?c = Returns (page, n)" for page n
    using that lim sub assms(1) unfolding eq by (auto split: if_splits)
  ultimately show ?thesis using matching_mset [OF assms(1)] matching_length [OF assms(1)] by metis
qed

text \<open>An empty list of values means opposite things on the two paths. In memory, an IN filter with
  an empty slice keeps no item that has the field; in SQL the converter leaves such a condition out,
  so the query keeps every row. A slice of another type, such as \<open>[]string\<close>, is left out too.\<close>

theorem empty_in_list_diverges:
  assumes "fl_operator f = OpIn" "get_field_value u v (fl_field f) \<noteq> None"
  shows "(fl_value f = GSlice ty (Some []) \<longrightarrow> \<not> matches_filter u v [f] \<and> build_where_clause [f] = ([], [])) \<and>
    (fl_value f = GSlice ''[]string'' (Some [x]) \<and> get_field_value u v (fl_field f) = Some y \<and> x \<noteq> y \<longrightarrow>
       \<not> matches_filter u v [f] \<and> build_where_clause [f] = ([], []))"
  using assms
  by (auto simp: build_where_clause_def as_any_slice_def apply_operator_def match_in_def operator_defs)

section \<open>Examples\<close>

text \<open>What \<open>sort.Slice\<close> does with up to 12 items: insertion from the right.\<close>

fun insert_from_right :: "('a \<Rightarrow> 'a \<Rightarrow> bool) \<Rightarrow> 'a \<Rightarrow> 'a list \<Rightarrow> 'a list" where
  "insert_from_right lt x [] = [x]"
| "insert_from_right lt x (y # ys) = (if lt x y then y # insert_from_right lt x ys else x # y # ys)"

definition insertion_sort :: "('a \<Rightarrow> 'a \<Rightarrow> bool) \<Rightarrow> 'a list \<Rightarrow> 'a list" where
  "insertion_sort lt xs = rev (foldl (\<lambda>acc x. insert_from_right lt x acc) [] xs)"

lemma insert_from_right_mset: "mset (insert_from_right lt x ys) = add_mset x (mset ys)"
  by (induction ys) auto

lemma insert_from_right_set [simp]: "set (insert_from_right lt x ys) = insert x (set ys)"
  by (induction ys) auto

lemma insert_from_right_sorted:
  assumes "ordering_on A lt" "x \<in> A" "set ys \<subseteq> A" "sorted_wrt (\<lambda>a b. \<not> lt a b) ys"
  shows "sorted_wrt (\<lambda>a b. \<not> lt a b) (insert_from_right lt x ys)"
  using assms(3,4)
proof (induction ys)
  case (Cons y ys)
  then have "y \<in> A" by simp
  have "\<not> lt y x" if "lt x y"
    using assms(1,2) that \<open>y \<in> A\<close> unfolding ordering_on_def by blast
  moreover have "\<not> lt x z" if "\<not> lt x y" "z \<in> set ys" for z
  proof -
    have "\<not> lt y z" "z \<in> A" using Cons.prems that(2) by auto
    then show ?thesis using assms(1,2) that(1) \<open>y \<in> A\<close> unfolding ordering_on_def by blast
  qed
  ultimately show ?case using Cons by auto
qed simp

lemma insertion_sort_sorts: "sorts insertion_sort"
proof -
  have m: "mset (foldl (\<lambda>acc x. insert_from_right lt x acc) acc xs) = mset acc + mset xs"
    for lt :: "'a \<Rightarrow> 'a \<Rightarrow> bool" and acc xs
    by (induction xs arbitrary: acc) (simp_all add: insert_from_right_mset)
  have s: "sorted_wrt (\<lambda>a b. \<not> lt a b) (foldl (\<lambda>acc x. insert_from_right lt x acc) acc xs)"
    if "ordering_on A lt" "set xs \<subseteq> A" "set acc \<subseteq> A" "sorted_wrt (\<lambda>a b. \<not> lt a b) acc"
    for lt :: "'a \<Rightarrow> 'a \<Rightarrow> bool" and acc xs A
    using that
    by (induction xs arbitrary: acc) (simp_all add: insert_from_right_sorted)
  show ?thesis
    unfolding sorts_def insertion_sort_def using m [of _ "[]"] s [of "set _" _ _ "[]"]
    by (auto simp: sorted_wrt_rev)
qed

definition demo_item :: "string \<Rightarrow> int \<Rightarrow> item" where
  "demo_item name age =
     Struct [\<lparr>sf_name = ''Name'', sf_json = ''name'', sf_value = go_string name\<rparr>,
             \<lparr>sf_name = ''Age'', sf_json = ''age,omitempty'', sf_value = GInt ''int'' age\<rparr>]"

definition demo_unicode :: unicode where
  "demo_unicode = \<lparr>to_lower = map lower, equal_fold = (\<lambda>s t. map lower s = map lower t)\<rparr>"

theorem pages_partition_witness:
  "\<exists>pages.
    mset (concat pages) = {#demo_item ''Ana'' 41, demo_item ''Eva'' 7#} \<and>
    sorted_wrt (\<lambda>a b. \<not> less_by_orders demo_unicode b a [new_order ''age'' OrderAsc]) (concat pages) \<and>
    int (length pages) = total_pages (int (length (concat pages))) (new_pagination 1 1) \<and>
    (\<forall>k < length pages. pages ! k \<noteq> [] \<and>
       apply_in_memory demo_unicode insertion_sort [demo_item ''Ana'' 41, demo_item ''Leo'' 90, demo_item ''Eva'' 7]
         (new_criteria [new_filter ''name'' OpLike (go_string ''%a'')] [new_order ''age'' OrderAsc] (new_pagination (int k + 1) 1)) =
         Returns (pages ! k, int (length (concat pages))))"
proof -
  let ?items = "[demo_item ''Ana'' 41, demo_item ''Leo'' 90, demo_item ''Eva'' 7]"
  let ?c = "new_criteria [new_filter ''name'' OpLike (go_string ''%a'')] [new_order ''age'' OrderAsc] (new_pagination 1 1)"
  have age: "get_field_value demo_unicode (demo_item n a) ''age'' = Some (GInt ''int'' a)" for n a
    by (simp add: get_field_value_def demo_item_def)
  have "to_float (GInt ''int'' a) \<noteq> None" if "0 \<le> a" "a < 2 ^ 43" for a
    using f64_of_small_nat [OF that] by (simp add: to_float_def)
  then have "column demo_unicode (set ?items) ''age'' (\<lambda>x. to_float x \<noteq> None)"
    unfolding column_def by (auto simp: age)
  then have "list_all (\<lambda>d. homogeneous demo_unicode (set ?items) (od_field d)) (cr_orders ?c)"
    by (simp add: homogeneous_def new_criteria_def)
  note pages = pages_partition [OF insertion_sort_sorts _ _ _ this, of 1]
  have name: "get_field_value demo_unicode (demo_item n a) ''name'' = Some (go_string n)" for n a
    by (simp add: get_field_value_def demo_item_def)
  have low: "to_lower demo_unicode = map lower" by (simp add: demo_unicode_def)
  have like: "match_like demo_unicode (go_string n) (go_string ''%a'') \<longleftrightarrow> str_contains (map lower n) ''a''" for n
    by (simp add: match_like_def value_string_def trim_spaces_def low lower_def is_upper_def byte_def)
  have "matches_filter demo_unicode (demo_item n a) [new_filter ''name'' OpLike (go_string ''%a'')] \<longleftrightarrow>
      str_contains (map lower n) ''a''" for n a
    by (simp add: name new_filter_def apply_operator_def like) (simp add: operator_defs)
  moreover have "str_contains (map lower ''Ana'') ''a''" "str_contains (map lower ''Eva'') ''a''"
      "\<not> str_contains (map lower ''Leo'') ''a''"
    by (simp_all add: str_contains_def lower_def is_upper_def byte_def char_of_def bit_0)
  ultimately have "filter_mset (\<lambda>v. matches_filter demo_unicode v (cr_filters ?c)) (mset ?items) =
      {#demo_item ''Ana'' 41, demo_item ''Eva'' 7#}"
    by (simp add: new_criteria_def)
  with pages show ?thesis by (simp add: new_criteria_def)
qed

definition large_page :: builder where
  "large_page = build_criteria_from_url_values id [''page''] [''page'' \<mapsto> [''922337203685477582'']]"

theorem built_criteria_in_memory_witness:
  "apply_in_memory demo_unicode insertion_sort [demo_item ''Ana'' 41] (build large_page) = Panics"
proof -
  have "built large_page" unfolding large_page_def build_criteria_from_url_values_def by (intro built.intros)
  moreover have lp: "large_page = \<lparr>bd_filters = [], bd_orders = [], bd_page = 922337203685477582, bd_page_size = 10,
      bd_order_field = ''created_at'', bd_order_dir = OrderDesc\<rparr>"
    by (simp add: large_page_def build_criteria_from_url_values_def from_url_values_def new_builder_def query_get_def
        atoi_def digit_def byte_def digit_val_def int64_range_def)
  have "pg_offset (cr_pagination (build large_page)) < 0"
    by (simp add: lp build_def new_criteria_def int64_range_def wrap64_def)
  ultimately show ?thesis using built_criteria_in_memory [OF insertion_sort_sorts] by simp
qed

theorem empty_in_list_diverges_witness:
  "\<not> matches_filter demo_unicode (demo_item ''Ana'' 41) [new_filter ''name'' OpIn (GSlice ''[]interface {}'' (Some []))] \<and>
   build_where_clause [new_filter ''name'' OpIn (GSlice ''[]interface {}'' (Some []))] = ([], [])"
  using empty_in_list_diverges [of "new_filter ''name'' OpIn (GSlice ''[]interface {}'' (Some []))" demo_unicode
      "demo_item ''Ana'' 41" "''[]interface {}''"]
  by (simp add: new_filter_def get_field_value_def demo_item_def)

end
