(* ===== verification/Sql.thy ===== *)
theory Sql
  imports Criteria_Memory "HOL-Library.Monad_Syntax"
begin

text \<open>
  The part of SQL that \<open>criteria/sql_converter.go\<close> writes, as PostgreSQL documents it: how the text
  after the base query is read, what a condition says of a row, and, as the contract of a database,
  what a query returns. Nothing here is code of the repository; it is what the theory \<open>Search_Paths\<close>
  compares the search in memory with.
\<close>

section \<open>Three truth values\<close>

text \<open>A condition on a null is neither true nor false. Conjunction is the minimum, disjunction the
  maximum, of the order in which the unknown is in the middle.\<close>

datatype sql_bool = SqlFalse | SqlUnknown | SqlTrue

instantiation sql_bool :: "{linorder, order_top, order_bot}"
begin

definition less_eq_sql_bool :: "sql_bool \<Rightarrow> sql_bool \<Rightarrow> bool" where
  "a \<le> b \<longleftrightarrow> a = SqlFalse \<or> a = b \<or> b = SqlTrue"

definition less_sql_bool :: "sql_bool \<Rightarrow> sql_bool \<Rightarrow> bool" where
  "a < b \<longleftrightarrow> a \<le> b \<and> a \<noteq> (b :: sql_bool)"

definition top_sql_bool :: sql_bool where "top = SqlTrue"

definition bot_sql_bool :: sql_bool where "bot = SqlFalse"

instance
proof
  fix a b c :: sql_bool
  show "a < b \<longleftrightarrow> a \<le> b \<and> \<not> b \<le> a" "a \<le> a" "a \<le> top" "bot \<le> a" "a \<le> b \<or> b \<le> a"
    by (cases a; cases b; simp add: less_eq_sql_bool_def less_sql_bool_def top_sql_bool_def bot_sql_bool_def)+
  show "a \<le> c" if "a \<le> b" "b \<le> c" using that by (auto simp: less_eq_sql_bool_def)
  show "a = b" if "a \<le> b" "b \<le> a" using that by (auto simp: less_eq_sql_bool_def)
qed

end

fun sql_not :: "sql_bool \<Rightarrow> sql_bool" where
  "sql_not SqlFalse = SqlTrue"
| "sql_not SqlUnknown = SqlUnknown"
| "sql_not SqlTrue = SqlFalse"

fun_cases sql_not_trueE: "sql_not b = SqlTrue"

definition sql_fact :: "bool \<Rightarrow> sql_bool" where
  "sql_fact b = (if b then SqlTrue else SqlFalse)"

definition sql_and :: "sql_bool list \<Rightarrow> sql_bool" where "sql_and bs = foldr min bs top"
definition sql_or :: "sql_bool list \<Rightarrow> sql_bool" where "sql_or bs = foldr max bs bot"

lemma sql_fact_simps [simp]:
  "sql_fact b = SqlTrue \<longleftrightarrow> b" "sql_fact b \<noteq> SqlUnknown" "sql_not (sql_fact b) = sql_fact (\<not> b)"
  by (auto simp: sql_fact_def)

lemma sql_and_true: "sql_and bs = SqlTrue \<longleftrightarrow> (\<forall>b \<in> set bs. b = SqlTrue)"
proof -
  have "min a b = SqlTrue \<longleftrightarrow> a = SqlTrue \<and> b = SqlTrue" for a b
    by (cases a; cases b) (simp_all add: min_def less_eq_sql_bool_def)
  then show ?thesis by (induction bs) (simp_all add: sql_and_def top_sql_bool_def)
qed

lemma sql_or_facts: "sql_or (map (\<lambda>x. sql_fact (P x)) xs) = sql_fact (\<exists>x \<in> set xs. P x)"
  by (induction xs) (auto simp: sql_or_def bot_sql_bool_def sql_fact_def max_def less_eq_sql_bool_def)

section \<open>Queries\<close>

datatype sql_cond =
    SqlCompare string string nat
  | SqlLike string bool nat
  | SqlNull string bool
  | SqlIn string bool "nat list"
  | SqlHas string nat

record sql_query =
  sq_where :: "sql_cond list"
  sq_orders :: "(string \<times> bool) list"
  sq_page :: "(int \<times> int) option"

text \<open>The words of a text: SQL ignores how many spaces there are between them.\<close>

definition sql_words :: "string \<Rightarrow> string list" where
  "sql_words s = filter (\<lambda>w. w \<noteq> []) (str_split CHR '' '' s)"

definition sql_param :: "string \<Rightarrow> nat option" where
  "sql_param w =
     (case w of
        [] \<Rightarrow> None
      | c # ds \<Rightarrow> if c = CHR ''$'' \<and> ds \<noteq> [] \<and> list_all digit ds then Some (digits_val 0 ds) else None)"

text \<open>The parameters of an IN list, after its opening bracket.\<close>

fun sql_list :: "string list \<Rightarrow> (nat list \<times> string list) option" where
  "sql_list [] = None"
| "sql_list (w # ws) =
     (if w = [] then None
      else do {
        p \<leftarrow> sql_param (butlast w);
        if last w = CHR '')'' then Some ([p], ws)
        else if last w = CHR '','' then do { (ps, ws) \<leftarrow> sql_list ws; Some (p # ps, ws) }
        else None
      })"

definition sql_array :: "string \<Rightarrow> nat option" where
  "sql_array w =
     (if take 6 w = ''ARRAY['' \<and> length w > 6 \<and> last w = CHR '']'' then sql_param (butlast (drop 6 w)) else None)"

text \<open>What follows a column: \<open>positive\<close> unless NOT stood before.\<close>

definition sql_matching :: "string \<Rightarrow> bool \<Rightarrow> string \<Rightarrow> string list \<Rightarrow> (sql_cond \<times> string list) option" where
  "sql_matching f positive op ws =
     (case ws of
        [] \<Rightarrow> None
      | w # rest \<Rightarrow>
          if op = ''ILIKE'' then do { p \<leftarrow> sql_param w; Some (SqlLike f positive p, rest) }
          else if op = ''IN'' \<and> w \<noteq> [] \<and> hd w = CHR ''(''
          then do { (ps, rest) \<leftarrow> sql_list (tl w # rest); Some (SqlIn f positive ps, rest) }
          else None)"

definition sql_comparisons :: "string list" where
  "sql_comparisons = [''='', ''!='', ''>'', ''>='', ''<'', ''<='']"

definition sql_condition :: "string list \<Rightarrow> (sql_cond \<times> string list) option" where
  "sql_condition ws =
     (case ws of
        f # op # w # rest \<Rightarrow>
          if op \<in> set sql_comparisons then do { p \<leftarrow> sql_param w; Some (SqlCompare f op p, rest) }
          else if op = ''@>'' then do { p \<leftarrow> sql_array w; Some (SqlHas f p, rest) }
          else if op = ''IS'' \<and> w = ''NULL'' then Some (SqlNull f True, rest)
          else if op = ''IS'' \<and> w = ''NOT'' \<and> rest \<noteq> [] \<and> hd rest = ''NULL'' then Some (SqlNull f False, tl rest)
          else if op = ''NOT'' then sql_matching f False w rest
          else sql_matching f True op (w # rest)
      | _ \<Rightarrow> None)"

lemma sql_list_shorter: "sql_list ws = Some (ps, rest) \<Longrightarrow> length rest < length ws"
  by (induction ws arbitrary: ps) (fastforce split: if_splits bind_splits)+

lemma sql_matching_shorter: "sql_matching f pos op ws = Some (c, rest) \<Longrightarrow> length rest < length ws"
  by (auto simp: sql_matching_def split: list.splits if_splits bind_splits dest: sql_list_shorter)

lemma sql_condition_shorter: "sql_condition ws = Some (c, rest) \<Longrightarrow> length rest < length ws"
  by (auto simp: sql_condition_def split: list.splits if_splits bind_splits dest!: sql_matching_shorter)

function sql_conditions :: "string list \<Rightarrow> (sql_cond list \<times> string list) option" where
  "sql_conditions ws =
     (case sql_condition ws of
        None \<Rightarrow> None
      | Some (c, rest) \<Rightarrow>
          if rest \<noteq> [] \<and> hd rest = ''AND''
          then do { (cs, rest) \<leftarrow> sql_conditions (tl rest); Some (c # cs, rest) }
          else Some ([c], rest))"
  by pat_completeness auto
termination
  by (relation "measure length") (auto dest!: sql_condition_shorter simp: less_Suc_eq_le intro: order_trans [of _ "length _"])

declare sql_conditions.simps [simp del]

fun sql_orders :: "string list \<Rightarrow> ((string \<times> bool) list \<times> string list) option" where
  "sql_orders (f # d # ws) =
     (if d = ''ASC'' \<or> d = ''DESC'' then Some ([(f, d = ''ASC'')], ws)
      else if d = ''ASC,'' \<or> d = ''DESC,'' then do { (ds, ws) \<leftarrow> sql_orders ws; Some ((f, d = ''ASC,'') # ds, ws) }
      else None)"
| "sql_orders _ = None"

definition sql_limit :: "string list \<Rightarrow> (int \<times> int) option option" where
  "sql_limit ws =
     (case ws of
        [] \<Rightarrow> Some None
      | [l, n, k, m] \<Rightarrow>
          if l = ''LIMIT'' \<and> k = ''OFFSET'' then do { n \<leftarrow> atoi n; m \<leftarrow> atoi m; Some (Some (n, m)) } else None
      | _ \<Rightarrow> None)"

definition sql_query :: "string \<Rightarrow> sql_query option" where
  "sql_query text =
     (let ws = sql_words text in do {
        (conds, ws) \<leftarrow> (if take 1 ws = [''WHERE''] then sql_conditions (drop 1 ws) else Some ([], ws));
        (ds, ws) \<leftarrow> (if take 2 ws = [''ORDER'', ''BY''] then sql_orders (drop 2 ws) else Some ([], ws));
        page \<leftarrow> sql_limit ws;
        Some \<lparr>sq_where = conds, sq_orders = ds, sq_page = page\<rparr>
      })"

section \<open>What a condition says of a row\<close>

text \<open>LIKE, for patterns without \<open>_\<close> and without the escape character. ILIKE ignores case: it is LIKE
  of the two texts in lower case.\<close>

fun sql_like :: "string \<Rightarrow> string \<Rightarrow> bool" where
  "sql_like [] s \<longleftrightarrow> s = []"
| "sql_like (c # p) s \<longleftrightarrow>
     (if c = CHR ''%'' then list_ex (sql_like p) (suffixes s)
      else (case s of [] \<Rightarrow> False | d # s \<Rightarrow> c = d \<and> sql_like p s))"

definition sql_number :: "goval \<Rightarrow> rat option" where
  "sql_number v =
     (case v of GInt _ n \<Rightarrow> Some (of_int n) | GUint _ n \<Rightarrow> Some (of_nat n) | GFloat _ q \<Rightarrow> Some q | _ \<Rightarrow> None)"

definition sql_compare :: "string \<Rightarrow> goval \<Rightarrow> goval \<Rightarrow> sql_bool" where
  "sql_compare op x y =
     (if x = GNil \<or> y = GNil then SqlUnknown
      else if op = ''='' then sql_fact (x = y)
      else if op = ''!='' then sql_fact (x \<noteq> y)
      else (case (sql_number x, sql_number y) of
              (Some a, Some b) \<Rightarrow>
                sql_fact (if op = ''>'' then a > b else if op = ''>='' then a \<ge> b
                          else if op = ''<'' then a < b else a \<le> b)
            | _ \<Rightarrow> SqlUnknown))"

definition sql_ilike :: "(string \<Rightarrow> string) \<Rightarrow> goval \<Rightarrow> goval \<Rightarrow> sql_bool" where
  "sql_ilike low x y =
     (case (value_string x, value_string y) of
        (Some s, Some p) \<Rightarrow> sql_fact (sql_like (low p) (low s))
      | _ \<Rightarrow> SqlUnknown)"

text \<open>A parameter, counted from one. A null in a row is \<open>GNil\<close>.\<close>

definition sql_arg :: "goval list \<Rightarrow> nat \<Rightarrow> goval" where
  "sql_arg params p = (if 1 \<le> p \<and> p \<le> length params then params ! (p - 1) else GNil)"

fun sql_truth :: "(string \<Rightarrow> string) \<Rightarrow> goval list \<Rightarrow> (string \<Rightarrow> goval) \<Rightarrow> sql_cond \<Rightarrow> sql_bool" where
  "sql_truth low params cell (SqlCompare f op p) = sql_compare op (cell f) (sql_arg params p)"
| "sql_truth low params cell (SqlLike f positive p) =
     (let b = sql_ilike low (cell f) (sql_arg params p) in if positive then b else sql_not b)"
| "sql_truth low params cell (SqlNull f positive) = sql_fact ((cell f = GNil) = positive)"
| "sql_truth low params cell (SqlIn f positive ps) =
     (let b = sql_or (map (\<lambda>p. sql_compare ''='' (cell f) (sql_arg params p)) ps)
      in if positive then b else sql_not b)"
| "sql_truth low params cell (SqlHas f p) = SqlUnknown"

definition sql_holds :: "(string \<Rightarrow> string) \<Rightarrow> goval list \<Rightarrow> sql_query \<Rightarrow> (string \<Rightarrow> goval) \<Rightarrow> bool" where
  "sql_holds low params q cell \<longleftrightarrow> sql_and (map (sql_truth low params cell) (sq_where q)) = SqlTrue"

lemma sql_holds_iff: "sql_holds low params q cell \<longleftrightarrow> (\<forall>c \<in> set (sq_where q). sql_truth low params cell c = SqlTrue)"
  by (simp add: sql_holds_def sql_and_true)

text \<open>
  Where the documentation leaves no doubt: the column holds nulls and values of the parameter's own
  type, an inequality is between numbers, a pattern has no \<open>_\<close> and no escape. Containment in an
  array is left out.
\<close>

fun same_kind :: "goval \<Rightarrow> goval \<Rightarrow> bool" where
  "same_kind (GBool s _) (GBool t _) \<longleftrightarrow> s = t"
| "same_kind (GInt s _) (GInt t _) \<longleftrightarrow> s = t"
| "same_kind (GUint s _) (GUint t _) \<longleftrightarrow> s = t"
| "same_kind (GFloat s _) (GFloat t _) \<longleftrightarrow> s = t"
| "same_kind (GString s _) (GString t _) \<longleftrightarrow> s = t"
| "same_kind _ _ \<longleftrightarrow> False"

definition fits :: "goval \<Rightarrow> goval \<Rightarrow> bool" where
  "fits x v \<longleftrightarrow> same_kind v v \<and> (x = GNil \<or> same_kind x v)"

lemma same_kind_nil [simp]: "\<not> same_kind GNil v" "\<not> same_kind v GNil"
  by (cases v; simp)+

definition plain :: "string \<Rightarrow> bool" where
  "plain s \<longleftrightarrow> CHR ''_'' \<notin> set s \<and> CHR 0x5C \<notin> set s"

fun sql_column :: "sql_cond \<Rightarrow> string" where
  "sql_column (SqlCompare f op p) = f"
| "sql_column (SqlLike f positive p) = f"
| "sql_column (SqlNull f positive) = f"
| "sql_column (SqlIn f positive ps) = f"
| "sql_column (SqlHas f p) = f"

fun sql_typed :: "goval list \<Rightarrow> (string \<Rightarrow> goval) \<Rightarrow> sql_cond \<Rightarrow> bool" where
  "sql_typed params cell (SqlCompare f op p) \<longleftrightarrow>
     fits (cell f) (sql_arg params p) \<and> (op \<in> {''='', ''!=''} \<or> sql_number (sql_arg params p) \<noteq> None)"
| "sql_typed params cell (SqlLike f positive p) \<longleftrightarrow>
     (cell f = GNil \<or> value_string (cell f) \<noteq> None) \<and>
     (case value_string (sql_arg params p) of None \<Rightarrow> False | Some s \<Rightarrow> plain s)"
| "sql_typed params cell (SqlNull f positive) \<longleftrightarrow> True"
| "sql_typed params cell (SqlIn f positive ps) \<longleftrightarrow> (\<forall>p \<in> set ps. fits (cell f) (sql_arg params p))"
| "sql_typed params cell (SqlHas f p) \<longleftrightarrow> False"

section \<open>What a query returns\<close>

text \<open>Columns that are ordered by hold numbers here: how texts are collated depends on the database.\<close>

definition sql_cmp :: "string \<times> bool \<Rightarrow> (string \<Rightarrow> goval) \<Rightarrow> (string \<Rightarrow> goval) \<Rightarrow> int" where
  "sql_cmp d a b =
     (let x = the (sql_number (a (fst d))); y = the (sql_number (b (fst d)));
          c = (if x < y then - 1 else if x > y then 1 else 0)
      in if snd d then c else - c)"

fun sql_before :: "(string \<times> bool) list \<Rightarrow> (string \<Rightarrow> goval) \<Rightarrow> (string \<Rightarrow> goval) \<Rightarrow> bool" where
  "sql_before [] a b = False"
| "sql_before (d # ds) a b =
     (if sql_cmp d a b \<noteq> 0 then sql_cmp d a b < 0 else sql_before ds a b)"

definition sql_cut :: "(int \<times> int) option \<Rightarrow> 'a list \<Rightarrow> 'a list" where
  "sql_cut page ys = (case page of None \<Rightarrow> ys | Some (n, m) \<Rightarrow> take (nat n) (drop (nat m) ys))"

definition sql_admissible ::
  "string set \<Rightarrow> ('r \<Rightarrow> string \<Rightarrow> goval) \<Rightarrow> 'r list \<Rightarrow> goval list \<Rightarrow> sql_query \<Rightarrow> bool" where
  "sql_admissible columns cell rows params q \<longleftrightarrow>
     (\<forall>c \<in> set (sq_where q). sql_column c \<in> columns \<and> (\<forall>r \<in> set rows. sql_typed params (cell r) c)) \<and>
     (\<forall>(f, asc) \<in> set (sq_orders q). f \<in> columns \<and> (\<forall>r \<in> set rows. sql_number (cell r f) \<noteq> None)) \<and>
     (case sq_page q of None \<Rightarrow> True | Some (n, m) \<Rightarrow> 0 \<le> n \<and> 0 \<le> m)"

text \<open>
  The contract of a database whose table has the columns \<open>columns\<close> and holds \<open>rows\<close>: what it answers
  to a text that continues the query \<open>base\<close> (all rows) or \<open>count_base\<close> (their number). The order of
  rows is open where the query leaves it open.
\<close>

locale sql_laws =
  fixes low :: "string \<Rightarrow> string" and columns :: "string set"
    and cell :: "'r \<Rightarrow> string \<Rightarrow> goval" and rows :: "'r list"
    and base :: string and count_base :: string
    and select :: "string \<Rightarrow> goval list \<Rightarrow> 'r list" and count :: "string \<Rightarrow> goval list \<Rightarrow> int"
  assumes select_law: "sql_query s = Some q \<Longrightarrow> s = [] \<or> hd s = CHR '' '' \<Longrightarrow>
      sql_admissible columns cell rows params q \<Longrightarrow>
      \<exists>ys. mset ys = mset (filter (\<lambda>r. sql_holds low params q (cell r)) rows) \<and>
        sorted_wrt (\<lambda>a b. \<not> sql_before (sq_orders q) (cell b) (cell a)) ys \<and>
        select (base @ s) params = sql_cut (sq_page q) ys"
    and count_law: "sql_query s = Some q \<Longrightarrow> s = [] \<or> hd s = CHR '' '' \<Longrightarrow>
      sql_admissible columns cell rows params q \<Longrightarrow> sq_orders q = [] \<Longrightarrow> sq_page q = None \<Longrightarrow>
      count (count_base @ s) params = int (length (filter (\<lambda>r. sql_holds low params q (cell r)) rows))"

section \<open>A database that keeps the contract\<close>

definition table_select ::
  "(string \<Rightarrow> string) \<Rightarrow> ('r \<Rightarrow> string \<Rightarrow> goval) \<Rightarrow> 'r list \<Rightarrow> string \<Rightarrow> string \<Rightarrow> goval list \<Rightarrow> 'r list" where
  "table_select low cell rows base text params =
     (case sql_query (drop (length base) text) of
        None \<Rightarrow> []
      | Some q \<Rightarrow> sql_cut (sq_page q)
          (insertion_sort (\<lambda>a b. sql_before (sq_orders q) (cell a) (cell b))
             (filter (\<lambda>r. sql_holds low params q (cell r)) rows)))"

definition table_count ::
  "(string \<Rightarrow> string) \<Rightarrow> ('r \<Rightarrow> string \<Rightarrow> goval) \<Rightarrow> 'r list \<Rightarrow> string \<Rightarrow> string \<Rightarrow> goval list \<Rightarrow> int" where
  "table_count low cell rows base text params =
     (case sql_query (drop (length base) text) of
        None \<Rightarrow> 0
      | Some q \<Rightarrow> int (length (filter (\<lambda>r. sql_holds low params q (cell r)) rows)))"

fun sql_cmps :: "(string \<times> bool) list \<Rightarrow> (string \<Rightarrow> goval) \<Rightarrow> (string \<Rightarrow> goval) \<Rightarrow> int" where
  "sql_cmps [] a b = 0"
| "sql_cmps (d # ds) a b = (if sql_cmp d a b \<noteq> 0 then sql_cmp d a b else sql_cmps ds a b)"

lemma sql_before_cmps: "sql_before ds a b \<longleftrightarrow> sql_cmps ds a b < 0"
  by (induction ds) auto

lemma sql_cmps_comparison: "comparison_on A (sql_cmps ds)"
proof (induction ds)
  case Nil
  have "sql_cmps [] = (\<lambda>_ _. 0)" by (intro ext) simp
  then show ?case using comparison_zero by simp
next
  case (Cons d ds)
  have up: "comparison_on A (\<lambda>a b. let x = the (sql_number (a (fst d))); y = the (sql_number (b (fst d)))
      in if x < y then - 1 else if x > y then 1 else (0 :: int))"
    by (intro comparison_onI) (auto simp: Let_def split: if_splits)
  have "comparison_on A (sql_cmp d)"
    using up comparison_flip [OF up] by (cases "snd d") (simp_all add: sql_cmp_def [abs_def] Let_def)
  moreover have "sql_cmps (d # ds) = (\<lambda>a b. if sql_cmp d a b \<noteq> 0 then sql_cmp d a b else sql_cmps ds a b)"
    by (intro ext) simp
  ultimately show ?case using comparison_lex [OF _ Cons] by simp
qed

lemma sql_ordering: "ordering_on A (\<lambda>a b. sql_before ds (cell a) (cell b))"
  using ordering_of_comparison [OF sql_cmps_comparison [of "cell ` A" ds]]
  unfolding sql_before_cmps ordering_on_def ball_simps(9) .

interpretation table: sql_laws low columns cell rows base count_base
    "table_select low cell rows base" "table_count low cell rows count_base"
  for low columns cell rows base count_base
proof
  fix s q params
  assume q: "sql_query s = Some q"
  let ?lt = "\<lambda>a b. sql_before (sq_orders q) (cell a) (cell b)"
  let ?found = "filter (\<lambda>r. sql_holds low params q (cell r)) rows"
  have "mset (insertion_sort ?lt ?found) = mset ?found" "sorted_wrt (\<lambda>a b. \<not> ?lt b a) (insertion_sort ?lt ?found)"
    using insertion_sort_sorts [unfolded sorts_def, rule_format, of ?lt ?found]
      sql_ordering [of "set ?found" "sq_orders q" cell] by blast+
  then show "\<exists>ys. mset ys = mset ?found \<and> sorted_wrt (\<lambda>a b. \<not> ?lt b a) ys \<and>
      table_select low cell rows base (base @ s) params = sql_cut (sq_page q) ys"
    by (intro exI [of _ "insertion_sort ?lt ?found"]) (simp add: table_select_def q)
qed (simp add: table_count_def)

end
