(* ===== verification/Search_Paths.thy ===== *)
theory Search_Paths
  imports Sql
begin

text \<open>
  The two paths of a search, \<open>criteria/sql_converter.go\<close> over a database and
  \<open>criteria/memory_filter.go\<close> over a slice: what the query of the converter says when it is read as
  SQL, and that both paths find the same, where the criteria mean the same on both.
\<close>

section \<open>The words of the converter's texts\<close>

lemma str_split_append: "str_split d (x @ d # y) = str_split d x @ str_split d y"
  by (induction x) (auto split: list.splits)

lemma str_split_word: "d \<notin> set x \<Longrightarrow> str_split d x = [x]"
  by (induction x) auto

lemma sql_words_Nil [simp]: "sql_words [] = []"
  by (simp add: sql_words_def)

lemma sql_words_append: "sql_words (x @ CHR '' '' # y) = sql_words x @ sql_words y"
  by (simp add: sql_words_def str_split_append)

definition word :: "string \<Rightarrow> bool" where
  "word w \<longleftrightarrow> w \<noteq> [] \<and> CHR '' '' \<notin> set w"

lemma sql_words_word: "word w \<Longrightarrow> sql_words w = [w]"
  by (simp add: word_def sql_words_def str_split_word)

lemma sql_words_Cons: "word w \<Longrightarrow> sql_words (w @ CHR '' '' # y) = w # sql_words y"
  by (simp add: sql_words_append sql_words_word)

lemma sql_words_space: "sql_words (CHR '' '' # y) = sql_words y"
  using sql_words_append [of "[]" y] by simp

lemma word_literals [simp]:
  "word ''IS''" "word ''NULL''" "word ''NOT''" "word ''IN''" "word ''ILIKE''" "word ''@>''" "word ''=''" "word ''AND''"
  "word ''WHERE''" "word ''ORDER''" "word ''BY''" "word ''LIMIT''" "word ''OFFSET''"
  by (simp_all add: word_def)

lemma word_field: "validate_field_name f = None \<Longrightarrow> word f"
  by (auto simp: validate_field_name_def word_def list_all_iff field_start_def field_char_def is_lower_def
      is_upper_def is_digit_def byte_def split: list.splits if_splits)

lemma word_digits: "list_all digit w \<Longrightarrow> w \<noteq> [] \<Longrightarrow> word w"
  by (auto simp: word_def list_all_iff)

lemma itoa_word: "word (itoa n)"
  using word_digits [of "nat_str (nat n)"] word_digits [of "nat_str (nat (- n))"] nat_str_digits nat_str_hd
  by (auto simp: itoa_def word_def)

lemma word_placeholder: "word (placeholder i)"
  using itoa_word [of i] by (simp add: placeholder_def word_def)

lemma sql_param_placeholder [simp]: "sql_param (placeholder (int i)) = Some i"
  using itoa_digits [of "int i"] itoa_word [of "int i"] by (simp add: sql_param_def placeholder_def word_def)

section \<open>The conditions of the filters\<close>

text \<open>The conditions that a filter states when its first parameter is number \<open>i\<close>, and its parameters.\<close>

definition conditions_of :: "field_filter \<Rightarrow> nat \<Rightarrow> sql_cond list \<times> goval list" where
  "conditions_of f i =
     (let field = fl_field f; op = fl_operator f; v = fl_value f in
      if op \<in> {OpIn, OpNotIn}
      then (case as_any_slice v of
              Some (x # xs) \<Rightarrow> ([SqlIn field (op = OpIn) [i..<i + length (x # xs)]], x # xs)
            | _ \<Rightarrow> ([], []))
      else if op \<in> {OpIsNull, OpIsNotNull} then ([SqlNull field (op = OpIsNull)], [])
      else if op \<in> {OpLike, OpContains, OpNotLike, OpNotContains}
      then ([SqlLike field (op \<in> {OpLike, OpContains}) i], [like_pattern v])
      else if op = OpArrayContains then ([SqlHas field i], [v])
      else ([SqlCompare field (if op \<in> set sql_comparisons then op else ''='') i], [v]))"

fun conditions_from :: "field_filter list \<Rightarrow> nat \<Rightarrow> sql_cond list \<times> goval list" where
  "conditions_from [] i = ([], [])"
| "conditions_from (f # fs) i =
     (let (cs, vs) = conditions_of f i; (ds, ws) = conditions_from fs (i + length vs) in (cs @ ds, vs @ ws))"

definition reads :: "string \<Rightarrow> sql_cond \<Rightarrow> bool" where
  "reads s c \<longleftrightarrow> (\<forall>rest. sql_condition (sql_words s @ rest) = Some (c, rest))"

text \<open>A list of placeholders in brackets.\<close>

lemma sql_words_list:
  assumes "word x" "CHR '' '' \<notin> set p"
  shows "sql_words (p @ join '', '' (x # xs) @ '')'') =
    (case xs of [] \<Rightarrow> [p @ x @ '')''] | _ \<Rightarrow> (p @ x @ '','') # sql_words (join '', '' xs @ '')''))"
proof (cases xs)
  case Nil
  then show ?thesis using assms sql_words_word [of "p @ x @ '')''"] by (simp add: word_def)
next
  case (Cons y ys)
  then show ?thesis
    using assms sql_words_Cons [of "p @ x @ '',''" "join '', '' xs @ '')''"] by (simp add: word_def)
qed

lemma sql_list_reads:
  "ks \<noteq> [] \<Longrightarrow> sql_list (sql_words (join '', '' (map (\<lambda>i. placeholder (int i)) ks) @ '')'') @ rest) = Some (ks, rest)"
proof (induction ks)
  case (Cons i ks)
  have p: "placeholder (int i) \<noteq> []" by (simp add: placeholder_def)
  note w = sql_words_list [OF word_placeholder [of "int i"], of "[]" "map (\<lambda>i. placeholder (int i)) ks", simplified]
  show ?case
  proof (cases ks)
    case Nil
    then show ?thesis using w p by (simp add: butlast_append)
  next
    case (Cons j js)
    then show ?thesis using w p Cons.IH by (simp add: butlast_append)
  qed
qed simp

section \<open>Criteria that mean the same on both paths\<close>

text \<open>
  A value that both paths understand: of a scalar kind; a number that \<open>float64\<close> holds; a pattern that is
  a text, in wildcards on both sides or none, without wildcards, escapes and outer spaces; a list with
  elements. Containment in an array exists in SQL only.
\<close>

definition like_core :: "goval \<Rightarrow> string option" where
  "like_core v =
     map_option (\<lambda>s. if 2 \<le> length s \<and> hd s = CHR ''%'' \<and> last s = CHR ''%'' then butlast (tl s) else s) (as_string v)"

definition exact :: "goval \<Rightarrow> bool" where
  "exact v \<longleftrightarrow> sql_number v \<noteq> None \<and> to_float v = sql_number v"

definition inequalities :: "string list" where
  "inequalities = [OpGreaterThan, OpGreaterThanOrEqual, OpLessThan, OpLessThanOrEqual]"

definition comparable_value :: "field_filter \<Rightarrow> bool" where
  "comparable_value f \<longleftrightarrow>
     (let op = fl_operator f; v = fl_value f in
      if op \<in> {OpLike, OpContains, OpNotLike, OpNotContains}
      then (case like_core v of None \<Rightarrow> False | Some s \<Rightarrow> CHR ''%'' \<notin> set s \<and> plain s \<and> trim_spaces s = s)
      else if op \<in> {OpIsNull, OpIsNotNull} then True
      else if op \<in> {OpIn, OpNotIn}
      then (case as_any_slice v of None \<Rightarrow> False | Some vs \<Rightarrow> vs \<noteq> [] \<and> list_all (\<lambda>w. same_kind w w) vs)
      else if op = OpArrayContains then False
      else if op \<in> set inequalities then exact v
      else same_kind v v)"

text \<open>
  A value of the column that both paths judge alike. In memory a null is different from every value and
  does not match any pattern, so that the negated operators keep it, and SQL drops it; and a zero value
  counts as null in memory. A value of another type than the filter's is a value of its own in memory.
\<close>

definition comparable :: "goval \<Rightarrow> field_filter \<Rightarrow> bool" where
  "comparable x f \<longleftrightarrow>
     (let op = fl_operator f; v = fl_value f in
      if op \<in> {OpLike, OpContains} then x = GNil \<or> value_string x \<noteq> None
      else if op \<in> {OpNotLike, OpNotContains} then value_string x \<noteq> None
      else if op \<in> {OpIsNull, OpIsNotNull} then x = GNil \<or> \<not> is_zero x
      else if op \<in> {OpIn, OpNotIn}
      then op = OpIn \<and> x = GNil \<or> (case as_any_slice v of None \<Rightarrow> False | Some vs \<Rightarrow> list_all (same_kind x) vs)
      else if op \<in> set inequalities then x = GNil \<or> same_kind x v \<and> exact x
      else op \<noteq> OpNotEqual \<and> x = GNil \<or> same_kind x v)"

lemma same_kind_sym: "same_kind x y \<Longrightarrow> same_kind y x"
  by (induction x y rule: same_kind.induct) auto

lemma comparable_value_cases:
  assumes "comparable_value f"
  obtains (pattern) s where "fl_operator f \<in> {OpLike, OpContains, OpNotLike, OpNotContains}"
      "like_core (fl_value f) = Some s" "CHR ''%'' \<notin> set s" "plain s" "trim_spaces s = s"
    | (null) "fl_operator f \<in> {OpIsNull, OpIsNotNull}"
    | (lst) x xs where "fl_operator f \<in> {OpIn, OpNotIn}" "as_any_slice (fl_value f) = Some (x # xs)"
      "list_all (\<lambda>w. same_kind w w) (x # xs)"
    | (ineq) "fl_operator f \<in> set inequalities" "exact (fl_value f)"
    | (equality) "fl_operator f \<notin> set inequalities" "fl_operator f \<noteq> OpArrayContains"
      "fl_operator f \<notin> {OpLike, OpContains, OpNotLike, OpNotContains, OpIsNull, OpIsNotNull, OpIn, OpNotIn}"
      "same_kind (fl_value f) (fl_value f)"
proof -
  consider "fl_operator f \<in> {OpLike, OpContains, OpNotLike, OpNotContains}" | "fl_operator f \<in> {OpIsNull, OpIsNotNull}"
    | "fl_operator f \<in> {OpIn, OpNotIn}" | "fl_operator f \<in> set inequalities"
    | "fl_operator f \<notin> {OpLike, OpContains, OpNotLike, OpNotContains, OpIsNull, OpIsNotNull, OpIn, OpNotIn}"
      "fl_operator f \<notin> set inequalities" by blast
  then show thesis
  proof cases
    case 1
    with assms obtain s where "like_core (fl_value f) = Some s" "CHR ''%'' \<notin> set s" "plain s" "trim_spaces s = s"
      by (auto simp: comparable_value_def split: option.splits)
    with 1 show thesis by (rule pattern)
  next
    case 2
    then show thesis by (rule null)
  next
    case 3
    with assms obtain vs where "as_any_slice (fl_value f) = Some vs" "vs \<noteq> []" "list_all (\<lambda>w. same_kind w w) vs"
      by (auto simp: comparable_value_def Let_def operator_defs split: option.splits)
    with 3 show thesis by (cases vs) (auto intro: lst)
  next
    case 4
    moreover have "exact (fl_value f)"
      using assms 4 by (auto simp: comparable_value_def inequalities_def operator_defs)
    ultimately show thesis by (rule ineq)
  next
    case 5
    then show thesis using assms
      by (intro equality) (simp_all add: comparable_value_def Let_def split: if_splits)
  qed
qed

section \<open>The query of the converter is read as its criteria\<close>

lemma reads_compare:
  assumes "validate_field_name f = None" "op \<in> set sql_comparisons"
  shows "reads (f @ '' '' @ op @ '' '' @ placeholder (int i)) (SqlCompare f op i)"
proof -
  have "word op" using assms(2) by (auto simp: sql_comparisons_def word_def)
  then have "sql_words (f @ '' '' @ op @ '' '' @ placeholder (int i)) = [f, op, placeholder (int i)]"
    by (simp add: sql_words_append sql_words_word word_field [OF assms(1)] word_placeholder)
  with assms(2) show ?thesis by (simp add: reads_def sql_condition_def)
qed

lemma reads_like:
  assumes "validate_field_name f = None"
  shows "reads (f @ '' ILIKE '' @ placeholder (int i)) (SqlLike f True i)"
    and "reads (f @ '' NOT ILIKE '' @ placeholder (int i)) (SqlLike f False i)"
proof -
  have "sql_words (f @ '' '' @ ''ILIKE'' @ '' '' @ placeholder (int i)) = [f, ''ILIKE'', placeholder (int i)]"
    unfolding append_Cons append_Nil
    by (simp add: sql_words_append sql_words_Cons [of "''ILIKE''", simplified] sql_words_word word_field [OF assms(1)] word_placeholder)
  then show "reads (f @ '' ILIKE '' @ placeholder (int i)) (SqlLike f True i)"
    by (simp add: reads_def sql_condition_def sql_matching_def sql_comparisons_def)
  have "sql_words (f @ '' '' @ ''NOT'' @ '' '' @ ''ILIKE'' @ '' '' @ placeholder (int i)) = [f, ''NOT'', ''ILIKE'', placeholder (int i)]"
    by (simp add: sql_words_append sql_words_Cons [of "''NOT''", simplified] sql_words_Cons [of "''ILIKE''", simplified]
        sql_words_word word_field [OF assms(1)] word_placeholder)
  then show "reads (f @ '' NOT ILIKE '' @ placeholder (int i)) (SqlLike f False i)"
    by (simp add: reads_def sql_condition_def sql_matching_def sql_comparisons_def)
qed

lemma reads_null:
  assumes "validate_field_name f = None"
  shows "reads (f @ '' IS NULL'') (SqlNull f True)" and "reads (f @ '' IS NOT NULL'') (SqlNull f False)"
proof -
  have "sql_words (f @ '' IS NULL'') = [f, ''IS'', ''NULL'']" "sql_words (f @ '' IS NOT NULL'') = [f, ''IS'', ''NOT'', ''NULL'']"
    by (simp_all add: sql_words_append sql_words_word [OF word_field [OF assms]]) (simp_all add: sql_words_def)
  then show "reads (f @ '' IS NULL'') (SqlNull f True)" "reads (f @ '' IS NOT NULL'') (SqlNull f False)"
    by (simp_all add: reads_def sql_condition_def sql_comparisons_def)
qed

lemma reads_in:
  assumes "validate_field_name f = None" "ks \<noteq> []"
  defines "l \<equiv> join '', '' (map (\<lambda>i. placeholder (int i)) ks) @ '')''"
  shows "reads (f @ '' IN ('' @ l) (SqlIn f True ks)" and "reads (f @ '' NOT IN ('' @ l) (SqlIn f False ks)"
proof -
  obtain i js where ks: "ks = i # js" using assms(2) by (cases ks) auto
  have hd: "\<exists>w ws. sql_words (''('' @ l) = (CHR ''('' # w) # ws \<and> sql_words l = w # ws"
    using sql_words_list [OF word_placeholder [of "int i"], of "''(''" "map (\<lambda>i. placeholder (int i)) js"]
      sql_words_list [OF word_placeholder [of "int i"], of "[]" "map (\<lambda>i. placeholder (int i)) js"]
    by (cases js) (simp_all add: l_def ks)
  then obtain w ws where w: "sql_words (CHR ''('' # l) = (CHR ''('' # w) # ws" "sql_words l = w # ws" by auto
  have "sql_words (f @ '' IN ('' @ l) = [f, ''IN''] @ sql_words (CHR ''('' # l)"
    using sql_words_Cons [of "''IN''" "CHR ''('' # l"]
    by (simp add: sql_words_append sql_words_word word_field [OF assms(1)])
  moreover have "sql_words (f @ '' NOT IN ('' @ l) = [f, ''NOT'', ''IN''] @ sql_words (CHR ''('' # l)"
    using sql_words_Cons [of "''IN''" "CHR ''('' # l"] sql_words_Cons [of "''NOT''" "''IN ('' @ l"]
    by (simp add: sql_words_append sql_words_word word_field [OF assms(1)])
  ultimately show "reads (f @ '' IN ('' @ l) (SqlIn f True ks)" "reads (f @ '' NOT IN ('' @ l) (SqlIn f False ks)"
    using sql_list_reads [OF assms(2)] w
    by (simp_all add: reads_def sql_condition_def sql_matching_def sql_comparisons_def flip: l_def)
qed

lemma comparisons_split: "op \<in> set sql_comparisons \<longleftrightarrow> op \<in> set inequalities \<or> op = OpEqual \<or> op = OpNotEqual"
  by (auto simp: sql_comparisons_def inequalities_def operator_defs)

lemma same_kind_not_nil: "same_kind v v \<Longrightarrow> v \<noteq> GNil"
  by auto

lemma exact_not_nil: "exact v \<Longrightarrow> v \<noteq> GNil"
  by (auto simp: exact_def sql_number_def)

text \<open>What one filter adds to the WHERE clause.\<close>

definition adds :: "field_filter \<Rightarrow> nat \<Rightarrow> string \<Rightarrow> bool" where
  "adds f i t \<longleftrightarrow> (\<exists>c. fst (conditions_of f i) = [c] \<and> reads t c) \<and>
     (\<forall>fs cs ps. where_loop (f # fs) (int i) cs ps =
        where_loop fs (int (i + length (snd (conditions_of f i)))) (cs @ [t]) (ps @ snd (conditions_of f i)))"

lemma addsI:
  assumes "fl_operator f \<notin> {OpIn, OpNotIn}"
    and "snd (conditions_of f i) = (case process_filter f (int i) of (t, v) \<Rightarrow> if v = GNil then [] else [v])"
    and "\<exists>c. fst (conditions_of f i) = [c] \<and> reads (fst (process_filter f (int i))) c"
  shows "\<exists>t. adds f i t"
  using assms unfolding adds_def
  by (intro exI [of _ "fst (process_filter f (int i))"]) (auto simp: algebra_simps split: prod.splits)

lemma list_adds:
  assumes "validate_field_name (fl_field f) = None" "fl_operator f \<in> {OpIn, OpNotIn}"
    and "as_any_slice (fl_value f) = Some (x # xs)"
  shows "adds f i (fl_field f @ '' '' @ (if fl_operator f = OpNotIn then ''NOT IN'' else ''IN'') @ '' ('' @
    join '', '' (map (\<lambda>i. placeholder (int i)) [i..<i + length (x # xs)]) @ '')'')" (is "adds f i ?t")
proof -
  let ?ks = "[i..<i + length (x # xs)]"
  have "map (\<lambda>k. placeholder (int i + int k)) [0..<n] = map (\<lambda>i. placeholder (int i)) [i..<i + n]" for n
    by (rule nth_equalityI) simp_all
  note ks = this [of "length (x # xs)"]
  have t: "reads ?t (SqlIn (fl_field f) (fl_operator f = OpIn) ?ks)"
    using assms(2) reads_in [OF assms(1), of ?ks] by (auto simp: OpIn_def OpNotIn_def)
  have c: "conditions_of f i = ([SqlIn (fl_field f) (fl_operator f = OpIn) ?ks], x # xs)"
    using assms(2,3) by (auto simp: conditions_of_def Let_def)
  have w: "where_loop (f # fs) (int i) cs ps = where_loop fs (int i + int (length (x # xs))) (cs @ [?t]) (ps @ x # xs)"
    for fs cs ps
    using assms(2,3) ks by (auto simp: Let_def simp del: upt_Suc)
  show "adds f i ?t" unfolding adds_def c fst_conv snd_conv w of_nat_add using t by blast
qed

lemma filter_adds:
  assumes "validate_field_name (fl_field f) = None" "comparable_value f"
  shows "\<exists>t. adds f i t"
  using assms(2)
proof (cases rule: comparable_value_cases)
  case (pattern s)
  then have "like_pattern (fl_value f) \<noteq> GNil" by (auto simp: like_core_def as_string_def)
  with pattern(1) reads_like [OF assms(1), of i] show ?thesis
    by (intro addsI) (auto simp: process_filter_def conditions_of_def operator_defs)
next
  case null
  with reads_null [OF assms(1)] show ?thesis
    by (intro addsI) (auto simp: process_filter_def conditions_of_def operator_defs)
next
  case (lst x xs)
  from list_adds [OF assms(1) lst(1,2)] show ?thesis ..
next
  case ineq
  then have "fl_operator f \<in> set sql_comparisons" "fl_value f \<noteq> GNil" by (simp_all add: comparisons_split exact_not_nil)
  with ineq(1) reads_compare [OF assms(1) this(1), of i] show ?thesis
    by (intro addsI) (auto simp: process_filter_def conditions_of_def inequalities_def operator_defs)
next
  case equality
  then have v: "fl_value f \<noteq> GNil" by auto
  have "''='' \<in> set sql_comparisons" "''!='' \<in> set sql_comparisons" by (simp_all add: sql_comparisons_def)
  note r = reads_compare [OF assms(1) this(1), of i] reads_compare [OF assms(1) this(2), of i]
  show ?thesis
  proof (cases "fl_operator f = OpNotEqual")
    case True
    with v r show ?thesis
      by (intro addsI) (auto simp: process_filter_def conditions_of_def sql_comparisons_def operator_defs)
  next
    case False
    with v r equality(1-3) show ?thesis
      by (intro addsI)
        (auto simp: process_filter_def conditions_of_def sql_comparisons_def inequalities_def operator_defs Let_def)
  qed
qed

lemma where_loop_adds:
  assumes "list_all (\<lambda>f. validate_field_name (fl_field f) = None \<and> comparable_value f) fs"
  shows "\<exists>ts. list_all2 reads ts (fst (conditions_from fs i)) \<and> length ts = length fs \<and>
    where_loop fs (int i) cs ps = (cs @ ts, ps @ snd (conditions_from fs i))"
  using assms
proof (induction fs arbitrary: i cs ps)
  case (Cons f fs)
  obtain t where t: "adds f i t" using filter_adds [of f i] Cons.prems by auto
  obtain c where c: "fst (conditions_of f i) = [c]" "reads t c" using t by (auto simp: adds_def)
  let ?i = "i + length (snd (conditions_of f i))"
  obtain ts where ts: "list_all2 reads ts (fst (conditions_from fs ?i))" "length ts = length fs"
    "where_loop fs (int ?i) (cs @ [t]) (ps @ snd (conditions_of f i)) =
       ((cs @ [t]) @ ts, (ps @ snd (conditions_of f i)) @ snd (conditions_from fs ?i))"
    using Cons.IH [of ?i "cs @ [t]" "ps @ snd (conditions_of f i)"] Cons.prems by auto
  have "where_loop (f # fs) (int i) cs ps = where_loop fs (int ?i) (cs @ [t]) (ps @ snd (conditions_of f i))"
    using t unfolding adds_def by blast
  with ts c show ?case
    by (intro exI [of _ "t # ts"]) (simp add: split_beta del: where_loop.simps)
qed simp

text \<open>Conditions joined by AND, as far as a word that is not AND.\<close>

lemma sql_conditions_join:
  "list_all2 reads ts cs \<Longrightarrow> ts \<noteq> [] \<Longrightarrow> rest = [] \<or> hd rest \<noteq> ''AND'' \<Longrightarrow>
   sql_conditions (sql_words (join '' AND '' ts) @ rest) = Some (cs, rest)"
proof (induction ts cs rule: list_all2_induct)
  case (Cons t ts c cs)
  show ?case
  proof (cases ts)
    case Nil
    with Cons show ?thesis by (subst sql_conditions.simps) (auto simp: reads_def)
  next
    case (Cons t' ts')
    have "sql_words (join '' AND '' (t # ts)) = sql_words t @ ''AND'' # sql_words (join '' AND '' ts)"
      using sql_words_Cons [of "''AND''" "join '' AND '' ts"] by (simp add: Cons sql_words_append)
    with Cons Cons.hyps Cons.IH Cons.prems(2) show ?thesis
      by (subst sql_conditions.simps) (simp add: reads_def)
  qed
qed simp

lemma sql_orders_join:
  assumes "list_all (\<lambda>d. order_error d = None) ds" "ds \<noteq> []"
  shows "sql_orders (sql_words (join '', '' (map (\<lambda>d. od_field d @ '' '' @ od_direction d) ds)) @ rest) =
    Some (map (\<lambda>d. (od_field d, od_direction d = OrderAsc)) ds, rest)"
  using assms
proof (induction ds)
  case (Cons d ds)
  have f: "word (od_field d)" and dir: "od_direction d \<in> {''ASC'', ''DESC''}"
    using Cons.prems(1) by (auto simp: order_error_None OrderAsc_def OrderDesc_def intro: word_field)
  have w: "word (od_direction d)" "word (od_direction d @ '','')" using dir by (auto simp: word_def)
  show ?case
  proof (cases ds)
    case Nil
    with f w(1) dir show ?thesis by (auto simp: sql_words_Cons sql_words_word OrderAsc_def)
  next
    case (Cons e es)
    have "sql_words (join '', '' (map (\<lambda>d. od_field d @ '' '' @ od_direction d) (d # ds))) =
        od_field d # (od_direction d @ '','') # sql_words (join '', '' (map (\<lambda>d. od_field d @ '' '' @ od_direction d) ds))"
      using sql_words_Cons [OF f] sql_words_Cons [OF w(2)] by (simp add: Cons)
    with Cons.IH Cons.prems(1) Cons dir show ?thesis by (auto simp: OrderAsc_def)
  qed
qed simp

lemma join_spaces: "join '' '' (b # ps) = b @ concat (map (Cons CHR '' '') ps)"
  by (induction ps arbitrary: b) auto

lemma sql_words_spaces: "sql_words (concat (map (Cons CHR '' '') ps)) = concat (map sql_words ps)"
proof (induction ps)
  case (Cons p ps)
  have "sql_words (p @ concat (map (Cons CHR '' '') ps)) = sql_words p @ sql_words (concat (map (Cons CHR '' '') ps))"
    by (cases ps) (simp_all add: sql_words_append sql_words_space)
  with Cons show ?case by (simp add: sql_words_space)
qed simp

lemma sql_limit_words:
  assumes "int64_range (pg_limit p)" "int64_range (pg_offset p)"
  shows "sql_limit (sql_words (build_limit_clause p)) = Some (Some (pg_limit p, pg_offset p))"
proof -
  have "sql_words (''LIMIT'' @ '' '' @ itoa n @ '' '' @ ''OFFSET'' @ '' '' @ itoa m) = [''LIMIT'', itoa n, ''OFFSET'', itoa m]" for n m
    using sql_words_Cons [of "''LIMIT''"] sql_words_Cons [of "''OFFSET''"]
    by (simp add: sql_words_Cons [OF itoa_word] sql_words_word [OF itoa_word])
  then show ?thesis using assms by (simp add: sql_limit_def build_limit_clause_def atoi_itoa)
qed

text \<open>The query that criteria stand for.\<close>

definition query_for :: "field_filter list \<Rightarrow> sort_order list \<Rightarrow> pagination \<Rightarrow> sql_query" where
  "query_for fs ds p =
     \<lparr>sq_where = fst (conditions_from fs 1), sq_orders = map (\<lambda>d. (od_field d, od_direction d = OrderAsc)) ds,
      sq_page = (if pagination_empty p then None else Some (pg_limit p, pg_offset p))\<rparr>"

definition clauses :: "field_filter list \<Rightarrow> sort_order list \<Rightarrow> pagination \<Rightarrow> string list" where
  "clauses fs ds p =
     (if fs \<noteq> [] then [fst (build_where_clause fs)] else []) @ (if ds \<noteq> [] then [build_order_clause ds] else []) @
     (if pagination_empty p then [] else [build_limit_clause p])"

text \<open>The words after the WHERE clause: they are the orders and the page, and no condition goes on.\<close>

definition tail_words :: "sort_order list \<Rightarrow> pagination \<Rightarrow> string list" where
  "tail_words ds p =
     (if ds \<noteq> [] then sql_words (build_order_clause ds) else []) @
     (if pagination_empty p then [] else sql_words (build_limit_clause p))"

lemma tail_words_read:
  assumes ds: "list_all (\<lambda>d. order_error d = None) ds"
    and p: "\<not> pagination_empty p \<Longrightarrow> int64_range (pg_limit p) \<and> int64_range (pg_offset p)"
  shows "tail_words ds p = [] \<or> hd (tail_words ds p) \<notin> {''AND'', ''WHERE''}"
    and "\<exists>ws. (if take 2 (tail_words ds p) = [''ORDER'', ''BY''] then sql_orders (drop 2 (tail_words ds p))
        else Some ([], tail_words ds p)) = Some (sq_orders (query_for fs ds p), ws) \<and>
      sql_limit ws = Some (sq_page (query_for fs ds p))"
proof -
  let ?l = "if pagination_empty p then [] else sql_words (build_limit_clause p)"
  have limit: "sql_limit ?l = Some (sq_page (query_for fs ds p))"
    using sql_limit_words p by (auto simp: query_for_def sql_limit_def)
  have l: "?l = [] \<or> (\<exists>xs. ?l = ''LIMIT'' # xs)"
    using sql_words_Cons [of "''LIMIT''"] by (auto simp: build_limit_clause_def)
  have words: "tail_words ds p =
      [''ORDER'', ''BY''] @ sql_words (join '', '' (map (\<lambda>d. od_field d @ '' '' @ od_direction d) ds)) @ ?l" if "ds \<noteq> []"
    using that sql_words_Cons [of "''ORDER''"] sql_words_Cons [of "''BY''"] by (simp add: tail_words_def build_order_clause_def)
  then show "tail_words ds p = [] \<or> hd (tail_words ds p) \<notin> {''AND'', ''WHERE''}"
    using l by (cases "ds = []") (auto simp: tail_words_def)
  show "\<exists>ws. (if take 2 (tail_words ds p) = [''ORDER'', ''BY''] then sql_orders (drop 2 (tail_words ds p))
        else Some ([], tail_words ds p)) = Some (sq_orders (query_for fs ds p), ws) \<and>
      sql_limit ws = Some (sq_page (query_for fs ds p))"
  proof (cases "ds = []")
    case True
    then show ?thesis using l limit by (auto simp: tail_words_def query_for_def)
  next
    case False
    with sql_orders_join [OF ds False, of ?l] limit show ?thesis
      unfolding words [OF False] by (intro exI [of _ ?l]) (simp add: query_for_def)
  qed
qed

lemma clauses_read:
  assumes fs: "list_all (\<lambda>f. validate_field_name (fl_field f) = None \<and> comparable_value f) fs"
    and ds: "list_all (\<lambda>d. order_error d = None) ds"
    and p: "\<not> pagination_empty p \<Longrightarrow> int64_range (pg_limit p) \<and> int64_range (pg_offset p)"
  shows "sql_query (concat (map (Cons CHR '' '') (clauses fs ds p))) = Some (query_for fs ds p)"
    and "fs \<noteq> [] \<Longrightarrow> snd (build_where_clause fs) = snd (conditions_from fs 1)"
proof -
  obtain ts where ts: "list_all2 reads ts (fst (conditions_from fs 1))" "length ts = length fs"
    "where_loop fs 1 [] [] = (ts, snd (conditions_from fs 1))"
    using where_loop_adds [OF fs, of 1 "[]" "[]"] by auto
  have clause: "build_where_clause fs = (''WHERE '' @ join '' AND '' ts, snd (conditions_from fs 1))" if "fs \<noteq> []"
    using ts(2,3) that by (auto simp: build_where_clause_def)
  then show "fs \<noteq> [] \<Longrightarrow> snd (build_where_clause fs) = snd (conditions_from fs 1)" by simp
  define w where "w = (if fs \<noteq> [] then sql_words (fst (build_where_clause fs)) else [])"
  let ?t = "tail_words ds p"
  have words: "sql_words (concat (map (Cons CHR '' '') (clauses fs ds p))) = w @ ?t"
    unfolding sql_words_spaces clauses_def w_def tail_words_def by simp
  note tail = tail_words_read [OF ds p]
  have conds: "(if take 1 (w @ ?t) = [''WHERE''] then sql_conditions (drop 1 (w @ ?t)) else Some ([], w @ ?t)) =
      Some (sq_where (query_for fs ds p), ?t)"
  proof (cases "fs = []")
    case True
    then show ?thesis using tail(1) by (cases ?t) (auto simp: query_for_def w_def)
  next
    case False
    then have "w = ''WHERE'' # sql_words (join '' AND '' ts)"
      using sql_words_Cons [of "''WHERE''"] clause by (simp add: w_def)
    moreover have "ts \<noteq> []" using False ts(2) by auto
    ultimately show ?thesis using sql_conditions_join [OF ts(1), of ?t] tail(1) by (auto simp: query_for_def)
  qed
  obtain ws where ws: "(if take 2 ?t = [''ORDER'', ''BY''] then sql_orders (drop 2 ?t) else Some ([], ?t)) =
      Some (sq_orders (query_for fs ds p), ws)" "sql_limit ws = Some (sq_page (query_for fs ds p))"
    using tail(2) [of fs] by blast
  show "sql_query (concat (map (Cons CHR '' '') (clauses fs ds p))) = Some (query_for fs ds p)"
    unfolding sql_query_def words Let_def conds bind.bind_lunit prod.case ws(1) by (simp add: ws(2))
qed

section \<open>A filter says the same on both paths\<close>

text \<open>What lower case has to leave alone, of any text: the wildcards.\<close>

definition lowers :: "(string \<Rightarrow> string) \<Rightarrow> bool" where
  "lowers low \<longleftrightarrow> low [] = [] \<and> (\<forall>s. low (CHR ''%'' # s @ ''%'') = CHR ''%'' # low s @ ''%'') \<and>
     (\<forall>s. CHR ''%'' \<notin> set s \<longrightarrow> CHR ''%'' \<notin> set (low s))"

lemma sql_like_prefix: "CHR ''%'' \<notin> set p \<Longrightarrow> sql_like (p @ ''%'') s \<longleftrightarrow> prefix p s"
proof (induction p arbitrary: s)
  case Nil
  have "[] \<in> set (suffixes s)" by simp
  then show ?case by (auto simp: list_ex_iff)
next
  case (Cons c p)
  then show ?case by (cases s) auto
qed

lemma sql_like_contains: "CHR ''%'' \<notin> set p \<Longrightarrow> sql_like (CHR ''%'' # p @ ''%'') s \<longleftrightarrow> str_contains s p"
  by (simp add: sql_like_prefix str_contains_def list_ex_iff)

lemma like_core_value:
  assumes "like_core v = Some s" "CHR ''%'' \<notin> set s"
  obtains t where "v = go_string t" "filter (\<lambda>c. c \<noteq> CHR ''%'') t = s" "like_pattern v = go_string (CHR ''%'' # s @ ''%'')"
proof -
  obtain t where t: "v = go_string t" "as_string v = Some t"
    "s = (if 2 \<le> length t \<and> hd t = CHR ''%'' \<and> last t = CHR ''%'' then butlast (tl t) else t)"
    using assms(1) by (auto simp: like_core_def as_string_def split: goval.splits if_splits)
  have f: "filter (\<lambda>c. c \<noteq> CHR ''%'') s = s" using assms(2) by (auto simp: filter_id_conv)
  show thesis
  proof (cases "2 \<le> length t \<and> hd t = CHR ''%'' \<and> last t = CHR ''%''")
    case True
    then have ts: "t = CHR ''%'' # s @ ''%''" using t(3) by (cases t; cases "tl t" rule: rev_cases) auto
    then have "str_contains t ''%''"
      by (auto simp: str_contains_def list_ex_iff intro!: bexI [of _ t])
    then have "like_pattern v = v" using t(2) by (simp add: like_pattern_def)
    with t(1) ts f show thesis by (intro that [of t]) simp_all
  next
    case False
    then have "t = s" using t(3) by (simp only: if_False)
    moreover have "\<not> str_contains s ''%''"
      using assms(2) by (auto simp: str_contains_def list_ex_iff prefix_def suffix_def)
    ultimately show thesis using t f by (intro that [of t]) (simp_all add: like_pattern_def)
  qed
qed

lemma like_agrees:
  assumes "like_core v = Some s" "CHR ''%'' \<notin> set s" "trim_spaces s = s" "lowers (to_lower u)"
    and "value_string x = Some fs"
  shows "sql_ilike (to_lower u) x (like_pattern v) = sql_fact (match_like u x v)"
proof -
  obtain t where t: "v = go_string t" "filter (\<lambda>c. c \<noteq> CHR ''%'') t = s"
    "like_pattern v = go_string (CHR ''%'' # s @ ''%'')"
    by (rule like_core_value [OF assms(1,2)])
  have "sql_like (to_lower u (CHR ''%'' # s @ ''%'')) (to_lower u fs) = str_contains (to_lower u fs) (to_lower u s)"
    using assms(2,4) by (simp add: lowers_def sql_like_contains del: sql_like.simps)
  moreover have "str_contains (to_lower u fs) (to_lower u s)" if "s = []"
    using that assms(4) by (auto simp: lowers_def str_contains_def list_ex_iff)
  ultimately show ?thesis
    using assms(3,5) t by (auto simp: sql_ilike_def match_like_def value_string_def Let_def)
qed

lemma compare_agrees:
  assumes "op \<in> set inequalities" "exact x" "exact v"
  shows "sql_compare op x v = sql_fact (compare_numeric op x v)"
  using assms exact_not_nil [OF assms(2)] exact_not_nil [OF assms(3)]
  by (auto simp: exact_def sql_compare_def compare_numeric_def inequalities_def operator_defs)

lemma is_zero_nil [simp]: "\<not> is_zero GNil"
  by (simp add: is_zero_def)

lemma to_float_nil [simp]: "to_float GNil = None"
  by (simp add: to_float_def)

lemma value_string_nil [simp]: "value_string GNil = None"
  by (simp add: value_string_def)

text \<open>Condition \<open>c\<close> is typed, and true exactly if \<open>b\<close>.\<close>

definition decides :: "(string \<Rightarrow> string) \<Rightarrow> goval list \<Rightarrow> (string \<Rightarrow> goval) \<Rightarrow> sql_cond \<Rightarrow> bool \<Rightarrow> bool" where
  "decides low params cell c b \<longleftrightarrow> sql_typed params cell c \<and> (sql_truth low params cell c = SqlTrue \<longleftrightarrow> b)"

lemma in_decides:
  assumes "map (sql_arg params) ks = vs" "list_all (\<lambda>w. same_kind w w) vs" "vs \<noteq> []"
    and in_kind: "cell f = GNil \<and> pos \<or> list_all (same_kind (cell f)) vs"
  shows "decides low params cell (SqlIn f pos ks) (if pos then cell f \<in> set vs else cell f \<notin> set vs)"
proof -
  have typed: "\<forall>k \<in> set ks. fits (cell f) (sql_arg params k)"
    using assms by (auto simp: list_all_iff fits_def)
  show ?thesis
  proof (cases "cell f = GNil")
    case True
    then have "sql_or (map (\<lambda>k. sql_compare ''='' (cell f) (sql_arg params k)) ks) \<noteq> SqlTrue"
      by (induction ks) (auto simp: sql_or_def sql_compare_def bot_sql_bool_def max_def)
    moreover have "pos" using in_kind assms(3) True by (cases vs) simp_all
    moreover have "cell f \<notin> set vs" using assms(2) True by (auto simp: list_all_iff)
    ultimately show ?thesis using typed by (simp add: decides_def)
  next
    case False
    have "same_kind (sql_arg params k) (sql_arg params k)" if "k \<in> set ks" for k
      using assms(1,2) that by (auto simp: list_all_iff)
    then have "sql_arg params k \<noteq> GNil" if "k \<in> set ks" for k using that same_kind_not_nil by blast
    then have "map (\<lambda>k. sql_compare ''='' (cell f) (sql_arg params k)) ks = map (\<lambda>k. sql_fact (cell f = sql_arg params k)) ks"
      using False by (auto simp: sql_compare_def)
    then have "sql_or (map (\<lambda>k. sql_compare ''='' (cell f) (sql_arg params k)) ks) = sql_fact (cell f \<in> set vs)"
      unfolding assms(1) [symmetric] set_map image_iff by (simp only: sql_or_facts)
    then show ?thesis using typed by (simp add: decides_def)
  qed
qed

lemma in_slice: "as_any_slice v = Some (y # ys) \<Longrightarrow> match_in x v \<longleftrightarrow> x \<in> set (y # ys)"
  by (cases v) (auto simp: as_any_slice_def match_in_def list_ex_iff split: if_splits option.splits)

lemma in_operators [simp]:
  "apply_operator u OpIn x v = match_in x v" "apply_operator u OpNotIn x v \<longleftrightarrow> \<not> match_in x v" "OpNotIn \<noteq> OpIn"
  by (simp_all add: apply_operator_def operator_defs)

definition agrees :: "unicode \<Rightarrow> goval list \<Rightarrow> (string \<Rightarrow> goval) \<Rightarrow> field_filter \<Rightarrow> nat \<Rightarrow> bool" where
  "agrees u params cell f i \<longleftrightarrow> (\<exists>c. fst (conditions_of f i) = [c] \<and>
     decides (to_lower u) params cell c (apply_operator u (fl_operator f) (cell (fl_field f)) (fl_value f)))"

lemma agreesI:
  assumes "conditions_of f i = ([c], vs)" "sql_typed params cell c"
    and "sql_truth (to_lower u) params cell c = SqlTrue \<longleftrightarrow>
      apply_operator u (fl_operator f) (cell (fl_field f)) (fl_value f)"
  shows "agrees u params cell f i"
  using assms by (simp add: agrees_def decides_def)

lemma pattern_agrees:
  assumes op: "fl_operator f \<in> {OpLike, OpContains, OpNotLike, OpNotContains}"
    and core: "like_core (fl_value f) = Some s" "CHR ''%'' \<notin> set s" "trim_spaces s = s" and "plain s"
    and "comparable (cell (fl_field f)) f" "lowers (to_lower u)" and arg: "sql_arg params i = like_pattern (fl_value f)"
  shows "agrees u params cell f i"
proof (rule agreesI)
  let ?pos = "fl_operator f \<in> {OpLike, OpContains}" and ?x = "cell (fl_field f)"
  show "conditions_of f i = ([SqlLike (fl_field f) ?pos i], [like_pattern (fl_value f)])"
    using op by (auto simp: conditions_of_def operator_defs)
  obtain t where t: "like_pattern (fl_value f) = go_string (CHR ''%'' # s @ ''%'')"
    by (rule like_core_value [OF core(1,2)])
  show "sql_typed params cell (SqlLike (fl_field f) ?pos i)"
    using assms(5,6) op by (auto simp: comparable_def arg t plain_def value_string_def operator_defs)
  show "sql_truth (to_lower u) params cell (SqlLike (fl_field f) ?pos i) = SqlTrue \<longleftrightarrow>
      apply_operator u (fl_operator f) ?x (fl_value f)"
  proof (cases "value_string ?x")
    case None
    then have "?pos" "?x = GNil" using assms(6) op by (auto simp: comparable_def operator_defs)
    then show ?thesis by (auto simp: arg sql_ilike_def apply_operator_def match_like_def operator_defs)
  next
    case (Some fs)
    from like_agrees [OF core assms(7) Some] show ?thesis
      using op by (auto simp: arg apply_operator_def operator_defs)
  qed
qed

lemma list_agrees:
  assumes op: "fl_operator f \<in> {OpIn, OpNotIn}" and vs: "as_any_slice (fl_value f) = Some (y # ys)"
    and "list_all (\<lambda>w. same_kind w w) (y # ys)" "comparable (cell (fl_field f)) f"
    and args: "map (sql_arg params) [i..<i + length (y # ys)] = y # ys"
  shows "agrees u params cell f i"
proof -
  let ?c = "SqlIn (fl_field f) (fl_operator f = OpIn) [i..<i + length (y # ys)]" and ?x = "cell (fl_field f)"
  have c: "conditions_of f i = ([?c], y # ys)" using op vs by (auto simp: conditions_of_def Let_def)
  have kind: "?x = GNil \<and> fl_operator f = OpIn \<or> list_all (same_kind ?x) (y # ys)"
    using assms(4) op vs by (auto simp: comparable_def Let_def operator_defs)
  have "apply_operator u (fl_operator f) ?x (fl_value f) \<longleftrightarrow>
      (if fl_operator f = OpIn then ?x \<in> set (y # ys) else ?x \<notin> set (y # ys))"
    using op in_slice [OF vs] by (cases "fl_operator f = OpIn") simp_all
  with in_decides [where cell = cell and f = "fl_field f", OF args assms(3) list.distinct(2) kind, of "to_lower u"]
  have "decides (to_lower u) params cell ?c (apply_operator u (fl_operator f) ?x (fl_value f))"
    by (simp only:)
  then show ?thesis unfolding agrees_def c fst_conv by (intro exI conjI) (rule refl)
qed

lemma inequality_agrees:
  assumes op: "fl_operator f \<in> set inequalities" and v: "exact (fl_value f)"
    and "comparable (cell (fl_field f)) f" and arg: "sql_arg params i = fl_value f"
  shows "agrees u params cell f i"
proof (rule agreesI)
  let ?x = "cell (fl_field f)"
  show "conditions_of f i = ([SqlCompare (fl_field f) (fl_operator f) i], [fl_value f])"
    using op by (auto simp: conditions_of_def inequalities_def sql_comparisons_def operator_defs)
  have x: "?x = GNil \<or> same_kind ?x (fl_value f) \<and> exact ?x"
    using assms(3) op by (auto simp: comparable_def inequalities_def operator_defs)
  have "same_kind (fl_value f) (fl_value f)" using v by (cases "fl_value f") (auto simp: exact_def sql_number_def)
  with x v show "sql_typed params cell (SqlCompare (fl_field f) (fl_operator f) i)"
    by (auto simp: arg fits_def exact_def)
  have "apply_operator u (fl_operator f) ?x (fl_value f) \<longleftrightarrow> compare_numeric (fl_operator f) ?x (fl_value f)"
    using op by (auto simp: apply_operator_def inequalities_def operator_defs)
  moreover have "sql_compare (fl_operator f) ?x (fl_value f) = SqlTrue \<longleftrightarrow> compare_numeric (fl_operator f) ?x (fl_value f)"
  proof (cases "?x = GNil")
    case True
    then show ?thesis by (simp add: sql_compare_def compare_numeric_def)
  next
    case False
    with x compare_agrees [OF op _ v, of ?x] show ?thesis by simp
  qed
  ultimately show "sql_truth (to_lower u) params cell (SqlCompare (fl_field f) (fl_operator f) i) = SqlTrue \<longleftrightarrow>
      apply_operator u (fl_operator f) ?x (fl_value f)"
    by (simp add: arg)
qed

lemma equality_agrees:
  assumes op: "fl_operator f \<notin> set inequalities" "fl_operator f \<noteq> OpArrayContains"
      "fl_operator f \<notin> {OpLike, OpContains, OpNotLike, OpNotContains, OpIsNull, OpIsNotNull, OpIn, OpNotIn}"
    and v: "same_kind (fl_value f) (fl_value f)" and "comparable (cell (fl_field f)) f"
    and arg: "sql_arg params i = fl_value f"
  shows "agrees u params cell f i"
proof (rule agreesI)
  let ?x = "cell (fl_field f)" and ?op = "if fl_operator f = OpNotEqual then ''!='' else ''=''"
  show "conditions_of f i = ([SqlCompare (fl_field f) ?op i], [fl_value f])"
    using op by (auto simp: conditions_of_def comparisons_split Let_def) (simp_all add: operator_defs)
  have x: "fl_operator f \<noteq> OpNotEqual \<and> ?x = GNil \<or> same_kind ?x (fl_value f)"
    using assms(5) op by (simp add: comparable_def Let_def)
  then show "sql_typed params cell (SqlCompare (fl_field f) ?op i)" using v by (auto simp: arg fits_def)
  have "apply_operator u (fl_operator f) ?x (fl_value f) \<longleftrightarrow>
      (if fl_operator f = OpNotEqual then ?x \<noteq> fl_value f else ?x = fl_value f)"
    using op by (auto simp: apply_operator_def inequalities_def) (simp_all add: operator_defs)
  moreover have "sql_compare ?op ?x (fl_value f) = SqlTrue \<longleftrightarrow>
      (if fl_operator f = OpNotEqual then ?x \<noteq> fl_value f else ?x = fl_value f)"
    using x v by (auto simp: sql_compare_def)
  ultimately show "sql_truth (to_lower u) params cell (SqlCompare (fl_field f) ?op i) = SqlTrue \<longleftrightarrow>
      apply_operator u (fl_operator f) ?x (fl_value f)"
    by (simp add: arg)
qed

lemma filter_agrees:
  assumes "comparable_value f" "comparable (cell (fl_field f)) f" "lowers (to_lower u)"
    and args: "\<forall>k < length (snd (conditions_of f i)). sql_arg params (i + k) = snd (conditions_of f i) ! k"
  shows "agrees u params cell f i"
  using assms(1)
proof (cases rule: comparable_value_cases)
  case (pattern s)
  then have "snd (conditions_of f i) = [like_pattern (fl_value f)]" by (auto simp: conditions_of_def operator_defs)
  with args show ?thesis using pattern_agrees [where cell = cell, OF pattern(1,2,3,5,4) assms(2,3)] by simp
next
  case null
  then have "conditions_of f i = ([SqlNull (fl_field f) (fl_operator f = OpIsNull)], [])"
    by (auto simp: conditions_of_def operator_defs)
  moreover have "cell (fl_field f) = GNil \<or> \<not> is_zero (cell (fl_field f))"
    using assms(2) null by (auto simp: comparable_def operator_defs)
  ultimately show ?thesis using null by (intro agreesI) (auto simp: apply_operator_def operator_defs)
next
  case (lst y ys)
  then have "snd (conditions_of f i) = y # ys" by (auto simp: conditions_of_def Let_def)
  with args have "map (sql_arg params) [i..<i + length (y # ys)] = y # ys"
    by (intro nth_equalityI) (simp_all del: upt_Suc)
  then show ?thesis by (rule list_agrees [where cell = cell, OF lst assms(2)])
next
  case ineq
  then have "snd (conditions_of f i) = [fl_value f]" by (auto simp: conditions_of_def inequalities_def operator_defs Let_def)
  with args inequality_agrees [where cell = cell, OF ineq assms(2)] show ?thesis by simp
next
  case equality
  then have "snd (conditions_of f i) = [fl_value f]" by (simp add: conditions_of_def Let_def)
  with args equality_agrees [where cell = cell, OF equality(1-4) assms(2)] show ?thesis by simp
qed

section \<open>Both paths find the same\<close>

lemma conditions_of_column: "c \<in> set (fst (conditions_of f i)) \<Longrightarrow> sql_column c = fl_field f"
  by (auto simp: conditions_of_def Let_def split: if_splits option.splits list.splits)

lemma conditions_from_columns: "c \<in> set (fst (conditions_from fs i)) \<Longrightarrow> sql_column c \<in> fl_field ` set fs"
  by (induction fs arbitrary: i) (auto simp: split_beta dest!: conditions_of_column)

lemma filters_decide:
  assumes "list_all comparable_value fs" "lowers (to_lower u)"
    and "\<forall>f \<in> set fs. get_field_value u v (fl_field f) = Some (cell (fl_field f)) \<and> comparable (cell (fl_field f)) f"
    and "\<forall>k < length (snd (conditions_from fs i)). sql_arg params (i + k) = snd (conditions_from fs i) ! k"
  shows "(\<forall>c \<in> set (fst (conditions_from fs i)). sql_typed params cell c) \<and>
    ((\<forall>c \<in> set (fst (conditions_from fs i)). sql_truth (to_lower u) params cell c = SqlTrue) \<longleftrightarrow> matches_filter u v fs)"
  using assms(1,3,4)
proof (induction fs arbitrary: i)
  case (Cons f fs)
  let ?vs = "snd (conditions_of f i)" and ?ws = "snd (conditions_from fs (i + length (snd (conditions_of f i))))"
  have snd: "snd (conditions_from (f # fs) i) = ?vs @ ?ws" by (simp add: split_beta)
  have one: "\<forall>k < length ?vs. sql_arg params (i + k) = ?vs ! k"
    using Cons.prems(3) unfolding snd by (auto simp: nth_append)
  have rest: "sql_arg params (i + length ?vs + k) = ?ws ! k" if "k < length ?ws" for k
    using Cons.prems(3) [unfolded snd, rule_format, of "length ?vs + k"] that by (simp add: nth_append add.assoc)
  obtain c where c: "fst (conditions_of f i) = [c]"
    "decides (to_lower u) params cell c (apply_operator u (fl_operator f) (cell (fl_field f)) (fl_value f))"
    using filter_agrees [of f cell u i params] Cons.prems(1,2) assms(2) one by (auto simp: agrees_def)
  with Cons.IH [of "i + length ?vs"] Cons.prems(1,2) rest show ?case
    by (auto simp: split_beta decides_def)
qed simp

lemma sorted_unique:
  "mset xs = mset ys \<Longrightarrow> sorted_wrt (\<lambda>a b. \<not> lt b a) xs \<Longrightarrow> sorted_wrt (\<lambda>a b. \<not> lt b a) ys \<Longrightarrow>
   \<forall>a \<in> set xs. \<forall>b \<in> set xs. a \<noteq> b \<longrightarrow> lt a b \<or> lt b a \<Longrightarrow> xs = ys"
proof (induction xs arbitrary: ys)
  case (Cons x xs)
  then obtain y ys' where ys: "ys = y # ys'" by (cases ys) auto
  have same: "set (x # xs) = set (y # ys')" using Cons.prems(1) ys by (metis set_mset_mset)
  have "x = y"
  proof (rule ccontr)
    assume "x \<noteq> y"
    with same have "x \<in> set ys'" "y \<in> set xs" by auto
    then show False using Cons.prems(2-4) \<open>x \<noteq> y\<close> by (auto simp: ys)
  qed
  with Cons ys show ?case by auto
qed simp

text \<open>The items of the slice are the rows of the table, as far as the criteria look.\<close>

definition same_table ::
  "unicode \<Rightarrow> criteria \<Rightarrow> string set \<Rightarrow> ('r \<Rightarrow> string \<Rightarrow> goval) \<Rightarrow> ('r \<Rightarrow> item) \<Rightarrow> 'r list \<Rightarrow> bool" where
  "same_table u c columns cell item rows \<longleftrightarrow>
     fl_field ` set (cr_filters c) \<union> od_field ` set (cr_orders c) \<subseteq> columns \<and>
     (\<forall>r \<in> set rows.
        (\<forall>f \<in> set (cr_filters c). get_field_value u (item r) (fl_field f) = Some (cell r (fl_field f)) \<and>
           comparable (cell r (fl_field f)) f) \<and>
        (\<forall>d \<in> set (cr_orders c). get_field_value u (item r) (od_field d) = Some (cell r (od_field d)) \<and>
           exact (cell r (od_field d))))"

lemma orders_agree:
  assumes "\<forall>d \<in> set ds. get_field_value u (item a) (od_field d) = Some (cell a (od_field d)) \<and> exact (cell a (od_field d))"
    and "\<forall>d \<in> set ds. get_field_value u (item b) (od_field d) = Some (cell b (od_field d)) \<and> exact (cell b (od_field d))"
  shows "sql_before (map (\<lambda>d. (od_field d, od_direction d = OrderAsc)) ds) (cell a) (cell b) \<longleftrightarrow>
    less_by_orders u (item a) (item b) ds"
  using assms
proof (induction ds)
  case (Cons d ds)
  then have "sql_cmp (od_field d, od_direction d = OrderAsc) (cell a) (cell b) =
      (let c = compare_values u (cell a (od_field d)) (cell b (od_field d)) in if od_direction d = OrderAsc then c else - c)"
    by (auto simp: sql_cmp_def compare_values_def exact_def Let_def)
  with Cons show ?case by (auto simp: Let_def)
qed simp

lemma apply_in_memory_cut:
  assumes "sorts srt" "pagination_error (cr_pagination c) = None"
    and "int64_range (pg_offset (cr_pagination c) + pg_limit (cr_pagination c))"
  shows "apply_in_memory u srt items c =
    Returns (sql_cut (sq_page (query_for fs ds (cr_pagination c))) (matching u srt items c), int (length (matching u srt items c)))"
proof (cases "items = []")
  case True
  with assms(1) show ?thesis by (simp add: apply_in_memory_def query_for_def sql_cut_def)
next
  case items: False
  let ?m = "matching u srt items c" and ?p = "cr_pagination c"
  show ?thesis
  proof (cases "pagination_empty ?p")
    case True
    then show ?thesis
      using items matching_length [OF assms(1), of u items c]
      by (simp add: apply_in_memory_def query_for_def sql_cut_def matching_def Let_def pagination_empty_def)
  next
    case False
    then have p: "1 \<le> pg_limit ?p" "0 \<le> pg_offset ?p"
      using assms(2) by (auto simp: pagination_error_def split: if_splits)
    have w: "wrap64 (pg_offset ?p + pg_limit ?p) = pg_offset ?p + pg_limit ?p" using assms(3) by (rule wrap64_id)
    have cut: "sql_cut (sq_page (query_for fs ds ?p)) ?m = take (nat (pg_limit ?p)) (drop (nat (pg_offset ?p)) ?m)"
      using False by (simp add: query_for_def sql_cut_def)
    show ?thesis
      unfolding apply_in_memory_matching [OF assms(1) p(1) items] cut Let_def w
      using p by (auto simp: nat_diff_distrib nat_add_distrib)
  qed
qed

lemma to_sql_clauses:
  assumes "validate c = None"
  shows "to_select_sql base c = Inr (base @ concat (map (Cons CHR '' '') (clauses (cr_filters c) (cr_orders c) (cr_pagination c))),
      if cr_filters c = [] then [] else snd (build_where_clause (cr_filters c)))"
    and "to_count_sql base c = Inr (base @ concat (map (Cons CHR '' '')
        (clauses (cr_filters c) [] (cr_pagination c\<lparr>pg_limit := 0\<rparr>))),
      if cr_filters c = [] then [] else snd (build_where_clause (cr_filters c)))"
  using assms
  by (auto simp: to_select_sql_def to_count_sql_def clauses_def pagination_empty_def join_spaces split_beta
      simp del: join.simps)

lemma matches_as_conditions:
  assumes "same_table u c columns cell item rows" "list_all comparable_value (cr_filters c)" "lowers (to_lower u)"
    and "r \<in> set rows"
  defines "params \<equiv> snd (conditions_from (cr_filters c) 1)"
  shows "\<forall>a \<in> set (fst (conditions_from (cr_filters c) 1)). sql_typed params (cell r) a"
    and "sql_holds (to_lower u) params (query_for (cr_filters c) ds p) (cell r) \<longleftrightarrow> matches_filter u (item r) (cr_filters c)"
proof -
  have "\<forall>k < length params. sql_arg params (1 + k) = params ! k" by (simp add: sql_arg_def)
  with filters_decide [OF assms(2,3), of "item r" "cell r" 1 params] assms(1,4)
  show "\<forall>a \<in> set (fst (conditions_from (cr_filters c) 1)). sql_typed params (cell r) a"
    "sql_holds (to_lower u) params (query_for (cr_filters c) ds p) (cell r) \<longleftrightarrow> matches_filter u (item r) (cr_filters c)"
    by (auto simp: params_def same_table_def sql_holds_iff query_for_def)
qed

lemma query_admissible:
  assumes "same_table u c columns cell item rows" "list_all comparable_value (cr_filters c)" "lowers (to_lower u)"
    and "set ds \<subseteq> set (cr_orders c)" "pagination_error p = None"
  shows "sql_admissible columns cell rows (snd (conditions_from (cr_filters c) 1)) (query_for (cr_filters c) ds p)"
proof -
  let ?params = "snd (conditions_from (cr_filters c) 1)"
  have "sql_column a \<in> columns" if "a \<in> set (fst (conditions_from (cr_filters c) 1))" for a
    using conditions_from_columns [OF that] assms(1) by (auto simp: same_table_def)
  moreover have "sql_typed ?params (cell r) a" if "r \<in> set rows" "a \<in> set (fst (conditions_from (cr_filters c) 1))" for r a
    using matches_as_conditions(1) [OF assms(1-3) that(1)] that(2) by blast
  moreover have "od_field d \<in> columns" if "d \<in> set ds" for d
    using assms(1) subsetD [OF assms(4) that] by (auto simp: same_table_def)
  moreover have "sql_number (cell r (od_field d)) \<noteq> None" if "d \<in> set ds" "r \<in> set rows" for d r
    using assms(1,4) that by (auto simp: same_table_def exact_def)
  moreover have "0 \<le> pg_limit p \<and> 0 \<le> pg_offset p" if "\<not> pagination_empty p"
    using assms(5) that by (auto simp: pagination_error_def split: if_splits)
  ultimately show ?thesis by (auto simp: sql_admissible_def query_for_def)
qed

text \<open>The rows that the database finds are, as items, those that match in memory; and in the same order
  when the orders tell matching items apart.\<close>

lemma found_same:
  assumes "sorts srt" "same_table u c columns cell item rows"
    and "mset ys = mset (filter (\<lambda>r. matches_filter u (item r) (cr_filters c)) rows)"
    and "sorted_wrt (\<lambda>a b. \<not> sql_before (map (\<lambda>d. (od_field d, od_direction d = OrderAsc)) (cr_orders c)) (cell b) (cell a)) ys"
  defines "m \<equiv> matching u srt (map item rows) c"
  shows "mset m = image_mset item (mset ys)"
    and "\<forall>a \<in> set m. \<forall>b \<in> set m. a \<noteq> b \<longrightarrow> less_by_orders u a b (cr_orders c) \<or> less_by_orders u b a (cr_orders c) \<Longrightarrow>
      m = map item ys"
proof -
  have "filter_mset (\<lambda>v. matches_filter u v (cr_filters c)) (image_mset item (mset rows)) =
      image_mset item (filter_mset (\<lambda>r. matches_filter u (item r) (cr_filters c)) (mset rows))"
    by (induction rows) auto
  then show same: "mset m = image_mset item (mset ys)"
    using assms(3) by (simp add: m_def matching_mset [OF assms(1)])
  have ys: "set ys \<subseteq> set rows" using assms(3) by (metis filter_is_subset set_mset_mset)
  have "\<not> less_by_orders u (item b) (item a) (cr_orders c)"
    if "a \<in> set ys" "b \<in> set ys" "\<not> sql_before (map (\<lambda>d. (od_field d, od_direction d = OrderAsc)) (cr_orders c)) (cell b) (cell a)"
    for a b
  proof -
    have "a \<in> set rows" "b \<in> set rows" using that(1,2) ys by auto
    with assms(2) that(3) orders_agree [of "cr_orders c" u item b cell a] show ?thesis
      unfolding same_table_def by blast
  qed
  then have sorted_ys: "sorted_wrt (\<lambda>a b. \<not> less_by_orders u b a (cr_orders c)) (map item ys)"
    using sorted_wrt_mono_rel [OF _ assms(4)] by (simp add: sorted_wrt_map)
  have "column u (set (map item rows)) (od_field d) (\<lambda>x. to_float x \<noteq> None)" if "d \<in> set (cr_orders c)" for d
    using assms(2) that by (auto simp: column_def same_table_def exact_def)
  then have "list_all (\<lambda>d. homogeneous u (set (map item rows)) (od_field d)) (cr_orders c)"
    by (auto simp: list_all_iff homogeneous_def)
  from matching_sorted [OF assms(1) this]
  have "sorted_wrt (\<lambda>a b. \<not> less_by_orders u b a (cr_orders c)) m" by (simp only: m_def)
  then show "\<forall>a \<in> set m. \<forall>b \<in> set m. a \<noteq> b \<longrightarrow> less_by_orders u a b (cr_orders c) \<or> less_by_orders u b a (cr_orders c) \<Longrightarrow>
      m = map item ys"
    using same by (intro sorted_unique [OF _ _ sorted_ys]) simp_all
qed

lemma sql_cut_map: "sql_cut page (map g ys) = map g (sql_cut page ys)"
  by (auto simp: sql_cut_def take_map drop_map split: option.splits)

lemma sql_cut_length: "length xs = length ys \<Longrightarrow> length (sql_cut page xs) = length (sql_cut page ys)"
  by (auto simp: sql_cut_def split: option.splits)

lemma sql_cut_set: "set (sql_cut page ys) \<subseteq> set ys"
  by (auto simp: sql_cut_def dest: in_set_takeD in_set_dropD split: option.splits)

context sql_laws
begin

lemma paths_agree:
  assumes low: "low = to_lower u" "lowers (to_lower u)" and srt: "sorts srt"
    and c: "validate c = None" "list_all comparable_value (cr_filters c)"
      "int64_range (pg_offset (cr_pagination c) + pg_limit (cr_pagination c))"
    and tab: "same_table u c columns cell item rows"
  shows "\<exists>query params count_query page.
    to_select_sql base c = Inr (query, params) \<and> to_count_sql count_base c = Inr (count_query, params) \<and>
    apply_in_memory u srt (map item rows) c = Returns (page, count count_query params) \<and>
    length page = length (select query params) \<and>
    (\<forall>r \<in> set (select query params). r \<in> set rows \<and> matches_filter u (item r) (cr_filters c)) \<and>
    ((\<forall>a \<in> item ` set rows. \<forall>b \<in> item ` set rows.
        matches_filter u a (cr_filters c) \<and> matches_filter u b (cr_filters c) \<and> a \<noteq> b \<longrightarrow>
        less_by_orders u a b (cr_orders c) \<or> less_by_orders u b a (cr_orders c)) \<longrightarrow>
      page = map item (select query params))"
proof -
  let ?fs = "cr_filters c" and ?p = "cr_pagination c" and ?all = "cr_pagination c\<lparr>pg_limit := 0\<rparr>"
  let ?s = "concat (map (Cons CHR '' '') (clauses ?fs (cr_orders c) ?p))" and ?cs = "concat (map (Cons CHR '' '') (clauses ?fs [] ?all))"
  let ?params = "snd (conditions_from ?fs 1)" and ?q = "query_for ?fs (cr_orders c) ?p" and ?m = "matching u srt (map item rows) c"
  have v: "list_all (\<lambda>f. validate_field_name (fl_field f) = None \<and> comparable_value f) ?fs"
    "list_all (\<lambda>d. order_error d = None) (cr_orders c)" "pagination_error ?p = None"
    using c(1,2) validate_None [of c] by (auto simp: list_all_iff filter_error_None)
  have p: "\<not> pagination_empty ?p \<Longrightarrow> int64_range (pg_limit ?p) \<and> int64_range (pg_offset ?p)"
    using v(3) c(3) by (auto simp: pagination_error_def int64_range_def split: if_splits)
  note read = clauses_read [OF v(1,2) p] clauses_read(1) [OF v(1), of "[]" ?all, simplified pagination_empty_def, simplified]
  have params: "(if ?fs = [] then [] else snd (build_where_clause ?fs)) = ?params" using read(2) by auto
  have space: "concat (map (Cons CHR '' '') xs) = [] \<or> hd (concat (map (Cons CHR '' '') xs)) = CHR '' ''" for xs
    by (cases xs) auto
  have p0: "pagination_error ?all = None" by (simp add: pagination_error_def pagination_empty_def)
  note match = matches_as_conditions(2) [OF tab c(2) low(2)]
  have found: "filter (\<lambda>r. sql_holds low ?params (query_for ?fs ds p) (cell r)) rows =
      filter (\<lambda>r. matches_filter u (item r) ?fs) rows" for ds p
    unfolding low(1) using match by (intro filter_cong) auto
  obtain ys where ys: "mset ys = mset (filter (\<lambda>r. matches_filter u (item r) ?fs) rows)"
    "sorted_wrt (\<lambda>a b. \<not> sql_before (sq_orders ?q) (cell b) (cell a)) ys" "select (base @ ?s) ?params = sql_cut (sq_page ?q) ys"
    using select_law [OF read(1) space query_admissible [OF tab c(2) low(2) subset_refl v(3)]] unfolding found by blast
  have cnt: "count (count_base @ ?cs) ?params = int (length ys)"
    using count_law [OF read(3) space query_admissible [OF tab c(2) low(2) _ p0], unfolded found] mset_eq_length [OF ys(1)]
    by (simp add: query_for_def pagination_empty_def)
  have "sq_orders ?q = map (\<lambda>d. (od_field d, od_direction d = OrderAsc)) (cr_orders c)" by (simp add: query_for_def)
  note same = found_same [OF srt tab ys(1) ys(2) [unfolded this]]
  have len: "length ?m = length ys" using same(1) by (metis size_image_mset size_mset)
  have mem: "apply_in_memory u srt (map item rows) c = Returns (sql_cut (sq_page ?q) ?m, int (length ys))"
    using apply_in_memory_cut [OF srt v(3) c(3), of u "map item rows" ?fs "cr_orders c"] len by simp
  have rows: "r \<in> set rows \<and> matches_filter u (item r) ?fs" if "r \<in> set (select (base @ ?s) ?params)" for r
    using that [unfolded ys(3)] sql_cut_set [of "sq_page ?q" ys] mset_eq_setD [OF ys(1)] by auto
  have ms: "set ?m \<subseteq> {v \<in> item ` set rows. matches_filter u v ?fs}"
    using mset_eq_setD [OF matching_mset [OF srt, of u "map item rows" c, folded mset_filter]] by auto
  have exact_order: "sql_cut (sq_page ?q) ?m = map item (select (base @ ?s) ?params)"
    if "\<forall>a \<in> item ` set rows. \<forall>b \<in> item ` set rows. matches_filter u a ?fs \<and> matches_filter u b ?fs \<and> a \<noteq> b \<longrightarrow>
        less_by_orders u a b (cr_orders c) \<or> less_by_orders u b a (cr_orders c)"
  proof -
    have "?m = map item ys" using ms that by (intro same(2)) blast
    then show ?thesis unfolding ys(3) by (simp only: sql_cut_map)
  qed
  have lens: "length (sql_cut (sq_page ?q) ?m) = length (select (base @ ?s) ?params)"
    unfolding ys(3) by (rule sql_cut_length [OF len])
  note queries = to_sql_clauses [OF c(1), unfolded params]
  show ?thesis
    using queries(1) [of base] queries(2) [of count_base] mem [folded cnt] lens rows exact_order
    by (intro exI conjI impI ballI) (assumption | blast)+
qed

end

text \<open>C11: Both paths of a search agree. Over any database that keeps the contract of SQL, whose rows are
  the items of the slice: the converter's count query counts what \<open>ApplyInMemory\<close> reports as total, its
  select query returns rows that match in memory, as many as the page in memory has, and exactly that
  page when the orders tell matching items apart. This holds for valid criteria whose filters mean the
  same on both paths: nulls, zero values, wildcards and values of other types than the column's are
  where they differ.\<close>

theorem search_paths_agree:
  assumes "sql_laws (to_lower u) columns cell rows base count_base select count_rows" "lowers (to_lower u)" "sorts srt"
    and "validate c = None" "list_all comparable_value (cr_filters c)"
      "int64_range (pg_offset (cr_pagination c) + pg_limit (cr_pagination c))"
    and "same_table u c columns cell item rows"
  shows "\<exists>query params count_query page.
    to_select_sql base c = Inr (query, params) \<and> to_count_sql count_base c = Inr (count_query, params) \<and>
    apply_in_memory u srt (map item rows) c = Returns (page, count_rows count_query params) \<and>
    length page = length (select query params) \<and>
    (\<forall>r \<in> set (select query params). r \<in> set rows \<and> matches_filter u (item r) (cr_filters c)) \<and>
    ((\<forall>a \<in> item ` set rows. \<forall>b \<in> item ` set rows.
        matches_filter u a (cr_filters c) \<and> matches_filter u b (cr_filters c) \<and> a \<noteq> b \<longrightarrow>
        less_by_orders u a b (cr_orders c) \<or> less_by_orders u b a (cr_orders c)) \<longrightarrow>
      page = map item (select query params))"
  by (rule sql_laws.paths_agree [OF assms(1) refl assms(2-7)])

section \<open>An example\<close>

definition people :: "(string \<times> int) list" where
  "people = [(''Ana'', 41), (''Leo'', 90), (''Eva'', 7)]"

definition person_cell :: "string \<times> int \<Rightarrow> string \<Rightarrow> goval" where
  "person_cell r f = (if f = ''name'' then go_string (fst r) else if f = ''age'' then GInt ''int'' (snd r) else GNil)"

definition person :: "string \<times> int \<Rightarrow> item" where
  "person r = demo_item (fst r) (snd r)"

definition demo_search :: criteria where
  "demo_search = new_criteria [new_filter ''name'' OpLike (go_string ''a'')] [new_order ''age'' OrderAsc] (new_pagination 2 1)"

definition demo_query :: string where
  "demo_query = ''SELECT * FROM people WHERE name ILIKE $1 ORDER BY age ASC LIMIT 1 OFFSET 1''"

lemma lower_percent: "lower c = CHR ''%'' \<longleftrightarrow> c = CHR ''%''" "CHR ''%'' = lower c \<longleftrightarrow> c = CHR ''%''"
proof -
  show "lower c = CHR ''%'' \<longleftrightarrow> c = CHR ''%''"
    by (cases c) (auto simp: lower_def is_upper_def byte_def char_of_def bit_0)
  then show "CHR ''%'' = lower c \<longleftrightarrow> c = CHR ''%''" by (simp only: eq_commute)
qed

lemma lower_lowers: "lowers (map lower)"
  by (simp add: lowers_def image_iff lower_percent)

theorem search_paths_agree_witness:
  "to_select_sql ''SELECT * FROM people'' demo_search = Inr (demo_query, [go_string ''%a%'']) \<and>
   apply_in_memory demo_unicode insertion_sort (map person people) demo_search =
     Returns (map person (table_select (map lower) person_cell people ''SELECT * FROM people'' demo_query [go_string ''%a%'']),
       table_count (map lower) person_cell people ''SELECT COUNT(*) FROM people''
         ''SELECT COUNT(*) FROM people WHERE name ILIKE $1'' [go_string ''%a%''])"
proof -
  have low: "to_lower demo_unicode = map lower" by (simp add: demo_unicode_def)
  have d: "cr_filters demo_search = [new_filter ''name'' OpLike (go_string ''a'')]"
    "cr_orders demo_search = [new_order ''age'' OrderAsc]" "cr_pagination demo_search = new_pagination 2 1"
    by (simp_all add: demo_search_def new_criteria_def)
  have p: "new_pagination 2 1 = \<lparr>pg_page = 2, pg_page_size = 1, pg_limit = 1, pg_offset = 1\<rparr>"
    by (simp add: new_pagination_def wrap64_def)
  have valid: "validate demo_search = None" by code_simp
  have queries: "to_select_sql ''SELECT * FROM people'' demo_search = Inr (demo_query, [go_string ''%a%''])"
    "to_count_sql ''SELECT COUNT(*) FROM people'' demo_search =
       Inr (''SELECT COUNT(*) FROM people WHERE name ILIKE $1'', [go_string ''%a%''])"
    by code_simp+
  have v: "list_all comparable_value (cr_filters demo_search)" by code_simp
  have fields: "get_field_value demo_unicode (person r) ''name'' = Some (person_cell r ''name'')"
    "get_field_value demo_unicode (person r) ''age'' = Some (person_cell r ''age'')" for r
    by (simp_all add: person_def demo_item_def get_field_value_def person_cell_def)
  have ages: "exact (person_cell r ''age'')" if "r \<in> set people" for r
    using that by (auto simp: people_def person_cell_def exact_def sql_number_def to_float_def f64_of_int_small)
  have "comparable (person_cell r ''name'') (new_filter ''name'' OpLike (go_string ''a''))" for r
    by (simp add: comparable_def new_filter_def person_cell_def value_string_def)
  then have tab: "same_table demo_unicode demo_search {''name'', ''age''} person_cell person people"
    using fields ages by (simp add: same_table_def d new_filter_def new_order_def)
  have "less_by_orders demo_unicode (person r) (person s) (cr_orders demo_search) \<or>
      less_by_orders demo_unicode (person s) (person r) (cr_orders demo_search)"
    if "r \<in> set people" "s \<in> set people" "person r \<noteq> person s" for r s
    using that by (auto simp: people_def fields d new_order_def person_cell_def compare_values_def to_float_def f64_of_int_small)
  with search_paths_agree [OF table.sql_laws_axioms [of "to_lower demo_unicode" "{''name'', ''age''}" person_cell people
      "''SELECT * FROM people''" "''SELECT COUNT(*) FROM people''"] _ insertion_sort_sorts valid v _ tab]
    lower_lowers queries
  show ?thesis by (auto simp: low d p int64_range_def)
qed

section \<open>Where the paths differ\<close>

text \<open>Whether the two paths disagree about one filter and one row.\<close>

definition paths_differ :: "field_filter \<Rightarrow> string \<times> int \<Rightarrow> bool" where
  "paths_differ f r \<longleftrightarrow>
     matches_filter demo_unicode (person r) [f] \<noteq>
     sql_holds (map lower) (snd (conditions_from [f] 1)) (query_for [f] [] (new_pagination 1 1)) (person_cell r)"

text \<open>Each restriction of \<open>comparable\<close> has its reason. In memory an age of zero is null, a pattern
  with one wildcard matches anywhere, the other wildcard is a letter, spaces around a pattern do not
  count, and a filter on a field that items do not have keeps them all.\<close>

theorem search_paths_differ:
  "paths_differ (new_filter ''age'' OpIsNull GNil) (''Eva'', 0)"
  "paths_differ (new_filter ''name'' OpLike (go_string ''a%'')) (''Eva'', 7)"
  "paths_differ (new_filter ''name'' OpLike (go_string '' a '')) (''Eva'', 7)"
  "paths_differ (new_filter ''nick'' OpEqual (go_string ''x'')) (''Eva'', 7)"
  by code_simp+

end
