(* ===== verification/Database.thy ===== *)
theory Database
  imports Go_Numbers
begin

text \<open>
  PostgreSQL: the connection and the pool monitor, \<open>infrastructure/postgres/postgres.go\<close>, row level
  security inside a transaction, \<open>infrastructure/postgres/rls.go\<close>, and the migrations at start-up,
  \<open>migrate/migrate.go\<close>.

  The database and its driver are not part of the repository. What the code does to them is a trace
  of operations; whether each succeeds is an argument.
\<close>

section \<open>Connecting\<close>

definition DefaultMaxOpenConns :: int where "DefaultMaxOpenConns = 25"
definition DefaultMaxIdleConns :: int where "DefaultMaxIdleConns = 5"
definition DefaultConnMaxLifetime :: duration where "DefaultConnMaxLifetime = 5 * minute"

record pg_config =
  pc_host :: string
  pc_port :: string
  pc_user :: string
  pc_password :: string
  pc_dbname :: string
  pc_sslmode :: string
  pc_max_open_conns :: int
  pc_max_idle_conns :: int
  pc_conn_max_lifetime :: duration

definition dsn :: "pg_config \<Rightarrow> string" where
  "dsn c =
     (let sslmode = pc_sslmode c; sslmode = (if sslmode = [] then ''disable'' else sslmode)
      in ''host='' @ pc_host c @ '' port='' @ pc_port c @ '' user='' @ pc_user c @ '' password='' @ pc_password c @
         '' dbname='' @ pc_dbname c @ '' sslmode='' @ sslmode)"

definition pg_with_defaults :: "pg_config \<Rightarrow> pg_config" where
  "pg_with_defaults c =
     (let c = (if pc_max_open_conns c = 0 then c\<lparr>pc_max_open_conns := DefaultMaxOpenConns\<rparr> else c);
          c = (if pc_max_idle_conns c = 0 then c\<lparr>pc_max_idle_conns := DefaultMaxIdleConns\<rparr> else c)
      in if pc_conn_max_lifetime c = 0 then c\<lparr>pc_conn_max_lifetime := DefaultConnMaxLifetime\<rparr> else c)"

datatype pool_op =
    SqlOpen string
  | SetMaxOpenConns int
  | SetMaxIdleConns int
  | SetConnMaxLifetime duration
  | Ping
  | ClosePool

datatype pg_error = OpenFailed | PingFailed

text \<open>\<open>None\<close> is the pool that \<open>Connect\<close> returns, ready for use.\<close>

definition connect :: "(string \<Rightarrow> bool) \<Rightarrow> bool \<Rightarrow> pg_config \<Rightarrow> pg_error option \<times> pool_op list" where
  "connect opens pings c =
     (let c = pg_with_defaults c
      in if \<not> opens (dsn c) then (Some OpenFailed, [SqlOpen (dsn c)])
         else let ops = [SqlOpen (dsn c), SetMaxOpenConns (pc_max_open_conns c),
                         SetMaxIdleConns (pc_max_idle_conns c), SetConnMaxLifetime (pc_conn_max_lifetime c), Ping]
              in if \<not> pings then (Some PingFailed, ops @ [ClosePool]) else (None, ops))"

section \<open>The pool monitor\<close>

record db_stats =
  ds_max_open_connections :: int
  ds_in_use :: int
  ds_idle :: int
  ds_wait_count :: int
  ds_wait_duration :: duration

definition saturated :: "db_stats \<Rightarrow> db_stats \<Rightarrow> bool \<times> int" where
  "saturated prev cur =
     (let new_waits = wrap64 (ds_wait_count cur - ds_wait_count prev);
          at_limit = (ds_max_open_connections cur > 0 \<and> ds_in_use cur \<ge> ds_max_open_connections cur)
      in (new_waits > 0 \<or> at_limit, new_waits))"

record monitor_options =
  mo_service :: string
  mo_db_name :: string
  mo_interval :: duration

record pool_warning =
  pw_service :: string
  pw_db :: string
  pw_stats :: db_stats
  pw_new_waits :: int

definition monitor_interval :: "monitor_options \<Rightarrow> duration" where
  "monitor_interval o1 = (if mo_interval o1 \<le> 0 then 30 * second else mo_interval o1)"

text \<open>The goroutine, on the samples that its ticks take until its context is cancelled.\<close>

fun monitor_loop :: "monitor_options \<Rightarrow> db_stats \<Rightarrow> db_stats list \<Rightarrow> pool_warning list" where
  "monitor_loop o1 prev [] = []"
| "monitor_loop o1 prev (cur # samples) =
     (let (hit, new_waits) = saturated prev cur;
          warning = \<lparr>pw_service = mo_service o1, pw_db = mo_db_name o1, pw_stats = cur, pw_new_waits = new_waits\<rparr>
      in (if hit then [warning] else []) @ monitor_loop o1 cur samples)"

section \<open>Row level security\<close>

definition TenantVar :: string where "TenantVar = ''app.tenant_id''"
definition NamespaceVar :: string where "NamespaceVar = ''app.namespace''"
definition RoleVar :: string where "RoleVar = ''app.role''"

record rls_context =
  rl_tenant_id :: string
  rl_namespace :: string
  rl_role :: string

definition guc_char :: "char \<Rightarrow> bool" where
  "guc_char c \<longleftrightarrow> is_lower c \<or> is_upper c \<or> is_digit c \<or> c \<in> {CHR ''_'', CHR ''.'', CHR ''-''}"

definition safe_guc_value :: "string \<Rightarrow> bool" where
  "safe_guc_value s \<longleftrightarrow> length s \<le> 128 \<and> list_all guc_char s"

fun quote_loop :: "string \<Rightarrow> string" where
  "quote_loop [] = []"
| "quote_loop (c # cs) = (if c = CHR 0x27 then [CHR 0x27, CHR 0x27] else [c]) @ quote_loop cs"

definition quote_literal :: "string \<Rightarrow> string" where
  "quote_literal s = CHR 0x27 # quote_loop s @ [CHR 0x27]"

definition set_local :: "string \<Rightarrow> string \<Rightarrow> string" where
  "set_local var value = ''SET LOCAL '' @ var @ '' = '' @ quote_literal value"

datatype rls_error =
    BadTenantID | BadNamespace | BadRole
  | SetFailed string
  | BeginFailed
  | BodyFailed string
  | CommitFailed

datatype tx_op = TxBegin | TxExec string | TxBody | TxCommit | TxRollback

text \<open>One of the three settings: nothing for an empty value, otherwise a statement that can fail.\<close>

definition set_rls_var :: "(string \<Rightarrow> bool) \<Rightarrow> string \<Rightarrow> string \<Rightarrow> rls_error option \<times> tx_op list" where
  "set_rls_var exec var value =
     (if value = [] then (None, [])
      else let stmt = set_local var value
           in (if exec stmt then None else Some (SetFailed var), [TxExec stmt]))"

definition set_rls_context_tx :: "(string \<Rightarrow> bool) \<Rightarrow> rls_context \<Rightarrow> rls_error option \<times> tx_op list" where
  "set_rls_context_tx exec rc =
     (if \<not> safe_guc_value (rl_tenant_id rc) then (Some BadTenantID, [])
      else if \<not> safe_guc_value (rl_namespace rc) then (Some BadNamespace, [])
      else if \<not> safe_guc_value (rl_role rc) then (Some BadRole, [])
      else case set_rls_var exec TenantVar (rl_tenant_id rc) of
             (Some e, t1) \<Rightarrow> (Some e, t1)
           | (None, t1) \<Rightarrow>
               (case set_rls_var exec NamespaceVar (rl_namespace rc) of
                  (Some e, t2) \<Rightarrow> (Some e, t1 @ t2)
                | (None, t2) \<Rightarrow>
                    (case set_rls_var exec RoleVar (rl_role rc) of (r, t3) \<Rightarrow> (r, t1 @ t2 @ t3))))"

record tx_env =
  te_begin :: bool
  te_exec :: "string \<Rightarrow> bool"
  te_commit :: bool

datatype body_result = BodyReturns "string option" | BodyPanics

datatype tx_result = TxOk | TxError rls_error | TxPanic

text \<open>
  The deferred \<open>Rollback\<close> runs however the function ends; after a commit it does nothing.
\<close>

definition with_rls_in_transaction :: "tx_env \<Rightarrow> rls_context \<Rightarrow> body_result \<Rightarrow> tx_result \<times> tx_op list" where
  "with_rls_in_transaction env rc fn =
     (if \<not> te_begin env then (TxError BeginFailed, [TxBegin])
      else case set_rls_context_tx (te_exec env) rc of
             (Some e, t) \<Rightarrow> (TxError e, [TxBegin] @ t @ [TxRollback])
           | (None, t) \<Rightarrow>
               (case fn of
                  BodyPanics \<Rightarrow> (TxPanic, [TxBegin] @ t @ [TxBody, TxRollback])
                | BodyReturns (Some e) \<Rightarrow> (TxError (BodyFailed e), [TxBegin] @ t @ [TxBody, TxRollback])
                | BodyReturns None \<Rightarrow>
                    (if te_commit env then TxOk else TxError CommitFailed,
                     [TxBegin] @ t @ [TxBody, TxCommit, TxRollback])))"

section \<open>Migrations\<close>

datatype up_result = UpApplied | UpNoChange | UpFailed string

datatype migrate_error = SourceFailed | DriverFailed | MigratorFailed | ApplyFailed string

definition run_migrations :: "bool \<Rightarrow> bool \<Rightarrow> bool \<Rightarrow> up_result \<Rightarrow> migrate_error option \<times> string list" where
  "run_migrations source driver migrator up =
     (if \<not> source then (Some SourceFailed, [])
      else if \<not> driver then (Some DriverFailed, [])
      else if \<not> migrator then (Some MigratorFailed, [])
      else case up of
             UpNoChange \<Rightarrow> (None, [''migrate: no pending migrations''])
           | UpFailed e \<Rightarrow> (Some (ApplyFailed e), [])
           | UpApplied \<Rightarrow> (None, [''migrate: migrations applied successfully'']))"

section \<open>Data source names\<close>

definition no_space :: "string \<Rightarrow> bool" where
  "no_space s \<longleftrightarrow> CHR '' '' \<notin> set s"

definition plain_config :: "pg_config \<Rightarrow> bool" where
  "plain_config c \<longleftrightarrow>
     list_all no_space [pc_host c, pc_port c, pc_user c, pc_password c, pc_dbname c]"

text \<open>The data source name determines the connection as long as no setting contains a space: then
  host, port, user, password, database and TLS mode can be read off it. A setting with a space is not
  quoted, and two configurations with different passwords and databases have the same name.\<close>

theorem dsn_determines_config:
  assumes "plain_config c" "plain_config d"
  shows "(dsn c = dsn d \<longleftrightarrow>
      pc_host c = pc_host d \<and> pc_port c = pc_port d \<and> pc_user c = pc_user d \<and> pc_password c = pc_password d \<and>
      pc_dbname c = pc_dbname d \<and>
      (if pc_sslmode c = [] then ''disable'' else pc_sslmode c) = (if pc_sslmode d = [] then ''disable'' else pc_sslmode d)) \<and>
    dsn (c\<lparr>pc_password := ''x dbname=y'', pc_dbname := ''z''\<rparr>) = dsn (c\<lparr>pc_password := ''x'', pc_dbname := ''y dbname=z''\<rparr>)"
proof -
  have ns: "CHR '' '' \<notin> set (pc_host x)" "CHR '' '' \<notin> set (pc_port x)" "CHR '' '' \<notin> set (pc_user x)"
      "CHR '' '' \<notin> set (pc_password x)" "CHR '' '' \<notin> set (pc_dbname x)" if "x = c \<or> x = d" for x
    using assms that by (auto simp: plain_config_def no_space_def)
  have sep: "s @ CHR '' '' # t = s' @ CHR '' '' # t' \<longleftrightarrow> s = s' \<and> t = t'"
    if "CHR '' '' \<notin> set s" "CHR '' '' \<notin> set s'" for s s' t t' :: string
    using split_at_separator [OF _ that] by auto
  show ?thesis
    by (simp add: dsn_def Let_def sep ns)
qed

theorem dsn_determines_config_witness:
  "\<exists>c d. dsn c \<noteq> dsn d \<and> plain_config c \<and> plain_config d"
proof -
  define c where "c = \<lparr>pc_host = ''db'', pc_port = ''5432'', pc_user = ''u'', pc_password = ''p'', pc_dbname = ''a'',
    pc_sslmode = '''', pc_max_open_conns = 0, pc_max_idle_conns = 0, pc_conn_max_lifetime = 0\<rparr>"
  have "plain_config c" "plain_config (c\<lparr>pc_dbname := ''b''\<rparr>)" by (simp_all add: c_def plain_config_def no_space_def)
  moreover from dsn_determines_config [OF this] have "dsn c \<noteq> dsn (c\<lparr>pc_dbname := ''b''\<rparr>)" by (simp add: c_def)
  ultimately show ?thesis by blast
qed

section \<open>The monitor misses no wait\<close>

text \<open>The running totals of a pool: they do not fall, and fit into 64 bits.\<close>

fun wait_counts_rise :: "int \<Rightarrow> db_stats list \<Rightarrow> bool" where
  "wait_counts_rise n [] = True"
| "wait_counts_rise n (s # ss) \<longleftrightarrow> n \<le> ds_wait_count s \<and> ds_wait_count s < 2 ^ 63 \<and> wait_counts_rise (ds_wait_count s) ss"

lemma wait_counts_rise_mono: "wait_counts_rise n ss \<Longrightarrow> s \<in> set ss \<Longrightarrow> n \<le> ds_wait_count s"
  by (induction ss arbitrary: n) force+

text \<open>Every wait for a connection is reported once. Over any run of the monitor, the new waits of
  its warnings add up to the waits counted between the first and the last sample; a sample with new
  waits, or with the whole pool in use, always gives a warning, and no other sample does.\<close>

theorem monitor_reports_every_wait:
  assumes "0 \<le> ds_wait_count first" "wait_counts_rise (ds_wait_count first) samples"
  shows "sum_list (map pw_new_waits (monitor_loop o1 first samples)) =
      ds_wait_count (last (first # samples)) - ds_wait_count first \<and>
    map pw_stats (monitor_loop o1 first samples) =
      map snd (filter (\<lambda>(prev, cur). ds_wait_count prev < ds_wait_count cur \<or>
          0 < ds_max_open_connections cur \<and> ds_max_open_connections cur \<le> ds_in_use cur)
        (zip (first # samples) samples))"
  using assms
proof (induction samples arbitrary: first)
  case (Cons cur samples)
  have new: "wrap64 (ds_wait_count cur - ds_wait_count first) = ds_wait_count cur - ds_wait_count first"
    using Cons.prems by (intro wrap64_id) (auto simp: int64_range_def)
  have "0 \<le> ds_wait_count cur" "wait_counts_rise (ds_wait_count cur) samples" using Cons.prems by auto
  note IH = Cons.IH [OF this]
  have le: "ds_wait_count first \<le> ds_wait_count cur" using Cons.prems by simp
  show ?case
    using IH le by (auto simp: saturated_def Let_def new)
qed simp

theorem monitor_reports_every_wait_witness:
  "let s = (\<lambda>used waits. \<lparr>ds_max_open_connections = 5, ds_in_use = used, ds_idle = 0, ds_wait_count = waits, ds_wait_duration = 0\<rparr>);
       o1 = \<lparr>mo_service = ''iam'', mo_db_name = ''iam_db'', mo_interval = 0\<rparr>
   in sum_list (map pw_new_waits (monitor_loop o1 (s 1 2) [s 3 2, s 5 2, s 4 9])) = 7 \<and>
      map pw_stats (monitor_loop o1 (s 1 2) [s 3 2, s 5 2, s 4 9]) = [s 5 2, s 4 9]"
  using monitor_reports_every_wait [of "\<lparr>ds_max_open_connections = 5, ds_in_use = 1, ds_idle = 0, ds_wait_count = 2, ds_wait_duration = 0\<rparr>"
      "map (\<lambda>(used, waits). \<lparr>ds_max_open_connections = 5, ds_in_use = used, ds_idle = 0, ds_wait_count = waits, ds_wait_duration = 0\<rparr>)
        [(3, 2), (5, 2), (4, 9)]" "\<lparr>mo_service = ''iam'', mo_db_name = ''iam_db'', mo_interval = 0\<rparr>"]
  by (simp add: Let_def del: monitor_loop.simps)

section \<open>Literals\<close>

text \<open>How SQL reads a quoted literal: up to the closing quote, with a doubled quote as one.\<close>

fun read_quoted :: "string \<Rightarrow> (string \<times> string) option" where
  "read_quoted [] = None"
| "read_quoted [c] = (if c = CHR 0x27 then Some ([], []) else None)"
| "read_quoted (c # d # cs) =
     (if c = CHR 0x27
      then (if d = CHR 0x27 then map_option (\<lambda>(s, r). (CHR 0x27 # s, r)) (read_quoted cs) else Some ([], d # cs))
      else map_option (\<lambda>(s, r). (c # s, r)) (read_quoted (d # cs)))"

definition read_literal :: "string \<Rightarrow> (string \<times> string) option" where
  "read_literal s = (case s of c # cs \<Rightarrow> if c = CHR 0x27 then read_quoted cs else None | [] \<Rightarrow> None)"

text \<open>And a SET LOCAL statement: the variable up to the equals sign, the literal, nothing more.\<close>

definition read_set_local :: "string \<Rightarrow> (string \<times> string) option" where
  "read_set_local stmt =
     (case cut_prefix stmt ''SET LOCAL '' of
        None \<Rightarrow> None
      | Some r \<Rightarrow>
          let var = takeWhile (\<lambda>c. c \<noteq> CHR '' '') r
          in case cut_prefix (drop (length var) r) '' = '' of
               None \<Rightarrow> None
             | Some l \<Rightarrow> (case read_literal l of Some (value, []) \<Rightarrow> Some (var, value) | _ \<Rightarrow> None))"

lemma read_quote_loop:
  "rest = [] \<or> hd rest \<noteq> CHR 0x27 \<Longrightarrow> read_quoted (quote_loop s @ CHR 0x27 # rest) = Some (s, rest)"
proof (induction s)
  case Nil
  then show ?case by (cases rest) auto
next
  case (Cons c s)
  obtain d ds where q: "quote_loop s @ CHR 0x27 # rest = d # ds" by (cases "quote_loop s") auto
  show ?case using Cons.IH [OF Cons.prems] by (auto simp: q)
qed

lemma read_set_local_set:
  assumes "CHR '' '' \<notin> set var"
  shows "read_set_local (set_local var value) = Some (var, value)"
proof -
  have "takeWhile (\<lambda>c. c \<noteq> CHR '' '') (var @ CHR '' '' # r) = var" for r
    using assms by (auto simp: takeWhile_append2 takeWhile_tail)
  then show ?thesis
    using read_quote_loop [of "[]" "value"]
    by (simp add: read_set_local_def set_local_def cut_prefix_def quote_literal_def read_literal_def)
qed

section \<open>Transactions run in their scope\<close>

text \<open>The settings of a context, in the order in which they are made.\<close>

definition rls_settings :: "rls_context \<Rightarrow> (string \<times> string) list" where
  "rls_settings rc =
     filter (\<lambda>(var, value). value \<noteq> [])
       [(TenantVar, rl_tenant_id rc), (NamespaceVar, rl_namespace rc), (RoleVar, rl_role rc)]"

definition executed :: "tx_op list \<Rightarrow> string list" where
  "executed t = List.map_filter (\<lambda>op. case op of TxExec s \<Rightarrow> Some s | _ \<Rightarrow> None) t"

lemma rls_vars_plain: "CHR '' '' \<notin> set TenantVar" "CHR '' '' \<notin> set NamespaceVar" "CHR '' '' \<notin> set RoleVar"
  by (simp_all add: TenantVar_def NamespaceVar_def RoleVar_def)

lemma set_rls_context_None:
  "set_rls_context_tx exec rc = (None, t) \<longleftrightarrow>
     list_all safe_guc_value [rl_tenant_id rc, rl_namespace rc, rl_role rc] \<and>
     t = map (\<lambda>(var, value). TxExec (set_local var value)) (rls_settings rc) \<and>
     list_all (\<lambda>(var, value). exec (set_local var value)) (rls_settings rc)"
  by (auto simp: set_rls_context_tx_def set_rls_var_def rls_settings_def Let_def)

lemma set_rls_context_Some:
  "set_rls_context_tx exec rc = (Some e, t) \<Longrightarrow>
     (\<exists>k. t = take k (map (\<lambda>(var, value). TxExec (set_local var value)) (rls_settings rc))) \<and>
     (t \<noteq> [] \<longrightarrow> list_all safe_guc_value [rl_tenant_id rc, rl_namespace rc, rl_role rc])"
proof -
  have k: "\<exists>k. xs = take k (xs @ ys)" for xs ys :: "tx_op list" by (rule exI [of _ "length xs"]) simp
  show "set_rls_context_tx exec rc = (Some e, t) \<Longrightarrow>
     (\<exists>k. t = take k (map (\<lambda>(var, value). TxExec (set_local var value)) (rls_settings rc))) \<and>
     (t \<noteq> [] \<longrightarrow> list_all safe_guc_value [rl_tenant_id rc, rl_namespace rc, rl_role rc])"
    using k [of "[]"] k [of "[_]" "[_]"] k [of "[_]" "[_, _]"] k [of "[_, _]" "[_]"] k [of "[_]" "[]"] k [of "[_, _]" "[]"] k [of "[_, _, _]" "[]"]
    by (auto simp: set_rls_context_tx_def set_rls_var_def rls_settings_def Let_def split: if_splits)
qed

lemma executed_append: "executed (xs @ ys) = executed xs @ executed ys"
  by (simp add: executed_def map_filter_def)

lemma executed_stmts: "executed (map TxExec stmts) = stmts"
  by (induction stmts) (simp_all add: executed_def map_filter_simps)

lemma read_settings:
  "map read_set_local (map (\<lambda>(var, value). set_local var value) (rls_settings rc)) = map Some (rls_settings rc)"
  by (simp add: rls_settings_def read_set_local_set rls_vars_plain)

lemma safe_settings:
  "list_all safe_guc_value [rl_tenant_id rc, rl_namespace rc, rl_role rc] \<Longrightarrow>
   list_all (\<lambda>(var, value). list_all guc_char value) (rls_settings rc)"
  by (simp add: rls_settings_def safe_guc_value_def)

text \<open>C17: In \<open>WithRLSInTransaction\<close> the body runs only after the transaction has set every non-empty
  value of the context, and nothing else: read as SQL, the statements are exactly those assignments,
  of values of letters, digits and \<open>_ . -\<close>. It commits exactly if the body returns without an error;
  on a value of another form, a failed statement, an error or a panic it commits nothing, and every
  transaction that began ends with the deferred rollback.\<close>

theorem rls_transaction_scoped:
  assumes "with_rls_in_transaction env rc fn = (result, t)" "te_begin env"
  shows "hd t = TxBegin \<and> last t = TxRollback \<and>
    (TxBody \<in> set t \<longrightarrow>
       map read_set_local (executed t) = map Some (rls_settings rc) \<and>
       list_all (te_exec env) (executed t) \<and>
       (\<exists>rest. t = [TxBegin] @ map TxExec (executed t) @ [TxBody] @ rest) \<and>
       list_all (\<lambda>(var, value). list_all guc_char value) (rls_settings rc)) \<and>
    (TxCommit \<in> set t \<longleftrightarrow> TxBody \<in> set t \<and> fn = BodyReturns None) \<and>
    (result = TxOk \<longrightarrow> TxCommit \<in> set t \<and> te_commit env) \<and>
    (TxBody \<notin> set t \<longrightarrow> (\<exists>e. result = TxError e))"
proof (cases "set_rls_context_tx (te_exec env) rc")
  case (Pair err s)
  let ?s = "map (\<lambda>(var, value). TxExec (set_local var value)) (rls_settings rc)"
  have ops: "x \<in> set (take k ?s) \<Longrightarrow> \<exists>stmt. x = TxExec stmt" for x k by (auto dest!: in_set_takeD)
  show ?thesis
  proof (cases err)
    case (Some e)
    then have "t = [TxBegin] @ s @ [TxRollback]" "result = TxError e" "TxBody \<notin> set s" "TxCommit \<notin> set s"
      using assms Pair set_rls_context_Some [of "te_exec env" rc e s] ops
      by (auto simp: with_rls_in_transaction_def)
    then show ?thesis by auto
  next
    case None
    then have s: "s = ?s" "list_all (\<lambda>(var, value). te_exec env (set_local var value)) (rls_settings rc)"
        "list_all safe_guc_value [rl_tenant_id rc, rl_namespace rc, rl_role rc]"
      using Pair set_rls_context_None [of "te_exec env" rc s] by auto
    let ?stmts = "map (\<lambda>(var, value). set_local var value) (rls_settings rc)"
    have ss: "?s = map TxExec ?stmts" by auto
    obtain rest where rest: "t = [TxBegin] @ ?s @ [TxBody] @ rest" "executed rest = []" "last rest = TxRollback" "rest \<noteq> []"
        "TxCommit \<in> set rest \<longleftrightarrow> fn = BodyReturns None" "result = TxOk \<Longrightarrow> fn = BodyReturns None \<and> te_commit env"
      using assms Pair None s(1)
      by (auto simp: with_rls_in_transaction_def executed_def map_filter_simps split: body_result.splits option.splits if_splits)
    have "executed t = ?stmts"
      unfolding rest(1) ss executed_append executed_stmts rest(2) by (simp add: executed_def map_filter_simps)
    moreover have "TxCommit \<in> set t \<longleftrightarrow> fn = BodyReturns None" using rest(1,5) by auto
    ultimately show ?thesis
      using rest s(2) read_settings [of rc] safe_settings [OF s(3)] by (auto simp: ss list_all_iff)
  qed
qed

definition demo_tx :: tx_env where
  "demo_tx = \<lparr>te_begin = True, te_exec = (\<lambda>_. True), te_commit = True\<rparr>"

theorem rls_transaction_scoped_witness:
  "map read_set_local (executed (snd (with_rls_in_transaction demo_tx
       \<lparr>rl_tenant_id = ''t-1'', rl_namespace = [], rl_role = ''system_admin''\<rparr> (BodyReturns None)))) =
     [Some (''app.tenant_id'', ''t-1''), Some (''app.role'', ''system_admin'')]"
proof -
  let ?rc = "\<lparr>rl_tenant_id = ''t-1'', rl_namespace = [], rl_role = ''system_admin''\<rparr>"
  obtain result t where t: "with_rls_in_transaction demo_tx ?rc (BodyReturns None) = (result, t)" by fastforce
  have "list_all safe_guc_value [rl_tenant_id ?rc, rl_namespace ?rc, rl_role ?rc]"
    by (simp add: safe_guc_value_def guc_char_def is_lower_def is_upper_def is_digit_def byte_def)
  then obtain s where "set_rls_context_tx (te_exec demo_tx) ?rc = (None, s)"
    using set_rls_context_None [of "te_exec demo_tx" ?rc] by (simp add: demo_tx_def list_all_iff case_prod_beta)
  then have "TxBody \<in> set t" using t by (auto simp: with_rls_in_transaction_def demo_tx_def)
  moreover have "te_begin demo_tx" by (simp add: demo_tx_def)
  ultimately have "map read_set_local (executed t) = map Some (rls_settings ?rc)"
    using rls_transaction_scoped [OF t] by blast
  then show ?thesis by (simp add: t rls_settings_def TenantVar_def RoleVar_def)
qed

text \<open>Quoting is complete: for every byte string, whatever quotes it holds, SQL reads the quoted
  literal back as that string and stops right behind it, so the statement that sets it can do nothing
  else.\<close>

theorem quote_literal_roundtrip:
  assumes "CHR '' '' \<notin> set var"
  shows "read_set_local (set_local var value) = Some (var, value) \<and>
    (rest = [] \<or> hd rest \<noteq> CHR 0x27 \<longrightarrow> read_literal (quote_literal value @ rest) = Some (value, rest))"
  using read_set_local_set [OF assms] read_quote_loop [of rest "value"]
  by (simp add: quote_literal_def read_literal_def)

theorem quote_literal_roundtrip_witness:
  "read_set_local (set_local TenantVar [CHR ''a'', CHR 0x27, CHR '';'', CHR 0x27]) =
     Some (''app.tenant_id'', [CHR ''a'', CHR 0x27, CHR '';'', CHR 0x27])"
  using quote_literal_roundtrip [OF rls_vars_plain(1)] by (simp add: TenantVar_def)

text \<open>A context without a tenant is accepted: the body then runs in a transaction that has set no
  variable at all.\<close>

theorem empty_context_unscoped:
  "with_rls_in_transaction \<lparr>te_begin = True, te_exec = exec, te_commit = True\<rparr>
     \<lparr>rl_tenant_id = [], rl_namespace = [], rl_role = []\<rparr> (BodyReturns None) =
   (TxOk, [TxBegin, TxBody, TxCommit, TxRollback])"
  by (simp add: with_rls_in_transaction_def set_rls_context_tx_def set_rls_var_def safe_guc_value_def)

end
