(* ===== verification/Prometheus.thy ===== *)
theory Prometheus
  imports Event_Metrics
begin

text \<open>
  The recorder that routes metric events to Prometheus instruments,
  \<open>infrastructure/metrics/prometheus_recorder.go\<close>.

  The Prometheus client is not part of the repository. The recorder creates vectors with label names,
  registers them (\<open>existing\<close> says which vector the registry already has, if it refuses a new one as
  a duplicate), and gives them label values by position. Go visits the labels of an event, a map, in
  any order: \<open>keys\<close> is that order.
\<close>

section \<open>The recorder\<close>

record metric_vec =
  mv_kind :: metric_kind
  mv_name :: string
  mv_labels :: "string list"

record prom_recorder =
  pr_counters :: "string \<rightharpoonup> metric_vec"
  pr_gauges :: "string \<rightharpoonup> metric_vec"
  pr_histograms :: "string \<rightharpoonup> metric_vec"

text \<open>A call of \<open>Add\<close>, \<open>Set\<close> or \<open>Observe\<close> on the child of a vector with the given label values.\<close>

record metric_sample =
  ms_vec :: metric_vec
  ms_values :: "string list"
  ms_value :: f64

definition new_prometheus_recorder :: prom_recorder where
  "new_prometheus_recorder =
     \<lparr>pr_counters = Map.empty, pr_gauges = Map.empty, pr_histograms = Map.empty\<rparr>"

definition prometheus_name :: "string \<Rightarrow> string" where
  "prometheus_name event_name = map (\<lambda>c. if c = CHR ''.'' then CHR ''_'' else c) event_name"

definition unit_name :: "metric_unit \<Rightarrow> string" where
  "unit_name u =
     (case u of
        MetricUnitNone \<Rightarrow> [] | MetricUnitMilliseconds \<Rightarrow> ''ms'' | MetricUnitSeconds \<Rightarrow> ''s''
      | MetricUnitBytes \<Rightarrow> ''bytes'' | MetricUnitRequests \<Rightarrow> ''requests'' | MetricUnitItems \<Rightarrow> ''items'')"

text \<open>\<open>name\<close> with the unit as a suffix, if it has one.\<close>

definition suffixed :: "string \<Rightarrow> metric_unit \<Rightarrow> string" where
  "suffixed base u = (if u \<noteq> MetricUnitNone then base @ ''_'' @ unit_name u else base)"

text \<open>
  Registering a new vector: if the registry has one already, that one is used, and the type assertion
  on it panics (\<open>None\<close>) if it is of another kind; after any other error the new vector is used.
\<close>

definition registered :: "(metric_vec \<Rightarrow> metric_vec option) \<Rightarrow> metric_vec \<Rightarrow> metric_vec option" where
  "registered existing v =
     (case existing v of
        None \<Rightarrow> Some v
      | Some w \<Rightarrow> if mv_kind w = mv_kind v then Some w else None)"

definition counter ::
  "(metric_vec \<Rightarrow> metric_vec option) \<Rightarrow> string \<Rightarrow> string list \<Rightarrow> prom_recorder \<Rightarrow> (metric_vec \<times> prom_recorder) option" where
  "counter existing name label_names r =
     (case pr_counters r name of
        Some c \<Rightarrow> Some (c, r)
      | None \<Rightarrow>
          (case registered existing \<lparr>mv_kind = MetricKindCounter, mv_name = name @ ''_total'', mv_labels = label_names\<rparr> of
             None \<Rightarrow> None
           | Some c \<Rightarrow> Some (c, r\<lparr>pr_counters := (pr_counters r)(name \<mapsto> c)\<rparr>)))"

definition gauge ::
  "(metric_vec \<Rightarrow> metric_vec option) \<Rightarrow> string \<Rightarrow> string list \<Rightarrow> prom_recorder \<Rightarrow> (metric_vec \<times> prom_recorder) option" where
  "gauge existing name label_names r =
     (case pr_gauges r name of
        Some g \<Rightarrow> Some (g, r)
      | None \<Rightarrow>
          (case registered existing \<lparr>mv_kind = MetricKindGauge, mv_name = name, mv_labels = label_names\<rparr> of
             None \<Rightarrow> None
           | Some g \<Rightarrow> Some (g, r\<lparr>pr_gauges := (pr_gauges r)(name \<mapsto> g)\<rparr>)))"

definition histogram ::
  "(metric_vec \<Rightarrow> metric_vec option) \<Rightarrow> string \<Rightarrow> string list \<Rightarrow> prom_recorder \<Rightarrow> (metric_vec \<times> prom_recorder) option" where
  "histogram existing name label_names r =
     (case pr_histograms r name of
        Some h \<Rightarrow> Some (h, r)
      | None \<Rightarrow>
          (case registered existing \<lparr>mv_kind = MetricKindHistogram, mv_name = name, mv_labels = label_names\<rparr> of
             None \<Rightarrow> None
           | Some h \<Rightarrow> Some (h, r\<lparr>pr_histograms := (pr_histograms r)(name \<mapsto> h)\<rparr>)))"

definition label_vals :: "(string \<rightharpoonup> string) \<Rightarrow> string list \<Rightarrow> string list" where
  "label_vals labels keys = map (\<lambda>k. case labels k of Some v \<Rightarrow> v | None \<Rightarrow> []) keys"

text \<open>
  \<open>WithLabelValues\<close> panics unless it gets as many values as the vector has labels, and \<open>Add\<close> on a
  counter panics for a negative value.
\<close>

definition record_metric ::
  "(metric_vec \<Rightarrow> metric_vec option) \<Rightarrow> string list \<Rightarrow> metric_event \<Rightarrow> prom_recorder \<Rightarrow>
   (metric_sample \<times> prom_recorder) outcome" where
  "record_metric existing keys ev r =
     (let label_values = label_vals (mt_labels ev) keys;
          base = prometheus_name (mt_name ev)
      in case (case mt_kind ev of
                 MetricKindCounter \<Rightarrow> counter existing base keys r
               | MetricKindGauge \<Rightarrow> gauge existing (suffixed base (mt_unit ev)) keys r
               | MetricKindHistogram \<Rightarrow> histogram existing (suffixed base (mt_unit ev)) keys r) of
           None \<Rightarrow> Panics
         | Some (v, r') \<Rightarrow>
             if length label_values \<noteq> length (mv_labels v) then Panics
             else if mt_kind ev = MetricKindCounter \<and> (\<exists>x. mt_value ev = Some x \<and> x < 0) then Panics
             else Returns (\<lparr>ms_vec = v, ms_values = label_values, ms_value = mt_value ev\<rparr>, r'))"

section \<open>Which labels a sample carries\<close>

text \<open>Prometheus pairs the values with the label names of the vector, by position.\<close>

definition sample_labels :: "metric_sample \<Rightarrow> string \<rightharpoonup> string" where
  "sample_labels s = map_of (zip (mv_labels (ms_vec s)) (ms_values s))"

text \<open>A visit of the labels: every key once.\<close>

definition visits :: "string list \<Rightarrow> metric_event \<Rightarrow> bool" where
  "visits keys ev \<longleftrightarrow> distinct keys \<and> set keys = dom (mt_labels ev)"

definition instrument :: "metric_event \<Rightarrow> metric_kind \<times> string" where
  "instrument ev =
     (mt_kind ev,
      if mt_kind ev = MetricKindCounter then prometheus_name (mt_name ev)
      else suffixed (prometheus_name (mt_name ev)) (mt_unit ev))"

definition vec_of :: "prom_recorder \<Rightarrow> metric_kind \<times> string \<rightharpoonup> metric_vec" where
  "vec_of r i =
     (case fst i of
        MetricKindCounter \<Rightarrow> pr_counters r (snd i)
      | MetricKindGauge \<Rightarrow> pr_gauges r (snd i)
      | MetricKindHistogram \<Rightarrow> pr_histograms r (snd i))"

fun record_all ::
  "(metric_vec \<Rightarrow> metric_vec option) \<Rightarrow> (string list \<times> metric_event) list \<Rightarrow> prom_recorder \<Rightarrow> metric_sample list outcome"
where
  "record_all existing [] r = Returns []"
| "record_all existing ((keys, ev) # calls) r =
     (case record_metric existing keys ev r of
        Returns (s, r') \<Rightarrow>
          (case record_all existing calls r' of Returns ss \<Rightarrow> Returns (s # ss) | Fails e \<Rightarrow> Fails e | Panics \<Rightarrow> Panics)
      | Fails e \<Rightarrow> Fails e
      | Panics \<Rightarrow> Panics)"

lemma sample_labels_visit:
  assumes "visits keys ev"
  shows "map_of (zip keys (label_vals (mt_labels ev) keys)) = mt_labels ev"
proof
  fix k
  have "map_of (zip keys (label_vals (mt_labels ev) keys)) k =
      (if k \<in> set keys then Some (case mt_labels ev k of Some v \<Rightarrow> v | None \<Rightarrow> []) else None)"
    by (simp add: label_vals_def map_of_zip_map)
  then show "map_of (zip keys (label_vals (mt_labels ev) keys)) k = mt_labels ev k"
    using assms by (auto simp: visits_def domIff split: option.splits)
qed

lemma record_metric_step:
  assumes "existing = (\<lambda>_. None)" "visits keys ev" "\<And>x. mt_value ev = Some x \<Longrightarrow> 0 \<le> x"
    and "case vec_of r (instrument ev) of None \<Rightarrow> True | Some v \<Rightarrow> mv_labels v = keys"
  obtains s r' where "record_metric existing keys ev r = Returns (s, r')" "sample_labels s = mt_labels ev"
    "ms_value s = mt_value ev" "mv_labels (ms_vec s) = keys"
    "vec_of r' = (vec_of r)(instrument ev \<mapsto> ms_vec s)"
proof -
  define i where "i = instrument ev"
  define v where "v = (case vec_of r i of Some v \<Rightarrow> v | None \<Rightarrow>
    \<lparr>mv_kind = fst i, mv_name = (if fst i = MetricKindCounter then snd i @ ''_total'' else snd i), mv_labels = keys\<rparr>)"
  have labels: "mv_labels v = keys" using assms(4) by (auto simp: v_def i_def split: option.splits)
  have len: "length (label_vals (mt_labels ev) keys) = length keys" by (simp add: label_vals_def)
  let ?s = "\<lparr>ms_vec = v, ms_values = label_vals (mt_labels ev) keys, ms_value = mt_value ev\<rparr>"
  obtain r' where r': "record_metric existing keys ev r = Returns (?s, r')" "vec_of r' = (vec_of r)(i \<mapsto> v)"
  proof -
    have neg: "\<not> (\<exists>x. mt_value ev = Some x \<and> x < 0)" using assms(3) by force
    have "\<exists>r'. record_metric existing keys ev r = Returns (?s, r') \<and> vec_of r' = (vec_of r)(i \<mapsto> v)"
    proof (cases "vec_of r i")
      case None
      then show ?thesis
        using neg len labels
        by (cases "mt_kind ev") (auto simp: record_metric_def counter_def gauge_def histogram_def registered_def vec_of_def
            i_def instrument_def v_def Let_def assms(1) fun_eq_iff split: metric_kind.splits option.splits)
    next
      case (Some w)
      then have w: "v = w" by (simp add: v_def)
      have "(vec_of r)(i \<mapsto> v) = vec_of r" using Some w by auto
      then show ?thesis
        using neg len labels Some w
        by (cases "mt_kind ev") (auto simp: record_metric_def counter_def gauge_def histogram_def vec_of_def
            i_def instrument_def Let_def split: metric_kind.splits option.splits)
    qed
    then show thesis using that by blast
  qed
  show thesis
    using that [of ?s r'] r' labels sample_labels_visit [OF assms(2)] by (simp add: sample_labels_def i_def)
qed

text \<open>If Go visited the labels of an instrument in one order every time (\<open>K\<close> says which), then in any
  sequence of recorded events, in a fresh registry, no call panics and every sample carries exactly
  the labels of its event and its value. Go does not promise an order.\<close>

theorem prometheus_labels_faithful:
  assumes "\<And>keys ev. (keys, ev) \<in> set calls \<Longrightarrow> visits keys ev \<and> keys = K (instrument ev)"
    and "\<And>keys ev x. (keys, ev) \<in> set calls \<Longrightarrow> mt_value ev = Some x \<Longrightarrow> 0 \<le> x"
  shows "\<exists>samples. record_all (\<lambda>_. None) calls new_prometheus_recorder = Returns samples \<and>
    map sample_labels samples = map (\<lambda>(keys, ev). mt_labels ev) calls \<and>
    map ms_value samples = map (\<lambda>(keys, ev). mt_value ev) calls"
proof -
  have "\<exists>samples. record_all (\<lambda>_. None) calls r = Returns samples \<and>
      map sample_labels samples = map (\<lambda>(keys, ev). mt_labels ev) calls \<and>
      map ms_value samples = map (\<lambda>(keys, ev). mt_value ev) calls"
    if "\<forall>i v. vec_of r i = Some v \<longrightarrow> mv_labels v = K i" for r
    using assms that
  proof (induction calls arbitrary: r)
    case (Cons call calls)
    obtain keys ev where call: "call = (keys, ev)" by fastforce
    have ev: "visits keys ev" "keys = K (instrument ev)" "\<And>x. mt_value ev = Some x \<Longrightarrow> 0 \<le> x"
      using Cons.prems(1) [of keys ev] Cons.prems(2) [of keys ev] call by auto
    have "case vec_of r (instrument ev) of None \<Rightarrow> True | Some v \<Rightarrow> mv_labels v = keys"
      using spec [OF Cons.prems(3), of "instrument ev"] ev(2) by (simp split: option.split)
    then obtain s r' where s: "record_metric (\<lambda>_. None) keys ev r = Returns (s, r')" "sample_labels s = mt_labels ev"
        "ms_value s = mt_value ev" "mv_labels (ms_vec s) = keys" "vec_of r' = (vec_of r)(instrument ev \<mapsto> ms_vec s)"
      using record_metric_step [OF refl ev(1) ev(3)] by blast
    have inv: "\<forall>i v. vec_of r' i = Some v \<longrightarrow> mv_labels v = K i"
      using Cons.prems(3) s(4,5) ev(2) by auto
    have "visits keys ev \<and> keys = K (instrument ev)" if "(keys, ev) \<in> set calls" for keys ev
      using Cons.prems(1) that by simp
    moreover have "0 \<le> x" if "(keys, ev) \<in> set calls" "mt_value ev = Some x" for keys ev x
      using Cons.prems(2) [of keys ev x] that by simp
    ultimately obtain samples where "record_all (\<lambda>_. None) calls r' = Returns samples"
        "map sample_labels samples = map (\<lambda>(keys, ev). mt_labels ev) calls"
        "map ms_value samples = map (\<lambda>(keys, ev). mt_value ev) calls"
      using Cons.IH [OF _ _ inv] by blast
    with s show ?case by (intro exI [of _ "s # samples"]) (simp add: call)
  qed simp
  moreover have "vec_of new_prometheus_recorder i = None" for i
    by (cases "fst i") (simp_all add: vec_of_def new_prometheus_recorder_def)
  ultimately show ?thesis by simp
qed

theorem prometheus_labels_faithful_witness:
  "\<exists>samples. record_all (\<lambda>_. None)
      [([''channel'', ''event_type''], published ''mail'' ''sent''), ([''channel'', ''event_type''], published ''sms'' ''sent'')]
      new_prometheus_recorder = Returns samples \<and>
    map sample_labels samples = [[''channel'' \<mapsto> ''mail'', ''event_type'' \<mapsto> ''sent''], [''channel'' \<mapsto> ''sms'', ''event_type'' \<mapsto> ''sent'']]"
proof -
  let ?calls = "[([''channel'', ''event_type''], published ''mail'' ''sent''), ([''channel'', ''event_type''], published ''sms'' ''sent'')]"
  have v: "visits [''channel'', ''event_type''] (published ch ty)" for ch ty
    by (auto simp: visits_def published_def counter_event_def metric_labels_def)
  have "visits keys ev \<and> keys = (\<lambda>_. [''channel'', ''event_type'']) (instrument ev)" if "(keys, ev) \<in> set ?calls" for keys ev
    using that v by auto
  moreover have "0 \<le> x" if "(keys, ev) \<in> set ?calls" "mt_value ev = Some x" for keys ev x
    using that by (auto simp: published_def counter_event_def)
  ultimately obtain samples where "record_all (\<lambda>_. None) ?calls new_prometheus_recorder = Returns samples"
      "map sample_labels samples = map (\<lambda>(keys, ev). mt_labels ev) ?calls"
    using prometheus_labels_faithful [of ?calls "\<lambda>_. [''channel'', ''event_type'']"] by blast
  then show ?thesis by (intro exI [of _ samples]) (simp add: published_def counter_event_def metric_labels_def)
qed

text \<open>Label values get swapped. The vector of an instrument keeps the label order of the first event;
  when Go visits the labels of a later event in the other order, its values are attached to the wrong
  names. For every channel and event type, of two published events the second is counted with the
  channel as its type and the type as its channel.\<close>

theorem prometheus_swaps_labels:
  "\<exists>s1 s2. record_all (\<lambda>_. None)
      [([''channel'', ''event_type''], published ch ty), ([''event_type'', ''channel''], published ch ty)]
      new_prometheus_recorder = Returns [s1, s2] \<and>
    sample_labels s1 = [''channel'' \<mapsto> ch, ''event_type'' \<mapsto> ty] \<and>
    sample_labels s2 = [''channel'' \<mapsto> ty, ''event_type'' \<mapsto> ch]"
  by (auto simp: record_metric_def counter_def registered_def new_prometheus_recorder_def published_def counter_event_def
      metric_labels_def label_vals_def sample_labels_def Let_def fun_eq_iff)

end
