(* ===== verification/Csv.thy ===== *)
theory Csv
  imports Go_Numbers
begin

text \<open>
  Importing a CSV file: the port \<open>domain/port/file_importer.go\<close> and the importer
  \<open>infrastructure/adapters/csv_file_importer.go\<close>, over a model of Go's \<open>encoding/csv\<close> reader with the
  settings that the importer uses (its delimiter, \<open>TrimLeadingSpace\<close>, no comments, no lazy quotes,
  as many fields in every record as in the first).

  A rune is its UTF-8 encoding, the rune 0 the empty string. \<open>strings.ToLower\<close> is an argument.
\<close>

section \<open>The CSV reader\<close>

abbreviation quote :: char where "quote \<equiv> CHR 0x22"
abbreviation newline :: char where "newline \<equiv> CHR 0x0A"
abbreviation carriage_return :: char where "carriage_return \<equiv> CHR 0x0D"

datatype csv_error = ErrBareQuote | ErrQuote | ErrFieldCount | ErrInvalidDelim

text \<open>The lines of the input, each with its newline; the last one may have none.\<close>

fun split_lines :: "string \<Rightarrow> string list" where
  "split_lines [] = []"
| "split_lines (c # cs) =
     (if c = newline then [c] # split_lines cs
      else case split_lines cs of [] \<Rightarrow> [[c]] | l # ls \<Rightarrow> (c # l) # ls)"

text \<open>\<open>readLine\<close>: CR LF becomes LF, and a CR at the end of the input is dropped.\<close>

definition normal_line :: "string \<Rightarrow> string" where
  "normal_line l =
     (if suffix [carriage_return, newline] l then take (length l - 2) l @ [newline]
      else if l \<noteq> [] \<and> last l = carriage_return then butlast l
      else l)"

definition csv_lines :: "string \<Rightarrow> string list" where
  "csv_lines s = map normal_line (split_lines s)"

definition strip_newline :: "string \<Rightarrow> string" where
  "strip_newline l = (if l \<noteq> [] \<and> last l = newline then butlast l else l)"

text \<open>What stands before and after the first occurrence of a non-empty separator.\<close>

fun str_cut :: "string \<Rightarrow> string \<Rightarrow> (string \<times> string) option" where
  "str_cut sep [] = None"
| "str_cut sep (c # cs) =
     (if sep = [] then None
      else if prefix sep (c # cs) then Some ([], drop (length sep) (c # cs))
      else map_option (\<lambda>(before, after). (c # before, after)) (str_cut sep cs))"

lemma str_cut_length: "str_cut sep s = Some (before, after) \<Longrightarrow> length after < length s"
proof (induction s arbitrary: before)
  case (Cons c cs)
  show ?case
  proof (cases "prefix sep (c # cs)")
    case True
    then show ?thesis using Cons.prems by (cases sep) auto
  next
    case False
    then obtain b where "str_cut sep cs = Some (b, after)" using Cons.prems by (auto split: if_splits)
    then show ?thesis using Cons.IH by fastforce
  qed
qed simp

lemma trim_left_length: "length (trim_left s) \<le> length s"
proof (induction s rule: trim_left.induct)
  case (1 s)
  then show ?case by (subst trim_left.simps) (auto simp: le_diff_conv)
qed

lemma trim_cut_length: "str_cut sep (trim_left s) = Some (before, after) \<Longrightarrow> length after < length s"
  using trim_left_length [of s] by (auto dest: str_cut_length)

type_synonym csv_fields = "csv_error + string list \<times> string list"

definition and_then :: "string \<Rightarrow> csv_fields \<Rightarrow> csv_fields" where
  "and_then field r = (case r of Inl e \<Rightarrow> Inl e | Inr (fields', rest) \<Rightarrow> Inr (field # fields', rest))"

text \<open>
  One record, from the rest of its line and the lines after it: the mode says whether a quoted field
  is being read, and what of it has been read.
\<close>

function parse_fields :: "string \<Rightarrow> string option \<Rightarrow> string \<Rightarrow> string list \<Rightarrow> csv_fields" where
  "parse_fields comma None line0 rest =
     (let line = trim_left line0 in
      if line \<noteq> [] \<and> hd line = quote then parse_fields comma (Some []) (tl line) rest
      else case str_cut comma line of
             Some (field, after) \<Rightarrow>
               if quote \<in> set field then Inl ErrBareQuote
               else and_then field (parse_fields comma None after rest)
           | None \<Rightarrow>
               if quote \<in> set (strip_newline line) then Inl ErrBareQuote
               else Inr ([strip_newline line], rest))"
| "parse_fields comma (Some acc) line rest =
     (case str_cut [quote] line of
        Some (before, after) \<Rightarrow>
          if after \<noteq> [] \<and> hd after = quote
          then parse_fields comma (Some (acc @ before @ [quote])) (tl after) rest
          else if comma \<noteq> [] \<and> prefix comma after
          then and_then (acc @ before) (parse_fields comma None (drop (length comma) after) rest)
          else if after = [] \<or> after = [newline] then Inr ([acc @ before], rest)
          else Inl ErrQuote
      | None \<Rightarrow>
          if line = [] then Inl ErrQuote
          else case rest of
                 l # ls \<Rightarrow> parse_fields comma (Some (acc @ line)) l ls
               | [] \<Rightarrow> parse_fields comma (Some (acc @ line)) [] [])"
  by pat_completeness auto
termination
proof (relation "measure (\<lambda>(comma, mode, line, rest). 2 * length line + sum_list (map (\<lambda>l. 2 * length l) rest) + length rest)",
    goal_cases)
  case (2 comma line0 rest line)
  then obtain c cs where "trim_left line0 = c # cs" by (cases "trim_left line0") auto
  with 2 trim_left_length [of line0] show ?case by simp
qed (auto dest!: str_cut_length trim_cut_length)

declare parse_fields.simps [simp del]

lemma and_then_Inr: "and_then field r = Inr (fs, rest) \<longleftrightarrow> (\<exists>gs. r = Inr (gs, rest) \<and> fs = field # gs)"
  by (auto simp: and_then_def split: sum.splits prod.splits)

lemma parse_fields_rest: "parse_fields comma mode line rest = Inr (fs, rest') \<Longrightarrow> length rest' \<le> length rest \<and> fs \<noteq> []"
proof (induction comma mode line rest arbitrary: fs rest' rule: parse_fields.induct)
  case (1 comma line0 rest)
  let ?line = "trim_left line0"
  show ?case
  proof (cases "?line \<noteq> [] \<and> hd ?line = quote")
    case True
    then show ?thesis using "1.IH"(1) [OF refl True] "1.prems" by (simp add: parse_fields.simps(1) [of comma line0])
  next
    case False
    show ?thesis
    proof (cases "str_cut comma ?line")
      case None
      then show ?thesis using "1.prems" False by (auto simp: parse_fields.simps(1) [of comma line0] Let_def split: if_splits)
    next
      case (Some x)
      obtain field after where x: "x = (field, after)" by fastforce
      have q: "quote \<notin> set field" and "and_then field (parse_fields comma None after rest) = Inr (fs, rest')"
        using "1.prems" False Some x by (auto simp: parse_fields.simps(1) [of comma line0] split: if_splits)
      then obtain gs where "parse_fields comma None after rest = Inr (gs, rest')" "fs = field # gs"
        unfolding and_then_Inr by blast
      then show ?thesis using "1.IH"(2) [OF refl False Some x [symmetric] q] by simp
    qed
  qed
next
  case (2 comma acc line rest)
  show ?case
  proof (cases "str_cut [quote] line")
    case None
    then have "line \<noteq> []" using "2.prems" by (auto simp: parse_fields.simps(2) [of comma acc line])
    then show ?thesis
      using "2.prems" None "2.IH"(1) [OF None] "2.IH"(2) [OF None]
      by (cases rest) (auto simp: parse_fields.simps(2) [of comma acc line] intro: le_SucI)
  next
    case (Some x)
    obtain before after where x: "x = (before, after)" by fastforce
    note eq = parse_fields.simps(2) [of comma acc line, unfolded Some x option.case prod.case]
    show ?thesis
    proof (cases "after \<noteq> [] \<and> hd after = quote")
      case True
      then show ?thesis using "2.prems" "2.IH"(3) [OF Some x [symmetric] True] by (simp add: eq)
    next
      case F1: False
      show ?thesis
      proof (cases "comma \<noteq> [] \<and> prefix comma after")
        case True
        then obtain gs where "parse_fields comma None (drop (length comma) after) rest = Inr (gs, rest')" "fs = (acc @ before) # gs"
          using "2.prems" F1 by (auto simp: eq and_then_Inr)
        then show ?thesis using "2.IH"(4) [OF Some x [symmetric] F1 True] by simp
      qed (use "2.prems" F1 in \<open>auto simp: eq split: if_splits\<close>)
    qed
  qed
qed

text \<open>\<open>ReadAll\<close>: empty lines are skipped; the first record fixes the number of fields.\<close>

function read_records :: "string \<Rightarrow> nat \<Rightarrow> string list \<Rightarrow> csv_error + string list list" where
  "read_records comma n [] = Inr []"
| "read_records comma n (l # ls) =
     (if l = [] \<or> l = [newline] then read_records comma n ls
      else case parse_fields comma None l ls of
             Inl e \<Rightarrow> Inl e
           | Inr (record', rest) \<Rightarrow>
               if n \<noteq> 0 \<and> length record' \<noteq> n then Inl ErrFieldCount
               else case read_records comma (length record') rest of
                      Inl e \<Rightarrow> Inl e
                    | Inr records \<Rightarrow> Inr (record' # records))"
  by pat_completeness auto
termination
  by (relation "measure (\<lambda>(comma, n, ls). length ls)") (auto dest: parse_fields_rest)

definition valid_delim :: "string \<Rightarrow> bool" where
  "valid_delim comma \<longleftrightarrow>
     comma \<notin> {[], [quote], [carriage_return], [newline], [CHR 0xEF, CHR 0xBF, CHR 0xBD]}"

text \<open>An invalid delimiter is an error of the first record read, even of an empty input.\<close>

definition csv_read_all :: "string \<Rightarrow> string \<Rightarrow> csv_error + string list list" where
  "csv_read_all comma input =
     (if \<not> valid_delim comma then Inl ErrInvalidDelim else read_records comma 0 (csv_lines input))"

section \<open>The result of an import\<close>

record import_error =
  ie_row :: int
  ie_data :: "string \<rightharpoonup> string"
  ie_errors :: "string list"

record 'a import_result =
  ir_total_rows :: int
  ir_successful_imports :: int
  ir_failed_imports :: int
  ir_imported_items :: "'a list"
  ir_errors :: "import_error list"

definition new_import_result :: "'a import_result" where
  "new_import_result =
     \<lparr>ir_total_rows = 0, ir_successful_imports = 0, ir_failed_imports = 0, ir_imported_items = [], ir_errors = []\<rparr>"

definition add_success :: "'a \<Rightarrow> 'a import_result \<Rightarrow> 'a import_result" where
  "add_success x r =
     r\<lparr>ir_successful_imports := ir_successful_imports r + 1, ir_imported_items := ir_imported_items r @ [x]\<rparr>"

definition add_error :: "int \<Rightarrow> (string \<rightharpoonup> string) \<Rightarrow> string list \<Rightarrow> 'a import_result \<Rightarrow> 'a import_result" where
  "add_error row data errors r =
     r\<lparr>ir_failed_imports := ir_failed_imports r + 1,
       ir_errors := ir_errors r @ [\<lparr>ie_row = row, ie_data = data, ie_errors = errors\<rparr>]\<rparr>"

definition is_success :: "'a import_result \<Rightarrow> bool" where
  "is_success r \<longleftrightarrow> ir_failed_imports r = 0"

definition has_errors :: "'a import_result \<Rightarrow> bool" where
  "has_errors r \<longleftrightarrow> ir_failed_imports r > 0"

section \<open>The importer\<close>

record csv_importer =
  ci_delimiter :: string
  ci_has_header :: bool
  ci_required_columns :: "string list"

definition new_csv_importer :: "string \<Rightarrow> bool \<Rightarrow> string list \<Rightarrow> csv_importer" where
  "new_csv_importer delimiter has_header required =
     \<lparr>ci_delimiter = (if delimiter = [] then '','' else delimiter), ci_has_header = has_header,
      ci_required_columns = required\<rparr>"

datatype importer_error = ReadingCSV csv_error | MissingColumns "string list" | Cancelled

definition validate_required_columns ::
  "(string \<Rightarrow> string) \<Rightarrow> csv_importer \<Rightarrow> string list \<Rightarrow> importer_error option" where
  "validate_required_columns to_lower b headers =
     (let hm = set (map (\<lambda>h. trim_space (to_lower h)) headers);
          missing = filter (\<lambda>req. to_lower req \<notin> hm) (ci_required_columns b)
      in if missing \<noteq> [] then Some (MissingColumns missing) else None)"

fun column_loop :: "nat \<Rightarrow> string list \<Rightarrow> (string \<rightharpoonup> string) \<Rightarrow> string \<rightharpoonup> string" where
  "column_loop i [] data = data"
| "column_loop i (v # vs) data = column_loop (Suc i) vs (data(''column_'' @ itoa (int i) \<mapsto> trim_space v))"

fun header_loop :: "nat \<Rightarrow> string list \<Rightarrow> string list \<Rightarrow> (string \<rightharpoonup> string) \<Rightarrow> string \<rightharpoonup> string" where
  "header_loop i [] row data = data"
| "header_loop i (h # hs) row data =
     (let v = (if i < length row then trim_space (row ! i) else [])
      in header_loop (Suc i) hs row (data(trim_space h \<mapsto> v)))"

definition build_row_map :: "string list \<Rightarrow> string list \<Rightarrow> string \<rightharpoonup> string" where
  "build_row_map headers row =
     (if length headers = 0 then column_loop 0 row Map.empty else header_loop 0 headers row Map.empty)"

text \<open>\<open>RowParser.ParseRow\<close> and the context: whether it is cancelled when row \<open>i\<close> is reached.\<close>

type_synonym 'a row_parser =
  "string list \<Rightarrow> string list \<Rightarrow> (string \<rightharpoonup> string) \<Rightarrow> string \<Rightarrow> 'a option \<times> string list"

fun import_loop ::
  "'a row_parser \<Rightarrow> (nat \<Rightarrow> bool) \<Rightarrow> string list \<Rightarrow> string \<Rightarrow> nat \<Rightarrow> string list list \<Rightarrow> 'a import_result \<Rightarrow>
   importer_error + 'a import_result" where
  "import_loop parser cancelled headers tenant_id i [] result = Inr result"
| "import_loop parser cancelled headers tenant_id i (row # rows) result =
     (if cancelled i then Inl Cancelled
      else let row_number = int i + 1;
               row_data = build_row_map headers row;
               (item, errs) = parser row headers row_data tenant_id;
               result = (if length errs > 0 then add_error row_number row_data errs result
                         else case item of Some x \<Rightarrow> add_success x result | None \<Rightarrow> result)
           in import_loop parser cancelled headers tenant_id (Suc i) rows result)"

definition import_csv ::
  "(string \<Rightarrow> string) \<Rightarrow> csv_importer \<Rightarrow> 'a row_parser \<Rightarrow> (nat \<Rightarrow> bool) \<Rightarrow> string \<Rightarrow> string \<Rightarrow>
   importer_error + 'a import_result" where
  "import_csv to_lower b parser cancelled input tenant_id =
     (case csv_read_all (ci_delimiter b) input of
        Inl e \<Rightarrow> Inl (ReadingCSV e)
      | Inr records \<Rightarrow>
          if length records = 0 then Inr new_import_result
          else let headers = (if ci_has_header b then hd records else []);
                   start = (if ci_has_header b then 1 else 0)
               in case (if ci_has_header b then validate_required_columns to_lower b headers else None) of
                    Some e \<Rightarrow> Inl e
                  | None \<Rightarrow>
                      (case import_loop parser cancelled headers tenant_id start (drop start records) new_import_result of
                         Inl e \<Rightarrow> Inl e
                       | Inr result \<Rightarrow> Inr (result\<lparr>ir_total_rows := int (length records - start)\<rparr>)))"

section \<open>Every row is accounted for\<close>

text \<open>The rows with their numbers and data, and what the parser makes of each.\<close>

definition parsed_rows ::
  "'a row_parser \<Rightarrow> string list \<Rightarrow> string \<Rightarrow> nat \<Rightarrow> string list list \<Rightarrow>
   (int \<times> (string \<rightharpoonup> string) \<times> 'a option \<times> string list) list" where
  "parsed_rows parser headers tenant_id start rows =
     map (\<lambda>(i, row). (int i + 1, build_row_map headers row, parser row headers (build_row_map headers row) tenant_id))
       (enumerate start rows)"

definition items_of :: "(int \<times> (string \<rightharpoonup> string) \<times> 'a option \<times> string list) list \<Rightarrow> 'a list" where
  "items_of rs = List.map_filter (\<lambda>(i, d, item, errs). if errs = [] then item else None) rs"

definition errors_of :: "(int \<times> (string \<rightharpoonup> string) \<times> 'a option \<times> string list) list \<Rightarrow> import_error list" where
  "errors_of rs =
     List.map_filter (\<lambda>(i, d, item, errs).
       if errs \<noteq> [] then Some \<lparr>ie_row = i, ie_data = d, ie_errors = errs\<rparr> else None) rs"

definition report_of :: "(int \<times> (string \<rightharpoonup> string) \<times> 'a option \<times> string list) list \<Rightarrow> 'a import_result" where
  "report_of rs =
     \<lparr>ir_total_rows = int (length rs), ir_successful_imports = int (length (items_of rs)),
      ir_failed_imports = int (length (errors_of rs)), ir_imported_items = items_of rs, ir_errors = errors_of rs\<rparr>"

lemma import_loop_spec:
  "import_loop parser cancelled headers tenant_id i rows result =
    (if \<exists>k \<in> {i ..< i + length rows}. cancelled k then Inl Cancelled
     else let rs = parsed_rows parser headers tenant_id i rows in
       Inr \<lparr>ir_total_rows = ir_total_rows result,
            ir_successful_imports = ir_successful_imports result + int (length (items_of rs)),
            ir_failed_imports = ir_failed_imports result + int (length (errors_of rs)),
            ir_imported_items = ir_imported_items result @ items_of rs,
            ir_errors = ir_errors result @ errors_of rs\<rparr>)"
proof (induction rows arbitrary: i result)
  case (Cons row rows)
  have range: "{i ..< i + length (row # rows)} = insert i {Suc i ..< Suc i + length rows}" by auto
  obtain item errs where p: "parser row headers (build_row_map headers row) tenant_id = (item, errs)" by fastforce
  show ?case
    unfolding range
    by (simp add: Cons.IH p Let_def parsed_rows_def items_of_def errors_of_def map_filter_simps add_error_def add_success_def
        split: option.split)
qed (simp add: parsed_rows_def items_of_def errors_of_def map_filter_simps)

text \<open>C31: The result of an import is the report of its rows. It fails if the input is not CSV, if a
  required column is missing from the header, or if the context is cancelled when a row is reached;
  otherwise every data row is given to the parser once, with its number in the file, and the result
  lists, in order, the items of the rows without errors and the errors of the others, with counts
  that agree with the lists.\<close>

theorem import_is_report:
  "import_csv to_lower b parser cancelled input tenant_id =
    (case csv_read_all (ci_delimiter b) input of
       Inl e \<Rightarrow> Inl (ReadingCSV e)
     | Inr records \<Rightarrow>
         let start = (if ci_has_header b then 1 else 0);
             headers = (if ci_has_header b \<and> records \<noteq> [] then hd records else []);
             missing = filter (\<lambda>req. to_lower req \<notin> set (map (\<lambda>h. trim_space (to_lower h)) headers)) (ci_required_columns b)
         in if ci_has_header b \<and> records \<noteq> [] \<and> missing \<noteq> [] then Inl (MissingColumns missing)
            else if \<exists>k \<in> {start ..< length records}. cancelled k then Inl Cancelled
            else Inr (report_of (parsed_rows parser headers tenant_id start (drop start records))))"
proof (cases "csv_read_all (ci_delimiter b) input")
  case (Inr records)
  show ?thesis
  proof (cases "records = []")
    case True
    then show ?thesis
      using Inr by (simp add: import_csv_def new_import_result_def report_of_def parsed_rows_def items_of_def errors_of_def
          map_filter_simps)
  next
    case False
    let ?start = "if ci_has_header b then 1 else 0 :: nat"
    have "?start \<le> length records" using False by (cases records) auto
    then have range: "?start + length (drop ?start records) = length records" by simp
    have len: "length (parsed_rows parser hs tenant_id ?start (drop ?start records)) = length records - ?start" for hs
      by (simp add: parsed_rows_def)
    have "import_csv to_lower b parser cancelled input tenant_id =
      (let headers = (if ci_has_header b then hd records else []) in
       case (if ci_has_header b then validate_required_columns to_lower b headers else None) of
         Some e \<Rightarrow> Inl e
       | None \<Rightarrow>
         (case import_loop parser cancelled headers tenant_id ?start (drop ?start records) new_import_result of
            Inl e \<Rightarrow> Inl e
          | Inr result \<Rightarrow> Inr (result\<lparr>ir_total_rows := int (length records - ?start)\<rparr>)))"
      using False Inr by (simp add: import_csv_def Let_def)
    then show ?thesis
      unfolding import_loop_spec range
      using False Inr len
      by (simp add: validate_required_columns_def report_of_def new_import_result_def Let_def)
  qed
qed (simp add: import_csv_def)

section \<open>Rows are as long as the header\<close>

lemma read_records_uniform:
  "read_records comma n ls = Inr records \<Longrightarrow> \<exists>m > 0. (n \<noteq> 0 \<longrightarrow> m = n) \<and> list_all (\<lambda>r. length r = m) records"
proof (induction comma n ls arbitrary: records rule: read_records.induct)
  case (1 comma n)
  then show ?case by (intro exI [of _ "if n = 0 then 1 else n"]) simp
next
  case (2 comma n l ls)
  show ?case
  proof (cases "l = [] \<or> l = [newline]")
    case True
    then show ?thesis using 2 by simp
  next
    case False
    then obtain rec rest rs where r: "parse_fields comma None l ls = Inr (rec, rest)" "n = 0 \<or> length rec = n"
        "read_records comma (length rec) rest = Inr rs" "records = rec # rs"
      using "2.prems" by (auto split: sum.splits if_splits)
    have "rec \<noteq> []" using parse_fields_rest [OF r(1)] by simp
    moreover have "\<not> (n \<noteq> 0 \<and> length rec \<noteq> n)" using r(2) by auto
    from "2.IH"(2) [OF False r(1) refl this r(3)] have "list_all (\<lambda>r. length r = length rec) rs"
      using \<open>rec \<noteq> []\<close> by auto
    ultimately show ?thesis using r by (intro exI [of _ "length rec"]) auto
  qed
qed

lemma header_loop_other:
  "key \<notin> trim_space ` set hs \<Longrightarrow> header_loop i hs row data key = data key"
  by (induction i hs row data rule: header_loop.induct) (auto simp: Let_def)

lemma header_loop_nth:
  "j < length hs \<Longrightarrow> i + length hs \<le> length row \<Longrightarrow> trim_space (hs ! j) \<notin> trim_space ` set (drop (Suc j) hs) \<Longrightarrow>
   header_loop i hs row data (trim_space (hs ! j)) = Some (trim_space (row ! (i + j)))"
proof (induction i hs row data arbitrary: j rule: header_loop.induct)
  case (2 i h hs row data)
  show ?case
  proof (cases j)
    case 0
    then show ?thesis using 2 by (simp add: Let_def header_loop_other)
  next
    case (Suc k)
    then show ?thesis using "2.IH" [OF refl, of k] "2.prems" by (simp add: Let_def fun_upd_def)
  qed
qed simp

text \<open>In a file with a header that can be read, every row has exactly as many fields as the header,
  so the parser sees the value of every column: the data of a row maps the name of each column (the
  last of that name) to its own field, both without surrounding space. The importer's own handling of
  short rows is never reached: a file with a short or a long row is refused as a whole.\<close>

theorem rows_match_header:
  assumes "csv_read_all comma input = Inr (headers # rows)" "row \<in> set rows" "j < length headers"
    and "trim_space (headers ! j) \<notin> trim_space ` set (drop (Suc j) headers)"
  shows "length row = length headers \<and>
    build_row_map headers row (trim_space (headers ! j)) = Some (trim_space (row ! j))"
proof -
  have "read_records comma 0 (csv_lines input) = Inr (headers # rows)"
    using assms(1) by (simp add: csv_read_all_def split: if_splits)
  from read_records_uniform [OF this] have len: "length row = length headers"
    using assms(2) by (auto simp: list_all_iff)
  moreover have "headers \<noteq> []" using assms(3) by auto
  ultimately show ?thesis
    using header_loop_nth [OF assms(3) _ assms(4), of 0 row Map.empty] by (simp add: build_row_map_def)
qed

section \<open>Plain files\<close>

text \<open>A field that needs no quotes: it holds no delimiter, quote or line end, and is empty or starts with a
  printable ASCII character (a leading space is trimmed when the importer is configured so, and the spaces of
  Unicode are not modelled). A record of such fields, but for one empty field alone, which is a blank line
  that the reader skips.\<close>

definition plain_field :: "char \<Rightarrow> string \<Rightarrow> bool" where
  "plain_field c f \<longleftrightarrow>
     set f \<inter> {c, quote, newline, carriage_return} = {} \<and> (f = [] \<or> graphic (hd f))"

definition plain_record :: "char \<Rightarrow> string list \<Rightarrow> bool" where
  "plain_record c r \<longleftrightarrow> r \<noteq> [] \<and> r \<noteq> [[]] \<and> list_all (plain_field c) r"

definition csv_text :: "char \<Rightarrow> string list list \<Rightarrow> string" where
  "csv_text c records = concat (map (\<lambda>r. join [c] r @ [newline]) records)"

lemma str_cut_at: "c \<notin> set f \<Longrightarrow> str_cut [c] (f @ c # y) = Some (f, y)"
  by (induction f) auto

lemma str_cut_none: "c \<notin> set f \<Longrightarrow> str_cut [c] f = None"
  by (induction f) auto

lemma trim_left_keep: "ws_width s = 0 \<Longrightarrow> trim_left s = s"
  by (subst trim_left.simps) simp

lemma trim_left_newline: "trim_left [newline] = []"
proof -
  have "ws_width [newline] = 1" by (simp add: ws_width_def ws_runes_def)
  then show ?thesis by (subst trim_left.simps) (simp add: trim_left.simps [of "[]"])
qed

lemma parse_plain:
  assumes "graphic c" "c \<noteq> quote" "list_all (plain_field c) fs" "fs \<noteq> []"
  shows "parse_fields [c] None (join [c] fs @ [newline]) rest = Inr (fs, rest)"
  using assms(3,4)
proof (induction "[c]" fs rule: join.induct)
  case (2 f)
  have f: "c \<notin> set f" "quote \<notin> set f" "f = [] \<or> graphic (hd f)" "newline \<notin> set f" using 2 by (auto simp: plain_field_def)
  have "c \<noteq> newline" using assms(1) by (auto simp: graphic_def byte_def)
  show ?case
  proof (cases f)
    case Nil
    then show ?thesis by (simp add: parse_fields.simps(1) trim_left_newline strip_newline_def Let_def)
  next
    case (Cons x xs)
    then have t: "trim_left (f @ [newline]) = f @ [newline]" using f(3) by (intro trim_left_keep) simp
    moreover have "str_cut [c] (f @ [newline]) = None" using f(1) \<open>c \<noteq> newline\<close> by (intro str_cut_none) simp
    ultimately show ?thesis
      using f Cons by (auto simp: parse_fields.simps(1) strip_newline_def Let_def)
  qed
next
  case (3 f g gs)
  have f: "c \<notin> set f" "quote \<notin> set f" "f = [] \<or> graphic (hd f)" using 3 by (auto simp: plain_field_def)
  let ?l = "f @ c # join [c] (g # gs) @ [newline]"
  have "trim_left ?l = ?l"
    using f(3) assms(1) by (intro trim_left_keep) (cases f; simp)
  moreover have "hd ?l \<noteq> quote" using f(2) assms(2) by (cases f) auto
  ultimately show ?case
    using 3 f str_cut_at [OF f(1)] by (simp add: parse_fields.simps(1) and_then_def Let_def)
qed simp

lemma split_lines_line: "newline \<notin> set l \<Longrightarrow> split_lines (l @ newline # s) = (l @ [newline]) # split_lines s"
  by (induction l) auto

lemma set_join: "set (join sep xs) \<subseteq> set sep \<union> \<Union> (set ` set xs)"
  by (induction sep xs rule: join.induct) auto

lemma csv_lines_text:
  assumes "c \<notin> {newline, carriage_return}" "list_all (plain_record c) records"
  shows "csv_lines (csv_text c records) = map (\<lambda>r. join [c] r @ [newline]) records"
  using assms(2)
proof (induction records)
  case (Cons r records)
  have "newline \<notin> set (join [c] r)" "carriage_return \<notin> set (join [c] r)"
    using set_join [of "[c]" r] Cons.prems assms(1) by (auto simp: plain_record_def plain_field_def list_all_iff)
  then have "normal_line (join [c] r @ [newline]) = join [c] r @ [newline]"
    by (auto simp: normal_line_def suffix_def append_eq_append_conv2 Cons_eq_append_conv)
  then show ?case
    using Cons split_lines_line [OF \<open>newline \<notin> set (join [c] r)\<close>] by (simp add: csv_lines_def csv_text_def)
qed (simp add: csv_lines_def csv_text_def)

lemma read_plain:
  assumes "graphic c" "c \<noteq> quote" "list_all (plain_record c) records" "list_all (\<lambda>r. length r = m) records" "n = 0 \<or> n = m"
  shows "read_records [c] n (map (\<lambda>r. join [c] r @ [newline]) records) = Inr records"
  using assms(3-5)
proof (induction records arbitrary: n)
  case (Cons r records)
  have "join [c] r \<noteq> []" using Cons.prems(1) by (cases r rule: list.exhaust [case_product list.exhaust]; cases "tl r") (auto simp: plain_record_def)
  moreover have "parse_fields [c] None (join [c] r @ [newline]) rest = Inr (r, rest)" for rest
    using parse_plain [OF assms(1,2)] Cons.prems(1) by (simp add: plain_record_def)
  ultimately show ?case using Cons by auto
qed simp

text \<open>C32: A table written as CSV is imported as it is: for any table of plain fields (without delimiter,
  quotes or line ends, and empty or starting with a printable ASCII character) in rows of one length, no row
  being a single empty field (which is a blank line), and any printable delimiter but a quote,
  the importer gives the parser exactly the rows of the table, with the header of the table.\<close>

theorem plain_table_imported:
  assumes "graphic c" "c \<noteq> quote" "list_all (plain_record c) (headers # rows)"
    and "list_all (\<lambda>r. length r = length headers) rows"
    and "\<And>req. req \<in> set required \<Longrightarrow> to_lower req \<in> trim_space ` to_lower ` set headers"
  shows "import_csv to_lower (new_csv_importer [c] True required) parser (\<lambda>_. False) (csv_text c (headers # rows)) tenant_id =
    Inr (report_of (parsed_rows parser headers tenant_id 1 rows))"
proof -
  have "c \<notin> {newline, carriage_return}" using assms(1) by (auto simp: graphic_def byte_def)
  then have "csv_read_all [c] (csv_text c (headers # rows)) = Inr (headers # rows)"
    using csv_lines_text [of c "headers # rows"] read_plain [OF assms(1,2), of "headers # rows" "length headers" 0] assms(2-4)
    by (auto simp: csv_read_all_def valid_delim_def)
  moreover have "filter (\<lambda>req. to_lower req \<notin> set (map (\<lambda>h. trim_space (to_lower h)) headers)) required = []"
    using assms(5) by (auto simp: filter_empty_conv)
  ultimately show ?thesis
    unfolding import_is_report by (simp add: new_csv_importer_def Let_def)
qed

text \<open>With tabs as delimiters empty fields get lost: trimming the space before a field takes the next
  delimiter with it, so a row of three columns with an empty one in the middle has two fields, and
  the file is refused because its rows differ in length.\<close>

theorem tab_files_lose_empty_fields:
  "csv_read_all [CHR 0x09] (''a'' @ [CHR 0x09] @ [CHR 0x09] @ ''c'' @ [newline]) = Inr [[''a'', ''c'']] \<and>
   import_csv id (new_csv_importer [CHR 0x09] True []) parser cancelled
     (csv_text (CHR 0x09) [[''x'', ''y'', ''z''], [''a'', [], ''c'']]) tenant_id = Inl (ReadingCSV ErrFieldCount)"
proof -
  let ?t = "CHR 0x09"
  have w: "ws_width (?t # s) = 1" for s by (simp add: ws_width_def ws_runes_def)
  have trim: "trim_left (?t # s) = trim_left s" for s by (subst trim_left.simps) (simp add: w)
  have keep: "trim_left (c # s) = c # s" if "graphic c" for c s using that by (intro trim_left_keep) simp
  have letters: "graphic CHR ''a''" "graphic CHR ''c''" "graphic CHR ''x''" "graphic CHR ''y''" "graphic CHR ''z''"
    by (simp_all add: graphic_def byte_def)
  have row: "parse_fields [?t] None [CHR ''a'', ?t, ?t, CHR ''c'', newline] rest = Inr ([''a'', ''c''], rest)"
      "parse_fields [?t] None [CHR ''x'', ?t, CHR ''y'', ?t, CHR ''z'', newline] rest = Inr ([''x'', ''y'', ''z''], rest)" for rest
    by (simp_all add: parse_fields.simps(1) keep letters trim strip_newline_def and_then_def Let_def)
  have lines: "csv_lines [CHR ''a'', ?t, ?t, CHR ''c'', newline] = [[CHR ''a'', ?t, ?t, CHR ''c'', newline]]"
      "csv_lines [CHR ''x'', ?t, CHR ''y'', ?t, CHR ''z'', newline, CHR ''a'', ?t, ?t, CHR ''c'', newline] =
        [[CHR ''x'', ?t, CHR ''y'', ?t, CHR ''z'', newline], [CHR ''a'', ?t, ?t, CHR ''c'', newline]]"
    by (simp_all add: csv_lines_def normal_line_def suffix_def append_eq_Cons_conv Cons_eq_append_conv)
  show ?thesis
    by (simp add: import_csv_def new_csv_importer_def csv_text_def csv_read_all_def valid_delim_def lines row)
qed

theorem rows_match_header_witness:
  "build_row_map [''name'', ''age''] [''Ana'', ''41''] ''age'' = Some ''41''"
proof -
  have p: "list_all (plain_record CHR '','') [[''name'', ''age''], [''Ana'', ''41'']]"
    by (simp add: plain_record_def plain_field_def graphic_def byte_def)
  have c: "graphic CHR '',''" "CHR '','' \<noteq> quote" "CHR '','' \<notin> {newline, carriage_return}" by (simp_all add: graphic_def byte_def)
  have r: "csv_read_all [CHR '',''] (csv_text CHR '','' [[''name'', ''age''], [''Ana'', ''41'']]) = Inr [[''name'', ''age''], [''Ana'', ''41'']]"
    using csv_lines_text [OF c(3) p] read_plain [OF c(1,2) p, of 2 0] by (simp add: csv_read_all_def valid_delim_def)
  have t: "trim_space ''age'' = ''age''" "trim_space ''41'' = ''41''" by (simp_all add: graphic_def byte_def)
  show ?thesis using rows_match_header [OF r, of "[''Ana'', ''41'']" 1] by (simp add: t)
qed

theorem plain_table_imported_witness:
  "import_csv (map lower) (new_csv_importer '','' True [''Name'']) (\<lambda>row hs d t. (Some row, [])) (\<lambda>_. False)
     (csv_text CHR '','' [[''name'', ''age''], [''Ana'', ''41'']]) ''t1'' =
   Inr \<lparr>ir_total_rows = 1, ir_successful_imports = 1, ir_failed_imports = 0, ir_imported_items = [[''Ana'', ''41'']], ir_errors = []\<rparr>"
proof -
  have l: "map lower ''Name'' = ''name''" "map lower ''name'' = ''name''" by (simp_all add: lower_def is_upper_def byte_def char_of_def bit_0)
  have t: "trim_space ''name'' = ''name''" by (simp add: graphic_def byte_def)
  have "import_csv (map lower) (new_csv_importer [CHR '',''] True [''Name'']) (\<lambda>row hs d t. (Some row, [])) (\<lambda>_. False)
     (csv_text CHR '','' [[''name'', ''age''], [''Ana'', ''41'']]) ''t1'' =
     Inr (report_of (parsed_rows (\<lambda>row hs d t. (Some row, [])) [''name'', ''age''] ''t1'' 1 [[''Ana'', ''41'']]))"
  proof (rule plain_table_imported)
    show "map lower req \<in> trim_space ` map lower ` set [''name'', ''age'']" if "req \<in> set [''Name'']" for req
      using that l t by (auto simp del: list.map)
  qed (simp_all add: plain_record_def plain_field_def graphic_def byte_def)
  then show ?thesis
    by (simp add: report_of_def parsed_rows_def items_of_def errors_of_def map_filter_simps)
qed

end
