(* ===== verification/Env.thy ===== *)
theory Env
  imports Go_Numbers
begin

text \<open>
  Environment variables, \<open>infrastructure/env/env.go\<close> and \<open>infrastructure/env/s2s.go\<close>. The
  environment is a function; an unset variable is the empty string, as for \<open>os.Getenv\<close>.
  \<open>to_upper\<close> is \<open>strings.ToUpper\<close>, which on ASCII is \<open>upper\<close> of every byte.
\<close>

section \<open>Getters with a fallback\<close>

type_synonym environment = "string \<Rightarrow> string"

definition env_get :: "environment \<Rightarrow> string \<Rightarrow> string \<Rightarrow> string" where
  "env_get getenv key fallback = (let v = getenv key in if v \<noteq> [] then v else fallback)"

definition env_get_int :: "environment \<Rightarrow> string \<Rightarrow> int \<Rightarrow> int" where
  "env_get_int getenv key fallback =
     (let v = getenv key
      in if v = [] then fallback else case atoi v of None \<Rightarrow> fallback | Some n \<Rightarrow> n)"

text \<open>\<open>strconv.ParseBool\<close>.\<close>

definition parse_bool :: "string \<Rightarrow> bool option" where
  "parse_bool s =
     (if s \<in> {''1'', ''t'', ''T'', ''true'', ''TRUE'', ''True''} then Some True
      else if s \<in> {''0'', ''f'', ''F'', ''false'', ''FALSE'', ''False''} then Some False
      else None)"

definition env_get_bool :: "environment \<Rightarrow> string \<Rightarrow> bool \<Rightarrow> bool" where
  "env_get_bool getenv key fallback =
     (let v = getenv key
      in if v = [] then fallback else case parse_bool v of None \<Rightarrow> fallback | Some b \<Rightarrow> b)"

definition env_get_duration :: "environment \<Rightarrow> string \<Rightarrow> duration \<Rightarrow> duration" where
  "env_get_duration getenv key fallback =
     (let v = getenv key
      in if v = [] then fallback else case parse_duration v of None \<Rightarrow> fallback | Some d \<Rightarrow> d)"

section \<open>Keys of services\<close>

definition replace_byte :: "char \<Rightarrow> char \<Rightarrow> string \<Rightarrow> string" where
  "replace_byte a b s = map (\<lambda>c. if c = a then b else c) s"

definition s2s_env_var :: "(string \<Rightarrow> string) \<Rightarrow> string \<Rightarrow> string" where
  "s2s_env_var to_upper service =
     (let normalized = to_upper service;
          normalized = replace_byte CHR ''-'' CHR ''_'' normalized;
          normalized = replace_byte CHR ''.'' CHR ''_'' normalized
      in ''S2S_KEY_'' @ normalized)"

definition get_s2s_key :: "(string \<Rightarrow> string) \<Rightarrow> environment \<Rightarrow> string \<Rightarrow> string" where
  "get_s2s_key to_upper getenv service =
     (let key = getenv (s2s_env_var to_upper service) in if key \<noteq> [] then key else getenv ''S2S_API_KEY'')"

definition get_s2s_key_or_default :: "(string \<Rightarrow> string) \<Rightarrow> environment \<Rightarrow> string \<Rightarrow> string \<Rightarrow> string" where
  "get_s2s_key_or_default to_upper getenv service default_key =
     (let key = get_s2s_key to_upper getenv service in if key \<noteq> [] then key else default_key)"

section \<open>What they read\<close>

text \<open>A number written to a variable in decimal is read back by \<open>GetInt\<close>, for every \<open>int\<close>; and
  whatever a variable holds, \<open>GetInt\<close> and \<open>GetDuration\<close> return a number of 64 bits, the fallback
  if the text is not one, such as a number that is too large.\<close>

theorem env_numbers_read_back:
  assumes "int64_range fallback"
  shows "(int64_range n \<and> getenv key = itoa n \<longrightarrow> env_get_int getenv key fallback = n) \<and>
    (\<not> int64_range n \<and> getenv key = itoa n \<longrightarrow> env_get_int getenv key fallback = fallback) \<and>
    int64_range (env_get_int getenv key fallback) \<and> int64_range (env_get_duration getenv key fallback)"
proof -
  have ne: "itoa n \<noteq> []" using nat_str_digits [of "nat n"] by (simp add: itoa_def)
  have big: "atoi (itoa n) = None" if "\<not> int64_range n"
    using that nat_str_digits [of "nat n"] nat_str_digits [of "nat (- n)"] nat_str_hd [of "nat n"]
    by (auto simp: atoi_def itoa_def nat_str_val Let_def)
  show ?thesis
    using assms ne atoi_itoa [of n] big atoi_range [of "getenv key"] parse_duration_range [of "getenv key"]
    by (auto simp: env_get_int_def env_get_duration_def Let_def split: option.splits)
qed

theorem env_numbers_read_back_witness:
  "env_get_int (\<lambda>_. itoa (- 8080)) ''PORT'' 1 = - 8080 \<and> env_get_int (\<lambda>_. itoa (2 ^ 63)) ''PORT'' 1 = 1"
  using env_numbers_read_back [of 1 "- 8080" "\<lambda>_. itoa (- 8080)" "''PORT''"]
    env_numbers_read_back [of 1 "2 ^ 63" "\<lambda>_. itoa (2 ^ 63)" "''PORT''"]
  by (simp add: int64_range_def)

text \<open>What a service name counts for: letters without case, and hyphen, dot and underscore alike.\<close>

definition key_char :: "char \<Rightarrow> char" where
  "key_char c = (if c \<in> {CHR ''-'', CHR ''.''} then CHR ''_'' else upper c)"

definition ascii :: "string \<Rightarrow> bool" where
  "ascii s \<longleftrightarrow> list_all (\<lambda>c. byte c < 128) s"

lemma s2s_env_var_ascii:
  assumes "\<And>s. ascii s \<Longrightarrow> to_upper s = map upper s" "ascii s"
  shows "s2s_env_var to_upper s = ''S2S_KEY_'' @ map key_char s"
proof -
  have u: "upper c = CHR ''-'' \<longleftrightarrow> c = CHR ''-''" "upper c = CHR ''.'' \<longleftrightarrow> c = CHR ''.''" for c
    by (auto simp: upper_def is_lower_def byte_def of_char_of dest!: arg_cong [where f = "of_char :: char \<Rightarrow> nat"])
  have "(if (if upper c = CHR ''-'' then CHR ''_'' else upper c) = CHR ''.'' then CHR ''_''
      else if upper c = CHR ''-'' then CHR ''_'' else upper c) = key_char c" for c
    using u [of c] by (auto simp: key_char_def)
  then show ?thesis by (simp add: s2s_env_var_def Let_def replace_byte_def assms)
qed

text \<open>Two services share their scoped key exactly if their names agree up to the case of letters and
  up to hyphens, dots and underscores, which all become underscores: \<open>catalog-bff\<close>, \<open>catalog.bff\<close>
  and \<open>CATALOG_BFF\<close> cannot have keys of their own. A key is empty only if both the scoped variable and
  the shared one are.\<close>

theorem scoped_keys_shared:
  assumes "\<And>s. ascii s \<Longrightarrow> to_upper s = map upper s" "ascii s" "ascii t"
  shows "(s2s_env_var to_upper s = s2s_env_var to_upper t \<longleftrightarrow> map key_char s = map key_char t) \<and>
    (map key_char s = map key_char t \<longrightarrow> get_s2s_key to_upper getenv s = get_s2s_key to_upper getenv t) \<and>
    (get_s2s_key to_upper getenv s = [] \<longleftrightarrow> getenv (s2s_env_var to_upper s) = [] \<and> getenv ''S2S_API_KEY'' = [])"
  using s2s_env_var_ascii [of to_upper, OF assms(1)] assms(2,3)
  by (auto simp: get_s2s_key_def Let_def)

theorem scoped_keys_shared_witness:
  "s2s_env_var (map upper) ''catalog-bff'' = s2s_env_var (map upper) ''catalog.bff''"
proof -
  have "ascii ''catalog-bff''" "ascii ''catalog.bff''" by (simp_all add: ascii_def byte_def)
  then show ?thesis
    using scoped_keys_shared [of "map upper" "''catalog-bff''" "''catalog.bff''"] by (simp add: key_char_def)
qed

end
