(* ===== verification/Logging.thy ===== *)
theory Logging
  imports Go_Value
begin

text \<open>
  Structured logs: the generic logger \<open>infrastructure/logging/canonical.go\<close> and the logger of security
  events, \<open>infrastructure/logging/security_logger.go\<close>, behind the port
  \<open>domain/port/security_event_logger.go\<close>.

  A line is the JSON object that is written, as a map from its keys; \<open>ts\<close> is the formatted time.
  Rendering it (\<open>encoding/json\<close>) and the writer are left out.
\<close>

section \<open>Security events\<close>

definition EventLoginSuccess :: string where "EventLoginSuccess = ''auth.login_success''"
definition EventLoginFailed :: string where "EventLoginFailed = ''auth.login_failed''"
definition EventLogout :: string where "EventLogout = ''auth.logout''"
definition EventTokenRevoked :: string where "EventTokenRevoked = ''auth.token_revoked''"
definition EventTenantMismatch :: string where "EventTenantMismatch = ''auth.tenant_mismatch''"

record security_event =
  se_event :: string
  se_user_id :: string
  se_tenant_id :: string
  se_email :: string
  se_ip_address :: string
  se_user_agent :: string
  se_reason :: string
  se_scope :: string
  se_jwt_tenant_id :: string
  se_header_tenant_id :: string

definition level_for :: "string \<Rightarrow> string" where
  "level_for e =
     (if e = EventLoginFailed then ''warn'' else if e = EventTenantMismatch then ''error'' else ''info'')"

text \<open>The struct of a line: each key with its value and whether an empty value is left out.\<close>

type_synonym canonical_line = "(string \<times> string \<times> bool) list"

definition canonical_line :: "string \<Rightarrow> string \<Rightarrow> security_event \<Rightarrow> canonical_line" where
  "canonical_line ts service ev =
     [(''ts'', ts, False),
      (''level'', level_for (se_event ev), False),
      (''service'', service, False),
      (''event'', se_event ev, False),
      (''user_id'', se_user_id ev, True),
      (''tenant_id'', se_tenant_id ev, True),
      (''email'', se_email ev, True),
      (''ip'', se_ip_address ev, True),
      (''user_agent'', se_user_agent ev, True),
      (''reason'', se_reason ev, True),
      (''scope'', se_scope ev, True),
      (''jwt_tenant_id'', se_jwt_tenant_id ev, True),
      (''header_tenant_id'', se_header_tenant_id ev, True)]"

text \<open>\<open>json.Marshal\<close> of such a struct, with \<open>omitempty\<close>.\<close>

definition marshal_line :: "canonical_line \<Rightarrow> string \<rightharpoonup> goval" where
  "marshal_line l =
     map_of (List.map_filter (\<lambda>(k, v, omit). if omit \<and> v = [] then None else Some (k, go_string v)) l)"

definition security_log :: "string \<Rightarrow> string \<Rightarrow> security_event \<Rightarrow> string \<rightharpoonup> goval" where
  "security_log ts service ev = marshal_line (canonical_line ts service ev)"

section \<open>The generic logger\<close>

text \<open>The keys that fields cannot override.\<close>

definition envelope :: "string list" where
  "envelope = [''ts'', ''level'', ''service'', ''event'']"

text \<open>The loop over the fields, in the order in which Go visits the map.\<close>

fun emit_loop :: "(string \<rightharpoonup> goval) \<Rightarrow> string list \<Rightarrow> (string \<rightharpoonup> goval) \<Rightarrow> string \<rightharpoonup> goval" where
  "emit_loop flds [] line = line"
| "emit_loop flds (k # keys) line =
     (case flds k of
        None \<Rightarrow> emit_loop flds keys line
      | Some v \<Rightarrow>
          if k \<in> set envelope then emit_loop flds keys line
          else if v = GNil \<or> v = go_string [] then emit_loop flds keys line
          else emit_loop flds keys (line(k \<mapsto> v)))"

definition emit ::
  "string \<Rightarrow> string \<Rightarrow> string list \<Rightarrow> string \<Rightarrow> string \<Rightarrow> (string \<rightharpoonup> goval) \<Rightarrow> string \<rightharpoonup> goval" where
  "emit ts service keys level event flds =
     emit_loop flds keys
       [''ts'' \<mapsto> go_string ts, ''level'' \<mapsto> go_string level, ''service'' \<mapsto> go_string service,
        ''event'' \<mapsto> go_string event]"

section \<open>What the lines say\<close>

lemma emit_loop_apply:
  "emit_loop flds keys line k =
     (if k \<in> set keys \<and> k \<notin> set envelope \<and> flds k \<notin> {None, Some GNil, Some (go_string [])}
      then flds k else line k)"
proof (induction flds keys line rule: emit_loop.induct)
  case (2 flds key keys line)
  then show ?case by (cases "flds key") (auto simp: fun_upd_def)
qed simp

text \<open>Whatever the fields of an event and in whatever order they are visited, the envelope of a line is
  the caller's: no field can override the time, the level, the service or the event. Every other
  field is written as it is, unless it is nil or empty, and nothing else is written.\<close>

theorem log_envelope_intact:
  assumes "set keys = dom flds"
  shows "emit ts service keys level event flds =
    (\<lambda>k. if k \<notin> set envelope \<and> flds k \<notin> {Some GNil, Some (go_string [])} then flds k else None) ++
    [''ts'' \<mapsto> go_string ts, ''level'' \<mapsto> go_string level, ''service'' \<mapsto> go_string service, ''event'' \<mapsto> go_string event]"
proof
  fix k
  show "emit ts service keys level event flds k =
    ((\<lambda>k. if k \<notin> set envelope \<and> flds k \<notin> {Some GNil, Some (go_string [])} then flds k else None) ++
      [''ts'' \<mapsto> go_string ts, ''level'' \<mapsto> go_string level, ''service'' \<mapsto> go_string service, ''event'' \<mapsto> go_string event]) k"
  proof (cases "k \<in> set envelope")
    case True
    then show ?thesis by (auto simp: emit_def emit_loop_apply map_add_def envelope_def)
  next
    case False
    then show ?thesis using assms by (auto simp: emit_def emit_loop_apply map_add_def envelope_def domIff)
  qed
qed

theorem log_envelope_intact_witness:
  "emit ''t'' ''iam'' [''level'', ''user_id''] ''info'' ''e'' [''level'' \<mapsto> go_string ''debug'', ''user_id'' \<mapsto> go_string ''u1''] ''level'' =
     Some (go_string ''info'')"
proof -
  let ?f = "[''level'' \<mapsto> go_string ''debug'', ''user_id'' \<mapsto> go_string ''u1'']"
  have "set [''level'', ''user_id''] = dom ?f" by auto
  from log_envelope_intact [OF this] show ?thesis by (simp add: map_add_def)
qed

text \<open>The fields of a security event under the names that the loggers share.\<close>

definition security_pairs :: "security_event \<Rightarrow> (string \<times> string) list" where
  "security_pairs ev =
     [(''user_id'', se_user_id ev), (''tenant_id'', se_tenant_id ev), (''email'', se_email ev),
      (''ip'', se_ip_address ev), (''user_agent'', se_user_agent ev), (''reason'', se_reason ev),
      (''scope'', se_scope ev), (''jwt_tenant_id'', se_jwt_tenant_id ev),
      (''header_tenant_id'', se_header_tenant_id ev)]"

definition security_fields :: "security_event \<Rightarrow> string \<rightharpoonup> goval" where
  "security_fields ev = map_of (map (\<lambda>(k, v). (k, go_string v)) (security_pairs ev))"

lemma security_pairs_keys: "distinct (map fst (security_pairs ev))" "set (map fst (security_pairs ev)) \<inter> set envelope = {}"
  by (simp_all add: security_pairs_def envelope_def)

lemma marshal_omitempty:
  assumes "distinct (map fst l)"
  shows "marshal_line (map (\<lambda>(k, v). (k, v, True)) l) k =
    (case map_of l k of None \<Rightarrow> None | Some v \<Rightarrow> if v = [] then None else Some (go_string v))"
  using assms
proof (induction l)
  case (Cons p l)
  obtain key v where p: "p = (key, v)" by fastforce
  have "map_of l key = None" using Cons.prems by (simp add: p map_of_eq_None_iff)
  then show ?case using Cons by (auto simp: p marshal_line_def map_filter_simps)
qed (simp add: marshal_line_def map_filter_simps)

text \<open>The two loggers write the same lines: a security event logged by \<open>SecurityLogger\<close> gives the same
  JSON object as the generic logger given its level, its name and its fields.\<close>

theorem loggers_agree:
  assumes "set keys = dom (security_fields ev)"
  shows "security_log ts service ev = emit ts service keys (level_for (se_event ev)) (se_event ev) (security_fields ev)"
proof
  fix k
  let ?env = "[(''ts'', ts, False), (''level'', level_for (se_event ev), False), (''service'', service, False),
    (''event'', se_event ev, False)]"
  have line: "canonical_line ts service ev = ?env @ map (\<lambda>(k, v). (k, v, True)) (security_pairs ev)"
    by (simp add: canonical_line_def security_pairs_def)
  have "security_log ts service ev =
      marshal_line (map (\<lambda>(k, v). (k, v, True)) (security_pairs ev)) ++
      map_of [(''ts'', go_string ts), (''level'', go_string (level_for (se_event ev))), (''service'', go_string service),
        (''event'', go_string (se_event ev))]"
    unfolding security_log_def line marshal_line_def by (simp add: map_filter_simps)
  moreover have "emit ts service keys (level_for (se_event ev)) (se_event ev) (security_fields ev) k =
      (marshal_line (map (\<lambda>(k, v). (k, v, True)) (security_pairs ev)) ++
      map_of [(''ts'', go_string ts), (''level'', go_string (level_for (se_event ev))), (''service'', go_string service),
        (''event'', go_string (se_event ev))]) k"
  proof (cases "k \<in> set envelope")
    case True
    then show ?thesis by (auto simp: emit_def emit_loop_apply map_add_def envelope_def)
  next
    case False
    then have "map_of [(''ts'', go_string ts), (''level'', go_string (level_for (se_event ev))), (''service'', go_string service),
        (''event'', go_string (se_event ev))] k = None"
      by (simp add: envelope_def)
    moreover have "security_fields ev k = map_option go_string (map_of (security_pairs ev) k)"
      by (simp add: security_fields_def map_of_map)
    ultimately show ?thesis
      using False assms
      by (auto simp: emit_def emit_loop_apply map_add_def marshal_omitempty [OF security_pairs_keys(1)] domIff envelope_def
          split: option.split)
  qed
  ultimately show "security_log ts service ev k =
      emit ts service keys (level_for (se_event ev)) (se_event ev) (security_fields ev) k"
    by simp
qed

theorem loggers_agree_witness:
  "let ev = \<lparr>se_event = EventLoginFailed, se_user_id = ''u1'', se_tenant_id = [], se_email = [], se_ip_address = ''10.0.0.1'',
               se_user_agent = [], se_reason = ''password'', se_scope = [], se_jwt_tenant_id = [], se_header_tenant_id = []\<rparr>
   in emit ''t'' ''iam'' (map fst (security_pairs ev)) ''warn'' EventLoginFailed (security_fields ev) = security_log ''t'' ''iam'' ev"
proof -
  let ?ev = "\<lparr>se_event = EventLoginFailed, se_user_id = ''u1'', se_tenant_id = [], se_email = [], se_ip_address = ''10.0.0.1'',
    se_user_agent = [], se_reason = ''password'', se_scope = [], se_jwt_tenant_id = [], se_header_tenant_id = []\<rparr>"
  have "set (map fst (security_pairs ?ev)) = dom (security_fields ?ev)"
    by (simp add: security_fields_def dom_map_of_conv_image_fst image_image case_prod_beta)
  from loggers_agree [OF this] show ?thesis by (simp add: level_for_def)
qed

end
