(* ===== verification/Notifications.thy ===== *)
theory Notifications
  imports Go_Value
begin

text \<open>
  Notifications: the port \<open>domain/port/notification_gateway.go\<close>, the gateway over HTTP,
  \<open>infrastructure/notifications/http_notification_gateway.go\<close>, and the one that sends nothing,
  \<open>infrastructure/notifications/noop_notification_gateway.go\<close>.

  The notifications service is not part of the repository: the reply to a request is an argument, as
  are the JSON encoding of the body and whether a URL can be parsed.
\<close>

section \<open>The port\<close>

record notification =
  nt_channel :: string
  nt_recipient :: string
  nt_subject :: string
  nt_template_id :: string
  nt_body :: string
  nt_data :: "string \<rightharpoonup> goval"
  nt_metadata :: "string \<rightharpoonup> string"

record notification_result =
  nr_message_id :: string
  nr_channel :: string
  nr_status :: string
  nr_err :: string

datatype gateway_error = MarshalFailed | BuildFailed | HTTPFailed | StatusFailed int | DecodeFailed

datatype send_result = Sent notification_result | SendFailed gateway_error | SendPanics

section \<open>The gateway over HTTP\<close>

record http_gateway =
  hg_base_url :: string
  hg_api_key :: string
  hg_timeout :: duration

definition new_http_gateway :: "string \<Rightarrow> string \<Rightarrow> duration \<Rightarrow> http_gateway" where
  "new_http_gateway base_url api_key timeout =
     \<lparr>hg_base_url = base_url, hg_api_key = api_key,
      hg_timeout = (if timeout = 0 then 10 * second else timeout)\<rparr>"

record gateway_request =
  gr_url :: string
  gr_headers :: "string \<rightharpoonup> string"
  gr_body :: string

text \<open>A reply: its status, and the results in its body (nil and empty alike), if it can be decoded.\<close>

record gateway_reply =
  gp_status :: int
  gp_results :: "notification_result list option"

record gateway_env =
  ge_marshal :: "notification list \<Rightarrow> string option"
  ge_url_ok :: "string \<Rightarrow> bool"
  ge_do :: "gateway_request \<Rightarrow> gateway_reply option"

definition batch_request :: "http_gateway \<Rightarrow> string \<Rightarrow> gateway_request" where
  "batch_request g body =
     (let headers = [''Content-Type'' \<mapsto> ''application/json''];
          headers = (if hg_api_key g \<noteq> [] then headers(''X-API-Key'' \<mapsto> hg_api_key g) else headers)
      in \<lparr>gr_url = hg_base_url g @ ''/v1/send-batch'', gr_headers = headers, gr_body = body\<rparr>)"

definition send_batch ::
  "gateway_env \<Rightarrow> http_gateway \<Rightarrow> notification list \<Rightarrow> gateway_error + notification_result list" where
  "send_batch env g notifications =
     (case ge_marshal env notifications of
        None \<Rightarrow> Inl MarshalFailed
      | Some body \<Rightarrow>
          if \<not> ge_url_ok env (hg_base_url g @ ''/v1/send-batch'') then Inl BuildFailed
          else case ge_do env (batch_request g body) of
                 None \<Rightarrow> Inl HTTPFailed
               | Some reply \<Rightarrow>
                   if gp_status reply \<ge> 400 then Inl (StatusFailed (gp_status reply))
                   else case gp_results reply of None \<Rightarrow> Inl DecodeFailed | Some results \<Rightarrow> Inr results)"

text \<open>\<open>Send\<close>: the first of the results; indexing an empty slice panics.\<close>

definition send :: "gateway_env \<Rightarrow> http_gateway \<Rightarrow> notification \<Rightarrow> send_result" where
  "send env g n =
     (case send_batch env g [n] of
        Inl e \<Rightarrow> SendFailed e
      | Inr [] \<Rightarrow> SendPanics
      | Inr (r # _) \<Rightarrow> Sent r)"

section \<open>The gateway that sends nothing\<close>

definition noop_result :: "notification \<Rightarrow> notification_result" where
  "noop_result n = \<lparr>nr_message_id = ''noop'', nr_channel = nt_channel n, nr_status = ''queued'', nr_err = []\<rparr>"

definition noop_send :: "notification \<Rightarrow> send_result" where
  "noop_send n = Sent (noop_result n)"

definition noop_send_batch :: "notification list \<Rightarrow> gateway_error + notification_result list" where
  "noop_send_batch notifications = Inr (map noop_result notifications)"

section \<open>What a sender relies on\<close>

text \<open>The port promises a result for every notification; a caller that takes the first then has one.\<close>

locale notification_gateway =
  fixes batch :: "notification list \<Rightarrow> gateway_error + notification_result list"
  assumes one_result_each: "batch ns = Inr rs \<Longrightarrow> length rs = length ns"
begin

lemma single_result: "batch [n] = Inr rs \<Longrightarrow> \<exists>r. rs = [r]"
  using one_result_each [of "[n]" rs] by (cases rs) auto

end

interpretation noop: notification_gateway noop_send_batch
  by unfold_locales (auto simp: noop_send_batch_def)

text \<open>\<open>Send\<close> returns a result or an error only because the service sends one result per notification:
  it panics exactly if the service replies with a status below 400 and an empty list of results (or
  none), and never if the service keeps to one result each. The gateway that sends nothing does.\<close>

theorem send_needs_a_result:
  shows "(send env g n = SendPanics \<longleftrightarrow>
      (\<exists>body reply. ge_marshal env [n] = Some body \<and> ge_url_ok env (hg_base_url g @ ''/v1/send-batch'') \<and>
         ge_do env (batch_request g body) = Some reply \<and> gp_status reply < 400 \<and> gp_results reply = Some [])) \<and>
    (notification_gateway (send_batch env g) \<longrightarrow> send env g n \<noteq> SendPanics) \<and>
    (\<exists>rs. noop_send_batch [n] = Inr rs \<and> rs = [noop_result n] \<and> noop_send n = Sent (noop_result n))"
proof -
  have "send env g n \<noteq> SendPanics" if "notification_gateway (send_batch env g)"
  proof (cases "send_batch env g [n]")
    case (Inr rs)
    from notification_gateway.single_result [OF that Inr] obtain r where "rs = [r]" by blast
    then show ?thesis using Inr by (simp add: send_def)
  qed (simp add: send_def)
  moreover have "send env g n = SendPanics \<longleftrightarrow> send_batch env g [n] = Inr []"
    by (auto simp: send_def split: sum.splits list.splits)
  moreover have "send_batch env g [n] = Inr [] \<longleftrightarrow>
      (\<exists>body reply. ge_marshal env [n] = Some body \<and> ge_url_ok env (hg_base_url g @ ''/v1/send-batch'') \<and>
         ge_do env (batch_request g body) = Some reply \<and> gp_status reply < 400 \<and> gp_results reply = Some [])"
    by (auto simp: send_batch_def split: option.splits)
  ultimately show ?thesis by (simp add: noop_send_def noop_send_batch_def)
qed

definition demo_notification :: notification where
  "demo_notification =
     \<lparr>nt_channel = ''email'', nt_recipient = ''a@b'', nt_subject = [], nt_template_id = [], nt_body = ''hi'',
      nt_data = Map.empty, nt_metadata = Map.empty\<rparr>"

definition empty_service :: "gateway_env" where
  "empty_service =
     \<lparr>ge_marshal = (\<lambda>_. Some ''{}''), ge_url_ok = (\<lambda>_. True),
      ge_do = (\<lambda>_. Some \<lparr>gp_status = 200, gp_results = Some []\<rparr>)\<rparr>"

theorem send_needs_a_result_witness:
  "send empty_service (new_http_gateway ''http://n'' ''k'' 0) demo_notification = SendPanics"
  using send_needs_a_result [of empty_service "new_http_gateway ''http://n'' ''k'' 0" demo_notification]
  by (simp add: empty_service_def)

end
