(* ===== verification/Compression.thy ===== *)
theory Compression
  imports Gzip Middleware
begin

text \<open>
  What a client receives through the compressing writer of \<open>infrastructure/middleware/gzip.go\<close>
  (\<open>gzipWriter\<close>): the writers that the middlewares of a chain put around the one of gin, what the
  handlers write through them, and the deferred calls of \<open>Close\<close> when the chain returns.

  \<open>compress/gzip\<close> is the standard library's; \<open>compress\<close> stands for the bytes that a \<open>gzip.Writer\<close>
  has put into the writer below it once it is closed, a function of all that was written to it.
\<close>

section \<open>The writer\<close>

text \<open>
  The writer of gin with the body so far, or a \<open>gzipWriter\<close>: the embedded \<open>gin.ResponseWriter\<close>,
  which is also the one below its \<open>gzip.Writer\<close>, and what that one has been given.
\<close>

datatype response_writer =
    GinWriter string
  | GzipWriter response_writer string

fun gw_write :: "string \<Rightarrow> response_writer \<Rightarrow> response_writer" where
  "gw_write data (GinWriter body) = GinWriter (body @ data)"
| "gw_write data (GzipWriter w pending) = GzipWriter w (pending @ data)"

definition gw_write_string :: "string \<Rightarrow> response_writer \<Rightarrow> response_writer" where
  "gw_write_string s w = gw_write s w"

text \<open>\<open>Close\<close> ends the compressed stream; the writer below is the one that the chain goes on with.\<close>

fun gw_close :: "(string \<Rightarrow> string) \<Rightarrow> response_writer \<Rightarrow> response_writer" where
  "gw_close compress (GinWriter body) = GinWriter body"
| "gw_close compress (GzipWriter w pending) = gw_write (compress pending) w"

definition new_gzip_writer :: "response_writer \<Rightarrow> response_writer" where
  "new_gzip_writer w = GzipWriter w []"

fun gin_body :: "response_writer \<Rightarrow> string" where
  "gin_body (GinWriter body) = body"
| "gin_body (GzipWriter w pending) = gin_body w"

section \<open>A request through a chain\<close>

text \<open>
  The middlewares wrap the writer (\<open>gc_gzip_writers\<close> times), the handler at the end of the chain,
  or the one that aborts it, writes its chunks, and the deferred calls close the writers from the
  innermost outwards. The body of a status that has none (204, 304) or of a HEAD request is not
  modelled, nor is a \<open>Content-Length\<close> that a handler sets itself before it writes, which the middlewares
  leave in place: \<open>respond\<close> gives the bytes that the writers produce.
\<close>

definition respond ::
  "(string \<Rightarrow> string) \<Rightarrow> gin_handler list \<Rightarrow> (gin_ctx \<Rightarrow> string list) \<Rightarrow> request \<Rightarrow>
   (string \<rightharpoonup> string) \<times> string" where
  "respond compress hs written rq =
     (let c = run_chain hs (fresh_ctx rq); n = gc_gzip_writers c;
          w = fold gw_write (written c) ((new_gzip_writer ^^ n) (GinWriter []))
      in (gc_headers c, gin_body ((gw_close compress ^^ n) w)))"

text \<open>A client undoes the compression that the headers announce.\<close>

definition client_body :: "(string \<Rightarrow> string option) \<Rightarrow> (string \<rightharpoonup> string) \<times> string \<Rightarrow> string option" where
  "client_body gunzip reply =
     (if fst reply ''Content-Encoding'' = Some ''gzip'' then gunzip (snd reply) else Some (snd reply))"

section \<open>What arrives\<close>

lemma fold_write_gin: "fold gw_write chunks (GinWriter body) = GinWriter (body @ concat chunks)"
  by (induction chunks arbitrary: body) auto

lemma fold_write_gzip:
  "fold gw_write chunks (GzipWriter w pending) = GzipWriter w (pending @ concat chunks)"
  by (induction chunks arbitrary: pending) auto

lemma write_wrapped:
  "gw_write data ((new_gzip_writer ^^ n) (GinWriter [])) =
   fold gw_write [data] ((new_gzip_writer ^^ n) (GinWriter []))"
  by simp

text \<open>Each layer compresses what reaches it.\<close>

lemma close_layers:
  "gin_body ((gw_close compress ^^ n) (fold gw_write chunks ((new_gzip_writer ^^ n) (GinWriter [])))) =
   (compress ^^ n) (concat chunks)"
proof (induction n arbitrary: chunks)
  case 0
  then show ?case by (simp add: fold_write_gin)
next
  case (Suc n)
  have "gw_close compress (fold gw_write chunks ((new_gzip_writer ^^ Suc n) (GinWriter []))) =
      fold gw_write [compress (concat chunks)] ((new_gzip_writer ^^ n) (GinWriter []))"
    by (simp add: new_gzip_writer_def fold_write_gzip)
  with Suc [of "[compress (concat chunks)]"] show ?case
    by (simp add: funpow_swap1 del: fold_simps)
qed

lemma respond_eq:
  "respond compress hs written rq =
     (let c = run_chain hs (fresh_ctx rq)
      in (gc_headers c, (compress ^^ gc_gzip_writers c) (concat (written c))))"
  by (simp add: respond_def close_layers Let_def)

text \<open>Handlers that compress nothing and label nothing, as all others of the repository.\<close>

definition leaves_encoding :: "gin_handler \<Rightarrow> bool" where
  "leaves_encoding h \<longleftrightarrow>
     (\<forall>c. gc_gzip_writers (h c) = gc_gzip_writers c \<and>
          gc_headers (h c) ''Content-Encoding'' = gc_headers c ''Content-Encoding'')"

lemma run_chain_leaves_encoding:
  "(\<And>h. h \<in> set hs \<Longrightarrow> leaves_encoding h) \<Longrightarrow>
   gc_gzip_writers (run_chain hs c) = gc_gzip_writers c \<and>
   gc_headers (run_chain hs c) ''Content-Encoding'' = gc_headers c ''Content-Encoding''"
  by (induction hs arbitrary: c) (auto simp: leaves_encoding_def Let_def)

lemma leaves_encoding_abort: "leaves_encoding (ctx_abort code body)"
  by (simp add: leaves_encoding_def ctx_abort_def)

lemma require_role_leaves_encoding: "leaves_encoding (require_role allowed)"
  by (auto simp: leaves_encoding_def require_role_def ctx_abort_def split: option.split)

lemma require_permission_leaves_encoding: "leaves_encoding (require_permission allowed)"
  by (auto simp: leaves_encoding_def require_permission_def ctx_abort_def Let_def split: option.split)

lemma tenant_validation_leaves_encoding: "leaves_encoding (tenant_validation_handler L now ring cfg)"
  by (auto simp: leaves_encoding_def tenant_validation_handler_def ctx_defs call_if_def Let_def
      split: option.splits sum.splits)

lemma shared_chain:
  "run_chain (rt_handlers (setup_shared_middleware \<lparr>rt_handlers = [], rt_groups = []\<rparr> config) @ hs) c =
   (let compress = (sc_enable_gzip config \<and> rq_path (gc_request c) \<notin> set (sc_gzip_excluded_paths config) \<and>
          accepts_gzip (gc_request c))
    in run_chain hs (if compress then wrap_gzip c else c))"
  if "gc_abort c = None"
  using that by (auto simp: setup_shared_middleware_def router_use_def gzip_middleware_def gzip_reader_def Let_def)

text \<open>C35: Compression loses nothing. On a router with the shared middlewares, whatever their
  configuration, whatever the handlers behind them do to the context (as long as they leave the
  writer and its label alone, as the others of the repository do), whether they answer or abort: what
  a client reads after undoing the compression that the response announces is exactly what was
  written, in order, for responses that have a body and no \<open>Content-Length\<close> set by a handler. A client that does not ask for gzip gets those bytes as they are.\<close>

theorem shared_compression_lossless:
  assumes "\<And>s. gunzip (compress s) = Some s" "\<And>h. h \<in> set hs \<Longrightarrow> leaves_encoding h"
  shows "let r = setup_shared_middleware \<lparr>rt_handlers = [], rt_groups = []\<rparr> config;
             reply = respond compress (rt_handlers r @ hs) written rq;
             c = run_chain (rt_handlers r @ hs) (fresh_ctx rq)
    in client_body gunzip reply = Some (concat (written c)) \<and>
       (\<not> accepts_gzip rq \<longrightarrow> snd reply = concat (written c) \<and> fst reply ''Content-Encoding'' = None)"
proof -
  have fresh: "gc_abort (fresh_ctx rq) = None" "gc_request (fresh_ctx rq) = rq"
    "gc_gzip_writers (fresh_ctx rq) = 0" "gc_headers (fresh_ctx rq) ''Content-Encoding'' = None"
    by (simp_all add: fresh_ctx_def)
  show ?thesis
    using run_chain_leaves_encoding [of hs "wrap_gzip (fresh_ctx rq)", OF assms(2)]
      run_chain_leaves_encoding [of hs "fresh_ctx rq", OF assms(2)]
    by (simp add: Let_def shared_chain [OF fresh(1)] respond_eq client_body_def fresh assms(1) gzip_encoding_def)
qed

text \<open>The set-up that \<open>example_specific_route.go\<close> documents compresses twice: on a route of a group
  with \<open>ForceGzipMiddleware\<close> below the global \<open>GzipMiddleware\<close>, a client that accepts gzip gets a
  body compressed twice under one label, and reads the compressed form of the body instead of the
  body.\<close>

theorem documented_setup_compresses_twice:
  assumes "accepts_gzip rq" "\<And>s. gunzip (compress s) = Some s"
  shows "client_body gunzip (respond compress [gzip_middleware [], force_gzip_middleware options] written rq) =
    Some (compress (concat (written (run_chain [gzip_middleware [], force_gzip_middleware options] (fresh_ctx rq)))))"
  using assms
  by (cases options) (simp_all add: respond_eq client_body_def gzip_middleware_def force_gzip_middleware_def
      default_gzip_options_def fresh_ctx_def wrap_gzip_def ctx_header_def gzip_encoding_def Let_def)

section \<open>Witnesses\<close>

definition toy_gunzip :: "string \<Rightarrow> string option" where
  "toy_gunzip s = (case s of c # cs \<Rightarrow> if c = CHR 0x1F then Some cs else None | [] \<Rightarrow> None)"

abbreviation gzip_request :: request where
  "gzip_request \<equiv> \<lparr>rq_headers = [''Accept-Encoding'' \<mapsto> [''gzip, br'']], rq_path = ''/api'', rq_full_path = ''/api'',
     rq_client_ip = []\<rparr>"

theorem shared_compression_lossless_witness:
  "client_body toy_gunzip (respond ((#) (CHR 0x1F))
      (rt_handlers (setup_shared_middleware \<lparr>rt_handlers = [], rt_groups = []\<rparr> default_shared_config) @
        [require_role [''admin'']]) (\<lambda>c. [''Forb'', ''idden'']) gzip_request) = Some ''Forbidden''"
  using shared_compression_lossless [of toy_gunzip "(#) (CHR 0x1F)" "[require_role [''admin'']]"
      default_shared_config "\<lambda>c. [''Forb'', ''idden'']" gzip_request]
  by (simp add: toy_gunzip_def require_role_leaves_encoding Let_def)

theorem documented_setup_compresses_twice_witness:
  "client_body toy_gunzip (respond ((#) (CHR 0x1F)) [gzip_middleware [], force_gzip_middleware []]
     (\<lambda>c. [''data'']) gzip_request) = Some (CHR 0x1F # ''data'')"
proof -
  have "accepts_gzip gzip_request"
    by (simp add: accepts_gzip_def header_get_def gzip_encoding_def, code_simp)
  from documented_setup_compresses_twice [OF this, of toy_gunzip "(#) (CHR 0x1F)" "[]" "\<lambda>c. [''data'']"]
  show ?thesis by (simp add: toy_gunzip_def)
qed

end
