(* ===== verification/Service_Call.thy ===== *)
theory Service_Call
  imports Adapters S2S_Transport
begin

text \<open>
  A call from one service to another, both ends of the repository put together: the client's
  transport (\<open>s2stoken/client\<close>) sends a request, with its token in the header that it sets, to a
  handler behind \<open>s2stoken/s2shttp\<close>, and reacts to the status it gets.
\<close>

section \<open>The receiver as the other end of a transport\<close>

text \<open>The request as the transport sends it: with the token, or as it is on a redirection.\<close>

definition with_token :: "request \<Rightarrow> string option \<Rightarrow> request" where
  "with_token rq tok =
     (case tok of
        None \<Rightarrow> rq
      | Some t \<Rightarrow> rq\<lparr>rq_headers := (rq_headers rq)(canonical_key HeaderServiceToken \<mapsto> [t])\<rparr>)"

text \<open>The \<open>n\<close>th send of a round trip arrives at \<open>arrives n\<close>; the receiver has no legacy credential.\<close>

definition receiver_status ::
  "'c jwt_lib \<Rightarrow> (string \<Rightarrow> string option) \<Rightarrow> (nat \<Rightarrow> time) \<Rightarrow> receiver_config \<Rightarrow> http_handler \<Rightarrow> request \<Rightarrow>
   nat \<Rightarrow> string option \<Rightarrow> int option" where
  "receiver_status L uuid arrives cfg inner rq n tok =
     Some (re_status (s2shttp_serve L uuid (arrives n) cfg None inner
                        \<lparr>hq_request = with_token rq tok, hq_result = None\<rparr>))"

text \<open>What the receiver hands to the handler behind it, if it does.\<close>

definition handed_on ::
  "'c jwt_lib \<Rightarrow> (string \<Rightarrow> string option) \<Rightarrow> (nat \<Rightarrow> time) \<Rightarrow> receiver_config \<Rightarrow> request \<Rightarrow>
   nat \<Rightarrow> string option \<Rightarrow> http_request option" where
  "handed_on L uuid arrives cfg rq n tok =
     (case (rq_headers (with_token rq tok) (canonical_key HeaderServiceToken),
            single_header (rq_headers rq) ''Authorization'', single_header (rq_headers rq) HeaderTenantID) of
        (Some [t], Some auth, Some th) \<Rightarrow>
          (case authenticate L uuid (arrives n) cfg t auth th of
             (Inr res, es) \<Rightarrow> Some \<lparr>hq_request = with_token rq tok, hq_result = Some res\<rparr>
           | _ \<Rightarrow> None)
      | _ \<Rightarrow> None)"

lemma other_headers:
  "canonical_key ''Authorization'' \<noteq> canonical_key HeaderServiceToken"
  "canonical_key HeaderTenantID \<noteq> canonical_key HeaderServiceToken"
  by (simp_all add: HeaderServiceToken_def HeaderTenantID_def canonical_key_def header_byte_def
      case_defs is_digit_def byte_def)

lemma single_header_with_token [simp]:
  "single_header (rq_headers (with_token rq tok)) ''Authorization'' = single_header (rq_headers rq) ''Authorization''"
  "single_header (rq_headers (with_token rq tok)) HeaderTenantID = single_header (rq_headers rq) HeaderTenantID"
  using other_headers by (simp_all add: with_token_def single_header_def split: option.split)

text \<open>The handler's status is the answer, or the receiver refuses with 401 or 403.\<close>

lemma status_handed_on:
  assumes "handed_on L uuid arrives cfg rq n tok = Some q"
  shows "receiver_status L uuid arrives cfg inner rq n tok = Some (re_status (inner q))"
  using assms
  by (auto simp: handed_on_def receiver_status_def s2shttp_serve_def add_log_def Let_def
      split: option.splits prod.splits sum.splits list.splits)

lemma status_refused:
  assumes "handed_on L uuid arrives cfg rq n tok = None"
  shows "receiver_status L uuid arrives cfg inner rq n tok \<in> {Some 401, Some 403}"
proof -
  have code: "status_code (Some e) = 401 \<or> status_code (Some e) = 403" for e by (cases e) auto
  have one: "length vs = Suc 0 \<longleftrightarrow> (\<exists>t. vs = [t])" for vs :: "string list"
    by (auto simp: length_Suc_conv)
  show ?thesis
    using assms code
    by (auto simp: handed_on_def receiver_status_def s2shttp_serve_def write_error_def one Let_def
        split: option.splits prod.splits sum.splits list.splits)
qed

section \<open>At most once\<close>

text \<open>The sends of a round trip that reach the handler, each with what it is given.\<close>

definition deliveries ::
  "'c jwt_lib \<Rightarrow> (string \<Rightarrow> string option) \<Rightarrow> (nat \<Rightarrow> time) \<Rightarrow> receiver_config \<Rightarrow> request \<Rightarrow> sends \<Rightarrow>
   http_request list" where
  "deliveries L uuid arrives cfg rq sends =
     List.map_filter (\<lambda>(n, host, tok). handed_on L uuid arrives cfg rq n tok) (enumerate 0 sends)"

text \<open>C15: A request is handled at most once. The transport may send it twice, but the second send follows
  a 401, and the receiver gives that before its handler runs: as long as the handler itself never
  answers 401, it runs for at most one of the sends, and the status that the caller gets is its
  answer, or, if it did not run, a refusal with 401 or 403.\<close>

theorem handled_at_most_once:
  assumes "round_trip equal_fold (receiver_status L uuid arrives cfg inner rq)
      env ctx_done now env' ctx_done' now' t out c = (result, c', sends, calls)"
    and "\<And>q. re_status (inner q) \<noteq> 401"
  shows "case deliveries L uuid arrives cfg rq sends of
      [] \<Rightarrow> \<forall>status. result = Inr status \<longrightarrow> status \<in> {401, 403}
    | [q] \<Rightarrow> result = Inr (re_status (inner q))
    | _ \<Rightarrow> False"
proof -
  let ?base = "receiver_status L uuid arrives cfg inner rq"
  let ?on = "handed_on L uuid arrives cfg rq"
  have ans: "?base n tok = (case ?on n tok of Some q \<Rightarrow> Some (re_status (inner q)) | None \<Rightarrow> ?base n tok)" for n tok
    by (cases "?on n tok") (simp_all add: status_handed_on)
  have refused: "?on n tok = None \<Longrightarrow> ?base n tok = Some 401 \<or> ?base n tok = Some 403" for n tok
    using status_refused [of L uuid arrives cfg rq n tok inner] by blast
  have no_401: "?base n tok = Some 401 \<Longrightarrow> ?on n tok = None" for n tok
    using assms(2) by (cases "?on n tok") (auto simp: status_handed_on)
  consider "sends = []" "\<And>st. result \<noteq> Inr st"
    | tok where "sends = [(or_host out, tok)]" "result = delivered (?base 0 tok)"
    | tok fresh where "sends = [(or_host out, Some tok), (or_host out, Some fresh)]"
        "?base 0 (Some tok) = Some 401" "result = delivered (?base 1 (Some fresh))"
    using assms(1) unfolding round_trip_def Let_def
    by (auto split: if_splits prod.splits sum.splits option.splits)
  then show ?thesis
  proof cases
    case 1
    then show ?thesis by (simp add: deliveries_def List.map_filter_def)
  next
    case (2 tok)
    then show ?thesis
      using refused [of 0 tok]
      by (cases "?on 0 tok") (auto simp: deliveries_def List.map_filter_def delivered_def status_handed_on)
  next
    case (3 tok fresh)
    with no_401 have "?on 0 (Some tok) = None" by blast
    with 3 show ?thesis
      using refused [of 1 "Some fresh"]
      by (cases "?on 1 (Some fresh)") (auto simp: deliveries_def List.map_filter_def delivered_def status_handed_on)
  qed
qed

section \<open>A rejected token is replaced\<close>

lemma token_cached:
  assumes "trim_space aud \<noteq> []" "normalize_scope ss \<noteq> []"
    and "en_token (entry_of c (entry_key aud (normalize_scope ss))) = tok" "tok \<noteq> []"
    and "now < en_renew_at (entry_of c (entry_key aud (normalize_scope ss)))"
  shows "token env ctx_done aud ss now c =
    (Inr tok, client_entry (entry_key aud (normalize_scope ss)) c, [])"
  using assms by (simp add: token_def obtain_locked_def obtain_start_eq Let_def)

lemma cl_kid_simps [simp]:
  "cl_kid (put_entry k e c) = cl_kid c" "cl_kid (put_breaker a b c) = cl_kid c"
  "cl_kid (client_entry k c) = cl_kid c"
  by (simp_all add: put_entry_def put_breaker_def client_entry_def)

text \<open>With a closed circuit and an iam that answers, \<open>Refresh\<close> of an old enough token stores a new one.\<close>

lemma refresh_reissues:
  assumes "trim_space aud \<noteq> []" "normalize_scope ss \<noteq> []"
    and "e = entry_of c (entry_key aud (normalize_scope ss))" "en_token e = sent"
    and "MinReissueAge \<le> time_sub now (en_issued_at e)" "en_last_err e = None" "0 \<le> now"
    and "fst (allow aud now c)" "issue env c aud (normalize_scope ss) now = Inr (fresh, ttl)" "fresh \<noteq> sent"
  obtains c' where "refresh env False sent aud ss now c = (Inr (Some fresh), c', [(aud, normalize_scope ss)])"
    "en_token (entry_of c' (entry_key aud (normalize_scope ss))) = fresh"
    "en_renew_at (entry_of c' (entry_key aud (normalize_scope ss))) = now + ttl - cc_renew_before (cl_cfg c)"
proof -
  let ?key = "entry_key aud (normalize_scope ss)"
  let ?c1 = "put_entry ?key (e\<lparr>en_renew_at := zero_time\<rparr>) (client_entry ?key c)"
  let ?c2 = "put_breaker aud (breaker_for c aud) ?c1"
  have allow: "allow aud now ?c1 = (True, ?c2)"
    using assms(8) by (simp add: allow_eq)
  have zero_le: "\<not> now < zero_time" using assms(7) by (simp add: zero_time_def)
  have start: "obtain_start aud (normalize_scope ss) now ?c1 =
      (NeedIssue (sent \<noteq> [] \<and> now < en_expires_at e), ?c2)"
    using assms(4,6) zero_le by (simp add: obtain_start_eq allow)
  have iam: "issue env ?c2 aud (normalize_scope ss) now = Inr (fresh, ttl)"
    using assms(9) by (simp cong: issue_cong add: issue_cong [of ?c2 c])
  obtain c' where store: "issue_and_store env aud (normalize_scope ss) now (sent \<noteq> [] \<and> now < en_expires_at e) ?c2 =
      (Inr fresh, c')"
    "en_token (entry_of c' ?key) = fresh"
    "en_renew_at (entry_of c' ?key) = now + ttl - cc_renew_before (cl_cfg c)"
    by (simp add: issue_and_store_def iam Let_def)
  have "refresh env False sent aud ss now c = (Inr (Some fresh), c', [(aud, normalize_scope ss)])"
    using assms(1-5,10) by (simp add: refresh_def Let_def obtain_locked_def start [unfolded assms(3)] store(1) [unfolded assms(3)])
  with store that show thesis by blast
qed

text \<open>C16: A receiver that stops accepting a token, because its keys were changed or its clock is ahead,
  does not stop the calls. When a cached token is rejected with 401, the request can be sent again
  and the token is at least 30 seconds old, then as long as iam answers with a token that the
  receiver accepts, this very call succeeds with the second send, one request to iam, and the
  calls after it use the new token at once.\<close>

theorem rejected_token_replaced:
  assumes "round_trip equal_fold (receiver_status L uuid arrives cfg inner rq) env False now env' False now' t out c =
      (result, c', sends, calls)"
    and "\<not> or_redirect out" "tp_host t = [] \<or> equal_fold (or_host out) (trim_space (tp_host t))"
    and "or_get_body out = Some True \<or> \<not> or_body out \<and> or_get_body out = None"
    and "trim_space (tp_audience t) \<noteq> []" "normalize_scope (tp_scopes t) \<noteq> []"
    and "e = entry_of c (entry_key (tp_audience t) (normalize_scope (tp_scopes t)))"
    and "en_token e = old" "old \<noteq> []" "now < en_renew_at e" "en_last_err e = None"
    and "MinReissueAge \<le> time_sub now' (en_issued_at e)" "0 \<le> now'"
    and "receiver_status L uuid arrives cfg inner rq 0 (Some old) = Some 401"
    and "fst (allow (tp_audience t) now' c)"
    and "issue env' c (tp_audience t) (normalize_scope (tp_scopes t)) now' = Inr (fresh, ttl)" "fresh \<noteq> old"
    and "handed_on L uuid arrives cfg rq 1 (Some fresh) = Some q"
  shows "result = Inr (re_status (inner q)) \<and>
    sends = [(or_host out, Some old), (or_host out, Some fresh)] \<and>
    calls = [(tp_audience t, normalize_scope (tp_scopes t))] \<and>
    (\<forall>u < now' + ttl - cc_renew_before (cl_cfg c).
       fst (token env'' ctx_done (tp_audience t) (tp_scopes t) u c') = Inr fresh \<and>
       snd (snd (token env'' ctx_done (tp_audience t) (tp_scopes t) u c')) = [])"
proof -
  let ?key = "entry_key (tp_audience t) (normalize_scope (tp_scopes t))"
  have first: "token env False (tp_audience t) (tp_scopes t) now c = (Inr old, client_entry ?key c, [])"
    using assms(5-10) by (intro token_cached) auto
  have "fst (allow (tp_audience t) now' (client_entry ?key c))"
    using assms(15) by (simp add: allow_eq)
  moreover have "issue env' (client_entry ?key c) (tp_audience t) (normalize_scope (tp_scopes t)) now' = Inr (fresh, ttl)"
    using assms(16) by (simp add: issue_cong [of "client_entry ?key c" c])
  ultimately obtain c2 where second:
      "refresh env' False old (tp_audience t) (tp_scopes t) now' (client_entry ?key c) =
         (Inr (Some fresh), c2, [(tp_audience t, normalize_scope (tp_scopes t))])"
      "en_token (entry_of c2 ?key) = fresh"
      "en_renew_at (entry_of c2 ?key) = now' + ttl - cc_renew_before (cl_cfg c)"
    using assms(5-8,11-13,17)
    by (elim refresh_reissues [of "tp_audience t" "tp_scopes t" e "client_entry ?key c" old now', rotated 8]) auto
  have "result = Inr (re_status (inner q))" "c' = c2"
    "sends = [(or_host out, Some old), (or_host out, Some fresh)]"
    "calls = [(tp_audience t, normalize_scope (tp_scopes t))]"
    using assms(1-4,14) status_handed_on [OF assms(18)]
    by (auto simp: round_trip_def first second delivered_def Let_def split: if_splits)
  moreover have "fresh \<noteq> []" using issue_Inr [OF assms(16)] by simp
  ultimately show ?thesis
    using second(2,3) token_cached [OF assms(5,6) second(2)] by auto
qed

section \<open>Witnesses\<close>

text \<open>A receiver of system tokens that cannot read the token \<open>old\<close> any more.\<close>

definition rotated_lib :: "unit jwt_lib" where
  "rotated_lib =
     reference_lib (\<lambda>_. sample_header TokenType) (\<lambda>_. Some sample_user)
       (\<lambda>tok. if tok = ''old'' then None else Some (sample_claims TenantScopeSystem)) (\<lambda>k tok. k = sample_key)"

definition global_receiver :: receiver_config where
  "global_receiver =
     \<lparr> rc_service = sample_cfg [''stock:read''], rc_allow_user = False, rc_system = SystemGlobal,
       rc_system_only_scopes = [], rc_user_namespace = [], rc_deny_sub = \<lparr>dl_subs = [], dl_invalid = False\<rparr> \<rparr>"

definition plain_request :: request where
  "plain_request = \<lparr>rq_headers = Map.empty, rq_path = ''/stock'', rq_full_path = ''/stock'', rq_client_ip = []\<rparr>"

definition ok_handler :: http_handler where
  "ok_handler q = \<lparr>re_status = 200, re_content_type = ''text/plain'', re_body = ''ok'', re_log = []\<rparr>"

definition stock_transport :: transport where
  "stock_transport = \<lparr>tp_audience = ''stock'', tp_scopes = [''stock:read''], tp_host = ''stock:8080''\<rparr>"

definition stock_request :: out_request where
  "stock_request = \<lparr>or_redirect = False, or_host = ''stock:8080'', or_body = False, or_get_body = None\<rparr>"

definition caching_client :: client where
  "caching_client = put_entry (entry_key ''stock'' ''stock:read'')
     \<lparr> en_token = ''old'', en_issued_at = sample_now - 60 * second, en_renew_at = sample_now + 180 * second,
       en_expires_at = sample_now + 240 * second, en_last_err = None, en_retry_at = zero_time \<rparr> sample_client"

lemma rotated_verify:
  "verify rotated_lib sample_now ''tok'' (sample_cfg [''stock:read'']) = Inr (sample_principal TenantScopeSystem)"
  "\<exists>e. verify rotated_lib sample_now ''old'' (sample_cfg [''stock:read'']) = Inl (ErrUnauthenticated e)"
  using sample_authenticates [of TenantScopeSystem 0 "[''stock:read'']" "''tok''"]
    verify_cases [OF reference_lib_contract, where now = sample_now and tok = "''tok''"
      and cfg = "sample_cfg [''stock:read'']" and hd_of = "\<lambda>_. sample_header TokenType"
      and svc_of = "\<lambda>tok. if tok = ''old'' then None else Some (sample_claims TenantScopeSystem)"
      and verifies = "\<lambda>k tok. k = sample_key" and payload = "\<lambda>_. Some sample_user"]
    verify_cases [OF reference_lib_contract, where now = sample_now and tok = "''old''"
      and cfg = "sample_cfg [''stock:read'']" and hd_of = "\<lambda>_. sample_header TokenType"
      and svc_of = "\<lambda>tok. if tok = ''old'' then None else Some (sample_claims TenantScopeSystem)"
      and verifies = "\<lambda>k tok. k = sample_key" and payload = "\<lambda>_. Some sample_user"]
  by (auto simp: rotated_lib_def [symmetric] sample_authorized sample_principal_def second_def
      split: sum.splits s2s_error.splits) (simp_all add: sample_claims_def)

lemma rotated_authenticate:
  "\<exists>r es. authenticate rotated_lib uuid sample_now global_receiver ''tok'' [] [] = (Inr r, es)"
  "\<exists>e es. authenticate rotated_lib uuid sample_now global_receiver ''old'' [] [] = (Inl (ErrUnauthenticated e), es)"
proof -
  have p: "pr_tenant_scope (sample_principal TenantScopeSystem) = TenantScopeSystem"
    by (simp add: sample_principal_def principal_of_def sample_claims_def)
  have g: "rc_service global_receiver = sample_cfg [''stock:read'']" "rc_system global_receiver = SystemGlobal"
    "rc_deny_sub global_receiver = \<lparr>dl_subs = [], dl_invalid = False\<rparr>"
    by (simp_all add: global_receiver_def)
  have t: "trim_space ''tok'' \<noteq> []" "trim_space ''old'' \<noteq> []" by (simp_all add: graphic_def byte_def)
  show "\<exists>r es. authenticate rotated_lib uuid sample_now global_receiver ''tok'' [] [] = (Inr r, es)"
    by (simp add: authenticate_def g t rotated_verify(1) denies_def p authenticate_system_def)
  show "\<exists>e es. authenticate rotated_lib uuid sample_now global_receiver ''old'' [] [] =
      (Inl (ErrUnauthenticated e), es)"
    using rotated_verify(2) by (auto simp: authenticate_def g t)
qed

lemma rotated_handed_on:
  "\<exists>q. handed_on rotated_lib uuid (\<lambda>_. sample_now) global_receiver plain_request 1 (Some ''tok'') = Some q"
  "receiver_status rotated_lib uuid (\<lambda>_. sample_now) global_receiver ok_handler plain_request 0 (Some ''old'') = Some 401"
proof -
  obtain r es e es' where
    "authenticate rotated_lib uuid sample_now global_receiver ''tok'' [] [] = (Inr r, es)"
    "authenticate rotated_lib uuid sample_now global_receiver ''old'' [] [] = (Inl (ErrUnauthenticated e), es')"
    using rotated_authenticate by metis
  then show "\<exists>q. handed_on rotated_lib uuid (\<lambda>_. sample_now) global_receiver plain_request 1 (Some ''tok'') = Some q"
    "receiver_status rotated_lib uuid (\<lambda>_. sample_now) global_receiver ok_handler plain_request 0 (Some ''old'') = Some 401"
    by (simp_all add: handed_on_def receiver_status_def s2shttp_serve_def with_token_def plain_request_def
        single_header_def write_error_def Let_def other_headers)
qed

theorem handled_at_most_once_witness:
  "\<exists>result c' sends calls.
     round_trip (=) (receiver_status rotated_lib (\<lambda>_. None) (\<lambda>_. sample_now) global_receiver ok_handler plain_request)
       (sample_env NoReply) False sample_now (sample_env NoReply) False sample_now stock_transport stock_request
       caching_client = (result, c', sends, calls) \<and>
     length (deliveries rotated_lib (\<lambda>_. None) (\<lambda>_. sample_now) global_receiver plain_request sends) \<le> 1"
proof -
  obtain result c' sends calls where rt:
    "round_trip (=) (receiver_status rotated_lib (\<lambda>_. None) (\<lambda>_. sample_now) global_receiver ok_handler plain_request)
       (sample_env NoReply) False sample_now (sample_env NoReply) False sample_now stock_transport stock_request
       caching_client = (result, c', sends, calls)" by (rule prod_cases4)
  from handled_at_most_once [OF this]
  have "length (deliveries rotated_lib (\<lambda>_. None) (\<lambda>_. sample_now) global_receiver plain_request sends) \<le> 1"
    by (auto simp: ok_handler_def split: list.splits)
  with rt show ?thesis by blast
qed

theorem rejected_token_replaced_witness:
  "\<exists>c'. round_trip (=) (receiver_status rotated_lib (\<lambda>_. None) (\<lambda>_. sample_now) global_receiver ok_handler plain_request)
     (sample_env NoReply) False sample_now (sample_env (Reply 200 (Some (''tok'', 600)))) False sample_now
     stock_transport stock_request caching_client =
       (Inr 200, c', [(''stock:8080'', Some ''old''), (''stock:8080'', Some ''tok'')], [(''stock'', ''stock:read'')])"
proof -
  obtain result c' sends calls where rt:
    "round_trip (=) (receiver_status rotated_lib (\<lambda>_. None) (\<lambda>_. sample_now) global_receiver ok_handler plain_request)
       (sample_env NoReply) False sample_now (sample_env (Reply 200 (Some (''tok'', 600)))) False sample_now
       stock_transport stock_request caching_client = (result, c', sends, calls)" by (rule prod_cases4)
  obtain q where q: "handed_on rotated_lib (\<lambda>_. None) (\<lambda>_. sample_now) global_receiver plain_request 1 (Some ''tok'') = Some q"
    using rotated_handed_on(1) by blast
  have entry: "entry_of caching_client (entry_key ''stock'' ''stock:read'') =
     \<lparr> en_token = ''old'', en_issued_at = sample_now - 60 * second, en_renew_at = sample_now + 180 * second,
       en_expires_at = sample_now + 240 * second, en_last_err = None, en_retry_at = zero_time \<rparr>"
    by (simp add: caching_client_def)
  have st: "tp_audience stock_transport = ''stock''" "tp_scopes stock_transport = [''stock:read'']"
    "tp_host stock_transport = ''stock:8080''" "or_host stock_request = ''stock:8080''"
    "\<not> or_redirect stock_request" "\<not> or_body stock_request" "or_get_body stock_request = None"
    "trim_space ''stock:8080'' = ''stock:8080''" "trim_space ''stock'' \<noteq> []"
    by (simp_all add: stock_transport_def stock_request_def graphic_def byte_def)
  have open1: "fst (allow ''stock'' sample_now caching_client)"
    by (simp add: allow_eq caching_client_def) (simp add: new_breaker_def)
  have late: "MinReissueAge \<le> time_sub sample_now (sample_now - 60 * second)" "0 \<le> sample_now"
    by (simp_all add: MinReissueAge_def time_sub_def sample_now_def second_def int64_range_def)
  from rejected_token_replaced [OF rt, of _ "''old''" "''tok''" TTL q] open1 late q rotated_handed_on(2)
  show ?thesis
    using rt by (simp add: st sample_scope entry sample_issue second_def) (simp add: ok_handler_def)
qed

end
