(* ===== verification/Issuer_Fixture.thy ===== *)
theory Issuer_Fixture
  imports Receiver S2S_Client
begin

text \<open>
  The issuer that the tests of all services use, \<open>infrastructure/s2stoken/s2stest/s2stest.go\<close>: a key with
  its keyring on disk, the claims of the two kinds of token, and their signing. The theorems say that
  it meets the contract of the receivers, so that what the tests accept is what iam has to send.

  Key generation, PKIX and PEM encoding, the file system and signing are parameters; a call of
  \<open>t.Fatal\<close> or a panic is \<open>None\<close>.
\<close>

section \<open>The issuer\<close>

record fixture_env =
  fe_generate :: "rsa_public_key option"
  fe_marshal :: "rsa_public_key \<Rightarrow> string option"
  fe_pem_encode :: "pem_block \<Rightarrow> string"
  fe_temp_dir :: string
  fe_write :: "string \<Rightarrow> string \<Rightarrow> key_source option"
  fe_sign :: "jwt_header \<Rightarrow> map_claims \<Rightarrow> rsa_public_key \<Rightarrow> string option"

record iam_fixture =
  im_key :: rsa_public_key
  im_dir :: string
  im_keyring :: keyring

text \<open>Of the private key only the public half matters here; signing takes the pair.\<close>

definition new_iam :: "fixture_env \<Rightarrow> iam_fixture option" where
  "new_iam env =
     (case fe_generate env of
        None \<Rightarrow> None
      | Some key \<Rightarrow>
     (case fe_marshal env key of
        None \<Rightarrow> None
      | Some der \<Rightarrow>
     let dir = fe_temp_dir env
     in (case fe_write env (dir @ ''/iam.pem'')
                (fe_pem_encode env \<lparr>pem_type = ''PUBLIC KEY'', pem_bytes = der\<rparr>) of
        None \<Rightarrow> None
      | Some ks \<Rightarrow>
     (case load ks dir of
        Inl e \<Rightarrow> None
      | Inr ring \<Rightarrow> Some \<lparr>im_key = key, im_dir = dir, im_keyring = ring\<rparr>))))"

definition fixture_service_claims ::
  "time \<Rightarrow> string \<Rightarrow> string \<Rightarrow> string \<Rightarrow> string \<Rightarrow> map_claims" where
  "fixture_service_claims now sub aud tenant_scope scope =
     [''iss'' \<mapsto> JStr Issuer, ''sub'' \<mapsto> JStr sub, ''aud'' \<mapsto> JStr aud, ''scope'' \<mapsto> JStr scope,
      ''token_use'' \<mapsto> JStr TokenUse, ''tenant_scope'' \<mapsto> JStr tenant_scope, ''namespace'' \<mapsto> JStr ''mc'',
      ''iat'' \<mapsto> JNum (of_int (time_unix now)), ''exp'' \<mapsto> JNum (of_int (time_unix (now + TTL))),
      ''jti'' \<mapsto> JStr (''jti-'' @ sub @ ''-'' @ aud)]"

text \<open>Without roles the variadic slice is nil, which JSON writes as null.\<close>

definition fixture_user_claims :: "time \<Rightarrow> string \<Rightarrow> string \<Rightarrow> string list \<Rightarrow> map_claims" where
  "fixture_user_claims now user_id tenant roles =
     (let c = [''iss'' \<mapsto> JStr UserIssuer, ''user_id'' \<mapsto> JStr user_id, ''namespace'' \<mapsto> JStr ''mc'',
               ''roles'' \<mapsto> (if roles = [] then JNull else JArr (map JStr roles)),
               ''exp'' \<mapsto> JNum (of_int (time_unix (now + 15 * minute)))]
      in if tenant \<noteq> [] then c(''tenant_id'' \<mapsto> JStr tenant) else c)"

definition fixture_header :: "string \<Rightarrow> string \<Rightarrow> jwt_header" where
  "fixture_header kid typ =
     \<lparr>method_alg = RS256, method_is_rsa = True,
      header_fields = [''alg'' \<mapsto> JStr RS256, ''typ'' \<mapsto> JStr typ, ''kid'' \<mapsto> JStr kid]\<rparr>"

definition fixture_sign :: "fixture_env \<Rightarrow> iam_fixture \<Rightarrow> map_claims \<Rightarrow> string \<Rightarrow> string option" where
  "fixture_sign env iam claims typ =
     (case KID (im_key iam) of
        None \<Rightarrow> None
      | Some kid \<Rightarrow> fe_sign env (fixture_header kid typ) claims (im_key iam))"

definition sign_service :: "fixture_env \<Rightarrow> iam_fixture \<Rightarrow> map_claims \<Rightarrow> string option" where
  "sign_service env iam claims = fixture_sign env iam claims TokenType"

definition sign_user :: "fixture_env \<Rightarrow> iam_fixture \<Rightarrow> map_claims \<Rightarrow> string option" where
  "sign_user env iam claims = fixture_sign env iam claims ''JWT''"

section \<open>What the issuer relies on\<close>

text \<open>
  Encoding a key and decoding it gives the key back, and a file that was written is the one file of
  the fresh directory.
\<close>

definition key_files_kept :: "fixture_env \<Rightarrow> bool" where
  "key_files_kept env \<longleftrightarrow>
     trim_space (fe_temp_dir env) \<noteq> [] \<and>
     (\<forall>key der path ks. fe_marshal env key = Some der \<longrightarrow>
        fe_write env path (fe_pem_encode env \<lparr>pem_type = ''PUBLIC KEY'', pem_bytes = der\<rparr>) = Some ks \<longrightarrow>
        fs_exists ks (fe_temp_dir env) \<and> fs_glob ks (fe_temp_dir env) = Some [path] \<and>
        (\<exists>raw. fs_read ks path = Some raw \<and>
           pem_decode ks raw = (Some \<lparr>pem_type = ''PUBLIC KEY'', pem_bytes = der\<rparr>, [])) \<and>
        parse_pkix ks der = Some (ParsedRSA key))"

text \<open>
  Signing: the token carries the header and the claims it was given and the key verifies it. Its claims
  decode into the struct of a service token field by field, dates as numbers of seconds, when each has
  the type of its field.
\<close>

definition num_date :: "map_claims \<Rightarrow> string \<Rightarrow> time option" where
  "num_date m k = (case m k of Some (JNum q) \<Rightarrow> Some (unix_time (f64_to_int64 q)) | _ \<Rightarrow> None)"

definition service_struct :: "map_claims \<Rightarrow> service_claims" where
  "service_struct m =
     \<lparr> sc_issuer = str_claim m ''iss'', sc_subject = str_claim m ''sub'', sc_audience = str_claim m ''aud'',
       sc_scope = str_claim m ''scope'', sc_token_use = str_claim m ''token_use'',
       sc_tenant_scope = str_claim m ''tenant_scope'', sc_namespace = str_claim m ''namespace'',
       sc_issued_at = num_date m ''iat'', sc_not_before = num_date m ''nbf'',
       sc_expires_at = num_date m ''exp'', sc_id = str_claim m ''jti'' \<rparr>"

definition service_typed :: "map_claims \<Rightarrow> bool" where
  "service_typed m \<longleftrightarrow>
     (\<forall>k \<in> {''iss'', ''sub'', ''aud'', ''scope'', ''token_use'', ''tenant_scope'', ''namespace'', ''jti''}.
        m k = None \<or> (\<exists>s. m k = Some (JStr s))) \<and>
     (\<forall>k \<in> {''iat'', ''nbf'', ''exp''}. m k = None \<or> (\<exists>q. m k = Some (JNum q)))"

definition signs_tokens ::
  "fixture_env \<Rightarrow> (string \<Rightarrow> jwt_header) \<Rightarrow> (string \<Rightarrow> map_claims option) \<Rightarrow>
   (string \<Rightarrow> service_claims option) \<Rightarrow> (rsa_public_key \<Rightarrow> string \<Rightarrow> bool) \<Rightarrow> bool" where
  "signs_tokens env hd_of payload svc_of verifies \<longleftrightarrow>
     (\<forall>h c key tok. fe_sign env h c key = Some tok \<longrightarrow>
        hd_of tok = h \<and> payload tok = Some c \<and> verifies key tok \<and>
        (service_typed c \<longrightarrow> svc_of tok = Some (service_struct c)))"

section \<open>Facts\<close>

text \<open>The instant cut to whole seconds, as a date claim keeps it.\<close>

definition whole :: "time \<Rightarrow> time" where "whole t = t div second * second"

definition datable :: "time \<Rightarrow> bool" where
  "datable t \<longleftrightarrow> 62135596800 * second < t \<and> t < 2 ^ 62 * second"

lemma unix_time_back:
  assumes "datable t"
  shows "unix_time (f64_to_int64 (of_int (time_unix t))) = whole t"
proof -
  have r: "62135596800 \<le> t div second" "t div second < 2 ^ 62"
    using assms by (auto simp: datable_def second_def)
  then have "f64_to_int64 (of_int (time_unix t)) = time_unix t"
    by (simp add: f64_to_int64_def int64_range_def time_unix_def)
  with r show ?thesis by (simp add: unix_time_def time_unix_def whole_def wrap64_id int64_range_def)
qed

lemma whole_add: "d mod second = 0 \<Longrightarrow> whole (t + d) = whole t + d"
  by (auto simp: whole_def second_def)

lemma new_iam_keyring:
  assumes "new_iam env = Some iam" "key_files_kept env"
  shows "\<exists>kid. KID (im_key iam) = Some kid \<and> im_keyring iam = [(kid, im_key iam)]"
proof -
  obtain key der ks ring where
    d: "fe_marshal env key = Some der"
      "fe_write env (fe_temp_dir env @ ''/iam.pem'') (fe_pem_encode env \<lparr>pem_type = ''PUBLIC KEY'', pem_bytes = der\<rparr>) = Some ks"
      "load ks (fe_temp_dir env) = Inr ring" "iam = \<lparr>im_key = key, im_dir = fe_temp_dir env, im_keyring = ring\<rparr>"
    using assms(1) by (auto simp: new_iam_def Let_def split: option.splits sum.splits)
  have files: "fs_exists ks (fe_temp_dir env)" "fs_glob ks (fe_temp_dir env) = Some [fe_temp_dir env @ ''/iam.pem'']"
    "\<exists>raw. fs_read ks (fe_temp_dir env @ ''/iam.pem'') = Some raw \<and>
       pem_decode ks raw = (Some \<lparr>pem_type = ''PUBLIC KEY'', pem_bytes = der\<rparr>, [])"
    "parse_pkix ks der = Some (ParsedRSA key)" "trim_space (fe_temp_dir env) \<noteq> []"
    using assms(2) d(1,2) unfolding key_files_kept_def by blast+
  with d(3) show ?thesis
    by (auto simp: d(4) load_def parse_rsa_public_pem_def split: option.splits if_splits)
qed

lemma fixture_signed:
  assumes "new_iam env = Some iam" "key_files_kept env" "signs_tokens env hd_of payload svc_of verifies"
    and "fixture_sign env iam claims typ = Some tok"
  shows "token_signed hd_of verifies (Some (im_keyring iam)) tok \<and> payload tok = Some claims \<and>
    str_claim (header_fields (hd_of tok)) ''typ'' = typ \<and>
    (service_typed claims \<longrightarrow> svc_of tok = Some (service_struct claims))"
proof -
  obtain kid where kid: "KID (im_key iam) = Some kid" "im_keyring iam = [(kid, im_key iam)]"
    using new_iam_keyring [OF assms(1,2)] by blast
  have "kid \<noteq> []" using kid(1) by (auto simp: KID_def keyring_kid_prefix_def split: option.splits)
  with kid assms(3,4) show ?thesis
    by (auto simp: fixture_sign_def signs_tokens_def token_signed_def fixture_header_def str_claim_def
        public_key_for_def)
qed

lemma trim_right_graphic: "graphic (hd s) \<Longrightarrow> s \<noteq> [] \<Longrightarrow> trim_right s \<noteq> []"
proof (induction s rule: trim_right.induct)
  case (1 s)
  show ?case
  proof (cases "ws_width_end s = 0")
    case True
    with 1 show ?thesis by (simp add: trim_right.simps [of s])
  next
    case False
    then obtain w where found: "find (\<lambda>w. suffix w s) ws_runes = Some w" and len: "ws_width_end s = length w"
      by (auto simp: ws_width_end_def split: option.splits)
    then have w: "w \<in> set ws_runes" "suffix w s" "ws_width_end s = length w"
      by (auto simp: find_Some_iff)
    have "w \<noteq> s" using ws_runes_ends [OF w(1)] 1(2) by auto
    with w obtain u where u: "s = u @ w" "u \<noteq> []" by (auto simp: suffix_def)
    then have "trim_right s = trim_right u" using False w(3) by (subst trim_right.simps) simp
    moreover have "trim_right u \<noteq> []" using 1 False w(3) u by simp
    ultimately show ?thesis by simp
  qed
qed

lemma trim_space_graphic_head: "graphic c \<Longrightarrow> trim_space (c # s) \<noteq> []"
  by (simp add: trim_space_def trim_left.simps [of "c # s"] trim_right_graphic)

lemma datable_add: "datable t \<Longrightarrow> 0 \<le> d \<Longrightarrow> t + d < 2 ^ 62 * second \<Longrightarrow> datable (t + d)"
  by (simp add: datable_def)

lemma fixture_service_struct:
  assumes "datable now" "now + TTL < 2 ^ 62 * second"
  shows "service_typed (fixture_service_claims now sub aud ts scope) \<and>
    service_struct (fixture_service_claims now sub aud ts scope) =
      \<lparr> sc_issuer = Issuer, sc_subject = sub, sc_audience = aud, sc_scope = scope, sc_token_use = TokenUse,
        sc_tenant_scope = ts, sc_namespace = ''mc'', sc_issued_at = Some (whole now), sc_not_before = None,
        sc_expires_at = Some (whole now + TTL), sc_id = ''jti-'' @ sub @ ''-'' @ aud \<rparr>"
proof -
  have "datable (now + TTL)" using assms datable_add [of now TTL] by (simp add: durations)
  moreover have "whole (now + TTL) = whole now + TTL" by (rule whole_add) (simp add: durations second_def)
  ultimately show ?thesis
    using unix_time_back [of now] unix_time_back [of "now + TTL"] assms(1)
    by (simp add: service_typed_def service_struct_def fixture_service_claims_def str_claim_def num_date_def)
qed

lemma json_strings_map: "json_strings (map JStr roles) = roles"
  by (induction roles) auto

section \<open>What receivers make of its tokens\<close>

text \<open>The service tokens of the fixture are those that receivers want: with the issuer's keyring, as the
  audience of the token, in its namespace and with scopes that the token carries, a receiver accepts
  a token for a subject exactly from 30 seconds before it was issued (cut to a whole second) until
  330 seconds after, and knows the caller by its subject and scopes.\<close>

theorem fixture_service_token_accepted:
  assumes "jwt_contract L hd_of payload svc_of verifies" "signs_tokens env hd_of payload svc_of verifies"
    and "new_iam env = Some iam" "key_files_kept env"
    and "sign_service env iam (fixture_service_claims now sub aud ts scope) = Some tok"
    and "datable now" "now + TTL < 2 ^ 62 * second"
    and "trim_space sub \<noteq> []" "ts \<in> {TenantScopeUser, TenantScopeSystem}"
    and "validate_config cfg = None" "cfg_keyring cfg = Some (im_keyring iam)" "cfg_audience cfg = aud"
    and "cfg_namespace cfg = ''mc''" "set (required_scopes cfg) \<subseteq> set (str_fields scope)"
  shows "(\<exists>p. verify L t tok cfg = Inr p \<and> pr_subject p = sub \<and> pr_scopes p = str_fields scope \<and> pr_tenant_scope p = ts) \<longleftrightarrow>
    whole now - 30 * second \<le> verify_clock t cfg \<and> verify_clock t cfg < whole now + 330 * second"
proof -
  note signed = fixture_signed [OF assms(3,4,2) assms(5) [unfolded sign_service_def]]
  note struct = fixture_service_struct [OF assms(6,7), of sub aud ts scope]
  let ?c = "service_struct (fixture_service_claims now sub aud ts scope)"
  have svc: "svc_of tok = Some ?c" using signed struct by blast
  have "trim_space (sc_id ?c) \<noteq> []"
    using struct by (simp add: trim_space_graphic_head graphic_def byte_def)
  then have contract: "token_contract (hd_of tok) ?c"
    using signed struct assms(8,9) by (auto simp: token_contract_def)
  have fresh: "token_fresh u ?c \<longleftrightarrow> whole now - 30 * second \<le> u \<and> u < whole now + 330 * second" for u
    using struct by (auto simp: token_fresh_def durations second_def)
  have "authorized cfg ?c" using struct assms(13,14) by (simp add: authorized_def scopes_def)
  then show ?thesis
    using verify_cases [OF assms(1), where now = t and tok = tok and cfg = cfg] svc contract fresh signed struct assms(10-12)
    by (auto simp: authenticates_def principal_of_def scopes_def split: sum.splits s2s_error.splits)
qed

lemma fixture_user_claim_values:
  "fixture_user_claims now user_id tenant roles ''exp'' = Some (JNum (of_int (time_unix (now + 15 * minute))))"
  "fixture_user_claims now user_id tenant roles ''nbf'' = None"
  "fixture_user_claims now user_id tenant roles ''iat'' = None"
  "fixture_user_claims now user_id tenant roles ''token_use'' = None"
  "str_claim (fixture_user_claims now user_id tenant roles) ''iss'' = UserIssuer"
  "str_claim (fixture_user_claims now user_id tenant roles) ''tenant_id'' = tenant"
  "str_claim (fixture_user_claims now user_id tenant roles) ''user_id'' = user_id"
  "string_slice (fixture_user_claims now user_id tenant roles ''roles'') = roles"
  "check_user_claims (fixture_user_claims now user_id tenant roles) = None"
  by (simp_all add: fixture_user_claims_def str_claim_def string_slice_def json_strings_map check_user_claims_def Let_def)

lemma fixture_user_expiry:
  assumes "datable now" "now + 15 * minute < 2 ^ 62 * second"
  shows "unix_time (f64_to_int64 (of_int (time_unix (now + 15 * minute)))) = whole now + 15 * minute"
    "time_unix (now + 15 * minute) \<noteq> 0"
    "check_payload t (fixture_user_claims now user_id tenant roles) = None \<longleftrightarrow> t < whole now + 930 * second"
proof -
  let ?c = "fixture_user_claims now user_id tenant roles"
  show read_back: "unix_time (f64_to_int64 (of_int (time_unix (now + 15 * minute)))) = whole now + 15 * minute"
    using unix_time_back [of "now + 15 * minute"] datable_add [OF assms(1), of "15 * minute"] assms(2)
      whole_add [of "15 * minute" now] by (simp add: minute_def second_def)
  show "time_unix (now + 15 * minute) \<noteq> 0"
    using assms(1) by (simp add: time_unix_def datable_def minute_def second_def) linarith
  have "payload_unexpired t ?c \<longleftrightarrow> t < whole now + 15 * minute + Leeway"
    unfolding payload_unexpired_def fixture_user_claim_values by (simp add: read_back)
  then show "check_payload t ?c = None \<longleftrightarrow> t < whole now + 930 * second"
    by (simp add: check_payload_def fixture_user_claim_values durations minute_def second_def)
qed

text \<open>The user tokens of the fixture are those that receivers want: decoded as a map, a token for a user
  is accepted exactly until 15 minutes and 30 seconds after it was issued (cut to a whole second), with
  its tenant, user and roles; without a tenant it has no such claim.\<close>

theorem fixture_user_token_accepted:
  assumes "jwt_contract L hd_of payload svc_of verifies" "signs_tokens env hd_of payload svc_of verifies"
    and "new_iam env = Some iam" "key_files_kept env"
    and "sign_user env iam (fixture_user_claims now user_id tenant roles) = Some tok"
    and "datable now" "now + 15 * minute < 2 ^ 62 * second"
  shows "((\<exists>x. parse_user L t tok MapTarget (Some (im_keyring iam)) = Inr x) \<longleftrightarrow> t < whole now + 930 * second) \<and>
    (\<forall>x. parse_user L t tok MapTarget (Some (im_keyring iam)) = Inr x \<longrightarrow>
       (\<exists>c. x = MapFilled c \<and> str_claim c ''tenant_id'' = tenant \<and> str_claim c ''user_id'' = user_id \<and>
            string_slice (c ''roles'') = roles))"
proof -
  let ?c = "fixture_user_claims now user_id tenant roles"
  note signed = fixture_signed [OF assms(3,4,2) assms(5) [unfolded sign_user_def]]
  note expiry = fixture_user_expiry [OF assms(6,7)]
  have parsed: "parse_map L (user_opts t) (rs256_keyfunc (Some (im_keyring iam))) tok = Some ?c \<longleftrightarrow> t < whole now + 930 * second"
    using signed fixture_user_claim_values [of now user_id tenant roles] expiry(1,2)
    by (simp add: contract_map [OF assms(1)] signature_ok_rs256 token_signed_def map_valid_def date_claim_def
        exp_valid_def nbf_valid_def iat_valid_def issuer_valid_def user_opts_def durations minute_def second_def)
      (simp add: add.commute)
  have only: "c = ?c" if "parse_map L (user_opts t) (rs256_keyfunc (Some (im_keyring iam))) tok = Some c" for c
  proof -
    have "payload tok = Some c" using that contract_map [OF assms(1) user_opts_lenient] by blast
    with signed show ?thesis by simp
  qed
  show ?thesis
  proof (cases "parse_map L (user_opts t) (rs256_keyfunc (Some (im_keyring iam))) tok")
    case None
    with parsed show ?thesis by (simp add: parse_user_def)
  next
    case (Some c)
    then have c: "c = ?c" by (rule only)
    with Some parsed have "t < whole now + 930 * second" by blast
    moreover from this have "check_payload t ?c = None" by (simp add: expiry(3))
    then have "parse_user L t tok MapTarget (Some (im_keyring iam)) = Inr (MapFilled ?c)"
      using Some c by (simp add: parse_user_def)
    ultimately show ?thesis by (simp add: fixture_user_claim_values)
  qed
qed

section \<open>Witnesses\<close>

definition fixture_files :: "string \<Rightarrow> string \<Rightarrow> key_source" where
  "fixture_files path raw =
     \<lparr> fs_glob = (\<lambda>_. Some [path]), fs_exists = (\<lambda>_. True), fs_read = (\<lambda>_. Some raw),
       pem_decode = (\<lambda>s. (Some \<lparr>pem_type = ''PUBLIC KEY'', pem_bytes = s\<rparr>, [])),
       parse_pkix = (\<lambda>_. Some (ParsedRSA sample_key)) \<rparr>"

text \<open>An issuer that signs one payload under one header.\<close>

definition fixture_sample :: "jwt_header \<Rightarrow> map_claims \<Rightarrow> fixture_env" where
  "fixture_sample h c =
     \<lparr> fe_generate = Some sample_key, fe_marshal = (\<lambda>k. if k = sample_key then Some ''der'' else None),
       fe_pem_encode = pem_bytes, fe_temp_dir = ''/tmp'', fe_write = (\<lambda>path raw. Some (fixture_files path raw)),
       fe_sign = (\<lambda>h' c' k. if h' = h \<and> c' = c \<and> k = sample_key then Some ''tok'' else None) \<rparr>"

definition sample_iam :: iam_fixture where
  "sample_iam = \<lparr>im_key = sample_key, im_dir = ''/tmp'', im_keyring = [(sample_kid, sample_key)]\<rparr>"

lemma fixture_sample_kept: "key_files_kept (fixture_sample h c)"
  by (auto simp: key_files_kept_def fixture_sample_def fixture_files_def graphic_def byte_def split: if_splits)

lemma fixture_sample_iam: "new_iam (fixture_sample h c) = Some sample_iam"
  using sample_key_bits
  by (simp add: new_iam_def fixture_sample_def fixture_files_def load_def parse_rsa_public_pem_def sample_key_kid
      sample_iam_def graphic_def byte_def)

lemma fixture_sample_signs:
  "signs_tokens (fixture_sample h c) (\<lambda>_. h) (\<lambda>_. Some c) (\<lambda>_. Some (service_struct c)) (\<lambda>k tok. k = sample_key)"
  by (auto simp: signs_tokens_def fixture_sample_def split: if_splits)

lemma sample_datable: "datable sample_now" "sample_now + TTL < 2 ^ 62 * second" "sample_now + 15 * minute < 2 ^ 62 * second"
  "whole sample_now = sample_now"
  by (simp_all add: datable_def whole_def sample_now_def second_def durations minute_def)

theorem fixture_service_token_accepted_witness:
  "let c = fixture_service_claims sample_now ''sales'' ''stock'' TenantScopeUser ''stock:read stock:write'';
       h = fixture_header sample_kid TokenType;
       L = reference_lib (\<lambda>_. h) (\<lambda>_. Some c) (\<lambda>_. Some (service_struct c)) (\<lambda>k tok. k = sample_key)
   in (\<exists>p. verify L (sample_now + 329 * second) ''tok'' (sample_cfg [''stock:read'']) = Inr p) \<and>
      sign_service (fixture_sample h c) sample_iam c = Some ''tok''"
proof -
  let ?c = "fixture_service_claims sample_now ''sales'' ''stock'' TenantScopeUser ''stock:read stock:write''"
  let ?h = "fixture_header sample_kid TokenType"
  have sign: "sign_service (fixture_sample ?h ?c) sample_iam ?c = Some ''tok''"
    by (simp add: sign_service_def fixture_sign_def sample_iam_def sample_key_kid fixture_sample_def)
  have cfg: "cfg_keyring (sample_cfg [''stock:read'']) = Some (im_keyring sample_iam)"
    "cfg_audience (sample_cfg [''stock:read'']) = ''stock''" "cfg_namespace (sample_cfg [''stock:read'']) = ''mc''"
    "required_scopes (sample_cfg [''stock:read'']) = [''stock:read'']"
    "verify_clock t (sample_cfg [''stock:read'']) = t" for t
    by (simp_all add: sample_cfg_def sample_ring_def sample_iam_def verify_clock_def)
  have "trim_space ''sales'' \<noteq> []" "set [''stock:read''] \<subseteq> set (str_fields ''stock:read stock:write'')"
    by (simp_all add: go_lib)
  with fixture_service_token_accepted [OF reference_lib_contract fixture_sample_signs fixture_sample_iam
      fixture_sample_kept sign sample_datable(1,2), of "sample_cfg [''stock:read'']" "sample_now + 329 * second"]
    sample_valid_config [of "[''stock:read'']"] sign
  show ?thesis by (auto simp: cfg sample_datable(4) second_def Let_def)
qed

theorem fixture_user_token_accepted_witness:
  "let c = fixture_user_claims sample_now ''u1'' ''t1'' [''admin''];
       h = fixture_header sample_kid ''JWT'';
       L = reference_lib (\<lambda>_. h) (\<lambda>_. Some c) (\<lambda>_. Some (service_struct c)) (\<lambda>k tok. k = sample_key)
   in \<exists>x. parse_user L (sample_now + 929 * second) ''tok'' MapTarget (Some [(sample_kid, sample_key)]) = Inr x"
proof -
  let ?c = "fixture_user_claims sample_now ''u1'' ''t1'' [''admin'']"
  let ?h = "fixture_header sample_kid ''JWT''"
  have sign: "sign_user (fixture_sample ?h ?c) sample_iam ?c = Some ''tok''"
    by (simp add: sign_user_def fixture_sign_def sample_iam_def sample_key_kid fixture_sample_def)
  from fixture_user_token_accepted [OF reference_lib_contract fixture_sample_signs fixture_sample_iam
      fixture_sample_kept sign sample_datable(1,3), of "sample_now + 929 * second"]
  show ?thesis by (simp add: sample_datable(4) second_def Let_def sample_iam_def)
qed

end
