(* ===== verification/Error_Response.thy ===== *)
theory Error_Response
  imports Http
begin

text \<open>
  The error envelope of \<open>infrastructure/response/error_response.go\<close>. A reply is its status, the members
  of its JSON object in order, and whether it ends the chain of handlers.
\<close>

record error_response =
  er_error :: string
  er_details :: string

definition new_error :: "string \<Rightarrow> error_response" where
  "new_error message = \<lparr>er_error = message, er_details = []\<rparr>"

definition new_error_with_details :: "string \<Rightarrow> string \<Rightarrow> error_response" where
  "new_error_with_details message details = \<lparr>er_error = message, er_details = details\<rparr>"

text \<open>The tags of the struct: \<open>error\<close>, and \<open>details,omitempty\<close>.\<close>

definition error_object :: "error_response \<Rightarrow> (string \<times> string) list" where
  "error_object r =
     (''error'', er_error r) # (if er_details r = [] then [] else [(''details'', er_details r)])"

record json_reply =
  jr_status :: int
  jr_body :: "(string \<times> string) list"
  jr_aborts :: bool

definition response_json :: "int \<Rightarrow> string \<Rightarrow> json_reply" where
  "response_json status message =
     \<lparr>jr_status = status, jr_body = error_object (new_error message), jr_aborts = False\<rparr>"

definition response_json_with_details :: "int \<Rightarrow> string \<Rightarrow> string \<Rightarrow> json_reply" where
  "response_json_with_details status message details =
     \<lparr>jr_status = status, jr_body = error_object (new_error_with_details message details), jr_aborts = False\<rparr>"

definition response_abort :: "int \<Rightarrow> string \<Rightarrow> json_reply" where
  "response_abort status message =
     \<lparr>jr_status = status, jr_body = error_object (new_error message), jr_aborts = True\<rparr>"

text \<open>A client that decodes the object into the struct, where a missing member is empty.\<close>

definition read_error :: "(string \<times> string) list \<Rightarrow> error_response" where
  "read_error obj =
     (let field = (\<lambda>k. case map_of obj k of None \<Rightarrow> [] | Some v \<Rightarrow> v)
      in \<lparr>er_error = field ''error'', er_details = field ''details''\<rparr>)"

text \<open>Every helper sends the same envelope, and a client reads back what the service put in, whether or
  not there are details; without details the object is the single member \<open>error\<close> that the middlewares
  of the repository send.\<close>

theorem error_envelope_reads_back:
  "read_error (jr_body (response_json status message)) = new_error message \<and>
   read_error (jr_body (response_abort status message)) = new_error message \<and>
   read_error (jr_body (response_json_with_details status message details)) = new_error_with_details message details \<and>
   jr_body (response_json_with_details status message []) = [(''error'', message)]"
  by (simp add: read_error_def response_json_def response_abort_def response_json_with_details_def error_object_def
      new_error_def new_error_with_details_def)

end
