(* ===== verification/Spec2Isabelle.thy ===== *)
theory Spec2Isabelle
  imports Middleware Gzip S2S_Transport Single_Flight Client_Runs Worker Bus_Progress Dead_Letters Bus_Metrics
    Retry_After Search_Paths
    Database Prometheus Csv Env Logging Notifications Compression Service_Call Issuer_Fixture Error_Response
begin

text \<open>
  A verification development for \<open>go-shared\<close>, the shared kernel of a fleet of Go services: who may
  call a service and for which tenant, how often, which events it publishes and consumes, how it
  searches, and the infrastructure around that. Paths below are relative to \<open>src/\<close>.

  \<^bold>\<open>The parts and the theories\<close>

  \<^item> \<open>Prelude\<close>: 64-bit integers with wrap-around, durations and instants (nanoseconds), the result of a
    call that returns, fails or panics (\<open>outcome\<close>), and the functions of \<open>strings\<close> that the code uses,
    on byte strings. \<open>Go_Numbers\<close> (\<open>strconv\<close>, \<open>time.ParseDuration\<close>), \<open>Float64\<close> (IEEE doubles as
    exact rationals with rounding), \<open>Go_Value\<close> (values of type \<open>interface{}\<close>), \<open>Encoding\<close> (base64,
    SHA-256, hexadecimal), \<open>Jwt\<close> (what golang-jwt checks, and its signature contract), \<open>Http\<close>
    (requests, \<open>net/http\<close> handlers, the gin context) and \<open>Seconds\<close> hold the rest of the library
    that several components share.

  \<^item> Authentication. \<open>Keyring\<close> (\<open>infrastructure/jwtkeyring\<close>): key identifiers, loading and resolving the
    public keys of iam, RS256 verification by kid. \<open>Service_Token\<close> and \<open>User_Token\<close>
    (\<open>infrastructure/s2stoken/s2stoken.go\<close>, \<open>user.go\<close>): \<open>Verify\<close> and \<open>ParseUser\<close>. \<open>Receiver\<close>
    (\<open>s2stoken/receiver\<close>): \<open>Authenticate\<close>, which combines both, and the deny list. \<open>Adapters\<close>
    (\<open>s2stoken/s2shttp\<close>, \<open>middleware/s2sauth\<close>): the same for \<open>net/http\<close> and gin. \<open>Middleware\<close>
    (\<open>infrastructure/middleware\<close>): tenant validation, platform tokens, roles and permissions.

  \<^item> The caller's side. \<open>S2S_Client\<close> (\<open>s2stoken/client/client.go\<close>): cache, early renewal, back-off and
    circuit breaker, one operation at a time; \<open>Single_Flight\<close>: one entry under concurrent
    callers of \<open>Token\<close>, as a step relation; \<open>Client_Runs\<close>: all entries under concurrent callers of \<open>Token\<close>,
    \<open>Refresh\<close> and \<open>Invalidate\<close>, each cut where it asks iam; \<open>S2S_Transport\<close> (\<open>client/transport.go\<close>): the round tripper.
    \<open>Service_Call\<close> puts both sides together: a round trip whose other end is a receiver.
    \<open>Issuer_Fixture\<close> (\<open>s2stoken/s2stest\<close>) is the issuer that the tests of all services use.

  \<^item> The event bus. \<open>Event\<close> (\<open>eventbus/domain\<close>), \<open>Event_Metrics\<close> (\<open>eventbus/metrics\<close>), \<open>Event_Store\<close>
    (the port \<open>eventbus/ports\<close> as the record \<open>event_store\<close>; the in-memory store and the three stubs of
    \<open>eventbus/infrastructure\<close> as its values), \<open>Event_Bus\<close> (\<open>eventbus/application\<close>: publish, dispatch,
    poll) and \<open>Worker\<close> (\<open>eventbus/worker\<close>: the goroutines and the callers of \<open>Stop\<close>).
    \<open>bus_run\<close> of \<open>Event_Bus\<close> interleaves publishers and consumers over the in-memory store; \<open>Bus_Progress\<close>
    runs cycles one after the other; \<open>Dead_Letters\<close> extends the
    contract of the port by \<open>MoveToDLQ\<close> and \<open>ListDLQ\<close>; \<open>Bus_Metrics\<close> compares a run with the metrics it records.

  \<^item> Rate limiting. \<open>Rate_Limiter\<close> (\<open>infrastructure/ratelimit/rule.go\<close>, \<open>limiter.go\<close>): rules and the two
    Lua scripts over the Redis commands they use; \<open>Rate_Budget\<close>: what they admit over time;
    \<open>Rate_Limit\<close> (\<open>provider.go\<close>, \<open>middleware/rate_limit.go\<close>): where rules come from and the middleware;
    \<open>Retry_After\<close>: the contract of a limiter on which the header rests.

  \<^item> Searching. \<open>Criteria\<close> (\<open>criteria/criteria.go\<close>, \<open>builder.go\<close>, \<open>validator.go\<close>, \<open>operators.go\<close>,
    \<open>gin_helper.go\<close>, \<open>repository.go\<close>), \<open>Criteria_SQL\<close> (\<open>sql_converter.go\<close>), \<open>Criteria_Memory\<close>
    (\<open>memory_filter.go\<close>). \<open>Sql\<close> is the part of SQL that the converter writes, how its text is read and what a
    database answers; \<open>Search_Paths\<close> compares the two paths over it.

  \<^item> Infrastructure. \<open>Database\<close> (\<open>infrastructure/postgres\<close>, \<open>migrate\<close>), \<open>Prometheus\<close>
    (\<open>infrastructure/metrics\<close>), \<open>Csv\<close> (\<open>infrastructure/adapters/csv_file_importer.go\<close>), \<open>Env\<close>
    (\<open>infrastructure/env\<close>), \<open>Logging\<close>, \<open>Notifications\<close>, \<open>Gzip\<close> (the compression middlewares and
    \<open>infrastructure/config\<close>), \<open>Compression\<close> (the compressing writer, and what a client reads),
    \<open>Error_Response\<close> (\<open>infrastructure/response\<close>).

  \<^bold>\<open>How the model corresponds to the code\<close>

  A Go struct is a record, an enumeration of named strings stays strings, a function is a definition
  of the same name in lower case with underscores. A method takes its receiver as an argument and
  returns it updated. Errors are values of a sum or of \<open>outcome\<close>; a panic is a value too (\<open>Panics\<close>), so
  that a theorem can say that none happens. Go strings are byte strings; \<open>int\<close>, \<open>int64\<close> and
  \<open>time.Duration\<close> are integers with \<open>wrap64\<close> where a sum or product can leave 64 bits. Maps are partial
  functions; where the code iterates over a map, the order of its keys is an argument, since Go
  promises none. A closure is a function, a slice a list; the code modelled here never writes through
  an alias that another part reads, except the events a handler receives, which \<open>dispatch\<close> returns.
  Effects that leave the program (log lines, counters, statements, requests) are returned as lists,
  in order.

  Concurrency: operations under one mutex are steps of their own; \<open>Single_Flight\<close>, \<open>Client_Runs\<close> and
  \<open>Worker\<close> are step relations whose interleavings are those of the goroutines. A run of the event bus
  interleaves the operations on the store, each of which takes its lock: a poll cycle is a poll and then, for
  each event, its handlers and the operation that settles it, and other consumers and publishers act in between.
  Within one operation the clock is read once, where the code may read it twice within microseconds.

  \<^bold>\<open>Parameters\<close>

  Code outside the repository is an argument. Where its documented behaviour matters it is a named
  hypothesis: \<open>jwt_contract\<close> (a parsed token is signed by the key that the key function gave, and its
  claims are the payload's), \<open>redis_laws\<close> (what a sorted set and a string hold after a command, up to
  expiry, which goes by the clock of the requests), \<open>sorts\<close> and \<open>sorts_by\<close> (\<open>sort.Slice\<close> orders and permutes), \<open>sql_laws\<close> (what a database answers to the
  queries of the converter, as far as SQL says), \<open>lowers\<close> (lower case keeps wildcards), \<open>env_ok\<close> and \<open>env_sane\<close> (the
  keys of the store's map, a random number in its range, a clock in its range), \<open>iam_down\<close>, \<open>iam_up\<close>.
  Each is met by a concrete instance in a witness. PEM and X.509 decoding, signing, UUID parsing,
  the file system, HTTP, PostgreSQL, golang-migrate, the Prometheus registry's identity of collectors
  and Unicode case tables are arguments without laws, or with laws stated where they are used.
  \<open>compress/gzip\<close> is the function from what was written to the compressed bytes.
  \<open>encoding/csv\<close> and \<open>encoding/json\<close>'s string form are the standard library, and modelled as far as
  they are used.

  \<^bold>\<open>What the lemmas show\<close>

  \<^item> Credentials: \<open>Verify\<close>, \<open>Authenticate\<close> and \<open>TenantValidation\<close> accept exactly what a declarative
    contract admits, the status of a rejection, the window in which one token is accepted; roles and
    tenants come from signed claims only, through both adapters and whole middleware chains.
  \<^item> The client never returns an expired token (for lifetimes that fit into 64 bits), asks iam boundedly often, also under concurrency,
    and its transport confines tokens to one host. Concurrent calls all come to an end. With a
    receiver at the other end, a request is handled at most once, and a token that the receiver
    stopped accepting is replaced within the call.
  \<^item> Events: a poll leases, a cycle settles each event as its handlers decide, and along every run no
    published event disappears; a consumer that keeps polling brings every waiting event to its
    handlers or to the dead letters, which \<open>ListDLQ\<close> lists completely; the counters of a run
    account for every event; a worker can be stopped, and stopped means no loop runs.
  \<^item> Limits: both scripts refine an abstract log or meter with its bound, under interleaved keys,
    lost replies, failures and expiry; the middleware's decision and headers on every branch; who waits as told
    passes, unless another request of the tenant took the place.
  \<^item> Searching: the SQL text contains no value and its parameters are in their places; pages partition
    the result in memory; read as SQL, the queries find what the search in memory finds, and where the
    two paths differ.
  \<^item> Infrastructure: row level security is set before the body runs and with the transaction only,
    quoting, importing, environment, log and metric lines.
  \<^item> Defects that the proofs run into are theorems too: \<open>prometheus_swaps_labels\<close>,
    \<open>empty_in_list_diverges\<close>, \<open>search_paths_differ\<close>, \<open>tab_files_lose_empty_fields\<close>, \<open>gcra_fast_rates_unlimited\<close>,
    \<open>publish_batch_nil_panics\<close>, \<open>empty_context_unscoped\<close>, \<open>documented_setup_compresses_twice\<close>,
    \<open>entity_helper_skips_validation\<close>, \<open>replayed_letter_stuck\<close>, \<open>closed_store_refuses\<close>,
    \<open>overflowing_lifetime_expired\<close>. So are limits of a claim: \<open>another_takes_the_place\<close>,
    \<open>saved_again_polled_again\<close>.

  Interfaces of the program are locales where several providers or clients meet: the event store, the key
  functions of a token, the Redis commands, the SQL database, the limiter (a sublocale of the
  Redis commands: the code's limiter over any Redis), the notification gateway; each is interpreted on the model
  of the code, or, for Redis and SQL, on a store that keeps the documented behaviour.

  \<^bold>\<open>Bounds and fuel\<close>

  No definition has fuel: loops are recursion on the list or number they run over, the scanners of
  strings on the length of what is left. Bounds in the statements come from the code (30 seconds, 300
  seconds, 64 bits) or say where 64-bit arithmetic is exact (\<open>pages_partition\<close> up to \<open>2 ^ 43\<close> items).

  \<^bold>\<open>Not modelled\<close>

  Interfaces and structs without behaviour (\<open>domain/port/executor.go\<close>, \<open>domain/service\<close>), the recorder
  that does nothing, constructors that only fill a struct, HTTP responses without a body and
  a \<open>Content-Length\<close> that a handler sets (in \<open>Compression\<close>), \<open>Refresh\<close> and \<open>Invalidate\<close> in \<open>Single_Flight\<close>, the log lines of the worker, and the JSON
  text of log lines (their fields are modelled, the order of keys in the text is not).
\<close>

end
